(* ===== verification/Cargo_Prelude.thy ===== *)
theory Cargo_Prelude
  imports Main "HOL-Library.Sublist" "HOL-Library.Char_ord" "HOL-Library.List_Lexorder" "HOL-Library.Code_Target_Nat"
begin

section \<open>Prelude: Go strings, error values and shared lemmas\<close>

text \<open>
  What the other theories share: the part of Go's \<open>strings\<close> and \<open>strconv\<close> packages that
  the modelled code calls, results that carry an error, and lemmas on lists and association
  lists. A Go string is a list of bytes, as \<^typ>\<open>string\<close> is here. Case folding and white
  space are the ASCII part of Go's Unicode tables, which is what configuration keys, host
  names, addresses and firewall rules are made of; a byte outside ASCII is left alone.
\<close>

named_theorems go_string \<open>facts about the Go string functions\<close>

subsection \<open>Results\<close>

text \<open>
  A Go function that returns \<open>(T, error)\<close> is a function into \<open>'e + 'a\<close>: \<open>Inl\<close> is the
  error return, \<open>Inr\<close> the value. One that returns only \<open>error\<close> returns an option,
  \<open>None\<close> for \<open>nil\<close>.
\<close>

definition bind_res :: "'e + 'a \<Rightarrow> ('a \<Rightarrow> 'e + 'b) \<Rightarrow> 'e + 'b" where
  "bind_res r f = (case r of Inl e \<Rightarrow> Inl e | Inr a \<Rightarrow> f a)"

lemma bind_res_simps [simp]:
  "bind_res (Inl e) f = Inl e"
  "bind_res (Inr a) f = f a"
  by (simp_all add: bind_res_def)

lemma bind_res_Inr: "bind_res r f = Inr b \<longleftrightarrow> (\<exists>a. r = Inr a \<and> f a = Inr b)"
  by (cases r) simp_all

text \<open>Checks run in order; the first that reports an error wins.\<close>

fun first_error :: "'e option list \<Rightarrow> 'e option" where
  "first_error [] = None"
| "first_error (None # cs) = first_error cs"
| "first_error (Some e # cs) = Some e"

lemma first_error_None [simp]: "first_error cs = None \<longleftrightarrow> (\<forall>c \<in> set cs. c = None)"
  by (induction cs rule: first_error.induct) auto

lemma first_error_Some: "first_error cs = Some e \<Longrightarrow> Some e \<in> set cs"
  by (induction cs rule: first_error.induct) auto

text \<open>A loop that applies a fallible function to each element and collects the results.\<close>

fun map_res :: "('a \<Rightarrow> 'e + 'b) \<Rightarrow> 'a list \<Rightarrow> 'e + 'b list" where
  "map_res f [] = Inr []"
| "map_res f (x # xs) =
     bind_res (f x) (\<lambda>y. bind_res (map_res f xs) (\<lambda>ys. Inr (y # ys)))"

lemma map_res_Inr: "map_res f xs = Inr ys \<longleftrightarrow> list_all2 (\<lambda>x y. f x = Inr y) xs ys"
  by (induction xs arbitrary: ys) (auto simp: bind_res_Inr list_all2_Cons1)

lemma map_res_total: "(\<And>x. x \<in> set xs \<Longrightarrow> \<exists>y. f x = Inr y) \<Longrightarrow> \<exists>ys. map_res f xs = Inr ys"
proof (induction xs)
  case (Cons x xs)
  then obtain y ys where "f x = Inr y" "map_res f xs = Inr ys" by fastforce
  then show ?case by simp
qed simp

lemma map_res_Inl: "map_res f xs = Inl e \<Longrightarrow> \<exists>x \<in> set xs. f x = Inl e"
proof (induction xs)
  case (Cons x xs)
  then show ?case by (cases "f x"; cases "map_res f xs") auto
qed simp

subsection \<open>Bytes\<close>

definition byte :: "char \<Rightarrow> nat" where
  "byte c = of_char c"

lemma byte_inject: "byte c = byte d \<longleftrightarrow> c = d"
  by (simp add: byte_def)

definition lower_char :: "char \<Rightarrow> char" where
  "lower_char c = (if 65 \<le> byte c \<and> byte c \<le> 90 then char_of (byte c + 32) else c)"

lemma byte_lower_char:
  "byte (lower_char c) = (if 65 \<le> byte c \<and> byte c \<le> 90 then byte c + 32 else byte c)"
  by (auto simp: lower_char_def byte_def of_char_of)

lemma lower_char_idem [simp]: "lower_char (lower_char c) = lower_char c"
proof -
  have "byte (lower_char (lower_char c)) = byte (lower_char c)"
    by (simp add: byte_lower_char)
  then show ?thesis by (simp add: byte_inject)
qed

definition is_space :: "char \<Rightarrow> bool" where
  "is_space c \<longleftrightarrow> byte c = 32 \<or> (9 \<le> byte c \<and> byte c \<le> 13)"

definition is_digit :: "char \<Rightarrow> bool" where
  "is_digit c \<longleftrightarrow> 48 \<le> byte c \<and> byte c \<le> 57"

definition digit_val :: "char \<Rightarrow> nat" where
  "digit_val c = byte c - 48"

lemma lower_char_eq_self: "\<not> (65 \<le> byte c \<and> byte c \<le> 90) \<Longrightarrow> lower_char c = c"
  by (auto simp: lower_char_def)

lemma is_space_lower [simp]: "is_space (lower_char c) = is_space c"
  by (auto simp: is_space_def byte_lower_char)

subsection \<open>The strings package\<close>

text \<open>\<open>ToLower\<close>, \<open>TrimSpace\<close>, \<open>EqualFold\<close>, \<open>Contains\<close>, \<open>ContainsAny\<close>, \<open>Split\<close>, \<open>Join\<close>,
  \<open>TrimSuffix\<close>/\<open>Trim\<close> and \<open>Cut\<close>, as the modelled code calls them.\<close>

definition to_lower :: "string \<Rightarrow> string" where
  "to_lower s = map lower_char s"

definition equal_fold :: "string \<Rightarrow> string \<Rightarrow> bool" where
  "equal_fold s t \<longleftrightarrow> to_lower s = to_lower t"

definition trim_left :: "(char \<Rightarrow> bool) \<Rightarrow> string \<Rightarrow> string" where
  "trim_left p s = dropWhile p s"

definition trim_right :: "(char \<Rightarrow> bool) \<Rightarrow> string \<Rightarrow> string" where
  "trim_right p s = rev (dropWhile p (rev s))"

definition trim_by :: "(char \<Rightarrow> bool) \<Rightarrow> string \<Rightarrow> string" where
  "trim_by p s = trim_right p (trim_left p s)"

definition trim_space :: "string \<Rightarrow> string" where
  "trim_space s = trim_by is_space s"

definition has_prefix :: "string \<Rightarrow> string \<Rightarrow> bool" where
  "has_prefix s p \<longleftrightarrow> prefix p s"

definition has_suffix :: "string \<Rightarrow> string \<Rightarrow> bool" where
  "has_suffix s p \<longleftrightarrow> suffix p s"

fun str_contains :: "string \<Rightarrow> string \<Rightarrow> bool" where
  "str_contains [] p \<longleftrightarrow> p = []"
| "str_contains (c # s) p \<longleftrightarrow> prefix p (c # s) \<or> str_contains s p"

fun split_on :: "char \<Rightarrow> string \<Rightarrow> string list" where
  "split_on sep [] = [[]]"
| "split_on sep (c # s) =
     (if c = sep then [] # split_on sep s
      else (case split_on sep s of [] \<Rightarrow> [[c]] | w # ws \<Rightarrow> (c # w) # ws))"

fun join :: "string \<Rightarrow> string list \<Rightarrow> string" where
  "join sep [] = []"
| "join sep [w] = w"
| "join sep (w # v # ws) = w @ sep @ join sep (v # ws)"

text \<open>\<open>Cut\<close> on a one-byte separator: what precedes the first one, what follows it, found.\<close>

fun cut :: "char \<Rightarrow> string \<Rightarrow> string \<times> string \<times> bool" where
  "cut sep [] = ([], [], False)"
| "cut sep (c # s) =
     (if c = sep then ([], s, True)
      else (case cut sep s of (a, b, f) \<Rightarrow> (c # a, b, f)))"

lemma to_lower_idem [simp, go_string]: "to_lower (to_lower s) = to_lower s"
  by (simp add: to_lower_def)

lemma to_lower_Nil [simp]: "to_lower s = [] \<longleftrightarrow> s = []" "to_lower [] = []"
  by (simp_all add: to_lower_def)

lemma equal_fold_refl [simp]: "equal_fold s s"
  by (simp add: equal_fold_def)

lemma equal_fold_sym: "equal_fold s t \<longleftrightarrow> equal_fold t s"
  by (auto simp: equal_fold_def)

lemma str_contains_sublist [go_string]: "str_contains s p \<longleftrightarrow> sublist p s"
  by (induction s) (auto simp: sublist_Cons_right)

lemma trim_left_idem [simp]: "trim_left p (trim_left p s) = trim_left p s"
  by (simp add: trim_left_def dropWhile_idem)

lemma trim_right_last: "trim_right p s = [] \<or> \<not> p (last (trim_right p s))"
proof -
  have "dropWhile p (rev s) = [] \<or> \<not> p (hd (dropWhile p (rev s)))"
    using hd_dropWhile by blast
  then show ?thesis by (auto simp: trim_right_def last_rev)
qed

lemma trim_right_fixed: "s = [] \<or> \<not> p (last s) \<Longrightarrow> trim_right p s = s"
  by (cases s rule: rev_cases) (auto simp: trim_right_def)

lemma trim_left_fixed: "s = [] \<or> \<not> p (hd s) \<Longrightarrow> trim_left p s = s"
  by (cases s) (auto simp: trim_left_def)

lemma trim_by_fixed: "s = [] \<or> \<not> p (hd s) \<and> \<not> p (last s) \<Longrightarrow> trim_by p s = s"
  by (auto simp: trim_by_def trim_left_fixed trim_right_fixed)

lemma trim_right_prefix: "prefix (trim_right p s) s"
  unfolding trim_right_def
  by (metis rev_rev_ident suffix_dropWhile suffix_to_prefix)

lemma trim_by_ends: "trim_by p s = [] \<or> \<not> p (hd (trim_by p s)) \<and> \<not> p (last (trim_by p s))"
proof (cases "trim_by p s = []")
  case False
  let ?l = "trim_left p s"
  from False have ne: "trim_right p ?l \<noteq> []" by (simp add: trim_by_def)
  then obtain zs where zs: "?l = trim_right p ?l @ zs"
    using trim_right_prefix [of p ?l] by (auto simp: prefix_def)
  with ne have "hd ?l = hd (trim_right p ?l)" "?l \<noteq> []"
    by (metis hd_append2, metis append_is_Nil_conv)
  moreover from \<open>?l \<noteq> []\<close> have "\<not> p (hd ?l)"
    by (simp add: trim_left_def hd_dropWhile)
  ultimately have "\<not> p (hd (trim_by p s))" by (simp add: trim_by_def)
  with trim_right_last [of p ?l] ne show ?thesis by (simp add: trim_by_def)
qed simp

lemma trim_by_idem [simp]: "trim_by p (trim_by p s) = trim_by p s"
  by (rule trim_by_fixed) (rule trim_by_ends)

lemma trim_space_idem [simp, go_string]: "trim_space (trim_space s) = trim_space s"
  by (simp add: trim_space_def)

lemma trim_space_fixed: "s = [] \<or> \<not> is_space (hd s) \<and> \<not> is_space (last s) \<Longrightarrow> trim_space s = s"
  by (simp add: trim_space_def trim_by_fixed)

lemma trim_space_Nil [simp]: "trim_space [] = []"
  by (simp add: trim_space_fixed)

lemma trim_space_ends:
  "trim_space s = [] \<or> \<not> is_space (hd (trim_space s)) \<and> \<not> is_space (last (trim_space s))"
  by (simp add: trim_space_def trim_by_ends)

lemma set_trim_right: "set (trim_right p s) \<subseteq> set s"
  using trim_right_prefix set_mono_prefix by blast

lemma set_trim_by: "set (trim_by p s) \<subseteq> set s"
  unfolding trim_by_def using set_trim_right set_dropWhileD
  by (fastforce simp: trim_left_def)

lemma to_lower_trim: "to_lower (trim_space s) = trim_space (to_lower s)"
  by (simp add: to_lower_def trim_space_def trim_by_def trim_right_def trim_left_def
      dropWhile_map rev_map comp_def)

lemma split_on_nonempty [simp]: "split_on sep s \<noteq> []"
  by (cases s) (auto split: list.splits)

lemma split_on_no_sep: "w \<in> set (split_on sep s) \<Longrightarrow> sep \<notin> set w"
  by (induction s arbitrary: w) (auto split: if_splits list.splits)

lemma split_on_append_sep:
  "sep \<notin> set w \<Longrightarrow> split_on sep (w @ sep # s) = w # split_on sep s"
  by (induction w) auto

lemma split_on_word: "sep \<notin> set w \<Longrightarrow> split_on sep w = [w]"
  by (induction w) auto

text \<open>Splitting inverts joining when no word holds the separator.\<close>

lemma split_on_join:
  "\<forall>w \<in> set ws. sep \<notin> set w \<Longrightarrow> ws \<noteq> [] \<Longrightarrow> split_on sep (join [sep] ws) = ws"
  by (induction "[sep]" ws rule: join.induct) (auto simp: split_on_word split_on_append_sep)

lemma join_split_on: "join [sep] (split_on sep s) = s"
proof (induction s)
  case (Cons c s)
  then show ?case
    by (cases "split_on sep s"; cases "tl (split_on sep s)") auto
qed simp

lemma cut_found: "cut sep s = (a, b, True) \<Longrightarrow> s = a @ sep # b \<and> sep \<notin> set a"
  by (induction s arbitrary: a) (auto split: if_splits prod.splits)

lemma cut_not_found: "cut sep s = (a, b, False) \<Longrightarrow> a = s \<and> b = [] \<and> sep \<notin> set s"
  by (induction s arbitrary: a) (auto split: if_splits prod.splits)

subsection \<open>The strconv package\<close>

text \<open>
  \<open>Atoi\<close> reads an optional sign and decimal digits, and refuses a value outside the range of
  Go's 64-bit \<open>int\<close>. \<open>ParseUint\<close> takes a base and a bit size and no sign.
\<close>

fun digits_value :: "nat \<Rightarrow> nat \<Rightarrow> string \<Rightarrow> nat option" where
  "digits_value base acc [] = Some acc"
| "digits_value base acc (c # s) =
     (if is_digit c \<and> digit_val c < base then digits_value base (acc * base + digit_val c) s
      else None)"

definition parse_uint :: "nat \<Rightarrow> nat \<Rightarrow> string \<Rightarrow> nat option" where
  "parse_uint base bits s =
     (if s = [] then None
      else (case digits_value base 0 s of
              None \<Rightarrow> None
            | Some n \<Rightarrow> if n < 2 ^ bits then Some n else None))"

definition atoi :: "string \<Rightarrow> int option" where
  "atoi s =
     (case s of
        [] \<Rightarrow> None
      | c # t \<Rightarrow>
          if c = CHR ''-'' then
            (case t of [] \<Rightarrow> None | _ \<Rightarrow>
               (case digits_value 10 0 t of None \<Rightarrow> None
                | Some n \<Rightarrow> if n \<le> 2 ^ 63 then Some (- int n) else None))
          else
            (let d = (if c = CHR ''+'' then t else s) in
             if d = [] then None else
               (case digits_value 10 0 d of None \<Rightarrow> None
                | Some n \<Rightarrow> if n < 2 ^ 63 then Some (int n) else None)))"

lemma atoi_range: "atoi s = Some i \<Longrightarrow> - (2 ^ 63) \<le> i \<and> i < 2 ^ 63"
  by (auto simp: atoi_def Let_def split: list.splits option.splits if_splits)

lemma digits_value_digits: "digits_value b n s = Some m \<Longrightarrow> \<forall>c \<in> set s. is_digit c"
  by (induction b n s rule: digits_value.induct) (auto split: if_splits)

text \<open>Decimal digits of a number, as \<open>%d\<close> prints it.\<close>

fun show_nat :: "nat \<Rightarrow> string" where
  "show_nat n = (if n < 10 then [char_of (48 + n)] else show_nat (n div 10) @ [char_of (48 + n mod 10)])"

declare show_nat.simps [simp del]

lemma show_nat_value: "foldl (\<lambda>n c. 10 * n + digit_val c) 0 (show_nat n) = n"
proof (induction n rule: show_nat.induct)
  case (1 n)
  have d: "digit_val (char_of (48 + m)) = m" if "m < 10" for m :: nat
    using that by (simp add: digit_val_def byte_def)
  show ?case
  proof (cases "n < 10")
    case True
    then show ?thesis using d by (simp add: show_nat.simps [of n])
  next
    case False
    then show ?thesis using 1 d [of "n mod 10"] by (simp add: show_nat.simps [of n])
  qed
qed

lemma show_nat_inject: "show_nat m = show_nat n \<Longrightarrow> m = n"
  by (metis show_nat_value)

definition show_int :: "int \<Rightarrow> string" where
  "show_int i = (if i < 0 then CHR ''-'' # show_nat (nat (- i)) else show_nat (nat i))"

subsection \<open>Sorted and duplicate-free lists, insertion-ordered maps\<close>

text \<open>\<open>sort.Strings\<close> sorts bytewise: the lexicographic order on \<^typ>\<open>string\<close>.\<close>

definition sort_strings :: "string list \<Rightarrow> string list" where
  "sort_strings ws = sort ws"

lemma sort_strings_simps [simp]:
  "set (sort_strings ws) = set ws"
  "sorted (sort_strings ws)"
  "length (sort_strings ws) = length ws"
  by (simp_all add: sort_strings_def)

text \<open>The elements of a list in the order they are first met: what a Go loop with a map of
  indices and an output slice builds.\<close>

definition first_seen :: "'a list \<Rightarrow> 'a list" where
  "first_seen xs = rev (remdups (rev xs))"

lemma set_first_seen [simp]: "set (first_seen xs) = set xs"
  by (simp add: first_seen_def)

lemma distinct_first_seen [simp]: "distinct (first_seen xs)"
  by (simp add: first_seen_def)

lemma first_seen_Nil [simp]: "first_seen [] = []"
  by (simp add: first_seen_def)

lemma first_seen_snoc:
  "first_seen (xs @ [x]) = (if x \<in> set xs then first_seen xs else first_seen xs @ [x])"
  by (simp add: first_seen_def)

end
