(* ===== verification/Retry.thy ===== *)
theory Retry
  imports Cargo_Prelude
begin

section \<open>Retrying\<close>

text \<open>
  Models \<open>pkg/retry/retry.go\<close>. The function retried and the wait between two attempts act on a
  state \<open>'s\<close>, which holds the clock and the context. A wait is the \<open>select\<close> of the loop: it ends
  with the context done or with the next tick, whichever the surroundings give first.
\<close>

datatype wait_event = CtxDone | Tick

datatype 'e retry_error =
    Last 'e
  | Canceled "'e option"
  | LimitExceeded nat 'e

record ('s, 'e) retry_env =
  re_ctx_done :: "'s \<Rightarrow> bool"
  re_wait :: "'s \<Rightarrow> wait_event \<times> 's"
  re_is_abort :: "'e \<Rightarrow> bool"

subsection \<open>Until it succeeds\<close>

text \<open>The loop of \<open>Context\<close> may run for ever; not returning is \<open>None\<close>.\<close>

partial_function (option) context_loop ::
  "('s, 'e) retry_env \<Rightarrow> ('s \<Rightarrow> 'e option \<times> 's) \<Rightarrow> 'e \<Rightarrow> 's \<Rightarrow> ('e retry_error option \<times> 's) option"
where
  "context_loop env f lastErr s =
     (case re_wait env s of
        (CtxDone, s1) \<Rightarrow> Some (Some (Canceled (Some lastErr)), s1)
      | (Tick, s1) \<Rightarrow>
          (case f s1 of
             (None, s2) \<Rightarrow> Some (None, s2)
           | (Some e, s2) \<Rightarrow>
               if re_is_abort env e then Some (Some (Last e), s2)
               else context_loop env f e s2))"

definition Context ::
  "('s, 'e) retry_env \<Rightarrow> ('s \<Rightarrow> 'e option \<times> 's) \<Rightarrow> 's \<Rightarrow> ('e retry_error option \<times> 's) option"
where
  "Context env f s =
     (if re_ctx_done env s then Some (Some (Canceled None), s)
      else (case f s of
        (None, s1) \<Rightarrow> Some (None, s1)
      | (Some e, s1) \<Rightarrow>
          if re_is_abort env e then Some (Some (Last e), s1)
          else context_loop env f e s1))"

text \<open>\<open>Timeout\<close> runs \<open>Context\<close> on a child context; \<open>deadline\<close> puts one on the surroundings. A
  timeout that is not positive adds none.\<close>

definition Timeout ::
  "(int \<Rightarrow> ('s, 'e) retry_env \<Rightarrow> ('s, 'e) retry_env) \<Rightarrow> ('s, 'e) retry_env \<Rightarrow> int \<Rightarrow>
   ('s \<Rightarrow> 'e option \<times> 's) \<Rightarrow> 's \<Rightarrow> ('e retry_error option \<times> 's) option"
where
  "Timeout deadline env timeout f s =
     Context (if timeout \<le> 0 then env else deadline timeout env) f s"

definition DefaultTimeout :: int where
  "DefaultTimeout = 15 * 60 * 1000000000"

definition WithDefaultTimeout ::
  "(int \<Rightarrow> ('s, 'e) retry_env \<Rightarrow> ('s, 'e) retry_env) \<Rightarrow> ('s, 'e) retry_env \<Rightarrow>
   ('s \<Rightarrow> 'e option \<times> 's) \<Rightarrow> 's \<Rightarrow> ('e retry_error option \<times> 's) option"
where
  "WithDefaultTimeout deadline env f s = Timeout deadline env DefaultTimeout f s"

subsection \<open>A number of times\<close>

function times_loop ::
  "('s, 'e) retry_env \<Rightarrow> int \<Rightarrow> int \<Rightarrow> ('s \<Rightarrow> 'e option \<times> 's) \<Rightarrow> 'e \<Rightarrow> 's \<Rightarrow> 'e retry_error option \<times> 's"
where
  "times_loop env limit i f lastErr s =
     (case re_wait env s of
        (CtxDone, s1) \<Rightarrow> (Some (Canceled (Some lastErr)), s1)
      | (Tick, s1) \<Rightarrow>
          (case f s1 of
             (None, s2) \<Rightarrow> (None, s2)
           | (Some e, s2) \<Rightarrow>
               if re_is_abort env e then (Some (Last e), s2)
               else if i + 1 \<ge> limit then (Some (LimitExceeded (nat limit) e), s2)
               else times_loop env limit (i + 1) f e s2))"
  by pat_completeness auto
termination
  by (relation "measure (\<lambda>(env, limit, i, f, e, s). nat (limit - i))") auto

declare times_loop.simps [simp del]

definition Times ::
  "('s, 'e) retry_env \<Rightarrow> int \<Rightarrow> ('s \<Rightarrow> 'e option \<times> 's) \<Rightarrow> 's \<Rightarrow> 'e retry_error option \<times> 's"
where
  "Times env limit f s =
     (case f s of
        (None, s1) \<Rightarrow> (None, s1)
      | (Some e, s1) \<Rightarrow>
          if re_is_abort env e then (Some (Last e), s1) else times_loop env limit 1 f e s1)"

subsection \<open>Counting attempts\<close>

text \<open>The function retried, with a counter of its calls beside the state.\<close>

definition counted :: "('s \<Rightarrow> 'e option \<times> 's) \<Rightarrow> 's \<times> nat \<Rightarrow> 'e option \<times> 's \<times> nat" where
  "counted f st = (case f (fst st) of (e, s) \<Rightarrow> (e, s, snd st + 1))"

definition counted_env :: "('s, 'e) retry_env \<Rightarrow> ('s \<times> nat, 'e) retry_env" where
  "counted_env env =
     \<lparr>re_ctx_done = re_ctx_done env \<circ> fst,
      re_wait = (\<lambda>st. case re_wait env (fst st) of (e, s) \<Rightarrow> (e, s, snd st)),
      re_is_abort = re_is_abort env\<rparr>"

lemma times_loop_calls:
  "times_loop (counted_env env) limit i (counted f) e (s, n) = (r, s', n') \<Longrightarrow>
   n' \<le> n + max 1 (nat (limit - i)) \<and>
   (\<forall>k e'. r = Some (LimitExceeded k e') \<longrightarrow> n' = n + max 1 (nat (limit - i)))"
proof (induction "counted_env env" limit i "counted f" e "(s, n)" arbitrary: s n rule: times_loop.induct)
  case (1 limit i e s n)
  obtain ev s1 where w: "re_wait env s = (ev, s1)" by fastforce
  then have w': "re_wait (counted_env env) (s, n) = (ev, s1, n)" by (simp add: counted_env_def)
  obtain fe s2 where f: "f s1 = (fe, s2)" by fastforce
  then have f': "counted f (s1, n) = (fe, s2, n + 1)" by (simp add: counted_def)
  show ?case
  proof (cases "ev = Tick \<and> (\<exists>x. fe = Some x \<and> \<not> re_is_abort env x \<and> \<not> limit \<le> i + 1)")
    case True
    then obtain x where x: "ev = Tick" "fe = Some x" "\<not> re_is_abort env x" "\<not> limit \<le> i + 1" by blast
    with 1(2) w' f' have "times_loop (counted_env env) limit (i + 1) (counted f) x (s2, n + 1) = (r, s', n')"
      by (simp add: times_loop.simps [of _ limit i] counted_env_def)
    have "\<not> re_is_abort (counted_env env) x" using x(3) by (simp add: counted_env_def)
    from 1(1) [OF w' [symmetric] x(1) f' [symmetric] x(2) this x(4) \<open>times_loop _ _ (i + 1) _ _ _ = _\<close>] x(4)
    show ?thesis by auto
  next
    case False
    with 1(2) w' f' show ?thesis
      by (auto simp: times_loop.simps [of _ limit i] counted_env_def split: wait_event.splits option.splits if_splits)
  qed
qed

text \<open>The number of attempts: \<open>Times\<close> calls the function at least once and at most as often
  as it was told to, except that a limit below two still allows a second attempt; and when it
  gives up because the limit is exceeded it has made exactly that many calls, while the error
  names the limit it was given.\<close>

theorem Times_attempts:
  assumes "Times (counted_env env) limit (counted f) (s, 0) = (r, s', n)"
  shows "1 \<le> n \<and> n \<le> max 2 (nat limit) \<and>
    (\<forall>k e. r = Some (LimitExceeded k e) \<longrightarrow> n = max 2 (nat limit) \<and> k = nat limit)"
proof -
  have names: "times_loop env' limit i g e t = (Some (LimitExceeded k e'), t') \<Longrightarrow> k = nat limit"
    for env' :: "('x, 'y) retry_env" and i g e t k e' t'
    by (induction env' limit i g e t rule: times_loop.induct)
      (auto simp: times_loop.simps split: prod.splits option.splits wait_event.splits if_splits)
  have more: "n \<ge> m" if "times_loop (counted_env env) limit i (counted f) e (s, m) = (r, s', n)" for i e s m r s'
    using that
  proof (induction "counted_env env" limit i "counted f" e "(s, m)" arbitrary: s m rule: times_loop.induct)
    case (1 limit i e s m)
    then show ?case
      by (fastforce simp: times_loop.simps [of _ limit i] counted_env_def counted_def
          split: prod.splits option.splits wait_event.splits if_splits)
  qed
  obtain fe s1 where f: "f s = (fe, s1)" by fastforce
  show ?thesis
  proof (cases "\<exists>e. fe = Some e \<and> \<not> re_is_abort env e")
    case True
    then obtain e where e: "fe = Some e" "\<not> re_is_abort env e" by blast
    with assms f have loop: "times_loop (counted_env env) limit 1 (counted f) e (s1, 1) = (r, s', n)"
      by (simp add: Times_def counted_def counted_env_def)
    from times_loop_calls [OF this] names [of "counted_env env" 1 "counted f" e "(s1, 1)"] loop more [OF loop]
    show ?thesis by auto
  next
    case False
    with assms f show ?thesis
      by (auto simp: Times_def counted_def counted_env_def split: option.splits if_splits)
  qed
qed

definition ticking :: "(nat, string) retry_env" where
  "ticking = \<lparr>re_ctx_done = \<lambda>_. False, re_wait = \<lambda>s. (Tick, s + 15), re_is_abort = \<lambda>_. False\<rparr>"

lemma Times_attempts_witness:
  "(1::nat) \<le> 2 \<and> (2::nat) = max 2 (nat 1) \<and> (1::nat) = nat 1"
proof -
  have "Times (counted_env ticking) 1 (counted (\<lambda>s. (Some ''no'', s))) (0, 0) = (Some (LimitExceeded 1 ''no''), 15, 2)"
    by code_simp
  from Times_attempts [OF this] show ?thesis by simp
qed

lemma context_loop_returns:
  assumes wait: "\<And>s. fuel s = (0::nat) \<Longrightarrow> fst (re_wait env s) = CtxDone"
    and falls: "\<And>s s1 e s2. re_wait env s = (Tick, s1) \<Longrightarrow> f s1 = (Some e, s2) \<Longrightarrow> fuel s2 < fuel s"
  shows "\<exists>r s'. context_loop env f e s = Some (r, s') \<and> (r = None \<longrightarrow> (\<exists>t. f t = (None, s')))"
proof (induction "fuel s" arbitrary: s e rule: less_induct)
  case less
  obtain ev s1 where w: "re_wait env s = (ev, s1)" by fastforce
  show ?case
  proof (cases ev)
    case CtxDone
    with w show ?thesis by (subst context_loop.simps) simp
  next
    case Tick
    obtain fe s2 where f: "f s1 = (fe, s2)" by fastforce
    show ?thesis
    proof (cases fe)
      case None
      with w f Tick show ?thesis by (subst context_loop.simps) auto
    next
      case (Some x)
      from less [OF falls [of s s1 x s2]] w f Tick Some show ?thesis
        by (subst context_loop.simps) simp
    qed
  qed
qed

text \<open>C40. Waiting ends: when the surroundings let a number fall with every failed attempt and end
  the wait once it is used up, as a deadline does, \<open>Context\<close> returns, and what it returns is
  no error only if the last attempt gave none.\<close>

theorem Context_returns:
  assumes "\<And>s. fuel s = (0::nat) \<Longrightarrow> fst (re_wait env s) = CtxDone"
    and "\<And>s s1 e s2. re_wait env s = (Tick, s1) \<Longrightarrow> f s1 = (Some e, s2) \<Longrightarrow> fuel s2 < fuel s"
  shows "\<exists>r s'. Context env f s = Some (r, s') \<and> (r = None \<longrightarrow> (\<exists>t. f t = (None, s')))"
  using context_loop_returns [of fuel env f, OF assms]
  by (auto simp: Context_def split: prod.splits option.splits)

text \<open>A deadline after 900 seconds, a tick every 15.\<close>

definition fifteen_minutes :: "(nat, string) retry_env" where
  "fifteen_minutes =
     \<lparr>re_ctx_done = \<lambda>s. s \<ge> 900, re_wait = \<lambda>s. if s + 15 < 900 then (Tick, s + 15) else (CtxDone, 900),
      re_is_abort = \<lambda>_. False\<rparr>"

lemma Context_returns_witness:
  "\<exists>r s'. Context fifteen_minutes (\<lambda>s. (Some ''not yet'', s + 1)) 0 = Some (Some r, s')"
proof -
  have "\<exists>r s'. Context fifteen_minutes (\<lambda>s. (Some ''not yet'', s + 1)) 0 = Some (r, s') \<and>
     (r = None \<longrightarrow> (\<exists>t. (Some ''not yet'', t + 1) = (None, s')))"
    by (rule Context_returns [of "\<lambda>s. 900 - s" fifteen_minutes "\<lambda>s. (Some ''not yet'', s + 1)"])
      (auto simp: fifteen_minutes_def split: if_splits)
  then show ?thesis by auto
qed

end
