(* ===== verification/Phase_Manager.thy ===== *)
theory Phase_Manager
  imports Cargo_Prelude "HOL-Library.Multiset"
begin

section \<open>The phase manager: running phases, dry runs and run results\<close>

text \<open>
  Models \<open>pkg/phase/05_manager.go\<close> and \<open>pkg/phase/00_host_changes.go\<close>: what a phase may declare
  about itself, the loop that runs phases in order with its early returns and deferred calls,
  the result a run publishes and the questions a caller asks of it, and the recorder phases
  embed to report per host.

  A phase is a record of operations on a state \<open>'s\<close> that holds everything a phase can see or
  change: the configuration, the hosts, the phase's own fields, the clock and the context. An
  interface a Go phase may or may not implement is an optional field. An error is its text.
\<close>

subsection \<open>Results\<close>

record HostChangeDetail =
  hd_path :: string
  hd_reason :: string
  hd_diff :: string

record HostChange =
  hc_host :: string
  hc_changed :: bool
  hc_details :: "HostChangeDetail list"

record Warning =
  w_phase :: string
  w_host :: string
  w_path :: string
  w_reason :: string

datatype DryRunBehavior = DryRunSkip | DryRunReadOnly | DryRunOwnPath

record PhaseResult =
  pr_title :: string
  pr_explanation :: string
  pr_dry_run :: DryRunBehavior
  pr_declared :: bool
  pr_changed :: bool
  pr_hosts_declared :: bool
  pr_hosts :: "HostChange list"
  pr_duration :: nat

record RunResult =
  rr_ran :: "PhaseResult list"
  rr_planned :: "PhaseResult list"
  rr_skipped :: "PhaseResult list"
  rr_warnings :: "Warning list"

definition empty_result :: RunResult where
  "empty_result = \<lparr>rr_ran = [], rr_planned = [], rr_skipped = [], rr_warnings = []\<rparr>"

definition RunResult_Changed :: "RunResult \<Rightarrow> bool" where
  "RunResult_Changed r \<longleftrightarrow>
     list_ex (\<lambda>group. list_ex (\<lambda>p. pr_declared p \<and> pr_changed p) group) [rr_ran r, rr_skipped r]"

definition Outstanding :: "RunResult \<Rightarrow> bool" where
  "Outstanding r \<longleftrightarrow> list_ex pr_declared (rr_planned r)"

definition groups :: "RunResult \<Rightarrow> PhaseResult list" where
  "groups r = rr_ran r @ rr_planned r @ rr_skipped r"

definition Undeclared :: "RunResult \<Rightarrow> string list" where
  "Undeclared r = map pr_title (filter (\<lambda>p. \<not> pr_declared p) (groups r))"

definition Complete :: "RunResult \<Rightarrow> bool" where
  "Complete r \<longleftrightarrow> length (Undeclared r) = 0"

definition SignalUnknown :: string where "SignalUnknown = ''unknown''"

definition SignalPartial :: string where "SignalPartial = ''partial''"

definition SignalComplete :: string where "SignalComplete = ''complete''"

definition Signal :: "RunResult \<Rightarrow> string" where
  "Signal r = (if Complete r then SignalComplete else SignalPartial)"

definition HostsUndeclared :: "RunResult \<Rightarrow> string list" where
  "HostsUndeclared r = map pr_title (filter (\<lambda>p. \<not> pr_hosts_declared p) (groups r))"

definition Titles :: "PhaseResult list \<Rightarrow> string list" where
  "Titles results = map pr_title results"

subsection \<open>Host summaries\<close>

record HostSummary =
  hs_host :: string
  hs_changed :: bool
  hs_named :: nat
  hs_reporting :: nat

text \<open>The loop of \<open>HostSummaries\<close>: the output slice and the map from a host to its position.\<close>

type_synonym summary_state = "HostSummary list \<times> (string \<rightharpoonup> nat)"

definition summarize_host :: "summary_state \<Rightarrow> HostChange \<Rightarrow> summary_state" where
  "summarize_host st h =
     (case st of (out, index) \<Rightarrow>
       (case (case index (hc_host h) of
                Some i \<Rightarrow> (i, out, index)
              | None \<Rightarrow> (length out,
                         out @ [\<lparr>hs_host = hc_host h, hs_changed = False, hs_named = 0, hs_reporting = 0\<rparr>],
                         index(hc_host h \<mapsto> length out)))
        of (i, out', index') \<Rightarrow>
          (out'[i := (out' ! i)\<lparr>hs_named := hs_named (out' ! i) + 1,
                               hs_changed := hs_changed (out' ! i) \<or> hc_changed h\<rparr>],
           index')))"

definition summarize_phase :: "nat \<times> summary_state \<Rightarrow> PhaseResult \<Rightarrow> nat \<times> summary_state" where
  "summarize_phase st p =
     (if \<not> pr_hosts_declared p then st
      else (fst st + 1, foldl summarize_host (snd st) (pr_hosts p)))"

definition HostSummaries :: "RunResult \<Rightarrow> HostSummary list" where
  "HostSummaries r =
     (case foldl summarize_phase (0, ([], Map.empty)) (groups r) of
        (reporting, (out, index)) \<Rightarrow> map (\<lambda>h. h\<lparr>hs_reporting := reporting\<rparr>) out)"

subsection \<open>The sink\<close>

definition RunResult_merge :: "RunResult \<Rightarrow> RunResult \<Rightarrow> RunResult" where
  "RunResult_merge r other =
     r\<lparr>rr_ran := rr_ran r @ rr_ran other,
       rr_planned := rr_planned r @ rr_planned other,
       rr_skipped := rr_skipped r @ rr_skipped other\<rparr>"

record ResultSink =
  sink_observed :: bool
  sink_result :: RunResult

definition WithResultSink :: ResultSink where
  "WithResultSink = \<lparr>sink_observed = False, sink_result = empty_result\<rparr>"

definition publish :: "RunResult \<Rightarrow> ResultSink \<Rightarrow> ResultSink" where
  "publish r s = s\<lparr>sink_observed := True, sink_result := RunResult_merge (sink_result s) r\<rparr>"

subsection \<open>Phases\<close>

record 's phase =
  ph_title :: string
  ph_explanation :: string
  ph_set_manager :: "('s \<Rightarrow> 's) option"
  ph_prepare :: "('s \<Rightarrow> string option \<times> 's) option"
  ph_should_run :: "('s \<Rightarrow> bool) option"
  ph_before :: "('s \<Rightarrow> string option \<times> 's) option"
  ph_run :: "'s \<Rightarrow> string option \<times> 's"
  ph_after :: "('s \<Rightarrow> string option \<times> 's) option"
  ph_dry_run :: "('s \<Rightarrow> string option \<times> 's) option"
  ph_read_only :: "string option"
  ph_changed :: "('s \<Rightarrow> bool) option"
  ph_hosts_changed :: "('s \<Rightarrow> HostChange list) option"
  ph_warnings :: "('s \<Rightarrow> Warning list) option"
  ph_cleanup :: "('s \<Rightarrow> 's) option"

definition ClassifyDryRun :: "'s phase \<Rightarrow> DryRunBehavior" where
  "ClassifyDryRun p =
     (if ph_dry_run p \<noteq> None then DryRunOwnPath
      else if ph_read_only p \<noteq> None then DryRunReadOnly
      else DryRunSkip)"

definition DryRunBehavior_String :: "DryRunBehavior \<Rightarrow> string" where
  "DryRunBehavior_String b =
     (case b of
        DryRunReadOnly \<Rightarrow> ''runs, reads only''
      | DryRunOwnPath \<Rightarrow> ''runs its own dry-run path''
      | _ \<Rightarrow> ''reported, not run'')"

definition DryRunNote :: "'s phase \<Rightarrow> string" where
  "DryRunNote p = (case ph_read_only p of Some note \<Rightarrow> note | None \<Rightarrow> [])"

definition phaseResult :: "'s \<Rightarrow> 's phase \<Rightarrow> nat \<Rightarrow> PhaseResult" where
  "phaseResult s p duration =
     \<lparr>pr_title = ph_title p, pr_explanation = ph_explanation p, pr_dry_run = ClassifyDryRun p,
      pr_declared = (ph_changed p \<noteq> None),
      pr_changed = (case ph_changed p of Some f \<Rightarrow> f s | None \<Rightarrow> False),
      pr_hosts_declared = (ph_hosts_changed p \<noteq> None),
      pr_hosts = (case ph_hosts_changed p of Some f \<Rightarrow> f s | None \<Rightarrow> []),
      pr_duration = duration\<rparr>"

definition phaseWarnings :: "'s \<Rightarrow> 's phase \<Rightarrow> Warning list" where
  "phaseWarnings s p =
     (case ph_warnings p of
        None \<Rightarrow> []
      | Some f \<Rightarrow> map (\<lambda>w. w\<lparr>w_phase := ph_title p\<rparr>) (f s))"

subsection \<open>The run\<close>

text \<open>What a run takes from its surroundings: the error of the context, the clock, whether the
  manager has a configuration, and the setting of defaults on it.\<close>

record 's env =
  env_ctx_err :: "'s \<Rightarrow> string option"
  env_clock :: "'s \<Rightarrow> nat"
  env_has_config :: "'s \<Rightarrow> bool"
  env_set_defaults :: "'s \<Rightarrow> string option \<times> 's"

record 's manager =
  mg_phases :: "'s phase list"
  mg_dry_run :: bool

datatype run_error =
    NilConfig
  | DefaultsFailed string
  | ContextCanceled string string
  | PhaseFailed string

type_synonym 's timedPhase = "'s phase \<times> nat"

record heartbeat =
  hb_phase :: string
  hb_index :: nat
  hb_total :: nat
  hb_status :: string
  hb_error :: "run_error option"

text \<open>The variables of \<open>Run\<close> the loop writes, the state of the world, and the
  status file the heartbeats overwrite.\<close>

record 's run_state =
  rs_world :: 's
  rs_ran :: "'s timedPhase list"
  rs_planned :: "'s phase list"
  rs_skipped :: "'s phase list"
  rs_warnings :: "Warning list"
  rs_status :: "heartbeat option"

definition beat :: "string \<Rightarrow> nat \<Rightarrow> nat \<Rightarrow> string \<Rightarrow> run_error option \<Rightarrow> 's run_state \<Rightarrow> 's run_state" where
  "beat title i n status e st =
     st\<lparr>rs_status := Some \<lparr>hb_phase = title, hb_index = i, hb_total = n,
          hb_status = status, hb_error = e\<rparr>\<rparr>"

definition Wet :: "bool \<Rightarrow> ('s \<Rightarrow> 'e option \<times> 's) \<Rightarrow> 's \<Rightarrow> 'e option \<times> 's" where
  "Wet dry f s = (if dry then (None, s) else f s)"

text \<open>Optional calls: a phase without the interface is passed over.\<close>

definition call :: "('s \<Rightarrow> string option \<times> 's) option \<Rightarrow> 's \<Rightarrow> string option \<times> 's" where
  "call f s = (case f of None \<Rightarrow> (None, s) | Some g \<Rightarrow> g s)"

text \<open>The part of the loop body that runs the phase proper: the hooks, the dry-run path and the
  run itself. The result is the error the run returns with, if it does.\<close>

definition wet_phase ::
  "'s env \<Rightarrow> nat \<Rightarrow> nat \<Rightarrow> 's phase \<Rightarrow> 's \<Rightarrow> 's run_state \<Rightarrow> run_error option \<times> 's run_state"
where
  "wet_phase env i n p w1 st =
     (case ph_run p w1 of (result, w2) \<Rightarrow>
       (let title = ph_title p;
            st2 = st\<lparr>rs_world := w2,
                     rs_ran := rs_ran st @ [(p, env_clock env w2 - env_clock env w1)],
                     rs_warnings := rs_warnings st @ phaseWarnings w2 p\<rparr>
        in case result of
             Some e \<Rightarrow>
               (Some (PhaseFailed e), beat title i n ''failed'' (Some (PhaseFailed e)) st2)
           | None \<Rightarrow>
               (case call (ph_after p) w2 of
                  (Some e, w3) \<Rightarrow> (Some (PhaseFailed e), st2\<lparr>rs_world := w3\<rparr>)
                | (None, w3) \<Rightarrow> (None, beat title i n ''completed'' None (st2\<lparr>rs_world := w3\<rparr>)))))"

definition dry_phase ::
  "'s env \<Rightarrow> 's phase \<Rightarrow> ('s \<Rightarrow> string option \<times> 's) \<Rightarrow> 's \<Rightarrow> 's run_state \<Rightarrow> run_error option \<times> 's run_state"
where
  "dry_phase env p dr w1 st =
     (case dr w1 of (err, w2) \<Rightarrow>
       (map_option PhaseFailed err,
        st\<lparr>rs_world := w2,
           rs_ran := rs_ran st @ [(p, env_clock env w2 - env_clock env w1)],
           rs_warnings := rs_warnings st @ phaseWarnings w2 p\<rparr>))"

definition execute_phase ::
  "'s env \<Rightarrow> bool \<Rightarrow> nat \<Rightarrow> nat \<Rightarrow> 's phase \<Rightarrow> 's run_state \<Rightarrow> run_error option \<times> 's run_state"
where
  "execute_phase env dry i n p st =
     (case call (ph_before p) (rs_world st) of
        (Some e, w) \<Rightarrow> (Some (PhaseFailed e), st\<lparr>rs_world := w\<rparr>)
      | (None, w) \<Rightarrow>
          (case (ph_dry_run p, dry) of
             (Some dr, True) \<Rightarrow> dry_phase env p dr w st
           | _ \<Rightarrow> wet_phase env i n p w st))"

definition set_manager :: "'s phase \<Rightarrow> 's \<Rightarrow> 's" where
  "set_manager p w = (case ph_set_manager p of Some f \<Rightarrow> f w | None \<Rightarrow> w)"

definition should_run :: "'s phase \<Rightarrow> 's \<Rightarrow> bool" where
  "should_run p w = (case ph_should_run p of Some f \<Rightarrow> f w | None \<Rightarrow> True)"

definition skipUnderDryRun :: "bool \<Rightarrow> 's phase \<Rightarrow> bool" where
  "skipUnderDryRun dry p \<longleftrightarrow> dry \<and> ClassifyDryRun p = DryRunSkip"

text \<open>One turn of the loop. \<open>continue\<close> and the end of the body give \<open>None\<close>; \<open>return result\<close>
  gives the error.\<close>

definition run_phase ::
  "'s env \<Rightarrow> bool \<Rightarrow> nat \<Rightarrow> nat \<Rightarrow> 's phase \<Rightarrow> 's run_state \<Rightarrow> run_error option \<times> 's run_state"
where
  "run_phase env dry i n p st0 =
     (let title = ph_title p;
          st = beat title i n ''running'' None st0
      in case env_ctx_err env (rs_world st) of
        Some e \<Rightarrow>
          (Some (ContextCanceled title e),
           beat title i n ''failed'' (Some (ContextCanceled title e)) st)
      | None \<Rightarrow>
          (case call (ph_prepare p) (set_manager p (rs_world st)) of
             (Some e, w) \<Rightarrow>
               if \<not> skipUnderDryRun dry p then (Some (PhaseFailed e), st\<lparr>rs_world := w\<rparr>)
               else (None, st\<lparr>rs_world := w, rs_planned := rs_planned st @ [p]\<rparr>)
           | (None, w) \<Rightarrow>
               if \<not> should_run p w then
                 (None, st\<lparr>rs_world := w, rs_skipped := rs_skipped st @ [p]\<rparr>)
               else if skipUnderDryRun dry p then
                 (None, st\<lparr>rs_world := w, rs_planned := rs_planned st @ [p]\<rparr>)
               else execute_phase env dry i n p (st\<lparr>rs_world := w\<rparr>)))"

fun run_phases ::
  "'s env \<Rightarrow> bool \<Rightarrow> nat \<Rightarrow> nat \<Rightarrow> 's phase list \<Rightarrow> 's run_state \<Rightarrow> run_error option \<times> 's run_state"
where
  "run_phases env dry i n [] st = (None, st)"
| "run_phases env dry i n (p # ps) st =
     (case run_phase env dry (i + 1) n p st of
        (Some e, st') \<Rightarrow> (Some e, st')
      | (None, st') \<Rightarrow> run_phases env dry (i + 1) n ps st')"

definition collectResult :: "'s \<Rightarrow> 's run_state \<Rightarrow> RunResult" where
  "collectResult s st =
     \<lparr>rr_ran = map (\<lambda>(p, d). phaseResult s p d) (rs_ran st),
      rr_planned = map (\<lambda>p. phaseResult s p 0) (rs_planned st),
      rr_skipped = map (\<lambda>p. phaseResult s p 0) (rs_skipped st),
      rr_warnings = rs_warnings st\<rparr>"

definition clean_up :: "'s timedPhase list \<Rightarrow> 's \<Rightarrow> 's" where
  "clean_up phases s =
     foldl (\<lambda>w t. case ph_cleanup (fst t) of Some f \<Rightarrow> f w | None \<Rightarrow> w) s phases"

text \<open>What a run leaves behind: its error, the world, \<open>m.Result\<close> when the run reached its
  phases, the sink of the context if there is one, the warnings of the recap and the status file.\<close>

record 's run_outcome =
  ro_error :: "run_error option"
  ro_world :: 's
  ro_result :: "RunResult option"
  ro_sink :: "ResultSink option"
  ro_recap :: "Warning list"
  ro_status :: "heartbeat option"

definition start_state :: "'s \<Rightarrow> 's run_state" where
  "start_state s =
     \<lparr>rs_world = s, rs_ran = [], rs_planned = [], rs_skipped = [], rs_warnings = [], rs_status = None\<rparr>"

definition stopped :: "run_error \<Rightarrow> 's \<Rightarrow> ResultSink option \<Rightarrow> 's run_outcome" where
  "stopped e s sink =
     \<lparr>ro_error = Some e, ro_world = s, ro_result = None, ro_sink = sink, ro_recap = [], ro_status = None\<rparr>"

definition Run :: "'s env \<Rightarrow> 's manager \<Rightarrow> ResultSink option \<Rightarrow> 's \<Rightarrow> 's run_outcome" where
  "Run env m sink s =
     (if \<not> env_has_config env s then stopped NilConfig s sink
      else (case env_set_defaults env s of
        (Some e, s1) \<Rightarrow> stopped (DefaultsFailed e) s1 sink
      | (None, s1) \<Rightarrow>
          (case run_phases env (mg_dry_run m) 0 (length (mg_phases m)) (mg_phases m) (start_state s1) of
             (result, st) \<Rightarrow>
               (let res = collectResult (rs_world st) st in
                \<lparr>ro_error = result,
                 ro_world = (if result \<noteq> None then clean_up (rs_ran st) (rs_world st) else rs_world st),
                 ro_result = Some res,
                 ro_sink = map_option (publish res) sink,
                 ro_recap = rs_warnings st,
                 ro_status = (if result = None then None else rs_status st)\<rparr>))))"

subsection \<open>Where a turn of the loop puts its phase\<close>

lemma beat_simps [simp]:
  "rs_world (beat t i n x e st) = rs_world st" "rs_ran (beat t i n x e st) = rs_ran st"
  "rs_planned (beat t i n x e st) = rs_planned st" "rs_skipped (beat t i n x e st) = rs_skipped st"
  "rs_warnings (beat t i n x e st) = rs_warnings st"
  by (simp_all add: beat_def)

lemma execute_phase_lists:
  "execute_phase env dry i n p st = (err, st') \<Longrightarrow>
   rs_planned st' = rs_planned st \<and> rs_skipped st' = rs_skipped st \<and>
   ((\<exists>d. rs_ran st' = rs_ran st @ [(p, d)]) \<or> err \<noteq> None \<and> rs_ran st' = rs_ran st)"
  unfolding execute_phase_def wet_phase_def dry_phase_def
  by (auto simp: Let_def split: prod.splits option.splits bool.splits)

text \<open>The three places a turn can end, and the error exits that leave the lists alone.\<close>

lemma run_phase_lists:
  "run_phase env dry i n p st = (err, st') \<Longrightarrow>
   (rs_planned st' = rs_planned st \<and> rs_skipped st' = rs_skipped st \<and>
      ((\<exists>d. rs_ran st' = rs_ran st @ [(p, d)]) \<and> \<not> (dry \<and> ClassifyDryRun p = DryRunSkip) \<or>
       err \<noteq> None \<and> rs_ran st' = rs_ran st)) \<or>
   (err = None \<and> rs_planned st' = rs_planned st @ [p] \<and> rs_skipped st' = rs_skipped st \<and>
      rs_ran st' = rs_ran st \<and> dry \<and> ClassifyDryRun p = DryRunSkip) \<or>
   (err = None \<and> rs_planned st' = rs_planned st \<and> rs_skipped st' = rs_skipped st @ [p] \<and>
      rs_ran st' = rs_ran st)"
  unfolding run_phase_def skipUnderDryRun_def [symmetric]
  by (auto simp: Let_def split: prod.splits option.splits if_splits dest!: execute_phase_lists)

definition ran_phases :: "'s run_state \<Rightarrow> 's phase list" where
  "ran_phases st = map fst (rs_ran st)"

lemma run_phases_lists:
  "run_phases env dry i n ps st = (err, st') \<Longrightarrow>
   \<exists>ran' planned' skipped'.
     ran_phases st' = ran_phases st @ ran' \<and> rs_planned st' = rs_planned st @ planned' \<and>
     rs_skipped st' = rs_skipped st @ skipped' \<and>
     subseq ran' ps \<and> subseq planned' ps \<and> subseq skipped' ps \<and>
     mset ran' + mset planned' + mset skipped' \<subseteq># mset ps \<and>
     (err = None \<longrightarrow> mset ran' + mset planned' + mset skipped' = mset ps) \<and>
     (dry \<longrightarrow> list_all (\<lambda>p. ClassifyDryRun p \<noteq> DryRunSkip) ran') \<and>
     list_all (\<lambda>p. dry \<and> ClassifyDryRun p = DryRunSkip) planned'"
proof (induction ps arbitrary: i st)
  case Nil
  then show ?case by auto
next
  case (Cons p ps)
  obtain e st1 where one: "run_phase env dry (i + 1) n p st = (e, st1)" by fastforce
  show ?case
  proof (cases e)
    case (Some x)
    with Cons.prems one have st': "st' = st1" "err = Some x" by auto
    from run_phase_lists [OF one] Some st' consider
        (ran) "ran_phases st' = ran_phases st @ [p]" "rs_planned st' = rs_planned st"
          "rs_skipped st' = rs_skipped st" "dry \<longrightarrow> ClassifyDryRun p \<noteq> DryRunSkip"
      | (none) "ran_phases st' = ran_phases st" "rs_planned st' = rs_planned st"
          "rs_skipped st' = rs_skipped st"
      by (auto simp: ran_phases_def)
    then show ?thesis
    proof cases
      case ran
      show ?thesis
        by (rule exI [of _ "[p]"], rule exI [of _ "[]"], rule exI [of _ "[]"])
          (use ran st'(2) in auto)
    next
      case none
      show ?thesis
        by (rule exI [of _ "[]"], rule exI [of _ "[]"], rule exI [of _ "[]"])
          (use none st'(2) in auto)
    qed
  next
    case None
    with Cons.prems one have "run_phases env dry (i + 1) n ps st1 = (err, st')" by simp
    from Cons.IH [OF this] obtain r pl sk where rest:
      "ran_phases st' = ran_phases st1 @ r" "rs_planned st' = rs_planned st1 @ pl"
      "rs_skipped st' = rs_skipped st1 @ sk" and sub: "subseq r ps" "subseq pl ps" "subseq sk ps" and
      ms: "mset r + mset pl + mset sk \<subseteq># mset ps" "err = None \<longrightarrow> mset r + mset pl + mset sk = mset ps"
      and cl: "dry \<longrightarrow> list_all (\<lambda>p. ClassifyDryRun p \<noteq> DryRunSkip) r"
        "list_all (\<lambda>p. dry \<and> ClassifyDryRun p = DryRunSkip) pl"
      by blast
    have skip: "subseq xs (p # ps)" if "subseq xs ps" for xs
      using that by (simp add: list_emb_Cons)
    from run_phase_lists [OF one] None consider
        (ran) "ran_phases st1 = ran_phases st @ [p]" "rs_planned st1 = rs_planned st"
          "rs_skipped st1 = rs_skipped st" "dry \<longrightarrow> ClassifyDryRun p \<noteq> DryRunSkip"
      | (planned) "ran_phases st1 = ran_phases st" "rs_planned st1 = rs_planned st @ [p]"
          "rs_skipped st1 = rs_skipped st" "dry" "ClassifyDryRun p = DryRunSkip"
      | (skipped) "ran_phases st1 = ran_phases st" "rs_planned st1 = rs_planned st"
          "rs_skipped st1 = rs_skipped st @ [p]"
      by (auto simp: ran_phases_def)
    then show ?thesis
    proof cases
      case ran
      show ?thesis
        by (rule exI [of _ "p # r"], rule exI [of _ pl], rule exI [of _ sk])
          (use ran rest sub ms cl skip in \<open>auto simp: ac_simps\<close>)
    next
      case planned
      show ?thesis
        by (rule exI [of _ r], rule exI [of _ "p # pl"], rule exI [of _ sk])
          (use planned rest sub ms cl skip in \<open>auto simp: ac_simps\<close>)
    next
      case skipped
      show ?thesis
        by (rule exI [of _ r], rule exI [of _ pl], rule exI [of _ "p # sk"])
          (use skipped rest sub ms cl skip in \<open>auto simp: ac_simps\<close>)
    qed
  qed
qed

lemma run_phases_append:
  "run_phases env dry i n (ps @ qs) st =
     (case run_phases env dry i n ps st of
        (Some e, st') \<Rightarrow> (Some e, st')
      | (None, st') \<Rightarrow> run_phases env dry (i + length ps) n qs st')"
  by (induction ps arbitrary: i st) (auto split: prod.splits option.splits)

lemma Titles_map [simp]:
  "Titles (map (\<lambda>(p, d). phaseResult s p d) xs) = map (ph_title \<circ> fst) xs"
  "Titles (map (\<lambda>p. phaseResult s p k) ps) = map ph_title ps"
  by (auto simp: Titles_def phaseResult_def)

lemma Run_cases:
  assumes "ro_result (Run env m sink s) = Some res"
  obtains s1 err st where
    "env_has_config env s" "env_set_defaults env s = (None, s1)"
    "run_phases env (mg_dry_run m) 0 (length (mg_phases m)) (mg_phases m) (start_state s1) = (err, st)"
    "res = collectResult (rs_world st) st" "ro_error (Run env m sink s) = err"
    "ro_sink (Run env m sink s) = map_option (publish res) sink"
    "ro_world (Run env m sink s) =
       (if err \<noteq> None then clean_up (rs_ran st) (rs_world st) else rs_world st)"
    "ro_recap (Run env m sink s) = rs_warnings st"
    "ro_status (Run env m sink s) = (if err = None then None else rs_status st)"
  using assms that
  by (auto simp: Run_def stopped_def Let_def split: if_splits prod.splits option.splits)

subsection \<open>The status file is written, never read\<close>

definition unstat :: "'s run_state \<Rightarrow> 's run_state" where
  "unstat st = st\<lparr>rs_status := None\<rparr>"

lemma unstat_simps [simp]:
  "rs_world (unstat st) = rs_world st" "rs_ran (unstat st) = rs_ran st"
  "rs_planned (unstat st) = rs_planned st" "rs_skipped (unstat st) = rs_skipped st"
  "rs_warnings (unstat st) = rs_warnings st" "unstat (unstat st) = unstat st"
  "unstat (beat t i n x e st) = unstat st"
  by (simp_all add: unstat_def beat_def)

lemma execute_phase_unstat:
  "map_prod id unstat (execute_phase env dry i n p st) =
   map_prod id unstat (execute_phase env dry j m p (unstat st))"
  by (auto simp: execute_phase_def wet_phase_def dry_phase_def Let_def beat_def unstat_def
      split: prod.split option.split bool.split)

lemma unstat_update:
  "unstat (st\<lparr>rs_world := w\<rparr>) = (unstat st)\<lparr>rs_world := w\<rparr>"
  "unstat (st\<lparr>rs_planned := x\<rparr>) = (unstat st)\<lparr>rs_planned := x\<rparr>"
  "unstat (st\<lparr>rs_skipped := y\<rparr>) = (unstat st)\<lparr>rs_skipped := y\<rparr>"
  by (simp_all add: unstat_def)

lemma run_phase_unstat:
  "map_prod id unstat (run_phase env dry i n p st) =
   map_prod id unstat (run_phase env dry j m p (unstat st))"
  unfolding run_phase_def Let_def
  by (auto simp: unstat_update execute_phase_unstat [of env dry i n p "(beat t x y z e st)\<lparr>rs_world := w\<rparr>" j m for t x y z e w]
      execute_phase_unstat [of env dry j m p "(beat t x y z e (unstat st))\<lparr>rs_world := w\<rparr>" j m for t x y z e w]
      split: prod.split option.split)

lemma run_phases_unstat:
  "map_prod id unstat (run_phases env dry i n ps st) =
   map_prod id unstat (run_phases env dry j m ps (unstat st))"
proof (induction ps arbitrary: i j n m st)
  case (Cons p ps)
  obtain e a where a: "run_phase env dry (i + 1) n p st = (e, a)" by fastforce
  obtain f b where b: "run_phase env dry (j + 1) m p (unstat st) = (f, b)" by fastforce
  from run_phase_unstat [of env dry "i + 1" n p st "j + 1" m] a b
  have ef: "e = f" and ab: "unstat a = unstat b" by simp_all
  show ?case
  proof (cases e)
    case None
    from Cons.IH [of "i + 1" n a "j + 1" m] Cons.IH [of "j + 1" m b "j + 1" m] ab
    have "map_prod id unstat (run_phases env dry (i + 1) n ps a) =
        map_prod id unstat (run_phases env dry (j + 1) m ps b)" by (simp add: id_def)
    with ef None a b show ?thesis by (simp add: id_def)
  next
    case (Some x)
    with a b ef ab show ?thesis by auto
  qed
qed simp

subsection \<open>What a dry run leaves alone\<close>

text \<open>The contract of a phase under a dry run: what runs at all leaves the observed part of the
  world as it is.\<close>

definition keeps :: "('s \<Rightarrow> 'f) \<Rightarrow> ('s \<Rightarrow> string option \<times> 's) \<Rightarrow> bool" where
  "keeps fleet f \<longleftrightarrow> (\<forall>s. fleet (snd (f s)) = fleet s)"

definition dry_safe :: "('s \<Rightarrow> 'f) \<Rightarrow> 's phase \<Rightarrow> bool" where
  "dry_safe fleet p \<longleftrightarrow>
     (\<forall>s. fleet (set_manager p s) = fleet s) \<and> keeps fleet (call (ph_prepare p)) \<and>
     (case ClassifyDryRun p of
        DryRunSkip \<Rightarrow> True
      | DryRunReadOnly \<Rightarrow> keeps fleet (call (ph_before p)) \<and> keeps fleet (ph_run p) \<and> keeps fleet (call (ph_after p))
      | DryRunOwnPath \<Rightarrow> keeps fleet (call (ph_before p)) \<and> keeps fleet (call (ph_dry_run p))) \<and>
     (\<forall>f s. ph_cleanup p = Some f \<and> ClassifyDryRun p \<noteq> DryRunSkip \<longrightarrow> fleet (f s) = fleet s)"

lemma keepsD: "keeps fleet f \<Longrightarrow> f s = (e, s') \<Longrightarrow> fleet s' = fleet s"
  by (metis keeps_def snd_conv)

lemma execute_phase_keeps:
  assumes "dry_safe fleet p" "ClassifyDryRun p \<noteq> DryRunSkip" "execute_phase env True i n p st = (err, st')"
  shows "fleet (rs_world st') = fleet (rs_world st)"
  using assms
  by (auto simp: execute_phase_def wet_phase_def dry_phase_def dry_safe_def ClassifyDryRun_def call_def [of "Some _"]
      Let_def beat_def split: prod.splits option.splits if_splits dest!: keepsD)

lemma run_phase_keeps:
  assumes "dry_safe fleet p" "run_phase env True i n p st = (err, st')"
  shows "fleet (rs_world st') = fleet (rs_world st)"
proof -
  have prep: "fleet w = fleet (rs_world st)"
    if "call (ph_prepare p) (set_manager p (rs_world st)) = (e, w)" for e w
    using that assms(1) by (metis dry_safe_def keepsD)
  show ?thesis
    using assms(2) prep execute_phase_keeps [OF assms(1)]
    unfolding run_phase_def skipUnderDryRun_def
    by (fastforce simp: Let_def split: prod.splits option.splits if_splits)
qed

lemma run_phases_keeps:
  "list_all (dry_safe fleet) ps \<Longrightarrow> run_phases env True i n ps st = (err, st') \<Longrightarrow>
   fleet (rs_world st') = fleet (rs_world st)"
  by (induction ps arbitrary: i st)
    (auto split: prod.splits option.splits dest!: run_phase_keeps)

lemma clean_up_keeps:
  "list_all (dry_safe fleet) ps \<Longrightarrow> list_all (\<lambda>p. ClassifyDryRun p \<noteq> DryRunSkip) ps \<Longrightarrow>
   map fst xs = ps \<Longrightarrow> fleet (clean_up xs s) = fleet s"
  unfolding clean_up_def
  by (induction ps arbitrary: xs s) (auto simp: dry_safe_def split: option.splits)

subsection \<open>Phases with the same visible behaviour\<close>

text \<open>Two phases a run cannot tell apart, except through clean-up: under a dry run what a
  phase that declares nothing does when it runs does not count.\<close>

definition alike :: "bool \<Rightarrow> 's phase \<Rightarrow> 's phase \<Rightarrow> bool" where
  "alike dry p q \<longleftrightarrow>
     ph_title q = ph_title p \<and> ph_explanation q = ph_explanation p \<and>
     ph_set_manager q = ph_set_manager p \<and> ph_prepare q = ph_prepare p \<and>
     ph_should_run q = ph_should_run p \<and> ph_dry_run q = ph_dry_run p \<and>
     ph_read_only q = ph_read_only p \<and> ph_changed q = ph_changed p \<and>
     ph_hosts_changed q = ph_hosts_changed p \<and> ph_warnings q = ph_warnings p \<and>
     (skipUnderDryRun dry p \<or>
      ph_before q = ph_before p \<and>
      (dry \<and> ph_dry_run p \<noteq> None \<or> ph_run q = ph_run p \<and> ph_after q = ph_after p))"

definition map_phases :: "('s phase \<Rightarrow> 's phase) \<Rightarrow> 's run_state \<Rightarrow> 's run_state" where
  "map_phases f st =
     st\<lparr>rs_ran := map (map_prod f id) (rs_ran st), rs_planned := map f (rs_planned st),
       rs_skipped := map f (rs_skipped st)\<rparr>"

lemma map_phases_beat [simp]: "map_phases f (beat t i n x e st) = beat t i n x e (map_phases f st)"
  by (simp add: map_phases_def beat_def)

lemma map_phases_simps [simp]:
  "rs_world (map_phases f st) = rs_world st"
  "rs_ran (map_phases f st) = map (map_prod f id) (rs_ran st)"
  "rs_planned (map_phases f st) = map f (rs_planned st)"
  "rs_skipped (map_phases f st) = map f (rs_skipped st)"
  "rs_warnings (map_phases f st) = rs_warnings st"
  "rs_status (map_phases f st) = rs_status st"
  by (simp_all add: map_phases_def)

lemma map_phases_update:
  "map_phases f (st\<lparr>rs_world := w\<rparr>) = (map_phases f st)\<lparr>rs_world := w\<rparr>"
  "map_phases f (st\<lparr>rs_warnings := ws\<rparr>) = (map_phases f st)\<lparr>rs_warnings := ws\<rparr>"
  "map_phases f (st\<lparr>rs_ran := xs\<rparr>) = (map_phases f st)\<lparr>rs_ran := map (map_prod f id) xs\<rparr>"
  "map_phases f (st\<lparr>rs_planned := ps\<rparr>) = (map_phases f st)\<lparr>rs_planned := map f ps\<rparr>"
  "map_phases f (st\<lparr>rs_skipped := ps\<rparr>) = (map_phases f st)\<lparr>rs_skipped := map f ps\<rparr>"
  by (simp_all add: map_phases_def)

lemma alike_execute:
  assumes "alike dry p (f p)" "\<not> skipUnderDryRun dry p"
  shows "execute_phase env dry i n (f p) (map_phases f st) =
         map_prod id (map_phases f) (execute_phase env dry i n p st)"
proof -
  from assms have w: "phaseWarnings s (f p) = phaseWarnings s p" for s
    by (auto simp: alike_def phaseWarnings_def split: option.split)
  show ?thesis
    using assms w
    by (auto simp: alike_def execute_phase_def wet_phase_def dry_phase_def Let_def map_phases_update
        split: prod.split option.split bool.split)
qed

lemma alike_run_phase:
  assumes "alike dry p (f p)"
  shows "run_phase env dry i n (f p) (map_phases f st) =
         map_prod id (map_phases f) (run_phase env dry i n p st)"
proof -
  from assms have eqs: "ph_title (f p) = ph_title p" "set_manager (f p) = set_manager p"
    "ph_prepare (f p) = ph_prepare p" "should_run (f p) = should_run p"
    "skipUnderDryRun dry (f p) = skipUnderDryRun dry p"
    by (auto simp: alike_def set_manager_def should_run_def skipUnderDryRun_def ClassifyDryRun_def fun_eq_iff)
  show ?thesis
    unfolding run_phase_def Let_def eqs
    using alike_execute [of dry p f env i n "(beat t x y z e st)\<lparr>rs_world := w\<rparr>" for t x y z e w] assms
    by (auto simp: map_phases_update split: prod.split option.split)
qed

lemma alike_run_phases:
  "list_all (\<lambda>p. alike dry p (f p)) ps \<Longrightarrow>
   run_phases env dry i n (map f ps) (map_phases f st) =
   map_prod id (map_phases f) (run_phases env dry i n ps st)"
  by (induction ps arbitrary: i st) (auto simp: alike_run_phase split: prod.split option.split)

lemma alike_phaseResult: "alike dry p q \<Longrightarrow> phaseResult s q d = phaseResult s p d"
  by (simp add: alike_def phaseResult_def ClassifyDryRun_def)

lemma start_state_map: "start_state s = map_phases f (start_state s)"
  by (simp add: start_state_def map_phases_def)

lemma alike_collect:
  assumes "\<forall>p. alike dry p (f p)"
  shows "collectResult s (map_phases f st) = collectResult s st"
  using assms by (auto simp: collectResult_def alike_phaseResult [of dry])

text \<open>A run of phases replaced by ones that look alike differs in its clean-up alone.\<close>

lemma Run_alike:
  assumes "\<forall>p. alike (mg_dry_run m) p (f p)"
  defines "m' \<equiv> m\<lparr>mg_phases := map f (mg_phases m)\<rparr>"
  shows "ro_error (Run env m' sink s) = ro_error (Run env m sink s)"
    and "ro_result (Run env m' sink s) = ro_result (Run env m sink s)"
    and "ro_sink (Run env m' sink s) = ro_sink (Run env m sink s)"
    and "ro_recap (Run env m' sink s) = ro_recap (Run env m sink s)"
    and "ro_status (Run env m' sink s) = ro_status (Run env m sink s)"
    and "(\<forall>p. ph_cleanup (f p) = ph_cleanup p) \<or> ro_error (Run env m sink s) = None \<Longrightarrow>
         ro_world (Run env m' sink s) = ro_world (Run env m sink s)"
proof -
  have runs: "run_phases env (mg_dry_run m) 0 (length (mg_phases m)) (map f (mg_phases m)) (start_state s1) =
      map_prod id (map_phases f)
        (run_phases env (mg_dry_run m) 0 (length (mg_phases m)) (mg_phases m) (start_state s1))" for s1
    using alike_run_phases [of "mg_dry_run m" f "mg_phases m" env 0 "length (mg_phases m)" "start_state s1"]
      assms(1) start_state_map [of s1 f] by (simp add: list_all_iff)
  have clean: "clean_up (map (map_prod f id) xs) w = clean_up xs w"
    if "\<forall>p. ph_cleanup (f p) = ph_cleanup p" for xs w
    unfolding clean_up_def foldl_map using that by (simp add: case_prod_beta)
  note sp = runs alike_collect [OF assms(1)] m'_def
  show "ro_error (Run env m' sink s) = ro_error (Run env m sink s)"
    "ro_result (Run env m' sink s) = ro_result (Run env m sink s)"
    "ro_sink (Run env m' sink s) = ro_sink (Run env m sink s)"
    "ro_recap (Run env m' sink s) = ro_recap (Run env m sink s)"
    "ro_status (Run env m' sink s) = ro_status (Run env m sink s)"
    by (auto simp: Run_def sp Let_def split: prod.split option.split)
  show "ro_world (Run env m' sink s) = ro_world (Run env m sink s)"
    if "(\<forall>p. ph_cleanup (f p) = ph_cleanup p) \<or> ro_error (Run env m sink s) = None"
    using that by (auto simp: Run_def sp Let_def clean split: prod.splits option.splits if_splits)
qed

subsection \<open>Host summaries as a roll-up\<close>

definition all_changes :: "RunResult \<Rightarrow> HostChange list" where
  "all_changes r = concat (map pr_hosts (filter pr_hosts_declared (groups r)))"

definition roll_up :: "nat \<Rightarrow> HostChange list \<Rightarrow> string \<Rightarrow> HostSummary" where
  "roll_up reporting hs k =
     \<lparr>hs_host = k, hs_changed = list_ex (\<lambda>h. hc_host h = k \<and> hc_changed h) hs,
      hs_named = length (filter (\<lambda>h. hc_host h = k) hs), hs_reporting = reporting\<rparr>"

definition summary_inv :: "HostChange list \<Rightarrow> summary_state \<Rightarrow> bool" where
  "summary_inv hs st \<longleftrightarrow>
     fst st = map (roll_up 0 hs) (first_seen (map hc_host hs)) \<and>
     (\<forall>k i. snd st k = Some i \<longleftrightarrow>
        i < length (first_seen (map hc_host hs)) \<and> first_seen (map hc_host hs) ! i = k)"

lemma roll_up_snoc:
  "roll_up n (hs @ [h]) k =
     (if k = hc_host h then (roll_up n hs k)\<lparr>hs_named := hs_named (roll_up n hs k) + 1,
        hs_changed := hs_changed (roll_up n hs k) \<or> hc_changed h\<rparr>
      else roll_up n hs k)"
  by (auto simp: roll_up_def)

lemma roll_up_new: "k \<notin> hc_host ` set hs \<Longrightarrow>
    roll_up n hs k = \<lparr>hs_host = k, hs_changed = False, hs_named = 0, hs_reporting = n\<rparr>"
  by (auto simp: roll_up_def list_ex_iff filter_empty_conv)

lemma summary_inv_step:
  assumes "summary_inv hs st" shows "summary_inv (hs @ [h]) (summarize_host st h)"
proof -
  let ?ks = "first_seen (map hc_host hs)"
  obtain out index where st: "st = (out, index)" by (cases st)
  with assms have out: "out = map (roll_up 0 hs) ?ks"
    and index: "\<And>k i. index k = Some i \<longleftrightarrow> i < length ?ks \<and> ?ks ! i = k"
    by (auto simp: summary_inv_def)
  show ?thesis
  proof (cases "index (hc_host h)")
    case None
    then have new: "hc_host h \<notin> set ?ks"
      using index by (metis in_set_conv_nth option.distinct(1))
    then have rest: "map (roll_up 0 (hs @ [h])) ?ks = out"
      by (auto simp: out roll_up_snoc image_iff)
    have other: "i < length ?ks \<Longrightarrow> ?ks ! i \<noteq> hc_host h" for i
      using new by (metis nth_mem)
    have ks: "first_seen (map hc_host (hs @ [h])) = ?ks @ [hc_host h]"
      using new by (simp add: first_seen_snoc)
    show ?thesis
      unfolding summary_inv_def ks
      using None new index st rest other roll_up_new [of "hc_host h" hs 0]
      by (auto simp: summarize_host_def out nth_append roll_up_snoc list_update_append less_Suc_eq)
  next
    case (Some i)
    then have i: "i < length ?ks" "?ks ! i = hc_host h" using index by auto
    then have old: "hc_host h \<in> set ?ks" by (metis nth_mem)
    then have ks: "first_seen (map hc_host (hs @ [h])) = ?ks" by (simp add: first_seen_snoc)
    have dist: "j < length ?ks \<Longrightarrow> ?ks ! j = hc_host h \<longleftrightarrow> j = i" for j
      using i by (metis distinct_first_seen nth_eq_iff_index_eq)
    have "map (roll_up 0 (hs @ [h])) ?ks = out[i := roll_up 0 (hs @ [h]) (hc_host h)]"
      by (rule nth_equalityI) (auto simp: out nth_list_update roll_up_snoc dist i)
    moreover have "summarize_host st h = (out[i := roll_up 0 (hs @ [h]) (hc_host h)], index)"
      using Some st i by (simp add: summarize_host_def out roll_up_snoc)
    ultimately show ?thesis
      unfolding summary_inv_def ks using index by simp
  qed
qed

lemma summary_inv_foldl:
  "summary_inv hs st \<Longrightarrow> summary_inv (hs @ gs) (foldl summarize_host st gs)"
proof (induction gs arbitrary: hs st)
  case (Cons g gs)
  from Cons.IH [OF summary_inv_step [OF Cons.prems, of g]] show ?case by simp
qed simp

lemma summarize_phases:
  "summary_inv hs st \<Longrightarrow>
   (case foldl summarize_phase (k, st) ps of (k', st') \<Rightarrow>
      k' = k + length (filter pr_hosts_declared ps) \<and>
      summary_inv (hs @ concat (map pr_hosts (filter pr_hosts_declared ps))) st')"
proof (induction ps arbitrary: hs k st)
  case (Cons p ps)
  show ?case
  proof (cases "pr_hosts_declared p")
    case True
    with Cons.IH [OF summary_inv_foldl [OF Cons.prems, of "pr_hosts p"], of "k + 1"]
    show ?thesis by (simp add: summarize_phase_def split: prod.splits)
  next
    case False
    with Cons.IH [OF Cons.prems, of k] show ?thesis by (simp add: summarize_phase_def)
  qed
qed simp

lemma summaries_rolled_up:
  "HostSummaries r =
     map (roll_up (length (filter pr_hosts_declared (groups r))) (all_changes r))
       (first_seen (map hc_host (all_changes r)))"
proof -
  obtain k out index where f: "foldl summarize_phase (0, [], Map.empty) (groups r) = (k, out, index)"
    by (metis prod.collapse)
  have "summary_inv [] ([], Map.empty)" by (simp add: summary_inv_def)
  from summarize_phases [OF this, of 0 "groups r"] f
  have "k = length (filter pr_hosts_declared (groups r))" "summary_inv (all_changes r) (out, index)"
    by (simp_all add: all_changes_def)
  then show ?thesis
    by (auto simp: HostSummaries_def f summary_inv_def roll_up_def comp_def)
qed

subsection \<open>The recorder phases embed\<close>

text \<open>\<open>hostChanges\<close>: the map from a host to its entry, hosts being pointers \<open>'h\<close> with a
  configured address. \<open>HostsChanged\<close> sorts by address; the order of two hosts with one address
  is left open by the code and taken as the order of first mention here.\<close>

type_synonym 'h hostChanges = "('h \<times> HostChange) list"

definition record_entry :: "('h \<Rightarrow> string) \<Rightarrow> 'h \<Rightarrow> 'h hostChanges \<Rightarrow> 'h hostChanges" where
  "record_entry address h c =
     (if map_of c h \<noteq> None then c
      else c @ [(h, \<lparr>hc_host = address h, hc_changed = False, hc_details = []\<rparr>)])"

definition update_entry :: "'h \<Rightarrow> (HostChange \<Rightarrow> HostChange) \<Rightarrow> 'h hostChanges \<Rightarrow> 'h hostChanges" where
  "update_entry h f c = map (\<lambda>(k, e). if k = h then (k, f e) else (k, e)) c"

definition observed :: "('h \<Rightarrow> string) \<Rightarrow> 'h \<Rightarrow> 'h hostChanges \<Rightarrow> 'h hostChanges" where
  "observed address h c = record_entry address h c"

definition changedHost :: "('h \<Rightarrow> string) \<Rightarrow> 'h \<Rightarrow> 'h hostChanges \<Rightarrow> 'h hostChanges" where
  "changedHost address h c = update_entry h (\<lambda>e. e\<lparr>hc_changed := True\<rparr>) (record_entry address h c)"

definition changedFile ::
  "('h \<Rightarrow> string) \<Rightarrow> 'h \<Rightarrow> string \<Rightarrow> string \<Rightarrow> string \<Rightarrow> 'h hostChanges \<Rightarrow> 'h hostChanges"
where
  "changedFile address h path reason diff c =
     update_entry h (\<lambda>e. e\<lparr>hc_changed := True,
         hc_details := hc_details e @ [\<lparr>hd_path = path, hd_reason = reason, hd_diff = diff\<rparr>]\<rparr>)
       (record_entry address h c)"

definition changes_Changed :: "'h hostChanges \<Rightarrow> bool" where
  "changes_Changed c \<longleftrightarrow> list_ex (\<lambda>(h, e). hc_changed e) c"

definition HostsChanged :: "'h hostChanges \<Rightarrow> HostChange list" where
  "HostsChanged c = sort_key hc_host (map snd c)"

text \<open>What a phase tells the recorder, and the recorder after a sequence of calls.\<close>

datatype 'h record_op =
    Observe 'h
  | MarkChanged 'h
  | MarkFile 'h string string string

fun apply_op :: "('h \<Rightarrow> string) \<Rightarrow> 'h record_op \<Rightarrow> 'h hostChanges \<Rightarrow> 'h hostChanges" where
  "apply_op address (Observe h) c = observed address h c"
| "apply_op address (MarkChanged h) c = changedHost address h c"
| "apply_op address (MarkFile h path reason diff) c = changedFile address h path reason diff c"

fun op_host :: "'h record_op \<Rightarrow> 'h" where
  "op_host (Observe h) = h" | "op_host (MarkChanged h) = h" | "op_host (MarkFile h p r d) = h"

fun op_changes :: "'h record_op \<Rightarrow> bool" where
  "op_changes (Observe h) = False" | "op_changes _ = True"

fun op_details :: "'h record_op \<Rightarrow> HostChangeDetail list" where
  "op_details (MarkFile h path reason diff) = [\<lparr>hd_path = path, hd_reason = reason, hd_diff = diff\<rparr>]"
| "op_details _ = []"

text \<open>The entry a host should have after some calls.\<close>

definition entry_of :: "('h \<Rightarrow> string) \<Rightarrow> 'h record_op list \<Rightarrow> 'h \<Rightarrow> HostChange" where
  "entry_of address ops h =
     \<lparr>hc_host = address h,
      hc_changed = list_ex (\<lambda>x. op_host x = h \<and> op_changes x) ops,
      hc_details = concat (map op_details (filter (\<lambda>x. op_host x = h) ops))\<rparr>"

text \<open>What a reporter promises its phase and the run: the interface the run reads, and the
  effect of the three calls.\<close>

locale change_reporter =
  fixes empty :: "'c"
    and put :: "'h record_op \<Rightarrow> 'c \<Rightarrow> 'c"
    and entries :: "'c \<Rightarrow> 'h \<Rightarrow> HostChange option"
    and changed :: "'c \<Rightarrow> bool"
    and report :: "'c \<Rightarrow> HostChange list"
    and address :: "'h \<Rightarrow> string"
  assumes entries_empty: "entries empty h = None"
    and entries_put: "entries (put x c) h =
      (if h = op_host x then
         Some (case entries c h of
            None \<Rightarrow> \<lparr>hc_host = address h, hc_changed = op_changes x, hc_details = op_details x\<rparr>
          | Some e \<Rightarrow> e\<lparr>hc_changed := hc_changed e \<or> op_changes x, hc_details := hc_details e @ op_details x\<rparr>)
       else entries c h)"
    and changed_entries: "changed c \<longleftrightarrow> (\<exists>e \<in> set (report c). hc_changed e)"
    and report_entries: "set (report (fold put xs empty)) = ran (entries (fold put xs empty))"
begin

definition recorded :: "'h record_op list \<Rightarrow> 'c" where
  "recorded xs = fold put xs empty"

lemma entries_recorded:
  "entries (recorded xs) h = (if h \<in> op_host ` set xs then Some (entry_of address xs h) else None)"
proof (induction xs rule: rev_induct)
  case (snoc x xs)
  have none: "filter (\<lambda>x. op_host x = h) xs = []" "\<not> list_ex (\<lambda>x. op_host x = h \<and> op_changes x) xs"
    if "h \<notin> op_host ` set xs"
    using that by (auto simp: filter_empty_conv list_ex_iff)
  show ?case
    using snoc none by (auto simp: recorded_def entries_put entry_of_def)
qed (simp add: recorded_def entries_empty)

lemma changed_recorded: "changed (recorded xs) \<longleftrightarrow> list_ex op_changes xs"
proof -
  have "changed (recorded xs) \<longleftrightarrow> (\<exists>h \<in> op_host ` set xs. hc_changed (entry_of address xs h))"
    unfolding changed_entries recorded_def report_entries
    by (auto simp: ran_def entries_recorded [unfolded recorded_def])
  also have "\<dots> \<longleftrightarrow> list_ex op_changes xs" by (auto simp: entry_of_def list_ex_iff)
  finally show ?thesis .
qed

lemma report_recorded: "set (report (recorded xs)) = entry_of address xs ` op_host ` set xs"
  unfolding recorded_def report_entries
  by (auto simp: ran_def entries_recorded [unfolded recorded_def])

end

lemma map_of_update_entry:
  "map_of (update_entry h f c) k = (if k = h then map_option f (map_of c k) else map_of c k)"
  by (induction c) (auto simp: update_entry_def)

lemma map_of_record_entry:
  "map_of (record_entry address h c) k =
     (if k = h \<and> map_of c h = None then Some \<lparr>hc_host = address h, hc_changed = False, hc_details = []\<rparr>
      else map_of c k)"
  by (auto simp: record_entry_def map_add_def split: option.split)

lemma keys_apply_op:
  "map fst (apply_op address x c) = (if op_host x \<in> fst ` set c then map fst c else map fst c @ [op_host x])"
  by (cases x) (auto simp: observed_def changedHost_def changedFile_def update_entry_def record_entry_def
      map_of_eq_None_iff image_iff comp_def case_prod_beta split: if_splits)

lemma keys_recorded: "distinct (map fst (fold (apply_op address) xs c)) = distinct (map fst c)"
  by (induction xs arbitrary: c) (auto simp: keys_apply_op)

interpretation recorder: change_reporter "[]" "apply_op address" map_of changes_Changed HostsChanged address
proof
  fix h :: 'a and x :: "'a record_op" and c
  show "map_of (apply_op address x c) h =
      (if h = op_host x then
         Some (case map_of c h of
            None \<Rightarrow> \<lparr>hc_host = address h, hc_changed = op_changes x, hc_details = op_details x\<rparr>
          | Some e \<Rightarrow> e\<lparr>hc_changed := hc_changed e \<or> op_changes x, hc_details := hc_details e @ op_details x\<rparr>)
       else map_of c h)"
    by (cases x) (auto simp: observed_def changedHost_def changedFile_def map_of_update_entry
        map_of_record_entry split: option.split)
next
  fix c :: "'a hostChanges"
  show "changes_Changed c \<longleftrightarrow> (\<exists>e \<in> set (HostsChanged c). hc_changed e)"
    by (simp add: changes_Changed_def HostsChanged_def list_ex_iff case_prod_beta)
next
  fix xs :: "'a record_op list"
  have "distinct (map fst (fold (apply_op address) xs []))" by (simp add: keys_recorded)
  then show "set (HostsChanged (fold (apply_op address) xs [])) = ran (map_of (fold (apply_op address) xs []))"
    by (simp add: HostsChanged_def ran_distinct)
qed simp

subsection \<open>Properties of a run\<close>

definition titles_of :: "'s manager \<Rightarrow> string list" where
  "titles_of m = map ph_title (mg_phases m)"

lemma collect_titles:
  "Titles (rr_ran (collectResult s st)) = map ph_title (ran_phases st)"
  "Titles (rr_planned (collectResult s st)) = map ph_title (rs_planned st)"
  "Titles (rr_skipped (collectResult s st)) = map ph_title (rs_skipped st)"
  by (simp_all add: collectResult_def ran_phases_def)

lemma Run_lists:
  assumes "ro_result (Run env m sink s) = Some res"
  obtains xs ys zs err where
    "ro_error (Run env m sink s) = err"
    "Titles (rr_ran res) = map ph_title xs" "Titles (rr_planned res) = map ph_title ys"
    "Titles (rr_skipped res) = map ph_title zs"
    "map pr_dry_run (rr_ran res) = map ClassifyDryRun xs"
    "map pr_dry_run (rr_planned res) = map ClassifyDryRun ys"
    "subseq xs (mg_phases m)" "subseq ys (mg_phases m)" "subseq zs (mg_phases m)"
    "mset xs + mset ys + mset zs \<subseteq># mset (mg_phases m)"
    "err = None \<longrightarrow> mset xs + mset ys + mset zs = mset (mg_phases m)"
    "mg_dry_run m \<longrightarrow> list_all (\<lambda>p. ClassifyDryRun p \<noteq> DryRunSkip) xs"
    "list_all (\<lambda>p. mg_dry_run m \<and> ClassifyDryRun p = DryRunSkip) ys"
proof -
  from Run_cases [OF assms] obtain s1 err st where
    run: "run_phases env (mg_dry_run m) 0 (length (mg_phases m)) (mg_phases m) (start_state s1) = (err, st)"
    and res: "res = collectResult (rs_world st) st" and err: "ro_error (Run env m sink s) = err"
    by metis
  have "ran_phases (start_state s1) = []" "rs_planned (start_state s1) = []" "rs_skipped (start_state s1) = []"
    by (simp_all add: start_state_def ran_phases_def)
  with run_phases_lists [OF run] have l:
    "subseq (ran_phases st) (mg_phases m)" "subseq (rs_planned st) (mg_phases m)"
    "subseq (rs_skipped st) (mg_phases m)"
    "mset (ran_phases st) + mset (rs_planned st) + mset (rs_skipped st) \<subseteq># mset (mg_phases m)"
    "err = None \<longrightarrow> mset (ran_phases st) + mset (rs_planned st) + mset (rs_skipped st) = mset (mg_phases m)"
    "mg_dry_run m \<longrightarrow> list_all (\<lambda>p. ClassifyDryRun p \<noteq> DryRunSkip) (ran_phases st)"
    "list_all (\<lambda>p. mg_dry_run m \<and> ClassifyDryRun p = DryRunSkip) (rs_planned st)"
    by auto
  have "map pr_dry_run (rr_ran res) = map ClassifyDryRun (ran_phases st)"
    "map pr_dry_run (rr_planned res) = map ClassifyDryRun (rs_planned st)"
    by (auto simp: res collectResult_def ran_phases_def phaseResult_def)
  with that [OF err _ _ _ this(1) this(2) l] show ?thesis by (simp add: res collect_titles)
qed

text \<open>C1. A run accounts for every phase. The phases a run reports as ran, planned and skipped
  appear in each list in the order they were added, none is reported twice, and when the run
  succeeds every phase is in exactly one of the three.\<close>

theorem Run_accounts_for_phases:
  assumes "ro_result (Run env m sink s) = Some res"
  shows "subseq (Titles (rr_ran res)) (titles_of m) \<and> subseq (Titles (rr_planned res)) (titles_of m) \<and>
    subseq (Titles (rr_skipped res)) (titles_of m) \<and>
    mset (Titles (rr_ran res)) + mset (Titles (rr_planned res)) + mset (Titles (rr_skipped res))
      \<subseteq># mset (titles_of m) \<and>
    (ro_error (Run env m sink s) = None \<longrightarrow>
      mset (Titles (rr_ran res)) + mset (Titles (rr_planned res)) + mset (Titles (rr_skipped res))
        = mset (titles_of m))"
proof (rule Run_lists [OF assms])
  fix xs ys zs :: "'a phase list" and err
  assume t: "Titles (rr_ran res) = map ph_title xs" "Titles (rr_planned res) = map ph_title ys"
      "Titles (rr_skipped res) = map ph_title zs" "ro_error (Run env m sink s) = err"
    and sub: "subseq xs (mg_phases m)" "subseq ys (mg_phases m)" "subseq zs (mg_phases m)"
    and ms: "mset xs + mset ys + mset zs \<subseteq># mset (mg_phases m)"
      "err = None \<longrightarrow> mset xs + mset ys + mset zs = mset (mg_phases m)"
  have im: "mset (map ph_title xs) + mset (map ph_title ys) + mset (map ph_title zs) =
      image_mset ph_title (mset xs + mset ys + mset zs)" by simp
  have all: "err = None \<longrightarrow> image_mset ph_title (mset xs + mset ys + mset zs) = image_mset ph_title (mset (mg_phases m))"
    using ms(2) by (auto simp del: image_mset_union)
  show ?thesis
    unfolding t titles_of_def im unfolding mset_map
    by (intro conjI subseq_map sub image_mset_subseteq_mono ms(1) all)
qed

text \<open>A small run: one phase reads, one changes the number the world is, one needs no run.\<close>

definition plain_phase :: "string \<Rightarrow> (nat \<Rightarrow> string option \<times> nat) \<Rightarrow> nat phase" where
  "plain_phase title f =
     \<lparr>ph_title = title, ph_explanation = [], ph_set_manager = None, ph_prepare = None,
      ph_should_run = None, ph_before = None, ph_run = f, ph_after = None, ph_dry_run = None,
      ph_read_only = None, ph_changed = None, ph_hosts_changed = None, ph_warnings = None,
      ph_cleanup = None\<rparr>"

definition sample_env :: "nat env" where
  "sample_env = \<lparr>env_ctx_err = \<lambda>_. None, env_clock = \<lambda>_. 0, env_has_config = \<lambda>_. True,
     env_set_defaults = \<lambda>s. (None, s)\<rparr>"

definition sample_phases :: "nat phase list" where
  "sample_phases =
     [(plain_phase ''read'' (\<lambda>s. (None, s)))\<lparr>ph_read_only := Some ''reads''\<rparr>,
      plain_phase ''write'' (\<lambda>s. (None, s + 1)),
      (plain_phase ''idle'' (\<lambda>s. (None, s)))\<lparr>ph_should_run := Some (\<lambda>_. False)\<rparr>]"

definition sample_result :: "bool \<Rightarrow> RunResult" where
  "sample_result dry = the (ro_result (Run sample_env \<lparr>mg_phases = sample_phases, mg_dry_run = dry\<rparr> None 0))"

lemma Run_accounts_for_phases_witness:
  "mset (Titles (rr_ran (sample_result True))) + mset (Titles (rr_planned (sample_result True))) +
     mset (Titles (rr_skipped (sample_result True))) = {#''read'', ''write'', ''idle''#}"
proof -
  let ?m = "\<lparr>mg_phases = sample_phases, mg_dry_run = True\<rparr>"
  have "ro_result (Run sample_env ?m None 0) = Some (sample_result True)"
    "ro_error (Run sample_env ?m None 0) = None"
    by code_simp+
  from Run_accounts_for_phases [OF this(1)] this(2) show ?thesis
    by (simp add: titles_of_def sample_phases_def plain_phase_def)
qed

text \<open>C14. The gate of a dry run: what a run reports as ran under a dry run has declared how it
  behaves under one, what it reports as planned has not, and a run that is not a dry run plans
  nothing.\<close>

theorem Run_dry_gate:
  assumes "ro_result (Run env m sink s) = Some res"
  shows "(if mg_dry_run m
          then DryRunSkip \<notin> set (map pr_dry_run (rr_ran res)) \<and>
               set (map pr_dry_run (rr_planned res)) \<subseteq> {DryRunSkip}
          else rr_planned res = [])"
proof (rule Run_lists [OF assms])
  fix xs ys :: "'a phase list"
  assume t: "map pr_dry_run (rr_ran res) = map ClassifyDryRun xs"
      "map pr_dry_run (rr_planned res) = map ClassifyDryRun ys"
    and cl: "mg_dry_run m \<longrightarrow> list_all (\<lambda>p. ClassifyDryRun p \<noteq> DryRunSkip) xs"
      "list_all (\<lambda>p. mg_dry_run m \<and> ClassifyDryRun p = DryRunSkip) ys"
  show ?thesis
  proof (cases "mg_dry_run m")
    case True
    with cl show ?thesis unfolding t by (auto simp: list_all_iff)
  next
    case False
    with cl(2) t(2) show ?thesis by (cases ys) auto
  qed
qed

lemma Run_dry_gate_witness:
  "DryRunSkip \<notin> set (map pr_dry_run (rr_ran (sample_result True)))"
proof -
  have "ro_result (Run sample_env \<lparr>mg_phases = sample_phases, mg_dry_run = True\<rparr> None 0) = Some (sample_result True)"
    by code_simp
  from Run_dry_gate [OF this] show ?thesis by simp
qed

definition rearm :: "'s phase \<Rightarrow> 's phase \<Rightarrow> 's phase" where
  "rearm other p =
     (if ClassifyDryRun p = DryRunSkip
      then p\<lparr>ph_before := ph_before other, ph_run := ph_run other, ph_after := ph_after other\<rparr> else p)"

text \<open>C2. A phase that declares nothing never acts under a dry run: replacing what it does
  before, during and after its run by anything at all changes neither the outcome of the dry
  run nor the state of the world it leaves.\<close>

theorem Run_dry_never_acts:
  assumes "mg_dry_run m"
  shows "Run env (m\<lparr>mg_phases := map (rearm other) (mg_phases m)\<rparr>) sink s = Run env m sink s"
proof -
  have alike: "\<forall>p. alike (mg_dry_run m) p (rearm other p)"
    using assms by (simp add: alike_def rearm_def skipUnderDryRun_def)
  have "\<forall>p. ph_cleanup (rearm other p) = ph_cleanup p" by (simp add: rearm_def)
  with Run_alike [OF alike, of env sink s] show ?thesis
    by (intro run_outcome.equality) simp_all
qed

lemma Run_dry_never_acts_witness:
  "Run sample_env \<lparr>mg_phases = map (rearm (plain_phase [] (\<lambda>s. (Some ''boom'', 0)))) sample_phases,
     mg_dry_run = True\<rparr> None 7 = Run sample_env \<lparr>mg_phases = sample_phases, mg_dry_run = True\<rparr> None 7"
  using Run_dry_never_acts [of "\<lparr>mg_phases = sample_phases, mg_dry_run = True\<rparr>"] by simp

text \<open>C9. A dry run changes nothing that is observed, provided every phase keeps its word: its
  preparation and the path it declares for a dry run leave the observed part as it is.\<close>

theorem Run_dry_keeps:
  assumes "mg_dry_run m"
    and "list_all (dry_safe fleet) (mg_phases m)"
    and "keeps fleet (env_set_defaults env)"
  shows "fleet (ro_world (Run env m sink s)) = fleet s"
proof (cases "ro_result (Run env m sink s)")
  case None
  with assms(3) show ?thesis
    by (auto simp: Run_def stopped_def Let_def dest: keepsD split: prod.splits option.splits if_splits)
next
  case (Some res)
  from Run_cases [OF this] obtain s1 err st where
    d: "env_set_defaults env s = (None, s1)" and
    run: "run_phases env (mg_dry_run m) 0 (length (mg_phases m)) (mg_phases m) (start_state s1) = (err, st)"
    and w: "ro_world (Run env m sink s) =
       (if err \<noteq> None then clean_up (rs_ran st) (rs_world st) else rs_world st)"
    by metis
  have world: "fleet (rs_world st) = fleet s"
    using run_phases_keeps [OF assms(2) run [unfolded eqTrueI [OF assms(1)]]] keepsD [OF assms(3) d]
    by (simp add: start_state_def)
  from run_phases_lists [OF run] assms(1) have
    sub: "subseq (ran_phases st) (mg_phases m)" and
    declared: "list_all (\<lambda>p. ClassifyDryRun p \<noteq> DryRunSkip) (ran_phases st)"
    by (auto simp: start_state_def ran_phases_def)
  from sub assms(2) have "list_all (dry_safe fleet) (ran_phases st)"
    by (auto simp: list_all_iff elim!: list_emb_set)
  from clean_up_keeps [OF this declared, of "rs_ran st"] w world
  show ?thesis by (simp add: ran_phases_def)
qed

lemma Run_dry_keeps_witness:
  "ro_world (Run sample_env \<lparr>mg_phases = sample_phases, mg_dry_run = True\<rparr> None 7) = 7"
  using Run_dry_keeps [of "\<lparr>mg_phases = sample_phases, mg_dry_run = True\<rparr>" id sample_env]
  by (simp add: sample_phases_def sample_env_def plain_phase_def dry_safe_def keeps_def call_def
      set_manager_def ClassifyDryRun_def)

text \<open>C3. A run stops at the first error: phases added after the one that failed make no
  difference to the error, the world, the published result or the warnings.\<close>

theorem Run_stops_at_error:
  assumes "ro_error (Run env \<lparr>mg_phases = ps, mg_dry_run = dry\<rparr> sink s) = Some e"
  shows "Run env \<lparr>mg_phases = ps @ qs, mg_dry_run = dry\<rparr> sink s =
     (Run env \<lparr>mg_phases = ps, mg_dry_run = dry\<rparr> sink s)
       \<lparr>ro_status := ro_status (Run env \<lparr>mg_phases = ps @ qs, mg_dry_run = dry\<rparr> sink s)\<rparr>"
proof -
  have runs: "map_prod id unstat (run_phases env dry 0 n (ps @ qs) (start_state s1)) =
      map_prod id unstat (run_phases env dry 0 m ps (start_state s1))"
    if "fst (run_phases env dry 0 m ps (start_state s1)) \<noteq> None" for n m s1
  proof -
    have u: "map_prod id unstat (run_phases env dry 0 n ps (start_state s1)) =
        map_prod id unstat (run_phases env dry 0 m ps (start_state s1))"
      using run_phases_unstat [of env dry 0 n ps "start_state s1" 0 m] by (simp add: unstat_def start_state_def)
    then have "fst (run_phases env dry 0 n ps (start_state s1)) \<noteq> None"
      using that by (metis fst_map_prod id_apply)
    with u show ?thesis
      by (auto simp: run_phases_append split: prod.splits option.splits)
  qed
  have collect: "collectResult s1 a = collectResult s1 b" "rs_ran a = rs_ran b" "rs_world a = rs_world b"
      "rs_warnings a = rs_warnings b" if "unstat a = unstat b" for s1 and a b :: "'a run_state"
    using that by (cases a; cases b; simp add: collectResult_def unstat_def)+
  show ?thesis
  proof (cases "env_has_config env s \<and> fst (env_set_defaults env s) = None")
    case False
    then show ?thesis by (auto simp: Run_def stopped_def split: prod.splits option.splits)
  next
    case True
    then obtain s1 where d: "env_has_config env s" "env_set_defaults env s = (None, s1)"
      by (metis prod.collapse)
    obtain f a where a: "run_phases env dry 0 (length ps) ps (start_state s1) = (f, a)" by fastforce
    obtain g b where b: "run_phases env dry 0 (length (ps @ qs)) (ps @ qs) (start_state s1) = (g, b)" by fastforce
    from assms d a have f: "f = Some e" by (auto simp: Run_def Let_def)
    with runs [of "length ps" s1 "length (ps @ qs)"] a b have g: "g = Some e" and ab: "unstat b = unstat a"
      by auto
    from collect [OF ab] d a b f g show ?thesis by (simp add: Run_def Let_def)
  qed
qed

definition failing_phase :: "nat phase" where
  "failing_phase = plain_phase ''fail'' (\<lambda>s. (Some ''boom'', s + 10))"

lemma Run_stops_at_error_witness:
  "ro_world (Run sample_env \<lparr>mg_phases = [failing_phase] @ sample_phases, mg_dry_run = False\<rparr> None 7) = 17"
proof -
  have "ro_error (Run sample_env \<lparr>mg_phases = [failing_phase], mg_dry_run = False\<rparr> None 7) = Some (PhaseFailed ''boom'')"
    and w: "ro_world (Run sample_env \<lparr>mg_phases = [failing_phase], mg_dry_run = False\<rparr> None 7) = 17"
    by code_simp+
  from arg_cong [OF Run_stops_at_error [OF this(1), of sample_phases], of ro_world] w
  show ?thesis by simp
qed

text \<open>Clean-up belongs to failure: giving the phases any other clean-up changes nothing of a
  run that succeeds, and of one that fails it changes the world alone, never the error, the
  published result or the recap.\<close>

theorem Run_clean_up_on_failure:
  fixes g :: "'s phase \<Rightarrow> ('s \<Rightarrow> 's) option"
  defines "swap \<equiv> \<lambda>p. p\<lparr>ph_cleanup := g p\<rparr>"
  shows "Run env (m\<lparr>mg_phases := map swap (mg_phases m)\<rparr>) sink s =
    (Run env m sink s)\<lparr>ro_world :=
       (if ro_error (Run env m sink s) = None then ro_world (Run env m sink s)
        else ro_world (Run env (m\<lparr>mg_phases := map swap (mg_phases m)\<rparr>) sink s))\<rparr>"
proof -
  have alike: "\<forall>p. alike (mg_dry_run m) p (swap p)"
    by (simp add: alike_def swap_def)
  from Run_alike [OF alike, of env sink s] show ?thesis
    by (intro run_outcome.equality) simp_all
qed

definition turn_status :: "'s phase \<Rightarrow> nat \<Rightarrow> nat \<Rightarrow> string \<Rightarrow> run_error option \<Rightarrow> heartbeat option" where
  "turn_status p i n status e =
     Some \<lparr>hb_phase = ph_title p, hb_index = i, hb_total = n, hb_status = status, hb_error = e\<rparr>"

lemma execute_phase_status:
  "execute_phase env dry i n p st = (Some e, st') \<Longrightarrow>
   rs_status st' = rs_status st \<or> rs_status st' = turn_status p i n ''failed'' (Some e)"
  unfolding execute_phase_def wet_phase_def dry_phase_def turn_status_def
  by (auto simp: Let_def beat_def split: prod.splits option.splits bool.splits)

lemma run_phase_status:
  assumes "run_phase env dry i n p st = (Some e, st')"
  shows "rs_status st' = turn_status p i n ''running'' None \<or>
    rs_status st' = turn_status p i n ''failed'' (Some e)"
proof -
  have beat: "rs_status (beat (ph_title p) i n t x st) = turn_status p i n t x" for t x and st :: "'a run_state"
    by (simp add: beat_def turn_status_def)
  let ?st = "beat (ph_title p) i n ''running'' None st"
  obtain f w where prep: "call (ph_prepare p) (set_manager p (rs_world st)) = (f, w)" by fastforce
  show ?thesis
  proof (cases "env_ctx_err env (rs_world st) = None \<and> f = None \<and> should_run p w \<and> \<not> skipUnderDryRun dry p")
    case True
    with assms prep have "execute_phase env dry i n p (?st\<lparr>rs_world := w\<rparr>) = (Some e, st')"
      by (simp add: run_phase_def Let_def)
    from execute_phase_status [OF this] show ?thesis by (simp add: beat)
  next
    case False
    with assms prep show ?thesis
      by (auto simp: run_phase_def Let_def beat split: option.splits if_splits)
  qed
qed

lemma run_phases_status:
  "run_phases env dry i n ps st = (Some e, st') \<Longrightarrow>
   \<exists>k < length ps. rs_status st' = turn_status (ps ! k) (i + k + 1) n ''running'' None \<or>
     rs_status st' = turn_status (ps ! k) (i + k + 1) n ''failed'' (Some e)"
proof (induction ps arbitrary: i st)
  case (Cons p ps)
  obtain f a where one: "run_phase env dry (i + 1) n p st = (f, a)" by fastforce
  show ?case
  proof (cases f)
    case None
    with Cons.prems one have "run_phases env dry (i + 1) n ps a = (Some e, st')" by simp
    from Cons.IH [OF this] obtain k where k: "k < length ps"
      "rs_status st' = turn_status (ps ! k) (i + 1 + k + 1) n ''running'' None \<or>
       rs_status st' = turn_status (ps ! k) (i + 1 + k + 1) n ''failed'' (Some e)"
      by blast
    have "Suc k < length (p # ps)" "(p # ps) ! Suc k = ps ! k" "i + 1 + k + 1 = i + Suc k + 1"
      using k(1) by simp_all
    with k(2) show ?thesis by metis
  next
    case (Some x)
    with Cons.prems one have "run_phase env dry (i + 1) n p st = (Some e, st')" by simp
    from run_phase_status [OF this] show ?thesis by (intro exI [of _ 0]) simp
  qed
qed simp

text \<open>A failing run says where it stopped: the status file it leaves names the phase whose
  turn it was, counted from one among all the phases, and reads either failed, with the error
  the run returned, or running, with none.\<close>

theorem Run_failure_status:
  assumes "ro_result (Run env m sink s) = Some res" and "ro_error (Run env m sink s) = Some e"
  shows "\<exists>k hb. k < length (mg_phases m) \<and> ro_status (Run env m sink s) = Some hb \<and>
     hb_phase hb = titles_of m ! k \<and> hb_index hb = k + 1 \<and> hb_total hb = length (mg_phases m) \<and>
     (hb_status hb = ''failed'' \<longleftrightarrow> hb_error hb = Some e) \<and>
     (hb_status hb = ''running'' \<longleftrightarrow> hb_error hb = None)"
proof -
  from Run_cases [OF assms(1)] obtain s1 err st where
    run: "run_phases env (mg_dry_run m) 0 (length (mg_phases m)) (mg_phases m) (start_state s1) = (err, st)"
    and "ro_error (Run env m sink s) = err"
    and "ro_status (Run env m sink s) = (if err = None then None else rs_status st)"
    by metis
  with assms(2) have "err = Some e" "ro_status (Run env m sink s) = rs_status st" by auto
  with run_phases_status [of env "mg_dry_run m" 0 "length (mg_phases m)" "mg_phases m" "start_state s1" e st] run
  obtain k where "k < length (mg_phases m)"
    "ro_status (Run env m sink s) = turn_status (mg_phases m ! k) (k + 1) (length (mg_phases m)) ''running'' None \<or>
     ro_status (Run env m sink s) = turn_status (mg_phases m ! k) (k + 1) (length (mg_phases m)) ''failed'' (Some e)"
    by auto
  then show ?thesis by (intro exI [of _ k]) (auto simp: titles_of_def turn_status_def)
qed

definition unready_phase :: "nat phase" where
  "unready_phase = (plain_phase ''unready'' (\<lambda>s. (None, s)))\<lparr>ph_prepare := Some (\<lambda>s. (Some ''no controller'', s))\<rparr>"

definition unready_manager :: "nat manager" where
  "unready_manager = \<lparr>mg_phases = sample_phases @ [unready_phase], mg_dry_run = False\<rparr>"

lemma Run_failure_status_witness:
  "\<exists>k hb. k < length (mg_phases unready_manager) \<and>
     ro_status (Run sample_env unready_manager None 0) = Some hb \<and>
     hb_phase hb = titles_of unready_manager ! k \<and> hb_index hb = k + 1 \<and>
     hb_total hb = length (mg_phases unready_manager) \<and>
     (hb_status hb = ''failed'' \<longleftrightarrow> hb_error hb = Some (PhaseFailed ''no controller'')) \<and>
     (hb_status hb = ''running'' \<longleftrightarrow> hb_error hb = None)"
proof -
  have "ro_result (Run sample_env unready_manager None 0) = Some (the (ro_result (Run sample_env unready_manager None 0)))"
    "ro_error (Run sample_env unready_manager None 0) = Some (PhaseFailed ''no controller'')"
    by code_simp+
  from Run_failure_status [OF this] show ?thesis .
qed

text \<open>A phase that fails in its preparation leaves the status at running.\<close>

lemma Run_prepare_failure_running:
  "ro_error (Run sample_env unready_manager None 0) = Some (PhaseFailed ''no controller'') \<and>
   map_option hb_status (ro_status (Run sample_env unready_manager None 0)) = Some ''running''"
  by code_simp

text \<open>The roll-up per host: \<open>HostSummaries\<close> lists each host some phase named once, in the
  order the run first named them, with how many times it was named, whether any phase said it
  changed it, and how many phases report per host at all.\<close>

theorem HostSummaries_rollup:
  "HostSummaries r =
     map (roll_up (length (filter pr_hosts_declared (groups r))) (all_changes r))
       (first_seen (map hc_host (all_changes r)))"
  by (rule summaries_rolled_up)

text \<open>The signal beside a changed answer: it reads complete exactly when every phase the run
  reached declared whether it changed anything, and the titles it otherwise owes are the
  undeclared ones in the order the run reached them.\<close>

theorem Signal_complete_iff:
  "(Signal r = SignalComplete) = list_all pr_declared (groups r) \<and> Signal r \<noteq> SignalUnknown \<and>
   Undeclared r = Titles (filter (\<lambda>p. \<not> pr_declared p) (groups r))"
  by (auto simp: Signal_def Complete_def Undeclared_def Titles_def SignalComplete_def SignalPartial_def
      SignalUnknown_def list_all_iff filter_empty_conv)

text \<open>The recorder phases embed reports what the phase told it: after any calls it lists
  each host mentioned once with everything recorded about it in order, sorted by address, and
  it says something changed exactly when one of the calls said so.\<close>

theorem hostChanges_report:
  "set (HostsChanged (fold (apply_op address) ops [])) = entry_of address ops ` op_host ` set ops \<and>
   length (HostsChanged (fold (apply_op address) ops [])) = card (op_host ` set ops) \<and>
   sorted (map hc_host (HostsChanged (fold (apply_op address) ops []))) \<and>
   changes_Changed (fold (apply_op address) ops []) = list_ex op_changes ops"
proof -
  have keys: "fst ` set (fold (apply_op address) ops c) = fst ` set c \<union> op_host ` set ops" for c
  proof (induction ops arbitrary: c)
    case (Cons x xs)
    have "fst ` set (apply_op address x c) = insert (op_host x) (fst ` set c)"
      using keys_apply_op [of address x c] by (auto simp flip: set_map split: if_splits)
    with Cons show ?case by auto
  qed simp
  have "length (fold (apply_op address) ops []) = card (op_host ` set ops)"
    using keys_recorded [of address ops "[]"] keys [of "[]"] distinct_card
    by (metis distinct.simps(1) image_empty length_map list.set(1) list.set_map list.simps(8) sup_bot_left)
  then show ?thesis
    using recorder.report_recorded [of address ops] recorder.changed_recorded [of address ops]
    by (simp add: recorder.recorded_def HostsChanged_def)
qed

text \<open>The sink flattens the runs of a context, in order, for the phases they ran, planned
  and skipped, and notes that it observed one; it keeps no warning of any run, so a caller
  that reads the sink sees none however many the runs published.\<close>

theorem sink_collects:
  "(let s = fold publish rs WithResultSink in
    sink_observed s = (rs \<noteq> []) \<and>
    rr_ran (sink_result s) = concat (map rr_ran rs) \<and>
    rr_planned (sink_result s) = concat (map rr_planned rs) \<and>
    rr_skipped (sink_result s) = concat (map rr_skipped rs) \<and>
    rr_warnings (sink_result s) = [])"
  by (induction rs rule: rev_induct)
    (auto simp: Let_def WithResultSink_def empty_result_def publish_def RunResult_merge_def)

end
