(* ===== verification/Host_Lock.thy ===== *)
theory Host_Lock
  imports Retry Phase_Manager
begin

section \<open>The host lock\<close>

text \<open>
  Models \<open>pkg/phase/91_lock.go\<close> and \<open>pkg/phase/92_unlock.go\<close>: the attempt to take the lock file of a
  host, the retries around it, the periodic touch and the release, the Lock and Unlock phases
  built from them, and the interleaving of several cargoship instances on one host at the
  granularity of single file operations. The file system of a host is one lock file or none;
  each operation on it may fail, which a record of faults says. Times are in seconds.
\<close>

subsection \<open>One attempt\<close>

record lock_file =
  lf_content :: string
  lf_mtime :: int

record lock_faults =
  open_err :: "string option"
  stat_err :: "string option"
  read_err :: "string option"
  write_err :: "string option"
  close_err :: "string option"
  delete_err :: "string option"

definition no_faults :: lock_faults where
  "no_faults = \<lparr>open_err = None, stat_err = None, read_err = None, write_err = None,
     close_err = None, delete_err = None\<rparr>"

datatype lock_error =
    CreateFailed string
  | Disappeared string
  | ReadFailed string
  | HeldByOther
  | DeleteFailed string
  | WriteFailed string
  | CloseFailed string

definition delete_lock :: "lock_faults \<Rightarrow> lock_file option \<Rightarrow> lock_error option \<times> lock_file option" where
  "delete_lock fl f = (case delete_err fl of None \<Rightarrow> (None, None) | Some e \<Rightarrow> (Some (DeleteFailed e), f))"

text \<open>The branch for a lock file that is there: ours, another's that is fresh, or a stale one.\<close>

definition existing_lock ::
  "lock_faults \<Rightarrow> string \<Rightarrow> int \<Rightarrow> lock_file \<Rightarrow> lock_error option \<times> lock_file option"
where
  "existing_lock fl instanceID now lf =
     (case stat_err fl of
        Some e \<Rightarrow> (Some (Disappeared e), Some lf)
      | None \<Rightarrow>
          (case read_err fl of
             Some e \<Rightarrow> (Some (ReadFailed e), Some lf)
           | None \<Rightarrow>
               if lf_content lf \<noteq> instanceID then
                 (if now - lf_mtime lf < 30 then (Some HeldByOther, Some lf)
                  else delete_lock fl (Some lf))
               else (None, Some lf)))"

definition tryLock ::
  "lock_faults \<Rightarrow> string \<Rightarrow> int \<Rightarrow> lock_file option \<Rightarrow> lock_error option \<times> lock_file option"
where
  "tryLock fl instanceID now f =
     (case open_err fl of
        Some e \<Rightarrow> (Some (CreateFailed e), f)
      | None \<Rightarrow>
          (case f of
             Some lf \<Rightarrow> existing_lock fl instanceID now lf
           | None \<Rightarrow>
               (let created = Some \<lparr>lf_content = [], lf_mtime = now\<rparr> in
                case write_err fl of
                  Some e \<Rightarrow> (Some (WriteFailed e), snd (delete_lock fl created))
                | None \<Rightarrow>
                    (let written = Some \<lparr>lf_content = instanceID, lf_mtime = now\<rparr> in
                     case close_err fl of
                       Some e \<Rightarrow> (Some (CloseFailed e), snd (delete_lock fl written))
                     | None \<Rightarrow> (None, written)))))"

subsection \<open>The phases\<close>

text \<open>The world of one cargoship run: the lock file of every host, the hosts whose lock file a
  ticker of this run looks after, and the clock.\<close>

record lock_world =
  lw_hosts :: "string list"
  lw_files :: "string \<Rightarrow> lock_file option"
  lw_tickers :: "string list"
  lw_instance :: string
  lw_now :: int

definition try_host :: "lock_faults \<Rightarrow> string \<Rightarrow> lock_world \<Rightarrow> lock_error option \<times> lock_world" where
  "try_host fl h w =
     (case tryLock fl (lw_instance w) (lw_now w) (lw_files w h) of
        (e, f) \<Rightarrow> (e, w\<lparr>lw_files := (lw_files w)(h := f)\<rparr>))"

text \<open>The retry waits for 15 seconds between two attempts; no lock error aborts it.\<close>

definition lock_env :: "(lock_world, lock_error) retry_env" where
  "lock_env = \<lparr>re_ctx_done = \<lambda>_. False, re_wait = \<lambda>w. (Tick, w\<lparr>lw_now := lw_now w + 15\<rparr>),
     re_is_abort = \<lambda>_. False\<rparr>"

lemma lock_env_simps [simp]:
  "re_wait lock_env w = (Tick, w\<lparr>lw_now := lw_now w + 15\<rparr>)" "re_is_abort lock_env e = False"
  by (simp_all add: lock_env_def)

definition startLock :: "lock_faults \<Rightarrow> string \<Rightarrow> lock_world \<Rightarrow> lock_error retry_error option \<times> lock_world" where
  "startLock fl h w = Times lock_env 10 (try_host fl h) w"

definition startTicker :: "string \<Rightarrow> lock_world \<Rightarrow> lock_world" where
  "startTicker h w = w\<lparr>lw_tickers := lw_tickers w @ [h]\<rparr>"

text \<open>A tick touches the file, creating it when it is gone; the end of the ticker deletes it.\<close>

definition touch_lock :: "string \<Rightarrow> lock_world \<Rightarrow> lock_world" where
  "touch_lock h w =
     w\<lparr>lw_files := (lw_files w)(h :=
        (case lw_files w h of
           None \<Rightarrow> Some \<lparr>lf_content = [], lf_mtime = lw_now w\<rparr>
         | Some lf \<Rightarrow> Some (lf\<lparr>lf_mtime := lw_now w\<rparr>)))\<rparr>"

definition Cancel :: "lock_world \<Rightarrow> lock_world" where
  "Cancel w =
     w\<lparr>lw_files := foldl (\<lambda>files h. files(h := None)) (lw_files w) (lw_tickers w), lw_tickers := []\<rparr>"

fun lock_all :: "lock_faults \<Rightarrow> string list \<Rightarrow> nat \<Rightarrow> lock_world \<Rightarrow> nat \<times> lock_world" where
  "lock_all fl [] failed w = (failed, w)"
| "lock_all fl (h # hs) failed w =
     (case startLock fl h w of
        (e, w') \<Rightarrow> lock_all fl hs (if e = None then failed else failed + 1) w')"

definition Lock_Run :: "lock_faults \<Rightarrow> lock_world \<Rightarrow> string option \<times> lock_world" where
  "Lock_Run fl w =
     (case lock_all fl (lw_hosts w) 0 w of
        (failed, w') \<Rightarrow>
          if failed > 0 then (Some ''failed on hosts'', w')
          else (None, foldl (\<lambda>w h. startTicker h w) w' (lw_hosts w)))"

text \<open>The phases as the manager sees them. \<open>Lock.CleanUp\<close> takes no context, so Lock does not
  implement the interface the manager asks for at the end of a failed run: the field is
  \<open>None\<close>.\<close>

definition Lock :: "lock_faults \<Rightarrow> lock_world phase" where
  "Lock fl =
     \<lparr>ph_title = ''Acquire exclusive host lock'',
      ph_explanation = ''Runs a background task that touches a file every 30 seconds on each remote node. This prevents other `cargoships` from making any changes until the lock file has not been touched for over a minute'',
      ph_set_manager = Some id, ph_prepare = Some (\<lambda>w. (None, w)), ph_should_run = None,
      ph_before = None, ph_run = Lock_Run fl, ph_after = None, ph_dry_run = None,
      ph_read_only = None, ph_changed = None, ph_hosts_changed = None, ph_warnings = None,
      ph_cleanup = None\<rparr>"

definition Unlock :: "lock_world phase" where
  "Unlock =
     \<lparr>ph_title = ''Release exclusive host lock'',
      ph_explanation = ''Deletes the lock file from each node, allowing other `cargoships` to run'',
      ph_set_manager = Some id, ph_prepare = Some (\<lambda>w. (None, w)), ph_should_run = None,
      ph_before = None, ph_run = (\<lambda>w. (None, Cancel w)), ph_after = None, ph_dry_run = None,
      ph_read_only = None, ph_changed = None, ph_hosts_changed = None, ph_warnings = None,
      ph_cleanup = None\<rparr>"

subsection \<open>Several instances on one host\<close>

text \<open>Where an instance stands between two file operations: not trying, its file created but not
  written, a file found, its age read, its content read, a stale file about to be deleted,
  the lock taken.\<close>

datatype lock_pc =
    Out
  | Created
  | Found
  | Aged int
  | Decided int string
  | Expired
  | Inside

record lock_sys =
  ls_file :: "lock_file option"
  ls_now :: int
  ls_pc :: "string \<Rightarrow> lock_pc"

definition at_pc :: "lock_sys \<Rightarrow> string \<Rightarrow> lock_pc \<Rightarrow> lock_sys" where
  "at_pc s i p = s\<lparr>ls_pc := (ls_pc s)(i := p)\<rparr>"

text \<open>One step of instance \<open>i\<close>, or of the clock. The flag says whether it is the step that declares
  another's file stale. An identifier is a host name and a process number, never empty.\<close>

inductive lock_step :: "bool \<Rightarrow> lock_sys \<Rightarrow> lock_sys \<Rightarrow> bool" where
  create: "ls_pc s i = Out \<Longrightarrow> i \<noteq> [] \<Longrightarrow> ls_file s = None \<Longrightarrow>
    lock_step False s ((at_pc s i Created)\<lparr>ls_file := Some \<lparr>lf_content = [], lf_mtime = ls_now s\<rparr>\<rparr>)"
| found: "ls_pc s i = Out \<Longrightarrow> i \<noteq> [] \<Longrightarrow> ls_file s = Some lf \<Longrightarrow> lock_step False s (at_pc s i Found)"
| stat: "ls_pc s i = Found \<Longrightarrow> ls_file s = Some lf \<Longrightarrow>
    lock_step False s (at_pc s i (Aged (lf_mtime lf)))"
| stat_gone: "ls_pc s i = Found \<Longrightarrow> ls_file s = None \<Longrightarrow> lock_step False s (at_pc s i Out)"
| read: "ls_pc s i = Aged m \<Longrightarrow> ls_file s = Some lf \<Longrightarrow>
    lock_step False s (at_pc s i (Decided m (lf_content lf)))"
| read_gone: "ls_pc s i = Aged m \<Longrightarrow> ls_file s = None \<Longrightarrow> lock_step False s (at_pc s i Out)"
| own: "ls_pc s i = Decided m c \<Longrightarrow> c = i \<Longrightarrow> lock_step False s (at_pc s i Inside)"
| busy: "ls_pc s i = Decided m c \<Longrightarrow> c \<noteq> i \<Longrightarrow> ls_now s - m < 30 \<Longrightarrow> lock_step False s (at_pc s i Out)"
| expire: "ls_pc s i = Decided m c \<Longrightarrow> c \<noteq> i \<Longrightarrow> \<not> ls_now s - m < 30 \<Longrightarrow>
    lock_step True s (at_pc s i Expired)"
| delete: "ls_pc s i = Expired \<Longrightarrow> lock_step False s ((at_pc s i Inside)\<lparr>ls_file := None\<rparr>)"
| fill: "ls_pc s i = Created \<Longrightarrow> ls_file s = Some lf \<Longrightarrow>
    lock_step False s ((at_pc s i Inside)\<lparr>ls_file := Some (lf\<lparr>lf_content := i\<rparr>)\<rparr>)"
| fill_fails: "ls_pc s i = Created \<Longrightarrow> lock_step False s ((at_pc s i Out)\<lparr>ls_file := None\<rparr>)"
| touch: "ls_pc s i = Inside \<Longrightarrow>
    lock_step False s (s\<lparr>ls_file := (case ls_file s of
        None \<Rightarrow> Some \<lparr>lf_content = [], lf_mtime = ls_now s\<rparr>
      | Some lf \<Rightarrow> Some (lf\<lparr>lf_mtime := ls_now s\<rparr>))\<rparr>)"
| release: "ls_pc s i = Inside \<Longrightarrow> lock_step False s ((at_pc s i Out)\<lparr>ls_file := None\<rparr>)"
| tick: "0 < d \<Longrightarrow> lock_step False s (s\<lparr>ls_now := ls_now s + d\<rparr>)"

definition lock_init :: "lock_sys \<Rightarrow> bool" where
  "lock_init s \<longleftrightarrow> ls_file s = None \<and> (\<forall>i. ls_pc s i = Out)"

text \<open>Reachable by any steps, and reachable without a file ever having been declared stale.\<close>

inductive lock_reach :: "bool \<Rightarrow> lock_sys \<Rightarrow> bool" where
  init: "lock_init s \<Longrightarrow> lock_reach b s"
| step: "lock_reach b s \<Longrightarrow> lock_step x s s' \<Longrightarrow> (x \<Longrightarrow> b) \<Longrightarrow> lock_reach b s'"

inductive_cases lock_step_cases: "lock_step x s s'"

subsection \<open>Mutual exclusion while locks stay fresh\<close>

definition owns :: "lock_sys \<Rightarrow> string \<Rightarrow> bool" where
  "owns s i \<longleftrightarrow> ls_pc s i = Created \<or> ls_pc s i = Inside"

text \<open>\<open>w\<close> is the instance that has created the file, if any. An instance that read another's
  content knows it is not its own.\<close>

definition inv_with :: "string option \<Rightarrow> lock_sys \<Rightarrow> bool" where
  "inv_with w s \<longleftrightarrow>
     (\<forall>i. owns s i \<longleftrightarrow> w = Some i) \<and>
     (case w of
        None \<Rightarrow> ls_file s = None
      | Some i \<Rightarrow> i \<noteq> [] \<and> (\<exists>t. ls_file s = Some \<lparr>lf_content = (if ls_pc s i = Inside then i else []), lf_mtime = t\<rparr>)) \<and>
     (\<forall>i. ls_pc s i \<noteq> Expired) \<and> (\<forall>i. i \<noteq> [] \<or> ls_pc s i = Out) \<and>
     (\<forall>i m c. ls_pc s i = Decided m c \<longrightarrow> c \<noteq> i)"

lemma at_pc_simps [simp]:
  "ls_file (at_pc s i p) = ls_file s" "ls_now (at_pc s i p) = ls_now s"
  "ls_pc (at_pc s i p) = (ls_pc s)(i := p)"
  by (simp_all add: at_pc_def)

lemma inv_with_init: "lock_init s \<Longrightarrow> inv_with None s"
  by (auto simp: lock_init_def inv_with_def owns_def)

text \<open>Moving an instance that owns nothing to a place where it owns nothing.\<close>

lemma inv_with_move:
  assumes "inv_with w s" "\<not> owns s i" "p \<noteq> Created" "p \<noteq> Inside" "p \<noteq> Expired"
    "i \<noteq> []" "\<And>m c. p = Decided m c \<Longrightarrow> c \<noteq> i"
  shows "inv_with w (at_pc s i p)"
proof -
  have o: "owns (at_pc s i p) j = owns s j" for j
    using assms(2-4) by (simp add: owns_def)
  have "w \<noteq> Some i" using assms(1,2) by (simp add: inv_with_def)
  then show ?thesis
    using assms(1,5-7) unfolding inv_with_def o by (cases w) simp_all
qed

lemma inv_with_file: "inv_with w s \<Longrightarrow> ls_file s = Some lf \<Longrightarrow> \<not> owns s i \<Longrightarrow> i \<noteq> [] \<Longrightarrow> lf_content lf \<noteq> i"
proof (cases w)
  case (Some k)
  assume a: "inv_with w s" "ls_file s = Some lf" "\<not> owns s i" "i \<noteq> []"
  then have "k \<noteq> i" "lf_content lf = (if ls_pc s k = Inside then k else [])"
    using Some by (auto simp: inv_with_def)
  with a(4) show ?thesis by simp
qed (simp add: inv_with_def)

lemma inv_with_pc: "inv_with w s \<Longrightarrow> ls_pc s i \<noteq> Out \<Longrightarrow> i \<noteq> []"
  by (auto simp: inv_with_def)

lemma inv_with_owner: "inv_with w s \<Longrightarrow> owns s i \<Longrightarrow> w = Some i"
  by (simp add: inv_with_def)

text \<open>The owner moves, to where it still owns the file or to nowhere with the file gone.\<close>

lemma inv_with_owner_moves:
  assumes "inv_with (Some i) s"
  shows "inv_with (Some i) ((at_pc s i Inside)\<lparr>ls_file := Some \<lparr>lf_content = i, lf_mtime = t\<rparr>\<rparr>)"
    and "inv_with None ((at_pc s i Out)\<lparr>ls_file := None\<rparr>)"
  using assms by (auto simp: inv_with_def owns_def)

lemma inv_with_content:
  assumes "inv_with (Some i) s" "ls_file s = Some lf"
  shows "lf_content lf = (if ls_pc s i = Inside then i else [])"
  using assms by (auto simp: inv_with_def)

lemma inv_with_step:
  assumes "lock_step x s s'" "\<not> x" "inv_with w s"
  shows "\<exists>w'. inv_with w' s'"
  using assms(1)
proof cases
  case (create i)
  with assms(3) have "inv_with (Some i) s'"
    by (auto simp: inv_with_def owns_def split: option.splits)
  then show ?thesis ..
next
  case (found i lf)
  with inv_with_move [OF assms(3), of i Found] show ?thesis by (auto simp: owns_def)
next
  case (stat i lf)
  with inv_with_move [OF assms(3), of i "Aged (lf_mtime lf)"] inv_with_pc [OF assms(3), of i]
  show ?thesis by (auto simp: owns_def)
next
  case (stat_gone i)
  with inv_with_move [OF assms(3), of i Out] inv_with_pc [OF assms(3), of i]
  show ?thesis by (auto simp: owns_def)
next
  case (read i m lf)
  with inv_with_move [OF assms(3), of i "Decided m (lf_content lf)"] inv_with_pc [OF assms(3), of i]
    inv_with_file [OF assms(3), of lf i]
  show ?thesis by (auto simp: owns_def)
next
  case (read_gone i m)
  with inv_with_move [OF assms(3), of i Out] inv_with_pc [OF assms(3), of i]
  show ?thesis by (auto simp: owns_def)
next
  case (own i m c)
  with assms(3) have False unfolding inv_with_def by blast
  then show ?thesis ..
next
  case (busy i m c)
  with inv_with_move [OF assms(3), of i Out] inv_with_pc [OF assms(3), of i]
  show ?thesis by (auto simp: owns_def)
next
  case (delete i)
  with assms(3) have False unfolding inv_with_def by blast
  then show ?thesis ..
next
  case (fill i lf)
  then have "w = Some i" using inv_with_owner [OF assms(3), of i] by (simp add: owns_def)
  with inv_with_owner_moves(1) [of i s "lf_mtime lf"] fill assms(3)
  have "inv_with (Some i) s'" by (cases lf) simp
  then show ?thesis ..
next
  case (fill_fails i)
  then have "w = Some i" using inv_with_owner [OF assms(3), of i] by (simp add: owns_def)
  with inv_with_owner_moves(2) [of i s] fill_fails assms(3) show ?thesis by auto
next
  case (touch i)
  then have w: "w = Some i" using inv_with_owner [OF assms(3), of i] by (simp add: owns_def)
  with assms(3) obtain lf where lf: "ls_file s = Some lf" by (auto simp: inv_with_def)
  with w assms(3) touch have "lf_content lf = i" using inv_with_content [of i s lf] by simp
  moreover have "at_pc s i Inside = s" using touch by (simp add: at_pc_def fun_upd_idem)
  ultimately have "inv_with (Some i) s'"
    using inv_with_owner_moves(1) [of i s "ls_now s"] touch assms(3) w lf by (cases lf) simp
  then show ?thesis ..
next
  case (release i)
  then have "w = Some i" using inv_with_owner [OF assms(3), of i] by (simp add: owns_def)
  with inv_with_owner_moves(2) [of i s] release assms(3) show ?thesis by auto
next
  case (tick d)
  with assms(3) have "inv_with w s'" by (cases w) (simp_all add: inv_with_def owns_def)
  then show ?thesis ..
qed (use assms(2) in simp)

lemma fresh_reach_inv: "lock_reach b s \<Longrightarrow> \<not> b \<Longrightarrow> \<exists>w. inv_with w s"
proof (induction rule: lock_reach.induct)
  case (init s b)
  then show ?case using inv_with_init by blast
next
  case (step b s x s')
  then show ?case using inv_with_step by blast
qed

definition lock_path :: "lock_sys \<Rightarrow> lock_sys \<Rightarrow> bool" where
  "lock_path = (\<lambda>s s'. \<exists>x. lock_step x s s')\<^sup>*\<^sup>*"

lemma lock_path_step: "lock_step x s s1 \<Longrightarrow> lock_path s1 s' \<Longrightarrow> lock_path s s'"
  unfolding lock_path_def by (blast intro: converse_rtranclp_into_rtranclp)

lemma lock_path_refl: "lock_path s s"
  by (simp add: lock_path_def)

subsection \<open>Properties\<close>


definition lock_start :: lock_sys where
  "lock_start = \<lparr>ls_file = None, ls_now = 0, ls_pc = \<lambda>_. Out\<rparr>"

definition lock_taken :: lock_sys where
  "lock_taken = \<lparr>ls_file = Some \<lparr>lf_content = ''h-1'', lf_mtime = 0\<rparr>, ls_now = 0,
     ls_pc = (\<lambda>_. Out)(''h-1'' := Inside)\<rparr>"

lemma lock_taken_reach: "lock_reach False lock_taken"
proof -
  have "lock_reach False lock_start" by (rule init) (simp add: lock_init_def lock_start_def)
  moreover have "lock_step False lock_start
      ((at_pc lock_start ''h-1'' Created)\<lparr>ls_file := Some \<lparr>lf_content = [], lf_mtime = 0\<rparr>\<rparr>)"
    using lock_step.create [of lock_start "''h-1''"] by (simp add: lock_start_def)
  ultimately have r: "lock_reach False
      ((at_pc lock_start ''h-1'' Created)\<lparr>ls_file := Some \<lparr>lf_content = [], lf_mtime = 0\<rparr>\<rparr>)"
    by (rule lock_reach.step) simp
  show ?thesis
    using lock_reach.step [OF r lock_step.fill [of _ "''h-1''"]]
    by (simp add: lock_taken_def lock_start_def at_pc_def)
qed




text \<open>Taking over a stale lock does not take it: when a lock file is 30 seconds old or older,
  the instance that finds it is told it has the lock while no lock file is left on the host,
  so the next instance to try gets the lock as well, at once.\<close>

theorem tryLock_stale_not_exclusive:
  assumes "30 \<le> now - lf_mtime lf" and "lf_content lf \<noteq> a"
  shows "tryLock no_faults a now (Some lf) = (None, None) \<and>
    tryLock no_faults b now (snd (tryLock no_faults a now (Some lf))) =
      (None, Some \<lparr>lf_content = b, lf_mtime = now\<rparr>)"
  using assms by (simp add: tryLock_def existing_lock_def delete_lock_def no_faults_def Let_def)

lemma tryLock_stale_not_exclusive_witness:
  "tryLock no_faults ''b-2'' 31 (snd (tryLock no_faults ''a-1'' 31 (Some \<lparr>lf_content = ''dead-9'', lf_mtime = 0\<rparr>))) =
     (None, Some \<lparr>lf_content = ''b-2'', lf_mtime = 31\<rparr>)"
  by (rule tryLock_stale_not_exclusive [THEN conjunct2]) simp_all

text \<open>A crashed instance delays but does not block: when nobody touches the lock file any more
  and the operations work, the retries take the lock on every host, at the latest 30 seconds
  after the first attempt.\<close>

theorem startLock_succeeds:
  assumes "lw_files w h = None \<or> (\<exists>lf. lw_files w h = Some lf \<and> lf_mtime lf \<le> lw_now w)"
  shows "fst (startLock no_faults h w) = None \<and> lw_now (snd (startLock no_faults h w)) \<le> lw_now w + 30"
proof (cases "lw_files w h")
  case None
  then show ?thesis
    by (simp add: startLock_def Times_def try_host_def tryLock_def no_faults_def Let_def)
next
  case (Some lf)
  with assms have m: "lf_mtime lf \<le> lw_now w" by simp
  have attempt: "try_host no_faults h v =
      (if lf_content lf \<noteq> lw_instance v \<and> lw_now v - lf_mtime lf < 30 then (Some HeldByOther, v)
       else (None, v\<lparr>lw_files := (lw_files v)(h := if lf_content lf = lw_instance v then Some lf else None)\<rparr>))"
    if "lw_files v h = Some lf" for v
    using that by (auto simp: try_host_def tryLock_def existing_lock_def delete_lock_def no_faults_def fun_upd_idem)
  let ?w1 = "w\<lparr>lw_now := lw_now w + 15\<rparr>" and ?w2 = "w\<lparr>lw_now := lw_now w + 15 + 15\<rparr>"
  have "try_host no_faults h w = (Some HeldByOther, w) \<or> fst (try_host no_faults h w) = None \<and>
      lw_now (snd (try_host no_faults h w)) = lw_now w"
    using attempt [OF Some] by auto
  moreover have "try_host no_faults h ?w1 = (Some HeldByOther, ?w1) \<or> fst (try_host no_faults h ?w1) = None \<and>
      lw_now (snd (try_host no_faults h ?w1)) = lw_now w + 15"
    using attempt [of ?w1] Some by auto
  moreover have "fst (try_host no_faults h ?w2) = None \<and> lw_now (snd (try_host no_faults h ?w2)) = lw_now w + 30"
    using attempt [of ?w2] Some m by auto
  ultimately consider
      (first) v where "try_host no_faults h w = (None, v)" "lw_now v = lw_now w"
    | (second) v where "try_host no_faults h w = (Some HeldByOther, w)" "try_host no_faults h ?w1 = (None, v)"
        "lw_now v = lw_now w + 15"
    | (third) v where "try_host no_faults h w = (Some HeldByOther, w)"
        "try_host no_faults h ?w1 = (Some HeldByOther, ?w1)" "try_host no_faults h ?w2 = (None, v)"
        "lw_now v = lw_now w + 30"
    by (metis prod.collapse)
  then show ?thesis
  proof cases
    case first
    then show ?thesis by (simp add: startLock_def Times_def)
  next
    case second
    then show ?thesis
      by (simp add: startLock_def Times_def times_loop.simps [of lock_env 10 1])
  next
    case third
    then show ?thesis
      by (simp add: startLock_def Times_def times_loop.simps [of lock_env 10 1]
          times_loop.simps [of lock_env 10 2] add.assoc)
  qed
qed

definition crashed_world :: lock_world where
  "crashed_world = \<lparr>lw_hosts = [''a'', ''b''], lw_files = (\<lambda>_. None)(''a'' := Some \<lparr>lf_content = ''dead-9'', lf_mtime = 0\<rparr>),
     lw_tickers = [], lw_instance = ''h-1'', lw_now = 5\<rparr>"

lemma startLock_succeeds_witness:
  "fst (startLock no_faults ''a'' crashed_world) = None"
  using startLock_succeeds [of crashed_world "''a''"] by (simp add: crashed_world_def)

text \<open>The lock phase on hosts whose lock file is free.\<close>

lemma startLock_free:
  "lw_files w h = None \<Longrightarrow>
   startLock no_faults h w = (None, w\<lparr>lw_files := (lw_files w)(h \<mapsto> \<lparr>lf_content = lw_instance w, lf_mtime = lw_now w\<rparr>)\<rparr>)"
  by (simp add: startLock_def Times_def try_host_def tryLock_def no_faults_def Let_def)

lemma lock_all_free:
  "\<forall>h \<in> set hs. lw_files w h = None \<Longrightarrow> distinct hs \<Longrightarrow>
   \<exists>w'. lock_all no_faults hs k w = (k, w') \<and> lw_tickers w' = lw_tickers w \<and> lw_hosts w' = lw_hosts w \<and>
     lw_instance w' = lw_instance w \<and>
     (\<forall>h. lw_files w' h = (if h \<in> set hs then Some \<lparr>lf_content = lw_instance w, lf_mtime = lw_now w\<rparr> else lw_files w h))"
proof (induction hs arbitrary: w)
  case (Cons h hs)
  let ?w1 = "w\<lparr>lw_files := (lw_files w)(h \<mapsto> \<lparr>lf_content = lw_instance w, lf_mtime = lw_now w\<rparr>)\<rparr>"
  from Cons.prems have "\<forall>h \<in> set hs. lw_files ?w1 h = None" "distinct hs" "h \<notin> set hs" by auto
  from Cons.IH [OF this(1,2)] this(3) Cons.prems(1) startLock_free [of w h] show ?case by auto
qed simp

lemma tickers_foldl: "foldl (\<lambda>w h. startTicker h w) w hs = w\<lparr>lw_tickers := lw_tickers w @ hs\<rparr>"
  by (induction hs arbitrary: w) (simp_all add: startTicker_def)

lemma Lock_Run_free:
  assumes "\<forall>h \<in> set (lw_hosts w). lw_files w h = None" "distinct (lw_hosts w)"
  obtains w' where "Lock_Run no_faults w = (None, w')" "lw_tickers w' = lw_tickers w @ lw_hosts w"
    "\<And>h. lw_files w' h = (if h \<in> set (lw_hosts w) then Some \<lparr>lf_content = lw_instance w, lf_mtime = lw_now w\<rparr> else lw_files w h)"
proof -
  from lock_all_free [OF assms, of 0] obtain w1 where
    w1: "lock_all no_faults (lw_hosts w) 0 w = (0, w1)" "lw_tickers w1 = lw_tickers w" "lw_hosts w1 = lw_hosts w"
    and files: "\<forall>h. lw_files w1 h = (if h \<in> set (lw_hosts w) then Some \<lparr>lf_content = lw_instance w, lf_mtime = lw_now w\<rparr> else lw_files w h)"
    by blast
  show ?thesis
    by (rule that [of "w1\<lparr>lw_tickers := lw_tickers w1 @ lw_hosts w\<rparr>"])
      (use w1 files in \<open>simp_all add: Lock_Run_def tickers_foldl\<close>)
qed

lemma clear_files: "foldl (\<lambda>files h. files(h := None)) files hs h = (if h \<in> set hs then None else files h)"
  by (induction hs arbitrary: files) auto

text \<open>A phase in between that fails, or not, without touching the lock.\<close>

definition work_phase :: "string option \<Rightarrow> lock_world phase" where
  "work_phase e = Unlock\<lparr>ph_title := ''work'', ph_run := (\<lambda>w. (e, w))\<rparr>"

definition lock_run_env :: "lock_world env" where
  "lock_run_env = \<lparr>env_ctx_err = \<lambda>_. None, env_clock = \<lambda>w. nat (lw_now w), env_has_config = \<lambda>_. True,
     env_set_defaults = \<lambda>w. (None, w)\<rparr>"

definition locked_run :: "string option \<Rightarrow> lock_world \<Rightarrow> lock_world run_outcome" where
  "locked_run e w =
     Run lock_run_env \<lparr>mg_phases = [Lock no_faults, work_phase e, Unlock], mg_dry_run = False\<rparr> None w"

text \<open>The lock across a run: a run that locks, works and unlocks leaves no lock file of its own
  when the work succeeds; when the work fails every host keeps the lock file and a ticker that
  goes on touching it, because the clean-up of Lock is not one the manager calls.\<close>

theorem Lock_released_only_on_success:
  assumes "\<forall>h \<in> set (lw_hosts w). lw_files w h = None" and "distinct (lw_hosts w)" and "lw_tickers w = []"
    and "h \<in> set (lw_hosts w)"
  shows "lw_files (ro_world (locked_run None w)) h = None \<and> lw_tickers (ro_world (locked_run None w)) = [] \<and>
    ro_error (locked_run (Some e) w) = Some (PhaseFailed e) \<and>
    map_option lf_content (lw_files (ro_world (locked_run (Some e) w)) h) = Some (lw_instance w) \<and>
    h \<in> set (lw_tickers (ro_world (locked_run (Some e) w)))"
proof -
  obtain w' where w': "Lock_Run no_faults w = (None, w')" "lw_tickers w' = lw_tickers w @ lw_hosts w"
    and files: "\<And>h. lw_files w' h = (if h \<in> set (lw_hosts w) then Some \<lparr>lf_content = lw_instance w, lf_mtime = lw_now w\<rparr> else lw_files w h)"
    by (rule Lock_Run_free [OF assms(1,2)]) blast
  have ok: "ro_world (locked_run None w) = Cancel w'"
    using w' by (simp add: locked_run_def Run_def lock_run_env_def start_state_def run_phase_def execute_phase_def
        wet_phase_def Lock_def Unlock_def work_phase_def call_def set_manager_def should_run_def
        skipUnderDryRun_def Let_def beat_def)
  have err: "ro_world (locked_run (Some e) w) = w' \<and> ro_error (locked_run (Some e) w) = Some (PhaseFailed e)"
    using w' by (simp add: locked_run_def Run_def lock_run_env_def start_state_def run_phase_def execute_phase_def
        wet_phase_def Lock_def Unlock_def work_phase_def call_def set_manager_def should_run_def
        skipUnderDryRun_def Let_def beat_def clean_up_def)
  show ?thesis
    using assms(3,4) w'(2) files by (simp add: ok err Cancel_def clear_files)
qed

definition free_world :: lock_world where
  "free_world = crashed_world\<lparr>lw_files := \<lambda>_. None\<rparr>"

lemma Lock_released_only_on_success_witness:
  "lw_files (ro_world (locked_run None free_world)) ''a'' = None \<and>
   ''a'' \<in> set (lw_tickers (ro_world (locked_run (Some ''boom'') free_world)))"
  using Lock_released_only_on_success [of free_world "''a''" "''boom''"]
  by (simp add: free_world_def crashed_world_def)

end
