(* ===== verification/Go_Net.thy ===== *)
theory Go_Net
  imports Cargo_Prelude
begin

section \<open>The parts of Go's net and fmt packages the firewall code calls\<close>

text \<open>
  \<open>net.ParseIP\<close>, \<open>net.ParseCIDR\<close> and \<open>IP.To4\<close>, and the \<open>%q\<close> verb of \<open>fmt\<close>. An address is its
  16-byte form, an IPv4 address the IPv4-mapped one, as \<open>net.IP\<close> holds it. An address with a
  zone is refused, as \<open>net.ParseIP\<close> refuses it.
\<close>

type_synonym ip = "nat list"

subsection \<open>IPv4\<close>

text \<open>An octet: decimal digits without a leading zero, at most 255.\<close>

definition parse_octet :: "string \<Rightarrow> nat option" where
  "parse_octet w =
     (if w = [] \<or> (hd w = CHR ''0'' \<and> length w > 1) then None
      else (case digits_value 10 0 w of None \<Rightarrow> None
            | Some n \<Rightarrow> if n \<le> 255 then Some n else None))"

definition parse_ipv4 :: "string \<Rightarrow> nat list option" where
  "parse_ipv4 s =
     (let ws = map parse_octet (split_on CHR ''.'' s) in
      if length ws = 4 \<and> list_all (\<lambda>w. w \<noteq> None) ws then Some (map the ws) else None)"

definition v4_prefix :: "nat list" where
  "v4_prefix = [0, 0, 0, 0, 0, 0, 0, 0, 0, 0, 255, 255]"

subsection \<open>IPv6\<close>

definition hex_val :: "char \<Rightarrow> nat option" where
  "hex_val c =
     (let b = byte c in
      if 48 \<le> b \<and> b \<le> 57 then Some (b - 48)
      else if 97 \<le> b \<and> b \<le> 102 then Some (b - 87)
      else if 65 \<le> b \<and> b \<le> 70 then Some (b - 55)
      else None)"

text \<open>A group of hex digits at the front: its value, how many there were, the rest.\<close>

fun hex_group :: "nat \<Rightarrow> nat \<Rightarrow> string \<Rightarrow> nat \<times> nat \<times> string" where
  "hex_group acc n [] = (acc, n, [])"
| "hex_group acc n (c # s) =
     (case hex_val c of None \<Rightarrow> (acc, n, c # s) | Some d \<Rightarrow> hex_group (acc * 16 + d) (Suc n) s)"

text \<open>
  The loop of \<open>parseIPv6\<close>: \<open>left\<close> is the number of 16-bit groups still to fill, \<open>out\<close> the
  bytes so far and \<open>ell\<close> where the \<open>::\<close> stood. \<open>None\<close> is every error of the loop.
\<close>

fun v6_loop :: "nat \<Rightarrow> string \<Rightarrow> nat list \<Rightarrow> nat option \<Rightarrow> (string \<times> nat list \<times> nat option) option" where
  "v6_loop 0 s out ell = Some (s, out, ell)"
| "v6_loop (Suc left) s out ell =
     (case hex_group 0 0 s of (acc, n, s') \<Rightarrow>
        if n = 0 \<or> n > 4 then None
        else if s' \<noteq> [] \<and> hd s' = CHR ''.'' then
          (if (ell = None \<and> length out \<noteq> 12) \<or> length out + 4 > 16 then None
           else (case parse_ipv4 s of None \<Rightarrow> None | Some q \<Rightarrow> Some ([], out @ q, ell)))
        else
          (let out' = out @ [acc div 256, acc mod 256] in
           case s' of
             [] \<Rightarrow> Some ([], out', ell)
           | c # t \<Rightarrow>
               if c \<noteq> CHR '':'' \<or> t = [] then None
               else if hd t = CHR '':'' then
                 (if ell \<noteq> None then None
                  else if tl t = [] then Some ([], out', Some (length out'))
                  else v6_loop left (tl t) out' (Some (length out')))
               else v6_loop left t out' ell))"

definition v6_finish :: "string \<times> nat list \<times> nat option \<Rightarrow> nat list option" where
  "v6_finish r =
     (case r of (s, out, ell) \<Rightarrow>
        if s \<noteq> [] then None
        else (case ell of
                None \<Rightarrow> if length out < 16 then None else Some out
              | Some k \<Rightarrow>
                  if length out < 16
                  then Some (take k out @ replicate (16 - length out) 0 @ drop k out)
                  else None))"

definition parse_ipv6 :: "string \<Rightarrow> nat list option" where
  "parse_ipv6 s =
     (if CHR ''%'' \<in> set s then None
      else if prefix ''::'' s then
        (if drop 2 s = [] then Some (replicate 16 0)
         else Option.bind (v6_loop 8 (drop 2 s) [] (Some 0)) v6_finish)
      else Option.bind (v6_loop 8 s [] None) v6_finish)"

subsection \<open>ParseIP, ParseCIDR, To4\<close>

text \<open>\<open>netip.ParseAddr\<close>: the first dot or colon decides the family. The family comes back as
  the number of bits of the address.\<close>

definition parse_addr :: "string \<Rightarrow> (nat \<times> ip) option" where
  "parse_addr s =
     (case dropWhile (\<lambda>c. c \<noteq> CHR ''.'' \<and> c \<noteq> CHR '':'' \<and> c \<noteq> CHR ''%'') s of
        [] \<Rightarrow> None
      | c # _ \<Rightarrow>
          if c = CHR ''.'' then map_option (\<lambda>q. (32, v4_prefix @ q)) (parse_ipv4 s)
          else if c = CHR '':'' then map_option (\<lambda>q. (128, q)) (parse_ipv6 s)
          else None)"

definition ParseIP :: "string \<Rightarrow> ip option" where
  "ParseIP s = map_option snd (parse_addr s)"

definition ParseCIDR :: "string \<Rightarrow> ip option" where
  "ParseCIDR s =
     (case cut CHR ''/'' s of (addr, msk, found) \<Rightarrow>
        if \<not> found then None
        else (case parse_addr addr of
                None \<Rightarrow> None
              | Some (bits, a) \<Rightarrow>
                  (case (if msk = [] then None else digits_value 10 0 msk) of
                     None \<Rightarrow> None
                   | Some n \<Rightarrow> if n \<le> bits then Some a else None)))"

text \<open>\<open>ip.To4() != nil\<close>.\<close>

definition is_v4 :: "ip \<Rightarrow> bool" where
  "is_v4 a \<longleftrightarrow> take 12 a = v4_prefix"

lemma ParseIP_any: "ParseIP ''any'' = None"
  by (simp add: ParseIP_def parse_addr_def)

lemma ParseIP_Nil: "ParseIP [] = None"
  by (simp add: ParseIP_def parse_addr_def)

lemma parse_ip_samples:
  "ParseIP ''10.0.0.1'' = Some (v4_prefix @ [10, 0, 0, 1])"
  "ParseIP ''fd00::1'' = Some [253, 0, 0, 0, 0, 0, 0, 0, 0, 0, 0, 0, 0, 0, 0, 1]"
  "ParseIP ''::ffff:10.0.0.1'' = Some (v4_prefix @ [10, 0, 0, 1])"
  "ParseIP ''1.2.3.04'' = None"
  "ParseIP ''1::2::3'' = None"
  "ParseCIDR ''10.42.0.0/16'' \<noteq> None"
  "ParseCIDR ''10.42.0.0/33'' = None"
  by (code_simp, code_simp, code_simp, code_simp, code_simp, code_simp, code_simp)

subsection \<open>Quoting\<close>

definition hex_digit :: "nat \<Rightarrow> char" where
  "hex_digit n = (if n < 10 then char_of (48 + n) else char_of (87 + n))"

definition quote_char :: "char \<Rightarrow> string" where
  "quote_char c =
     (let b = byte c in
      if b = 34 \<or> b = 92 then [char_of (92::nat), c]
      else if b = 7 then [char_of (92::nat), CHR ''a'']
      else if b = 8 then [char_of (92::nat), CHR ''b'']
      else if b = 12 then [char_of (92::nat), CHR ''f'']
      else if b = 10 then [char_of (92::nat), CHR ''n'']
      else if b = 13 then [char_of (92::nat), CHR ''r'']
      else if b = 9 then [char_of (92::nat), CHR ''t'']
      else if b = 11 then [char_of (92::nat), CHR ''v'']
      else if b < 32 \<or> b = 127 then
        [char_of (92::nat), CHR ''x'', hex_digit (b div 16), hex_digit (b mod 16)]
      else [c])"

text \<open>\<open>%q\<close>: a double-quoted Go string literal. Bytes above 127 are printed as they are, which
  is what \<open>strconv.Quote\<close> does with printable Unicode text.\<close>

definition go_quote :: "string \<Rightarrow> string" where
  "go_quote s = CHR 0x22 # concat (map quote_char s) @ [CHR 0x22]"

definition plain_char :: "char \<Rightarrow> bool" where
  "plain_char c \<longleftrightarrow> byte c \<noteq> 34 \<and> byte c \<noteq> 92 \<and> 32 \<le> byte c \<and> byte c \<noteq> 127"

lemma quote_char_plain: "plain_char c \<Longrightarrow> quote_char c = [c]"
  by (auto simp: quote_char_def plain_char_def Let_def)

lemma go_quote_plain: "list_all plain_char s \<Longrightarrow> go_quote s = CHR 0x22 # s @ [CHR 0x22]"
proof -
  assume a: "list_all plain_char s"
  then have "concat (map quote_char s) = s"
    by (induction s) (simp_all add: quote_char_plain)
  then show ?thesis by (simp add: go_quote_def)
qed

end
