(* ===== verification/Cluster_Firewall.thy ===== *)
theory Cluster_Firewall
  imports Go_Net
begin

section \<open>The backend-neutral firewall configuration\<close>

text \<open>
  Models \<open>api/colonel-byte.dev/v1alpha1/cluster/firewall.go\<close>: a firewall rule, the name it is
  known by on a node, its validation and the union merge of a host's rules with its profile's.
  An error return is a value of \<open>fw_error\<close> holding what the message prints. The two address
  fields are checked by a loop over a Go map, whose order is not fixed; the model checks the
  source first, and \<open>FirewallRule_Validate_iff\<close> shows that whether a rule is accepted does not
  depend on it.
\<close>

subsection \<open>Rules\<close>

record fw_rule =
  fr_name :: string
  fr_action :: string
  fr_direction :: string
  fr_source :: string
  fr_destination :: string
  fr_ingress :: string
  fr_egress :: string
  fr_port :: string
  fr_protocol :: string

definition empty_rule :: fw_rule where
  "empty_rule = \<lparr>fr_name = [], fr_action = [], fr_direction = [], fr_source = [],
     fr_destination = [], fr_ingress = [], fr_egress = [], fr_port = [], fr_protocol = []\<rparr>"

datatype fw_error =
    ActionRequired string
  | UnknownAction string string
  | InOutHasZones string
  | ForwardNeedsZones string
  | UnknownDirection string string
  | UnknownProtocol string string
  | InvalidPort string string
  | PortOutOfRange string string
  | PortNotAscending string string
  | PortNeedsProtocol string
  | InvalidCIDR string string string
  | InvalidAddress string string string
  | NameNotUnique string
  | FirewalldNeedsMatch string
  | FirewalldOnlyAllows string

abbreviation "FirewallActionAllow \<equiv> ''allow''"
abbreviation "FirewallActionDeny \<equiv> ''deny''"
abbreviation "FirewallActionReject \<equiv> ''reject''"
abbreviation "FirewallDirectionIn \<equiv> ''in''"
abbreviation "FirewallDirectionOut \<equiv> ''out''"
abbreviation "FirewallDirectionForward \<equiv> ''forward''"

definition NormalizedAction :: "fw_rule \<Rightarrow> string" where
  "NormalizedAction r = to_lower (trim_space (fr_action r))"

definition NormalizedDirection :: "fw_rule \<Rightarrow> string" where
  "NormalizedDirection r =
     (let d = to_lower (trim_space (fr_direction r)) in
      if d = [] then FirewallDirectionIn else d)"

definition NormalizedProtocol :: "fw_rule \<Rightarrow> string" where
  "NormalizedProtocol r = to_lower (trim_space (fr_protocol r))"

subsection \<open>Names\<close>

definition safe_char :: "char \<Rightarrow> bool" where
  "safe_char c \<longleftrightarrow> (97 \<le> byte c \<and> byte c \<le> 122) \<or> is_digit c \<or> c = CHR ''-'' \<or> c = CHR ''_''"

definition sanitize_char :: "char \<Rightarrow> string" where
  "sanitize_char c =
     (if safe_char c then [c]
      else if c = CHR ''.'' \<or> c = CHR ''/'' \<or> c = CHR '' '' \<or> c = CHR '':'' then ''-''
      else [])"

definition sanitizeName :: "string \<Rightarrow> string" where
  "sanitizeName s = trim_by (\<lambda>c. c = CHR ''-'') (concat (map sanitize_char (to_lower s)))"

definition FirewallRule_Key :: "fw_rule \<Rightarrow> string" where
  "FirewallRule_Key r =
     (if fr_name r \<noteq> [] then sanitizeName (fr_name r)
      else sanitizeName (join ''-''
             ([NormalizedDirection r, NormalizedAction r] @
              filter (\<lambda>p. p \<noteq> [])
                [fr_source r, fr_destination r, fr_ingress r, fr_egress r, fr_port r,
                 NormalizedProtocol r])))"

subsection \<open>Validation\<close>

text \<open>\<open>portPattern\<close>, \<open>^\d{1,5}(-\d{1,5})?$\<close>.\<close>

definition port_digits :: "string \<Rightarrow> bool" where
  "port_digits w \<longleftrightarrow> list_all is_digit w \<and> 1 \<le> length w \<and> length w \<le> 5"

definition portPattern :: "string \<Rightarrow> bool" where
  "portPattern s =
     (case cut CHR ''-'' s of (a, b, found) \<Rightarrow>
        port_digits a \<and> (found \<longrightarrow> port_digits b))"

definition port_number :: "string \<Rightarrow> int option" where
  "port_number w =
     (case atoi w of None \<Rightarrow> None | Some n \<Rightarrow> if n < 1 \<or> n > 65535 then None else Some n)"

definition validatePort :: "string \<Rightarrow> string \<Rightarrow> fw_error option" where
  "validatePort key port =
     (if port = [] then None
      else if \<not> portPattern port then Some (InvalidPort key port)
      else (case cut CHR ''-'' port of (low, high, isRange) \<Rightarrow>
        (case port_number low of
           None \<Rightarrow> Some (PortOutOfRange key port)
         | Some lowNum \<Rightarrow>
             if \<not> isRange then None
             else (case port_number high of
                     None \<Rightarrow> Some (PortOutOfRange key port)
                   | Some highNum \<Rightarrow>
                       if highNum \<le> lowNum then Some (PortNotAscending key port) else None))))"

definition validateAddress :: "string \<Rightarrow> string \<Rightarrow> string \<Rightarrow> fw_error option" where
  "validateAddress key field addr =
     (if addr = [] \<or> equal_fold addr ''any'' then None
      else if str_contains addr ''/'' then
        (if ParseCIDR addr = None then Some (InvalidCIDR key field addr) else None)
      else if ParseIP addr = None then Some (InvalidAddress key field addr)
      else None)"

definition validate_action :: "fw_rule \<Rightarrow> fw_error option" where
  "validate_action r =
     (let a = NormalizedAction r in
      if a \<in> {FirewallActionAllow, FirewallActionDeny, FirewallActionReject} then None
      else if a = [] then Some (ActionRequired (FirewallRule_Key r))
      else Some (UnknownAction (FirewallRule_Key r) (fr_action r)))"

definition validate_direction :: "fw_rule \<Rightarrow> fw_error option" where
  "validate_direction r =
     (let d = NormalizedDirection r in
      if d = FirewallDirectionIn \<or> d = FirewallDirectionOut then
        (if fr_ingress r \<noteq> [] \<or> fr_egress r \<noteq> [] then Some (InOutHasZones (FirewallRule_Key r))
         else None)
      else if d = FirewallDirectionForward then
        (if fr_ingress r = [] \<or> fr_egress r = [] then Some (ForwardNeedsZones (FirewallRule_Key r))
         else None)
      else Some (UnknownDirection (FirewallRule_Key r) (fr_direction r)))"

definition validate_protocol :: "fw_rule \<Rightarrow> fw_error option" where
  "validate_protocol r =
     (if NormalizedProtocol r \<in> {[], ''tcp'', ''udp'', ''sctp'', ''dccp''} then None
      else Some (UnknownProtocol (FirewallRule_Key r) (fr_protocol r)))"

definition FirewallRule_Validate :: "fw_rule \<Rightarrow> fw_error option" where
  "FirewallRule_Validate r =
     first_error
       [validate_action r,
        validate_direction r,
        validate_protocol r,
        validatePort (FirewallRule_Key r) (fr_port r),
        (if fr_port r \<noteq> [] \<and> NormalizedProtocol r = []
         then Some (PortNeedsProtocol (FirewallRule_Key r)) else None),
        validateAddress (FirewallRule_Key r) ''source'' (fr_source r),
        validateAddress (FirewallRule_Key r) ''destination'' (fr_destination r)]"

subsection \<open>Configurations\<close>

record fw_config =
  fc_rules :: "fw_rule list"

text \<open>The loop of \<open>Merge\<close>: \<open>defined\<close> is the set of keys seen, \<open>rules\<close> what \<open>c.Rules\<close> has become.\<close>

fun merge_rules :: "string list \<Rightarrow> fw_rule list \<Rightarrow> fw_rule list \<Rightarrow> fw_rule list" where
  "merge_rules defined rules [] = rules"
| "merge_rules defined rules (rule # upd) =
     (let key = FirewallRule_Key rule in
      if key \<in> set defined then merge_rules defined rules upd
      else merge_rules (key # defined) (rules @ [rule]) upd)"

definition FirewallConfig_Merge :: "fw_config \<Rightarrow> fw_config \<Rightarrow> fw_config" where
  "FirewallConfig_Merge c upd =
     (if fc_rules upd = [] then c
      else c\<lparr>fc_rules := merge_rules (map FirewallRule_Key (fc_rules c)) (fc_rules c) (fc_rules upd)\<rparr>)"

fun validate_rules :: "string list \<Rightarrow> fw_rule list \<Rightarrow> fw_error option" where
  "validate_rules seen [] = None"
| "validate_rules seen (rule # rules) =
     (case FirewallRule_Validate rule of
        Some e \<Rightarrow> Some e
      | None \<Rightarrow>
          (let key = FirewallRule_Key rule in
           if key \<in> set seen then Some (NameNotUnique key)
           else validate_rules (key # seen) rules))"

definition FirewallConfig_Validate :: "fw_config \<Rightarrow> fw_error option" where
  "FirewallConfig_Validate c = validate_rules [] (fc_rules c)"

subsection \<open>What validation accepts\<close>

text \<open>The meaning of a port string: the ports from \<open>lo\<close> to \<open>hi\<close>, both included.\<close>

definition port_value :: "string \<Rightarrow> nat \<Rightarrow> bool" where
  "port_value w n \<longleftrightarrow> port_digits w \<and> digits_value 10 0 w = Some n"

definition port_means :: "string \<Rightarrow> nat \<Rightarrow> nat \<Rightarrow> bool" where
  "port_means p lo hi \<longleftrightarrow>
     (port_value p lo \<and> hi = lo) \<or>
     (\<exists>a b. p = a @ CHR ''-'' # b \<and> port_value a lo \<and> port_value b hi \<and> lo < hi)"

definition port_ok :: "string \<Rightarrow> bool" where
  "port_ok p \<longleftrightarrow> p = [] \<or> (\<exists>lo hi. port_means p lo hi \<and> 1 \<le> lo \<and> hi \<le> 65535)"

definition addr_ok :: "string \<Rightarrow> bool" where
  "addr_ok a \<longleftrightarrow> a = [] \<or> equal_fold a ''any'' \<or>
     (if sublist ''/'' a then ParseCIDR a \<noteq> None else ParseIP a \<noteq> None)"

definition rule_ok :: "fw_rule \<Rightarrow> bool" where
  "rule_ok r \<longleftrightarrow>
     NormalizedAction r \<in> {''allow'', ''deny'', ''reject''} \<and>
     (if NormalizedDirection r = ''forward'' then fr_ingress r \<noteq> [] \<and> fr_egress r \<noteq> []
      else NormalizedDirection r \<in> {''in'', ''out''} \<and> fr_ingress r = [] \<and> fr_egress r = []) \<and>
     NormalizedProtocol r \<in> {[], ''tcp'', ''udp'', ''sctp'', ''dccp''} \<and>
     port_ok (fr_port r) \<and> (fr_port r = [] \<or> NormalizedProtocol r \<noteq> []) \<and>
     addr_ok (fr_source r) \<and> addr_ok (fr_destination r)"

lemma digit_not_sign: "is_digit c \<Longrightarrow> c \<noteq> CHR ''-'' \<and> c \<noteq> CHR ''+''"
  by (auto simp: is_digit_def byte_def)

lemma digits_value_bound:
  "digits_value 10 acc w = Some n \<Longrightarrow> n < (acc + 1) * 10 ^ length w"
proof (induction w arbitrary: acc)
  case (Cons c w)
  then have "digits_value 10 (acc * 10 + digit_val c) w = Some n" "digit_val c < 10"
    by (auto split: if_splits)
  with Cons.IH have "n < (acc * 10 + digit_val c + 1) * 10 ^ length w" by blast
  also have "\<dots> \<le> (acc + 1) * 10 * 10 ^ length w"
    using \<open>digit_val c < 10\<close> by (intro mult_le_mono1) simp
  finally show ?case by (simp add: algebra_simps)
qed simp

lemma digits_value_total: "list_all is_digit w \<Longrightarrow> \<exists>n. digits_value 10 acc w = Some n"
  by (induction w arbitrary: acc) (auto simp: is_digit_def digit_val_def)

lemma atoi_digits:
  assumes "port_digits w"
  shows "\<exists>n. port_value w n \<and> atoi w = Some (int n)"
proof -
  from assms have w: "list_all is_digit w" "w \<noteq> []" "length w \<le> 5"
    by (auto simp: port_digits_def)
  then obtain n where n: "digits_value 10 0 w = Some n" using digits_value_total by blast
  have "n < 10 ^ length w" using digits_value_bound [OF n] by simp
  also have "\<dots> \<le> 10 ^ 5" using w(3) by (intro power_increasing) auto
  finally have "n < 2 ^ 63" by simp
  moreover obtain c t where "w = c # t" using w(2) by (cases w) auto
  moreover then have "c \<noteq> CHR ''-''" "c \<noteq> CHR ''+''" using w(1) digit_not_sign by auto
  ultimately have "atoi w = Some (int n)" using n by (simp add: atoi_def)
  with n assms show ?thesis by (auto simp: port_value_def)
qed

lemma port_digits_value: "port_digits w \<longleftrightarrow> (\<exists>n. port_value w n)"
  using atoi_digits by (auto simp: port_value_def)

lemma port_value_unique: "port_value w n \<Longrightarrow> port_value w m \<longleftrightarrow> m = n"
  by (auto simp: port_value_def)

lemma port_number_value:
  assumes "port_value w n"
  shows "port_number w = (if 1 \<le> n \<and> n \<le> 65535 then Some (int n) else None)"
proof -
  from assms atoi_digits have "atoi w = Some (int n)"
    by (metis port_value_def port_value_unique)
  then show ?thesis by (auto simp: port_number_def)
qed

lemma no_dash_in_digits: "port_digits w \<Longrightarrow> CHR ''-'' \<notin> set w"
  using digit_not_sign by (auto simp: port_digits_def list_all_iff)

lemma cut_append: "sep \<notin> set a \<Longrightarrow> cut sep (a @ sep # b) = (a, b, True)"
  by (induction a) auto

lemma cut_none: "sep \<notin> set a \<Longrightarrow> cut sep a = (a, [], False)"
  by (induction a) auto

lemma port_means_range:
  assumes "CHR ''-'' \<notin> set a"
  shows "port_means (a @ CHR ''-'' # b) lo hi \<longleftrightarrow> port_value a lo \<and> port_value b hi \<and> lo < hi"
proof
  assume "port_means (a @ CHR ''-'' # b) lo hi"
  then obtain a' b' where ab: "a @ CHR ''-'' # b = a' @ CHR ''-'' # b'"
      "port_value a' lo" "port_value b' hi" "lo < hi"
    using no_dash_in_digits by (fastforce simp: port_means_def port_value_def)
  then have "CHR ''-'' \<notin> set a'" using no_dash_in_digits by (auto simp: port_value_def)
  then have "(a, b, True) = (a', b', True)"
    using cut_append [OF assms, of b] cut_append [of _ a' b'] ab(1) by metis
  with ab show "port_value a lo \<and> port_value b hi \<and> lo < hi" by simp
qed (auto simp: port_means_def)

lemma port_means_single:
  "CHR ''-'' \<notin> set p \<Longrightarrow> port_means p lo hi \<longleftrightarrow> port_value p lo \<and> hi = lo"
  by (auto simp: port_means_def)

lemma validatePort_iff: "validatePort key p = None \<longleftrightarrow> port_ok p"
proof (cases "cut CHR ''-'' p")
  case (fields a b found)
  show ?thesis
  proof (cases found)
    case True
    with fields have p: "p = a @ CHR ''-'' # b" "CHR ''-'' \<notin> set a" using cut_found by auto
    show ?thesis
    proof (cases "port_digits a \<and> port_digits b")
      case True
      then obtain n m where "port_value a n" "port_value b m" by (auto simp: port_digits_value)
      then show ?thesis using p(1) fields \<open>found\<close> True
        by (auto simp: validatePort_def port_ok_def portPattern_def port_number_value
            port_means_range [OF p(2)] port_value_unique)
    next
      case False
      then show ?thesis using p(1) fields \<open>found\<close>
        by (auto simp: validatePort_def port_ok_def portPattern_def
            port_means_range [OF p(2)] port_digits_value)
    qed
  next
    case False
    with fields have p: "a = p" "CHR ''-'' \<notin> set p" using cut_not_found by fastforce+
    show ?thesis
    proof (cases "port_digits p")
      case True
      then obtain n where "port_value p n" by (auto simp: port_digits_value)
      then show ?thesis using p(1) fields \<open>\<not> found\<close> True
        by (auto simp: validatePort_def port_ok_def portPattern_def port_number_value
            port_means_single [OF p(2)] port_value_unique)
    next
      case False
      then show ?thesis using p(1) fields \<open>\<not> found\<close>
        by (auto simp: validatePort_def port_ok_def portPattern_def
            port_means_single [OF p(2)] port_digits_value)
    qed
  qed
qed

lemma validateAddress_iff: "validateAddress key f a = None \<longleftrightarrow> addr_ok a"
  by (auto simp: validateAddress_def addr_ok_def str_contains_sublist)

text \<open>\<open>FirewallRule.Validate\<close> accepts exactly the rules a backend can be given: a known
  action, direction and protocol, interfaces on forward rules and on no others, a port between
  1 and 65535 or an ascending range of them and never without a protocol, and addresses that
  are empty, \<open>any\<close>, an IP address or a CIDR block.\<close>

theorem FirewallRule_Validate_iff: "FirewallRule_Validate r = None \<longleftrightarrow> rule_ok r"
proof -
  have "validate_action r = None \<longleftrightarrow> NormalizedAction r \<in> {''allow'', ''deny'', ''reject''}"
    by (auto simp: validate_action_def Let_def)
  moreover have "validate_direction r = None \<longleftrightarrow>
     (if NormalizedDirection r = ''forward'' then fr_ingress r \<noteq> [] \<and> fr_egress r \<noteq> []
      else NormalizedDirection r \<in> {''in'', ''out''} \<and> fr_ingress r = [] \<and> fr_egress r = [])"
    by (auto simp: validate_direction_def Let_def)
  moreover have "validate_protocol r = None \<longleftrightarrow>
     NormalizedProtocol r \<in> {[], ''tcp'', ''udp'', ''sctp'', ''dccp''}"
    by (auto simp: validate_protocol_def)
  ultimately show ?thesis
    unfolding FirewallRule_Validate_def rule_ok_def
    by (simp only: first_error_None list.set ball_simps validatePort_iff validateAddress_iff)
      (auto split: if_splits)
qed

subsection \<open>Names are safe in a file name, a comment and a quoted string\<close>

lemma sanitize_char_safe: "c \<in> set (sanitize_char d) \<Longrightarrow> safe_char c"
  by (auto simp: sanitize_char_def safe_char_def split: if_splits)

lemma sanitize_char_fixed: "safe_char c \<Longrightarrow> sanitize_char c = [c]"
  by (simp add: sanitize_char_def)

lemma safe_char_lower: "safe_char c \<Longrightarrow> lower_char c = c"
  by (rule lower_char_eq_self) (auto simp: safe_char_def is_digit_def byte_def)

lemma sanitizeName_set: "c \<in> set (sanitizeName s) \<Longrightarrow> safe_char c"
  unfolding sanitizeName_def using set_trim_by sanitize_char_safe by fastforce

lemma sanitizeName_ends:
  "sanitizeName s = [] \<or> hd (sanitizeName s) \<noteq> CHR ''-'' \<and> last (sanitizeName s) \<noteq> CHR ''-''"
  unfolding sanitizeName_def using trim_by_ends [of "\<lambda>c. c = CHR ''-''"] by blast

lemma sanitize_fixed: "list_all safe_char s \<Longrightarrow> concat (map sanitize_char (to_lower s)) = s"
  by (induction s) (auto simp: to_lower_def safe_char_lower sanitize_char_fixed)

lemma sanitizeName_idem: "sanitizeName (sanitizeName s) = sanitizeName s"
proof -
  have "list_all safe_char (sanitizeName s)" by (auto simp: list_all_iff sanitizeName_set)
  then have "sanitizeName (sanitizeName s) = trim_by (\<lambda>c. c = CHR ''-'') (sanitizeName s)"
    by (simp add: sanitizeName_def [of "sanitizeName s"] sanitize_fixed)
  also have "\<dots> = sanitizeName s" using sanitizeName_ends by (intro trim_by_fixed) blast
  finally show ?thesis .
qed

lemma FirewallRule_Key_sanitized: "\<exists>s. FirewallRule_Key r = sanitizeName s"
  by (auto simp: FirewallRule_Key_def)

lemma safe_char_plain: "safe_char c \<Longrightarrow> plain_char c"
  by (auto simp: safe_char_def plain_char_def is_digit_def byte_def)

lemma Key_safe: "list_all safe_char (FirewallRule_Key r)"
  using FirewallRule_Key_sanitized [of r] sanitizeName_set by (auto simp: list_all_iff)

text \<open>A rule's key, whatever its name and fields hold, consists of lower-case letters,
  digits, dashes and underscores, begins and ends with no dash, is its own key again, and is
  quoted by the backends as itself between two quotes.\<close>

theorem FirewallRule_Key_safe:
  "list_all safe_char (FirewallRule_Key r) \<and>
   trim_by (\<lambda>c. c = CHR ''-'') (FirewallRule_Key r) = FirewallRule_Key r \<and>
   sanitizeName (FirewallRule_Key r) = FirewallRule_Key r \<and>
   go_quote (FirewallRule_Key r) = CHR 0x22 # FirewallRule_Key r @ [CHR 0x22]"
proof -
  obtain s where s: "FirewallRule_Key r = sanitizeName s" using FirewallRule_Key_sanitized by blast
  have "list_all plain_char (FirewallRule_Key r)"
    using Key_safe by (rule list.pred_mono_strong) (rule safe_char_plain)
  moreover have "trim_by (\<lambda>c. c = CHR ''-'') (sanitizeName s) = sanitizeName s"
    using sanitizeName_ends by (intro trim_by_fixed) blast
  ultimately show ?thesis
    using Key_safe [of r] by (simp add: go_quote_plain sanitizeName_idem s)
qed

subsection \<open>Merging as a map union\<close>

text \<open>The abstract view of a rule list: the first rule of a key is the one in force.\<close>

definition rule_map :: "fw_rule list \<Rightarrow> string \<Rightarrow> fw_rule option" where
  "rule_map rules k = map_of (map (\<lambda>r. (FirewallRule_Key r, r)) rules) k"

text \<open>The rules \<open>Merge\<close> appends.\<close>

fun fresh_rules :: "string list \<Rightarrow> fw_rule list \<Rightarrow> fw_rule list" where
  "fresh_rules defined [] = []"
| "fresh_rules defined (r # rs) =
     (if FirewallRule_Key r \<in> set defined then fresh_rules defined rs
      else r # fresh_rules (FirewallRule_Key r # defined) rs)"

lemma merge_rules_fresh: "merge_rules ks rules upd = rules @ fresh_rules ks upd"
  by (induction ks rules upd rule: merge_rules.induct) (auto simp: Let_def)

lemma fresh_rules_set: "r \<in> set (fresh_rules ks upd) \<Longrightarrow> r \<in> set upd \<and> FirewallRule_Key r \<notin> set ks"
  by (induction ks upd rule: fresh_rules.induct) (auto split: if_splits)

lemma fresh_rules_distinct: "distinct (map FirewallRule_Key (fresh_rules ks upd))"
  by (induction ks upd rule: fresh_rules.induct) (auto dest: fresh_rules_set)

lemma fresh_rules_map:
  "rule_map (fresh_rules ks upd) k = (if k \<in> set ks then None else rule_map upd k)"
  by (induction ks upd rule: fresh_rules.induct) (auto simp: rule_map_def)

lemma fresh_rules_keys:
  "FirewallRule_Key ` set (fresh_rules ks upd) = FirewallRule_Key ` set upd - set ks"
  by (induction ks upd rule: fresh_rules.induct) (auto split: if_splits)

lemma Merge_rules:
  "fc_rules (FirewallConfig_Merge c u) =
     fc_rules c @ fresh_rules (map FirewallRule_Key (fc_rules c)) (fc_rules u)"
  by (simp add: FirewallConfig_Merge_def merge_rules_fresh)

lemma rule_map_append: "rule_map (xs @ ys) k = (case rule_map xs k of None \<Rightarrow> rule_map ys k | Some r \<Rightarrow> Some r)"
  by (simp add: rule_map_def map_add_def split: option.splits)

lemma rule_map_None: "rule_map xs k = None \<longleftrightarrow> k \<notin> FirewallRule_Key ` set xs"
  by (auto simp: rule_map_def map_of_eq_None_iff image_image)

text \<open>\<open>FirewallConfig.Merge\<close> refines the union of two maps from key to rule in which the
  host's own rules win over its profile's, keeps the host's rules first and in their order, and
  adds no key twice; merging the same profile again changes nothing.\<close>

theorem FirewallConfig_Merge_refines:
  "rule_map (fc_rules (FirewallConfig_Merge c u)) = rule_map (fc_rules u) ++ rule_map (fc_rules c) \<and>
   prefix (fc_rules c) (fc_rules (FirewallConfig_Merge c u)) \<and>
   distinct (map FirewallRule_Key (drop (length (fc_rules c)) (fc_rules (FirewallConfig_Merge c u)))) \<and>
   FirewallConfig_Merge (FirewallConfig_Merge c u) u = FirewallConfig_Merge c u"
proof -
  let ?f = "fresh_rules (map FirewallRule_Key (fc_rules c)) (fc_rules u)"
  have "rule_map (fc_rules c @ ?f) k = (rule_map (fc_rules u) ++ rule_map (fc_rules c)) k" for k
    by (auto simp: rule_map_append fresh_rules_map map_add_def rule_map_None split: option.splits)
      (metis imageI option.distinct(1) rule_map_None)
  moreover have "fresh_rules (map FirewallRule_Key (fc_rules c @ ?f)) (fc_rules u) = []"
  proof (rule ccontr)
    assume "fresh_rules (map FirewallRule_Key (fc_rules c @ ?f)) (fc_rules u) \<noteq> []"
    then obtain r where "r \<in> set (fresh_rules (map FirewallRule_Key (fc_rules c @ ?f)) (fc_rules u))"
      by (meson hd_in_set)
    with fresh_rules_set have "r \<in> set (fc_rules u)"
      "FirewallRule_Key r \<notin> FirewallRule_Key ` set (fc_rules c @ ?f)" by fastforce+
    then show False unfolding set_append image_Un fresh_rules_keys by auto
  qed
  ultimately show ?thesis
    by (auto simp: Merge_rules fresh_rules_distinct fun_eq_iff intro!: fw_config.equality)
qed

lemma validate_rules_iff:
  "validate_rules seen rules = None \<longleftrightarrow>
     (\<forall>r \<in> set rules. FirewallRule_Validate r = None) \<and>
     distinct (map FirewallRule_Key rules) \<and> FirewallRule_Key ` set rules \<inter> set seen = {}"
  by (induction seen rules rule: validate_rules.induct) (auto simp: Let_def split: option.splits)

text \<open>A valid host configuration merged with a profile whose rules are valid one by one is
  valid again: the merge removes every name clash the profile would bring, within the profile
  as well as with the host.\<close>

theorem FirewallConfig_Merge_valid:
  assumes "FirewallConfig_Validate c = None"
    and "\<forall>r \<in> set (fc_rules u). FirewallRule_Validate r = None"
  shows "FirewallConfig_Validate (FirewallConfig_Merge c u) = None"
  using assms fresh_rules_set fresh_rules_distinct
  by (fastforce simp: FirewallConfig_Validate_def validate_rules_iff Merge_rules fresh_rules_keys)

definition sample_allow :: fw_rule where
  "sample_allow = empty_rule\<lparr>fr_name := ''Allow Metrics'', fr_action := ''allow'',
     fr_source := ''10.0.0.0/8'', fr_port := ''9100-9110'', fr_protocol := ''TCP''\<rparr>"

definition sample_deny :: fw_rule where
  "sample_deny = sample_allow\<lparr>fr_name := ''allow-metrics'', fr_action := ''deny''\<rparr>"

theorem FirewallConfig_Merge_valid_witness:
  "FirewallConfig_Validate (FirewallConfig_Merge \<lparr>fc_rules = [sample_allow]\<rparr>
     \<lparr>fc_rules = [sample_deny, sample_deny]\<rparr>) = None"
proof (rule FirewallConfig_Merge_valid)
  show "FirewallConfig_Validate \<lparr>fc_rules = [sample_allow]\<rparr> = None" by code_simp
  show "\<forall>r \<in> set (fc_rules \<lparr>fc_rules = [sample_deny, sample_deny]\<rparr>). FirewallRule_Validate r = None"
    by code_simp
qed

end
