(* ===== verification/Cluster_Host.thy ===== *)
theory Cluster_Host
  imports Cluster_Firewall "HOL-Library.Multiset"
begin

section \<open>Hosts, profiles and running over a fleet\<close>

text \<open>
  Models \<open>host.go\<close>, \<open>hosts.go\<close> and the concurrency settings of \<open>spec.go\<close> under
  \<open>api/colonel-byte.dev/v1alpha1/cluster\<close>: the fields of a host, the merge of profile settings into a
  host, the queries on a list of hosts and the helpers that run a function on every host, one
  after the other, in parallel or in batches, with the batch sizes a profile asks for. The
  connection of a host is a parameter of its operations: whether it is connected and what its
  client does.
\<close>

subsection \<open>Host settings and their merge\<close>

record HostPort =
  hp_protocol :: string
  hp_port :: string

record FirewallPolicyConfig =
  fp_short :: string
  fp_target :: string
  fp_ingress :: string
  fp_egress :: string
  fp_ports :: "HostPort list"

record HostConfig =
  hcf_firewall :: fw_config
  hcf_policy :: "(string \<times> FirewallPolicyConfig) list"
  hcf_ports :: "HostPort list"

record HostEngine =
  he_labels :: "(string \<times> string) list"
  he_taints :: "string list"

text \<open>\<open>maps.Copy\<close> into a new map, and the loop that appends what is not there yet.\<close>

definition merge_map :: "('k \<times> 'v) list \<Rightarrow> ('k \<times> 'v) list \<Rightarrow> ('k \<times> 'v) list" where
  "merge_map c update = (if length c = 0 \<and> length update > 0 then update else c)"

fun append_missing :: "'a list \<Rightarrow> 'a list \<Rightarrow> 'a list" where
  "append_missing c [] = c"
| "append_missing c (p # ps) =
     (if p \<in> set c then append_missing c ps else append_missing (c @ [p]) ps)"

definition merge_list :: "'a list \<Rightarrow> 'a list \<Rightarrow> 'a list" where
  "merge_list c update =
     (if length c = 0 \<and> length update > 0 then append_missing c update else c)"

definition HostConfig_Merge :: "HostConfig \<Rightarrow> HostConfig \<Rightarrow> HostConfig" where
  "HostConfig_Merge c update =
     c\<lparr>hcf_firewall := FirewallConfig_Merge (hcf_firewall c) (hcf_firewall update),
       hcf_policy := merge_map (hcf_policy c) (hcf_policy update),
       hcf_ports := merge_list (hcf_ports c) (hcf_ports update)\<rparr>"

definition HostEngine_Merge :: "HostEngine \<Rightarrow> HostEngine \<Rightarrow> HostEngine" where
  "HostEngine_Merge c update =
     c\<lparr>he_labels := merge_map (he_labels c) (he_labels update),
       he_taints := merge_list (he_taints c) (he_taints update)\<rparr>"

text \<open>The contract of a setting a profile provides a default for: what the host says stands, a
  host that says nothing takes the profile's value in a normal form.\<close>

locale default_setting =
  fixes merge :: "'a \<Rightarrow> 'a \<Rightarrow> 'a"
    and unset :: "'a"
    and norm :: "'a \<Rightarrow> 'a"
  assumes keep: "c \<noteq> unset \<Longrightarrow> merge c u = c"
    and fill: "merge unset u = norm u"
    and norm_unset: "norm u = unset \<longleftrightarrow> u = unset"
    and norm_idem: "norm (norm u) = norm u"
begin

lemma merge_unset_iff: "merge c u = unset \<longleftrightarrow> c = unset \<and> u = unset"
  using keep fill norm_unset by metis

lemma merge_again: "merge (merge c u) u = merge c u"
  using keep fill norm_unset by metis

text \<open>The nearest of two defaults wins, whichever way the merges are nested.\<close>

lemma merge_chain: "merge (merge c u) v = merge c (merge u v)"
  using keep fill norm_unset norm_idem by metis

end

lemma remdups_drop: "p \<in> set ys \<Longrightarrow> remdups (xs @ p # ys) = remdups (xs @ ys)"
  by (induction xs) auto

lemma append_missing_first_seen:
  "distinct c \<Longrightarrow> append_missing c ps = first_seen (c @ ps)"
proof (induction c ps rule: append_missing.induct)
  case (1 c)
  then show ?case by (simp add: first_seen_def distinct_remdups_id)
next
  case (2 c p ps)
  show ?case
  proof (cases "p \<in> set c")
    case True
    then have "first_seen (c @ p # ps) = first_seen (c @ ps)"
      by (simp add: first_seen_def remdups_drop)
    with True 2 show ?thesis by simp
  next
    case False
    with 2 show ?thesis by simp
  qed
qed

interpretation map_setting: default_setting merge_map "[]" "\<lambda>u. u"
  by unfold_locales (auto simp: merge_map_def)

interpretation list_setting: default_setting merge_list "[]" first_seen
proof
  fix u :: "'a list"
  show "merge_list [] u = first_seen u"
    using append_missing_first_seen [of "[]" u] by (simp add: merge_list_def)
  show "first_seen u = [] \<longleftrightarrow> u = []" by (metis set_first_seen set_empty)
  show "first_seen (first_seen u) = first_seen u"
    by (simp add: first_seen_def distinct_remdups_id)
qed (simp add: merge_list_def)

subsection \<open>Hosts\<close>

definition RoleController :: string where "RoleController = ''controller''"

definition RoleControllerWorker :: string where "RoleControllerWorker = ''controller+worker''"

definition RoleSingle :: string where "RoleSingle = ''single''"

definition RoleWorker :: string where "RoleWorker = ''worker''"

record HostMetadata =
  hm_Arch :: string
  hm_BinaryTempFile :: "string list"
  hm_DistroVersion :: string
  hm_EngineUploaded :: bool
  hm_ExistingConfig :: string
  hm_Hostname :: string
  hm_Installed :: bool
  hm_IsLeader :: bool
  hm_MachineID :: string
  hm_ModulesAdded :: bool
  hm_NeedsUpgrade :: bool
  hm_NewConfig :: string
  hm_Ready :: bool
  hm_UploadedFiles :: "string list"

text \<open>The connection of a host as far as its names are read from it: the configured SSH address and
  port, the text rig prints for the host, and the address the client is connected to, empty
  before it is dialled.\<close>

record Connection =
  cn_ssh :: "(string \<times> int) option"
  cn_string :: string
  cn_address :: string

text \<open>\<open>h_Configurer\<close> is the host name its configurer reports, once one is resolved.\<close>

record Host =
  h_connection :: Connection
  h_Hostname :: string
  h_PrivateAddress :: string
  h_PrivateInterface :: string
  h_Profile :: string
  h_Role :: string
  h_Host :: HostConfig
  h_Engine :: HostEngine
  h_Configurer :: "string option"
  h_Metadata :: HostMetadata

type_synonym Hosts = "Host list"

definition IsController :: "Host \<Rightarrow> bool" where
  "IsController h \<longleftrightarrow> h_Role h = RoleController \<or> h_Role h = RoleControllerWorker \<or> h_Role h = RoleSingle"

text \<open>\<open>net.JoinHostPort\<close> puts brackets around a host with a colon in it.\<close>

definition JoinHostPort :: "string \<Rightarrow> string \<Rightarrow> string" where
  "JoinHostPort host port =
     (if CHR '':'' \<in> set host then ''['' @ host @ '']:'' @ port else host @ '':'' @ port)"

definition Host_String :: "Host \<Rightarrow> string" where
  "Host_String h = cn_string (h_connection h)"

definition Host_Address :: "Host \<Rightarrow> string" where
  "Host_Address h = cn_address (h_connection h)"

definition defaultSSHPort :: int where
  "defaultSSHPort = 22"

definition ConfiguredAddress :: "Host \<Rightarrow> string" where
  "ConfiguredAddress h =
     (case cn_ssh (h_connection h) of
        None \<Rightarrow> cn_string (h_connection h)
      | Some (address, port) \<Rightarrow>
          if port = 0 \<or> port = defaultSSHPort then address
          else JoinHostPort address (show_int port))"

definition parseFileMode :: "string \<Rightarrow> nat option" where
  "parseFileMode permissions = parse_uint 8 32 permissions"

subsection \<open>Queries\<close>

definition Hosts_First :: "Hosts \<Rightarrow> Host option" where
  "Hosts_First hosts = (if length hosts = 0 then None else Some (hosts ! 0))"

definition Hosts_Last :: "Hosts \<Rightarrow> Host option" where
  "Hosts_Last hosts = (if length hosts = 0 then None else Some (hosts ! (length hosts - 1)))"

fun Hosts_Find :: "(Host \<Rightarrow> bool) \<Rightarrow> Hosts \<Rightarrow> Host option" where
  "Hosts_Find f [] = None"
| "Hosts_Find f (h # hosts) = (if f h then Some h else Hosts_Find f hosts)"

fun Hosts_Filter_loop :: "(Host \<Rightarrow> bool) \<Rightarrow> Hosts \<Rightarrow> Hosts \<Rightarrow> Hosts" where
  "Hosts_Filter_loop f result [] = result"
| "Hosts_Filter_loop f result (h # hosts) =
     Hosts_Filter_loop f (if f h then result @ [h] else result) hosts"

definition Hosts_Filter :: "(Host \<Rightarrow> bool) \<Rightarrow> Hosts \<Rightarrow> Hosts" where
  "Hosts_Filter f hosts = Hosts_Filter_loop f [] hosts"

definition WithRole :: "string \<Rightarrow> Hosts \<Rightarrow> Hosts" where
  "WithRole s hosts = Hosts_Filter (\<lambda>h. h_Role h = s) hosts"

definition Controllers :: "Hosts \<Rightarrow> Hosts" where
  "Controllers hosts = Hosts_Filter IsController hosts"

definition Workers :: "Hosts \<Rightarrow> Hosts" where
  "Workers hosts = WithRole RoleWorker hosts"

lemma Hosts_Filter_loop_append: "Hosts_Filter_loop f r hosts = r @ filter f hosts"
  by (induction f r hosts rule: Hosts_Filter_loop.induct) auto

lemma Hosts_Filter_filter [simp]: "Hosts_Filter f hosts = filter f hosts"
  by (simp add: Hosts_Filter_def Hosts_Filter_loop_append)

record HostGroup =
  hg_Profile :: string
  hg_Hosts :: Hosts

type_synonym group_state = "HostGroup list \<times> (string \<rightharpoonup> nat)"

definition group_step :: "group_state \<Rightarrow> Host \<Rightarrow> group_state" where
  "group_step st h =
     (case st of (groups, index) \<Rightarrow>
        (case (case index (h_Profile h) of
                 Some i \<Rightarrow> (i, groups, index)
               | None \<Rightarrow> (length groups,
                          groups @ [\<lparr>hg_Profile = h_Profile h, hg_Hosts = []\<rparr>],
                          index(h_Profile h \<mapsto> length groups)))
         of (i, groups', index') \<Rightarrow>
           (groups'[i := (groups' ! i)\<lparr>hg_Hosts := hg_Hosts (groups' ! i) @ [h]\<rparr>], index')))"

definition GroupByProfile :: "Hosts \<Rightarrow> HostGroup list" where
  "GroupByProfile hosts = fst (foldl group_step ([], Map.empty) hosts)"

definition profile_group :: "Hosts \<Rightarrow> string \<Rightarrow> HostGroup" where
  "profile_group hosts k = \<lparr>hg_Profile = k, hg_Hosts = filter (\<lambda>h. h_Profile h = k) hosts\<rparr>"

definition group_inv :: "Hosts \<Rightarrow> group_state \<Rightarrow> bool" where
  "group_inv hs st \<longleftrightarrow>
     fst st = map (profile_group hs) (first_seen (map h_Profile hs)) \<and>
     (\<forall>k i. snd st k = Some i \<longleftrightarrow>
        i < length (first_seen (map h_Profile hs)) \<and> first_seen (map h_Profile hs) ! i = k)"

lemma profile_group_snoc:
  "profile_group (hs @ [h]) k =
     (if k = h_Profile h then (profile_group hs k)\<lparr>hg_Hosts := hg_Hosts (profile_group hs k) @ [h]\<rparr>
      else profile_group hs k)"
  by (auto simp: profile_group_def)

lemma group_inv_step:
  assumes "group_inv hs st" shows "group_inv (hs @ [h]) (group_step st h)"
proof -
  let ?ks = "first_seen (map h_Profile hs)"
  obtain groups index where st: "st = (groups, index)" by (cases st)
  with assms have out: "groups = map (profile_group hs) ?ks"
    and index: "\<And>k i. index k = Some i \<longleftrightarrow> i < length ?ks \<and> ?ks ! i = k"
    by (auto simp: group_inv_def)
  show ?thesis
  proof (cases "index (h_Profile h)")
    case None
    then have new: "h_Profile h \<notin> set ?ks"
      using index by (metis in_set_conv_nth option.distinct(1))
    then have rest: "map (profile_group (hs @ [h])) ?ks = groups"
      by (auto simp: out profile_group_snoc image_iff)
    have other: "i < length ?ks \<Longrightarrow> ?ks ! i \<noteq> h_Profile h" for i
      using new by (metis nth_mem)
    have ks: "first_seen (map h_Profile (hs @ [h])) = ?ks @ [h_Profile h]"
      using new by (simp add: first_seen_snoc)
    have none: "filter (\<lambda>x. h_Profile x = h_Profile h) hs = []"
      using new by (auto simp: filter_empty_conv image_iff)
    show ?thesis
      unfolding group_inv_def ks
      using None index st rest other none
      by (auto simp: group_step_def out nth_append profile_group_snoc profile_group_def
          list_update_append less_Suc_eq)
  next
    case (Some i)
    then have i: "i < length ?ks" "?ks ! i = h_Profile h" using index by auto
    then have old: "h_Profile h \<in> set ?ks" by (metis nth_mem)
    then have ks: "first_seen (map h_Profile (hs @ [h])) = ?ks" by (simp add: first_seen_snoc)
    have dist: "j < length ?ks \<Longrightarrow> ?ks ! j = h_Profile h \<longleftrightarrow> j = i" for j
      using i by (metis distinct_first_seen nth_eq_iff_index_eq)
    have "map (profile_group (hs @ [h])) ?ks = groups[i := profile_group (hs @ [h]) (h_Profile h)]"
      by (rule nth_equalityI) (auto simp: out nth_list_update profile_group_snoc dist i)
    moreover have "group_step st h = (groups[i := profile_group (hs @ [h]) (h_Profile h)], index)"
      using Some st i by (simp add: group_step_def out profile_group_snoc)
    ultimately show ?thesis
      unfolding group_inv_def ks using index by simp
  qed
qed

lemma group_inv_foldl: "group_inv hs st \<Longrightarrow> group_inv (hs @ gs) (foldl group_step st gs)"
proof (induction gs arbitrary: hs st)
  case (Cons g gs)
  from Cons.IH [OF group_inv_step [OF Cons.prems, of g]] show ?case by simp
qed simp

lemma GroupByProfile_eq:
  "GroupByProfile hosts = map (profile_group hosts) (first_seen (map h_Profile hosts))"
  using group_inv_foldl [of "[]" "([], Map.empty)" hosts]
  by (simp add: GroupByProfile_def group_inv_def)

subsection \<open>Running on every host\<close>

text \<open>A function on a host acts on a state \<open>'s\<close>; \<open>ctx_err\<close> is the error of the context. The
  goroutines one filter starts take effect one after the other in an order the scheduler
  chooses: \<open>sched\<close> gives that order.\<close>

datatype each_error =
    ContextError string
  | HostError string
  | FailedOn nat "string list"
  | SlicePanic

type_synonym 's host_fun = "Host \<Rightarrow> 's \<Rightarrow> string option \<times> 's"

fun each_hosts :: "('s \<Rightarrow> string option) \<Rightarrow> 's host_fun \<Rightarrow> Hosts \<Rightarrow> 's \<Rightarrow> each_error option \<times> 's" where
  "each_hosts ctx_err f [] s = (None, s)"
| "each_hosts ctx_err f (h # hosts) s =
     (case ctx_err s of
        Some c \<Rightarrow> (Some (ContextError c), s)
      | None \<Rightarrow>
          (case f h s of
             (Some e, s') \<Rightarrow> (Some (HostError e), s')
           | (None, s') \<Rightarrow> each_hosts ctx_err f hosts s'))"

fun Each :: "('s \<Rightarrow> string option) \<Rightarrow> 's host_fun list \<Rightarrow> Hosts \<Rightarrow> 's \<Rightarrow> each_error option \<times> 's" where
  "Each ctx_err [] hosts s = (None, s)"
| "Each ctx_err (f # fs) hosts s =
     (case each_hosts ctx_err f hosts s of
        (Some e, s') \<Rightarrow> (Some e, s')
      | (None, s') \<Rightarrow> Each ctx_err fs hosts s')"

definition run_goroutine ::
  "('s \<Rightarrow> string option) \<Rightarrow> 's host_fun \<Rightarrow> string list \<times> 's \<Rightarrow> Host \<Rightarrow> string list \<times> 's"
where
  "run_goroutine ctx_err f st h =
     (case st of (errors, s) \<Rightarrow>
        (case ctx_err s of
           Some c \<Rightarrow> (errors @ [''error from context: '' @ c], s)
         | None \<Rightarrow>
             (case f h s of
                (Some e, s') \<Rightarrow> (errors @ [Host_String h @ '': '' @ e], s')
              | (None, s') \<Rightarrow> (errors, s'))))"

definition ParallelEach ::
  "('s \<Rightarrow> string option) \<Rightarrow> (Hosts \<Rightarrow> Hosts) \<Rightarrow> 's host_fun list \<Rightarrow> Hosts \<Rightarrow> 's \<Rightarrow> each_error option \<times> 's"
where
  "ParallelEach ctx_err sched fs hosts s =
     (case foldl (\<lambda>st f. foldl (run_goroutine ctx_err f) st (sched hosts)) ([], s) fs of
        (errors, s') \<Rightarrow>
          (if length errors > 0 then Some (FailedOn (length errors) errors) else None, s'))"

text \<open>The loop \<open>for i := 0; i < len(hosts); i += batchSize\<close> with Go's \<open>int\<close>s: a batch size of zero
  stays where it is, a negative one slices backwards, which panics.\<close>

partial_function (option) batched_loop ::
  "('s \<Rightarrow> string option) \<Rightarrow> (Hosts \<Rightarrow> Hosts) \<Rightarrow> 's host_fun list \<Rightarrow> Hosts \<Rightarrow> int \<Rightarrow> int \<Rightarrow> 's \<Rightarrow>
   (each_error option \<times> 's) option"
where
  "batched_loop ctx_err sched fs hosts batchSize i s =
     (if i < int (length hosts) then
        (case ctx_err s of
           Some c \<Rightarrow> Some (Some (ContextError c), s)
         | None \<Rightarrow>
             if min (i + batchSize) (int (length hosts)) < i then Some (Some SlicePanic, s)
             else (case ParallelEach ctx_err sched fs
                          (take (nat (min (i + batchSize) (int (length hosts)) - i)) (drop (nat i) hosts)) s of
                     (Some e, s') \<Rightarrow> Some (Some e, s')
                   | (None, s') \<Rightarrow> batched_loop ctx_err sched fs hosts batchSize (i + batchSize) s'))
      else Some (None, s))"

definition BatchedParallelEach ::
  "('s \<Rightarrow> string option) \<Rightarrow> (Hosts \<Rightarrow> Hosts) \<Rightarrow> int \<Rightarrow> 's host_fun list \<Rightarrow> Hosts \<Rightarrow> 's \<Rightarrow>
   (each_error option \<times> 's) option"
where
  "BatchedParallelEach ctx_err sched batchSize fs hosts s = batched_loop ctx_err sched fs hosts batchSize 0 s"

text \<open>What batching should be: cut the list into pieces and run them until one fails.\<close>

fun chunks :: "nat \<Rightarrow> 'a list \<Rightarrow> 'a list list" where
  "chunks n [] = []"
| "chunks n (x # xs) = (x # take (n - 1) xs) # chunks n (drop (n - 1) xs)"

fun run_chunks ::
  "('s \<Rightarrow> string option) \<Rightarrow> (Hosts \<Rightarrow> Hosts) \<Rightarrow> 's host_fun list \<Rightarrow> Hosts list \<Rightarrow> 's \<Rightarrow> each_error option \<times> 's"
where
  "run_chunks ctx_err sched fs [] s = (None, s)"
| "run_chunks ctx_err sched fs (c # cs) s =
     (case ctx_err s of
        Some e \<Rightarrow> (Some (ContextError e), s)
      | None \<Rightarrow>
          (case ParallelEach ctx_err sched fs c s of
             (Some e, s') \<Rightarrow> (Some e, s')
           | (None, s') \<Rightarrow> run_chunks ctx_err sched fs cs s'))"

lemma concat_chunks: "concat (chunks n xs) = xs"
  by (induction n xs rule: chunks.induct) auto

lemma length_chunks: "c \<in> set (chunks n xs) \<Longrightarrow> 0 < n \<Longrightarrow> c \<noteq> [] \<and> length c \<le> n"
  by (induction n xs rule: chunks.induct) auto

lemma chunks_Suc: "0 < n \<Longrightarrow> xs \<noteq> [] \<Longrightarrow> chunks n xs = take n xs # chunks n (drop n xs)"
  by (cases xs; cases n) auto

lemma batched_loop_chunks:
  "0 < b \<Longrightarrow> batched_loop ctx_err sched fs hosts (int b) (int i) s =
     Some (run_chunks ctx_err sched fs (chunks b (drop i hosts)) s)"
proof (induction "length hosts - i" arbitrary: i s rule: less_induct)
  case less
  show ?case
  proof (cases "i < length hosts")
    case False
    then show ?thesis by (subst batched_loop.simps) simp
  next
    case True
    then have ne: "drop i hosts \<noteq> []" by simp
    have len: "nat (min (int i + int b) (int (length hosts)) - int i) = min b (length hosts - i)"
      using True by linarith
    have slice: "take (nat (min (int i + int b) (int (length hosts)) - int i)) (drop i hosts) = take b (drop i hosts)"
      unfolding len by (simp add: min_def)
    have step: "\<not> min (int i + int b) (int (length hosts)) < int i" using True by linarith
    have "length hosts - (i + b) < length hosts - i" using True less.prems by linarith
    note IH = less.hyps [OF this less.prems]
    have "batched_loop ctx_err sched fs hosts (int b) (int i) s =
        (case ctx_err s of Some c \<Rightarrow> Some (Some (ContextError c), s)
         | None \<Rightarrow> (case ParallelEach ctx_err sched fs (take b (drop i hosts)) s of
             (Some e, s') \<Rightarrow> Some (Some e, s')
           | (None, s') \<Rightarrow> batched_loop ctx_err sched fs hosts (int b) (int (i + b)) s'))"
      by (subst batched_loop.simps) (simp only: True step slice of_nat_less_iff of_nat_add if_True if_False nat_int)
    then show ?thesis
      unfolding IH chunks_Suc [OF less.prems ne]
      by (simp add: add.commute split: option.split prod.split)
  qed
qed

subsection \<open>Concurrency\<close>

datatype conc_error = BadPercentage string | PercentageRange string | BadCount string | NegativeCount string

definition ParseConcurrency :: "string \<Rightarrow> int \<Rightarrow> conc_error + int" where
  "ParseConcurrency value n =
     (let c = trim_space value in
      if c = [] then Inr 0
      else if has_suffix c ''%'' then
        (case atoi (trim_space (butlast c)) of
           None \<Rightarrow> Inl (BadPercentage value)
         | Some v \<Rightarrow>
             if v < 0 \<or> v > 100 then Inl (PercentageRange value)
             else Inr (let scaled = (n * v + 99) div 100 in if scaled < 1 then 1 else scaled))
      else (case atoi c of
              None \<Rightarrow> Inl (BadCount value)
            | Some v \<Rightarrow> if v < 0 then Inl (NegativeCount value) else Inr v))"

definition ResolveConcurrency :: "string \<Rightarrow> int \<Rightarrow> string \<Rightarrow> conc_error + int" where
  "ResolveConcurrency concurrency n fallback =
     (let c = trim_space concurrency in ParseConcurrency (if c = [] then fallback else c) n)"

text \<open>\<open>batchedParallelPerProfileWithMessage\<close>: the batch size of every group first, then the groups,
  which run at the same time and are taken in the order \<open>gsched\<close> gives. A batch size that is
  not positive means no batches.\<close>

definition batchedParallel ::
  "('s \<Rightarrow> string option) \<Rightarrow> (Hosts \<Rightarrow> Hosts) \<Rightarrow> int \<Rightarrow> 's host_fun list \<Rightarrow> Hosts \<Rightarrow> 's \<Rightarrow>
   (each_error option \<times> 's) option"
where
  "batchedParallel ctx_err sched batchSize fs hosts s =
     (if batchSize \<le> 0 then Some (ParallelEach ctx_err sched fs hosts s)
      else BatchedParallelEach ctx_err sched batchSize fs hosts s)"

definition batch_sizes ::
  "(string \<Rightarrow> string) \<Rightarrow> string \<Rightarrow> HostGroup list \<Rightarrow> conc_error + (HostGroup \<times> int) list"
where
  "batch_sizes concurrency fallback groups =
     map_res (\<lambda>g. bind_res (ResolveConcurrency (concurrency (hg_Profile g)) (int (length (hg_Hosts g))) fallback)
                    (\<lambda>n. Inr (g, n))) groups"

fun run_groups ::
  "('s \<Rightarrow> string option) \<Rightarrow> (Hosts \<Rightarrow> Hosts) \<Rightarrow> 's host_fun list \<Rightarrow> (HostGroup \<times> int) list \<Rightarrow>
   (string \<times> each_error) list \<Rightarrow> 's \<Rightarrow> ((string \<times> each_error) list \<times> 's) option"
where
  "run_groups ctx_err sched fs [] errs s = Some (errs, s)"
| "run_groups ctx_err sched fs ((g, n) # gs) errs s =
     (case batchedParallel ctx_err sched n fs (hg_Hosts g) s of
        None \<Rightarrow> None
      | Some (e, s') \<Rightarrow>
          run_groups ctx_err sched fs gs
            (case e of None \<Rightarrow> errs | Some x \<Rightarrow> errs @ [(hg_Profile g, x)]) s')"

definition batchedParallelPerProfile ::
  "('s \<Rightarrow> string option) \<Rightarrow> (Hosts \<Rightarrow> Hosts) \<Rightarrow> ((HostGroup \<times> int) list \<Rightarrow> (HostGroup \<times> int) list) \<Rightarrow>
   (string \<Rightarrow> string) \<Rightarrow> string \<Rightarrow> 's host_fun list \<Rightarrow> Hosts \<Rightarrow> 's \<Rightarrow>
   (conc_error + ((string \<times> each_error) list \<times> 's)) option"
where
  "batchedParallelPerProfile ctx_err sched gsched concurrency fallback fs hosts s =
     (case batch_sizes concurrency fallback (GroupByProfile hosts) of
        Inl e \<Rightarrow> Some (Inl e)
      | Inr sized \<Rightarrow> map_option Inr (run_groups ctx_err sched fs (gsched sized) [] s))"

subsection \<open>Properties\<close>

text \<open>Grouping by profile splits the fleet: every host is in exactly one group, the one of its
  profile, groups come in the order their profiles first appear, no profile has two groups and
  hosts keep their order inside a group.\<close>

theorem GroupByProfile_partition:
  "map hg_Profile (GroupByProfile hosts) = first_seen (map h_Profile hosts) \<and>
   list_all (\<lambda>g. hg_Hosts g = filter (\<lambda>h. h_Profile h = hg_Profile g) hosts \<and> hg_Hosts g \<noteq> [])
     (GroupByProfile hosts) \<and>
   mset (concat (map hg_Hosts (GroupByProfile hosts))) = mset hosts"
proof -
  have part: "mset (concat (map (\<lambda>k. filter (\<lambda>h. h_Profile h = k) hosts) ks)) =
      mset (filter (\<lambda>h. h_Profile h \<in> set ks) hosts)" if "distinct ks" for ks
    using that
  proof (induction ks)
    case (Cons k ks)
    have "mset (filter (\<lambda>h. h_Profile h \<in> set (k # ks)) hosts) =
        mset (filter (\<lambda>h. h_Profile h = k) hosts) + mset (filter (\<lambda>h. h_Profile h \<in> set ks) hosts)"
      using Cons.prems by (induction hosts) auto
    with Cons show ?case by simp
  qed simp
  have all: "filter (\<lambda>h. h_Profile h \<in> set (first_seen (map h_Profile hosts))) hosts = hosts"
    by simp
  show ?thesis
    using part [of "first_seen (map h_Profile hosts)"] all
    by (auto simp: GroupByProfile_eq profile_group_def list_all_iff filter_empty_conv comp_def)
qed

text \<open>Batches: with a positive batch size the batched run returns, and it is the run of the
  consecutive pieces of the host list, each of at most that many hosts, which stops at the
  first piece that fails or at a canceled context.\<close>

theorem BatchedParallelEach_chunks:
  assumes "0 < b"
  shows "BatchedParallelEach ctx_err sched (int b) fs hosts s =
      Some (run_chunks ctx_err sched fs (chunks b hosts) s) \<and>
    concat (chunks b hosts) = hosts \<and> list_all (\<lambda>c. c \<noteq> [] \<and> length c \<le> b) (chunks b hosts)"
  using batched_loop_chunks [OF assms, of ctx_err sched fs hosts 0 s] length_chunks [OF _ assms]
  by (auto simp: BatchedParallelEach_def concat_chunks list_all_iff)

definition sample_host :: "string \<Rightarrow> string \<Rightarrow> string \<Rightarrow> Host" where
  "sample_host addr role profile =
     \<lparr>h_connection = \<lparr>cn_ssh = Some (addr, 22), cn_string = addr, cn_address = addr\<rparr>, h_Hostname = [],
      h_PrivateAddress = [], h_PrivateInterface = [], h_Profile = profile, h_Role = role,
      h_Host = \<lparr>hcf_firewall = \<lparr>fc_rules = []\<rparr>, hcf_policy = [], hcf_ports = []\<rparr>,
      h_Engine = \<lparr>he_labels = [], he_taints = []\<rparr>, h_Configurer = None,
      h_Metadata = \<lparr>hm_Arch = [], hm_BinaryTempFile = [], hm_DistroVersion = [], hm_EngineUploaded = False,
        hm_ExistingConfig = [], hm_Hostname = [], hm_Installed = False, hm_IsLeader = False,
        hm_MachineID = [], hm_ModulesAdded = False, hm_NeedsUpgrade = False, hm_NewConfig = [],
        hm_Ready = False, hm_UploadedFiles = []\<rparr>\<rparr>"

definition sample_fleet :: Hosts where
  "sample_fleet = [sample_host ''a'' RoleController [], sample_host ''b'' RoleWorker ''gpu'',
     sample_host ''c'' RoleWorker []]"

lemma BatchedParallelEach_chunks_witness:
  "BatchedParallelEach (\<lambda>_. None) id 2 [\<lambda>h s. (None, s + 1)] sample_fleet (0::nat) = Some (None, 3)"
  using BatchedParallelEach_chunks [of 2 "\<lambda>_. None" id "[\<lambda>h s. (None, s + 1)]" sample_fleet "0::nat"]
  by (simp add: sample_fleet_def ParallelEach_def run_goroutine_def)

definition visit :: "Hosts host_fun" where
  "visit h s = (None, s @ [h])"

lemma run_visit: "foldl (run_goroutine (\<lambda>_. None) visit) (es, s) hosts = (es, s @ hosts)"
  by (induction hosts arbitrary: s) (simp_all add: run_goroutine_def visit_def)

lemma ParallelEach_visit: "ParallelEach (\<lambda>_. None) sched [visit] hosts s = (None, s @ sched hosts)"
  by (simp add: ParallelEach_def run_visit)

lemma run_chunks_visit:
  assumes "\<And>xs. mset (sched xs) = mset xs"
  shows "\<exists>s'. run_chunks (\<lambda>_. None) sched [visit] cs s = (None, s') \<and> mset s' = mset s + mset (concat cs)"
proof (induction cs arbitrary: s)
  case (Cons c cs)
  from Cons [of "s @ sched c"] obtain s' where
    "run_chunks (\<lambda>_. None) sched [visit] cs (s @ sched c) = (None, s')"
    "mset s' = mset (s @ sched c) + mset (concat cs)" by blast
  then show ?case by (intro exI [of _ s']) (simp add: ParallelEach_visit assms)
qed simp

lemma batchedParallel_visit:
  assumes "\<And>xs. mset (sched xs) = mset xs"
  shows "\<exists>s'. batchedParallel (\<lambda>_. None) sched n [visit] hosts s = Some (None, s') \<and> mset s' = mset s + mset hosts"
proof (cases "n \<le> 0")
  case True
  then show ?thesis by (simp add: batchedParallel_def ParallelEach_visit assms)
next
  case False
  then obtain b where b: "n = int b" "0 < b" by (metis not_le zero_less_imp_eq_int)
  from run_chunks_visit [OF assms, of "chunks b hosts" s] b(2) show ?thesis
    by (auto simp: batchedParallel_def b(1) BatchedParallelEach_def batched_loop_chunks [OF b(2), of _ _ _ _ 0, simplified]
        concat_chunks)
qed

lemma run_groups_visit:
  assumes "\<And>xs. mset (sched xs) = mset xs"
  shows "\<exists>s'. run_groups (\<lambda>_. None) sched [visit] gs errs s = Some (errs, s') \<and>
    mset s' = mset s + (\<Sum>g\<leftarrow>gs. mset (hg_Hosts (fst g)))"
proof (induction gs arbitrary: s)
  case (Cons p gs)
  obtain g n where p: "p = (g, n)" by (cases p)
  from batchedParallel_visit [OF assms, of n "hg_Hosts g" s] obtain s1 where
    s1: "batchedParallel (\<lambda>_. None) sched n [visit] (hg_Hosts g) s = Some (None, s1)"
    "mset s1 = mset s + mset (hg_Hosts g)" by blast
  from Cons [of s1] s1 p show ?case by (auto simp: ac_simps)
qed simp

lemma batch_sizes_groups: "batch_sizes c fallback gs = Inr sized \<Longrightarrow> map fst sized = gs"
  unfolding batch_sizes_def map_res_Inr
  by (induction gs sized rule: list_all2_induct) (auto simp: bind_res_Inr)

text \<open>Every host has its turn once: whatever batch sizes the profiles ask for and whatever
  order the scheduler picks, a run per profile in which nothing fails reports no error and
  calls the function exactly once for every host.\<close>

theorem batchedParallelPerProfile_visits_once:
  assumes "\<And>xs. mset (sched xs) = mset xs" and "\<And>gs. mset (gsched gs) = mset gs"
    and "batch_sizes concurrency fallback (GroupByProfile hosts) = Inr sized"
  shows "\<exists>visited. batchedParallelPerProfile (\<lambda>_. None) sched gsched concurrency fallback [visit] hosts [] =
      Some (Inr ([], visited)) \<and> mset visited = mset hosts"
proof -
  have sum: "(\<Sum>g\<leftarrow>gsched sized. mset (hg_Hosts (fst g))) = (\<Sum>g\<leftarrow>sized. mset (hg_Hosts (fst g)))"
    using assms(2) [of sized] by (simp flip: sum_mset_sum_list)
  have "(\<Sum>g\<leftarrow>sized. mset (hg_Hosts (fst g))) = mset (concat (map hg_Hosts (map fst sized)))"
    by (simp add: mset_concat comp_def)
  then have "(\<Sum>g\<leftarrow>gsched sized. mset (hg_Hosts (fst g))) = mset hosts"
    unfolding sum batch_sizes_groups [OF assms(3)] using GroupByProfile_partition by metis
  with run_groups_visit [OF assms(1), of "gsched sized" "[]" "[]"] show ?thesis
    by (auto simp: batchedParallelPerProfile_def assms(3))
qed

text \<open>Batch sizes: a concurrency setting that is accepted is never negative; a percentage of a
  fleet that is not empty gives at least one host and at most all of them, the smallest number
  that reaches the percentage.\<close>

theorem ParseConcurrency_bounds:
  assumes "ParseConcurrency value n = Inr k" and "0 < n"
  shows "0 \<le> k \<and>
    (has_suffix (trim_space value) ''%'' \<longrightarrow>
      1 \<le> k \<and> k \<le> n \<and>
      (\<exists>v. atoi (trim_space (butlast (trim_space value))) = Some v \<and> n * v \<le> 100 * k \<and>
           (k = 1 \<or> 100 * (k - 1) < n * v)))"
proof -
  have bounds: "1 \<le> (let q = (n * v + 99) div 100 in if q < 1 then 1 else q) \<and>
      (let q = (n * v + 99) div 100 in if q < 1 then 1 else q) \<le> n \<and>
      n * v \<le> 100 * (let q = (n * v + 99) div 100 in if q < 1 then 1 else q) \<and>
      ((let q = (n * v + 99) div 100 in if q < 1 then 1 else q) = 1 \<or>
       100 * ((let q = (n * v + 99) div 100 in if q < 1 then 1 else q) - 1) < n * v)"
    if "0 \<le> v" "v \<le> 100" for v
  proof -
    define m where "m = n * v"
    have "0 \<le> m" using that assms(2) by (simp add: m_def)
    moreover have "m \<le> n * 100" using that assms(2) by (simp add: m_def)
    ultimately show ?thesis using assms(2) unfolding m_def [symmetric] Let_def
      by (cases "(m + 99) div 100 < 1") (simp_all, linarith+)
  qed
  show ?thesis
  proof (cases "trim_space value = [] \<or> \<not> has_suffix (trim_space value) ''%''")
    case True
    with assms show ?thesis
      by (auto simp: ParseConcurrency_def Let_def has_suffix_def split: option.splits if_splits)
  next
    case False
    with assms(1) obtain v where v: "atoi (trim_space (butlast (trim_space value))) = Some v"
      "0 \<le> v" "v \<le> 100" and k: "k = (let q = (n * v + 99) div 100 in if q < 1 then 1 else q)"
      by (auto simp: ParseConcurrency_def Let_def split: option.splits if_splits)
    from bounds [OF v(2,3)] v(1) k show ?thesis by auto
  qed
qed

lemma ParseConcurrency_bounds_witness:
  "\<exists>v. atoi (trim_space (butlast (trim_space '' 25% ''))) = Some v \<and> 5 * v \<le> 100 * (2::int) \<and> 100 < 5 * v"
proof -
  have "ParseConcurrency '' 25% '' 5 = Inr 2" "has_suffix (trim_space '' 25% '') ''%''"
    by code_simp+
  from ParseConcurrency_bounds [OF this(1)] this(2) show ?thesis by simp
qed

text \<open>Precedence of settings: merging two levels of defaults into a host gives the same
  labels, taints, policies and ports whether the levels are merged with each other first or
  into the host one after the other, and merging a level again changes nothing.\<close>

theorem profile_merge_chain:
  "HostEngine_Merge (HostEngine_Merge c u) v = HostEngine_Merge c (HostEngine_Merge u v) \<and>
   HostEngine_Merge (HostEngine_Merge c u) u = HostEngine_Merge c u \<and>
   hcf_policy (HostConfig_Merge (HostConfig_Merge hc hu) hv) = hcf_policy (HostConfig_Merge hc (HostConfig_Merge hu hv)) \<and>
   hcf_ports (HostConfig_Merge (HostConfig_Merge hc hu) hv) = hcf_ports (HostConfig_Merge hc (HostConfig_Merge hu hv))"
  by (simp add: HostEngine_Merge_def HostConfig_Merge_def map_setting.merge_again list_setting.merge_again
      map_setting.merge_chain [symmetric] list_setting.merge_chain [symmetric])

definition identity_sizes :: "(HostGroup \<times> int) list" where
  "identity_sizes = projr (batch_sizes (\<lambda>_. ''50%'') [] (GroupByProfile sample_fleet))"

lemma batchedParallelPerProfile_visits_once_witness:
  "\<exists>visited. batchedParallelPerProfile (\<lambda>_. None) rev rev (\<lambda>_. ''50%'') [] [visit] sample_fleet [] =
      Some (Inr ([], visited)) \<and> mset visited = mset sample_fleet"
proof (rule batchedParallelPerProfile_visits_once)
  show "batch_sizes (\<lambda>_. ''50%'') [] (GroupByProfile sample_fleet) = Inr identity_sizes"
    unfolding identity_sizes_def by code_simp
qed simp_all

end
