(* ===== verification/Value_Paths.thy ===== *)
theory Value_Paths
  imports Cargo_Prelude "HOL-Library.AList"
begin

section \<open>Value paths, templates and merging of chart values\<close>

text \<open>
  Models \<open>pkg/helmvalues/values.go\<close>: the parser of ZEP-0021 value paths, reading and writing a
  value at a path, the typing of rendered scalars, the walk that renders templates inside a
  value, and the recursive merge of two value trees. Rendering one template is the parameter
  \<open>exec\<close>, which stands for \<open>text/template\<close> with the sprig function map.

  A Go map is an association list; its order stands for the iteration order Go leaves open. A
  value of type \<open>any\<close> is a \<open>vval\<close>; the constructor \<open>VMap\<close> carries which of the three concrete
  map types the code tells apart the value has. The keys of a \<open>map[any]any\<close> are held in the
  printed form \<open>fmt.Sprint\<close> gives them, so two of them may coincide.
\<close>

subsection \<open>Values\<close>

datatype mkind = MString | MDig | MAny

datatype vval =
    VNil
  | VBool bool
  | VInt int
  | VFloat string
  | VStr string
  | VList "vval list"
  | VMap mkind "(string \<times> vval) list"

type_synonym vmap = "(string \<times> vval) list"

datatype vp_error =
    NoLeadingDot string
  | EmptyKey string
  | ExpectedIndex string string
  | BadIndex string string
  | NegativeIndex int string
  | IndexTooLarge int string
  | NotAMap string vval
  | NotAList string vval
  | RootNotMap string vval
  | InSource string vp_error
  | InTarget string vp_error

text \<open>Reading \<open>m[k]\<close> gives \<open>nil\<close> for a missing key; \<open>build_map\<close> is a loop of \<open>out[k] = x\<close>.\<close>

definition mget :: "vmap \<Rightarrow> string \<Rightarrow> vval" where
  "mget m k = (case map_of m k of None \<Rightarrow> VNil | Some x \<Rightarrow> x)"

fun build_map :: "vmap \<Rightarrow> vmap \<Rightarrow> vmap" where
  "build_map out [] = out"
| "build_map out ((k, x) # m) = build_map (AList.update k x out) m"

definition asMap :: "vval \<Rightarrow> vmap option" where
  "asMap v =
     (case v of
        VMap k m \<Rightarrow> (if k = MAny then Some (build_map [] m) else Some m)
      | _ \<Rightarrow> None)"

subsection \<open>Parsing a path\<close>

record pathSegment =
  ps_key :: string
  ps_indices :: "nat list"

definition maxIndex :: int where
  "maxIndex = 63"

abbreviation backslash :: char where
  "backslash \<equiv> CHR 0x5C"

text \<open>The loop of \<open>splitEscaped\<close>: the word being read and whether the last byte escaped.\<close>

fun splitEscaped_loop :: "char \<Rightarrow> bool \<Rightarrow> string \<Rightarrow> string \<Rightarrow> string list" where
  "splitEscaped_loop sep escaped cur [] = [cur]"
| "splitEscaped_loop sep escaped cur (c # s) =
     (if escaped then splitEscaped_loop sep False (cur @ [c]) s
      else if c = backslash then splitEscaped_loop sep True (cur @ [c]) s
      else if c = sep then cur # splitEscaped_loop sep False [] s
      else splitEscaped_loop sep False (cur @ [c]) s)"

definition splitEscaped :: "string \<Rightarrow> char \<Rightarrow> string list" where
  "splitEscaped s sep = splitEscaped_loop sep False [] s"

definition structuralChars :: string where
  "structuralChars = ''.,[]{}='' @ [backslash]"

fun unescape_loop :: "bool \<Rightarrow> string \<Rightarrow> string" where
  "unescape_loop escaped [] = (if escaped then [backslash] else [])"
| "unescape_loop escaped (r # s) =
     (if escaped then
        (if r \<in> set structuralChars then [] else [backslash]) @ r # unescape_loop False s
      else if r = backslash then unescape_loop True s
      else r # unescape_loop False s)"

definition unescape :: "string \<Rightarrow> string" where
  "unescape s = (if backslash \<notin> set s then s else unescape_loop False s)"

fun splitKeyIndices_loop :: "bool \<Rightarrow> string \<Rightarrow> string \<Rightarrow> string \<times> string" where
  "splitKeyIndices_loop escaped key [] = (key, [])"
| "splitKeyIndices_loop escaped key (c # s) =
     (if escaped then splitKeyIndices_loop False (key @ [c]) s
      else if c = backslash then splitKeyIndices_loop True (key @ [c]) s
      else if c = CHR ''['' then (key, c # s)
      else splitKeyIndices_loop False (key @ [c]) s)"

definition splitKeyIndices :: "string \<Rightarrow> string \<times> string" where
  "splitKeyIndices raw = splitKeyIndices_loop False [] raw"

lemma cut_shorter: "(a, b, True) = cut sep s \<Longrightarrow> length b < length s"
  by (metis cut_found length_append length_Cons less_add_Suc2 add_Suc_right)

text \<open>The loop over the indices. \<open>cut\<close> at the first closing bracket gives \<open>rest[:end]\<close> and
  \<open>rest[end+1:]\<close>.\<close>

function parse_indices :: "string \<Rightarrow> string \<Rightarrow> string \<Rightarrow> vp_error + nat list" where
  "parse_indices full key rest =
     (if rest = [] then Inr []
      else (case cut CHR '']'' rest of (a, b, found) \<Rightarrow>
        if hd rest \<noteq> CHR ''['' \<or> \<not> found then Inl (ExpectedIndex full key)
        else (case atoi (tl a) of
                None \<Rightarrow> Inl (BadIndex (tl a) full)
              | Some n \<Rightarrow>
                  if n < 0 then Inl (NegativeIndex n full)
                  else if n > maxIndex then Inl (IndexTooLarge n full)
                  else bind_res (parse_indices full key b) (\<lambda>is. Inr (nat n # is)))))"
  by pat_completeness auto
termination
  by (relation "measure (\<lambda>(full, key, rest). length rest)") (auto dest!: cut_shorter)

declare parse_indices.simps [simp del]

definition parseSegment :: "string \<Rightarrow> string \<Rightarrow> vp_error + pathSegment" where
  "parseSegment raw full =
     (case splitKeyIndices raw of (key, rest) \<Rightarrow>
        (let k = unescape key in
         if k = [] then Inl (EmptyKey full)
         else bind_res (parse_indices full k rest)
                (\<lambda>is. Inr \<lparr>ps_key = k, ps_indices = is\<rparr>)))"

definition parsePath :: "string \<Rightarrow> vp_error + pathSegment list" where
  "parsePath path = map_res (\<lambda>raw. parseSegment raw path) (splitEscaped path CHR ''.'')"

definition valuePath :: "string \<Rightarrow> vp_error + pathSegment list" where
  "valuePath path =
     (if \<not> has_prefix path ''.'' then Inl (NoLeadingDot path)
      else if path = ''.'' then Inr []
      else parsePath (tl path))"

subsection \<open>Reading and writing at a path\<close>

fun get_indices :: "vval \<Rightarrow> nat list \<Rightarrow> vval option" where
  "get_indices cur [] = Some cur"
| "get_indices cur (i # is) =
     (case cur of
        VList xs \<Rightarrow> (if i \<ge> length xs then None else get_indices (xs ! i) is)
      | _ \<Rightarrow> None)"

fun get_segments :: "vval \<Rightarrow> pathSegment list \<Rightarrow> vval option" where
  "get_segments cur [] = Some cur"
| "get_segments cur (seg # segs) =
     (case asMap cur of
        None \<Rightarrow> None
      | Some m \<Rightarrow>
          (case map_of m (ps_key seg) of
             None \<Rightarrow> None
           | Some x \<Rightarrow>
               (case get_indices x (ps_indices seg) of
                  None \<Rightarrow> None
                | Some y \<Rightarrow> get_segments y segs)))"

definition GetValuePath :: "vmap \<Rightarrow> string \<Rightarrow> vp_error + vval option" where
  "GetValuePath src path =
     bind_res (valuePath path) (\<lambda>segs. Inr (get_segments (VMap MString src) segs))"

text \<open>\<open>for len(list) <= i { list = append(list, nil) }\<close>.\<close>

definition grow_list :: "vval list \<Rightarrow> nat \<Rightarrow> vval list" where
  "grow_list xs i = xs @ replicate (Suc i - length xs) VNil"

function setSegments :: "vval \<Rightarrow> pathSegment list \<Rightarrow> vval \<Rightarrow> string \<Rightarrow> vp_error + vval"
  and setIndices :: "vval \<Rightarrow> nat \<Rightarrow> nat list \<Rightarrow> pathSegment list \<Rightarrow> vval \<Rightarrow> string \<Rightarrow> vp_error + vval"
where
  "setSegments cur [] val at = Inr val"
| "setSegments cur (seg # segs) val at =
     (case (case asMap cur of None \<Rightarrow> (if cur \<noteq> VNil then None else Some []) | Some m \<Rightarrow> Some m) of
        None \<Rightarrow> Inl (NotAMap at cur)
      | Some m \<Rightarrow>
          (let next = (if at \<noteq> [] then at @ ''.'' @ ps_key seg else ps_key seg);
               old = mget m (ps_key seg)
           in bind_res
                (case ps_indices seg of
                   [] \<Rightarrow> setSegments old segs val next
                 | i # is \<Rightarrow> setIndices old i is segs val next)
                (\<lambda>child. Inr (VMap MString (AList.update (ps_key seg) child m)))))"
| "setIndices cur i is rest val at =
     (case (case cur of VList xs \<Rightarrow> Some xs | _ \<Rightarrow> (if cur \<noteq> VNil then None else Some [])) of
        None \<Rightarrow> Inl (NotAList at cur)
      | Some xs \<Rightarrow>
          (let list = grow_list xs i;
               next = at @ ''['' @ show_nat i @ '']''
           in bind_res
                (case is of
                   [] \<Rightarrow> setSegments (list ! i) rest val next
                 | j # js \<Rightarrow> setIndices (list ! i) j js rest val next)
                (\<lambda>child. Inr (VList (list[i := child])))))"
  by pat_completeness auto
termination
  by (relation "measure (\<lambda>x. case x of
        Inl (cur, segs, val, at) \<Rightarrow> 2 * (\<Sum>s\<leftarrow>segs. Suc (length (ps_indices s)))
      | Inr (cur, i, is, rest, val, at) \<Rightarrow>
          2 * (\<Sum>s\<leftarrow>rest. Suc (length (ps_indices s))) + 2 * length is + 1)") auto

declare setSegments.simps(2) [simp del] setIndices.simps [simp del]

subsection \<open>Normalising and merging\<close>

primrec normalizeValue :: "vval \<Rightarrow> vval" where
  "normalizeValue VNil = VNil"
| "normalizeValue (VBool b) = VBool b"
| "normalizeValue (VInt i) = VInt i"
| "normalizeValue (VFloat f) = VFloat f"
| "normalizeValue (VStr s) = VStr s"
| "normalizeValue (VList xs) = VList (map normalizeValue xs)"
| "normalizeValue (VMap k m) = VMap MString (build_map [] (map (map_prod id normalizeValue) m))"

definition normalizeMap :: "vmap \<Rightarrow> vmap" where
  "normalizeMap m = build_map [] (map (map_prod id normalizeValue) m)"

text \<open>\<open>mergeInto\<close> writes into \<open>dst\<close>; the model returns what \<open>dst\<close> becomes. \<open>merge_value\<close> is
  the body of the loop for one key: the nested call when both sides are maps, the assignment
  otherwise.\<close>

function mergeInto :: "vmap \<Rightarrow> vmap \<Rightarrow> vmap"
  and merge_value :: "vval option \<Rightarrow> vval \<Rightarrow> vval" where
  "mergeInto dst [] = dst"
| "mergeInto dst ((k, v) # src) =
     mergeInto (AList.update k (merge_value (map_of dst k) v) dst) src"
| "merge_value d v =
     (case v of
        VMap MString srcMap \<Rightarrow>
          (case d of
             Some (VMap MString dstMap) \<Rightarrow> VMap MString (mergeInto dstMap srcMap)
           | _ \<Rightarrow> v)
      | _ \<Rightarrow> v)"
  by pat_completeness auto
termination
  by (relation "measure (\<lambda>x. case x of Inl (d, s) \<Rightarrow> size_list (\<lambda>(k, v). Suc (size v)) s
        | Inr (d, v) \<Rightarrow> size v)")
    (auto simp: size_list_conv_sum_list comp_def case_prod_beta' intro!: sum_list_mono less_Suc_eq_le [THEN iffD2])

definition MergeValues :: "vmap \<Rightarrow> vmap \<Rightarrow> vmap" where
  "MergeValues dst src = mergeInto (normalizeMap dst) (normalizeMap src)"

definition SetValuePath :: "vmap \<Rightarrow> string \<Rightarrow> vval \<Rightarrow> vp_error + vmap" where
  "SetValuePath dst path val =
     bind_res (valuePath path) (\<lambda>segs.
       if segs = [] then
         (case normalizeValue val of
            VMap MString root \<Rightarrow> Inr (mergeInto dst root)
          | _ \<Rightarrow> Inl (RootNotMap path val))
       else bind_res (setSegments (VMap MString dst) segs val [])
              (\<lambda>v. Inr (case v of VMap _ m \<Rightarrow> m | _ \<Rightarrow> dst)))"

definition ApplyMapping :: "vmap \<Rightarrow> vmap \<Rightarrow> string \<Rightarrow> string \<Rightarrow> vp_error + bool \<times> vmap" where
  "ApplyMapping dst values source target =
     (case GetValuePath values source of
        Inl e \<Rightarrow> Inl (InSource source e)
      | Inr None \<Rightarrow> Inr (False, dst)
      | Inr (Some val) \<Rightarrow>
          (case SetValuePath dst target val of
             Inl e \<Rightarrow> Inl (InTarget target e)
           | Inr dst' \<Rightarrow> Inr (True, dst')))"

subsection \<open>Templates\<close>

datatype tpl_error = TemplateFailed string | MissingKeyValue string

definition noValue :: string where
  "noValue = ''<no value>''"

text \<open>\<open>exec\<close> parses and executes a template against the data: an error text or its output.\<close>

definition RenderTemplate :: "(string \<Rightarrow> string + string) \<Rightarrow> string \<Rightarrow> tpl_error + string" where
  "RenderTemplate exec tmpl =
     (if \<not> str_contains tmpl ''{{'' then Inr tmpl
      else (case exec tmpl of
              Inl e \<Rightarrow> Inl (TemplateFailed e)
            | Inr out \<Rightarrow> if str_contains out noValue then Inl (MissingKeyValue tmpl) else Inr out))"

definition typedScalar :: "string \<Rightarrow> vval" where
  "typedScalar val =
     (if equal_fold val ''true'' then VBool True
      else if equal_fold val ''false'' then VBool False
      else if equal_fold val ''null'' then VNil
      else if val = ''0'' then VInt 0
      else if val = [] \<or> hd val = CHR ''0'' then VStr val
      else (case atoi val of Some i \<Rightarrow> VInt i | None \<Rightarrow> VStr val))"

definition evaluate_string :: "(string \<Rightarrow> string + string) \<Rightarrow> string \<Rightarrow> tpl_error + vval" where
  "evaluate_string exec val =
     bind_res (RenderTemplate exec val) (\<lambda>rendered.
       if str_contains val ''{{'' then
         (let trimmed = trim_space rendered; typed = typedScalar trimmed in
          if typed = VStr trimmed then Inr (VStr rendered) else Inr typed)
       else Inr (VStr rendered))"

text \<open>The three map cases differ in the type of the result alone: a \<open>dig.Mapping\<close> stays one,
  the other two give a \<open>map[string]any\<close>.\<close>

fun EvaluateValuesTemplates :: "(string \<Rightarrow> string + string) \<Rightarrow> vval \<Rightarrow> tpl_error + vval"
  and evaluate_list :: "(string \<Rightarrow> string + string) \<Rightarrow> vval list \<Rightarrow> tpl_error + vval list"
  and evaluate_map :: "(string \<Rightarrow> string + string) \<Rightarrow> vmap \<Rightarrow> vmap \<Rightarrow> tpl_error + vmap"
where
  "EvaluateValuesTemplates exec (VStr s) = evaluate_string exec s"
| "EvaluateValuesTemplates exec (VMap k m) =
     bind_res (evaluate_map exec [] m)
       (\<lambda>res. Inr (VMap (if k = MDig then MDig else MString) res))"
| "EvaluateValuesTemplates exec (VList xs) =
     bind_res (evaluate_list exec xs) (\<lambda>ys. Inr (VList ys))"
| "EvaluateValuesTemplates exec v = Inr v"
| "evaluate_list exec [] = Inr []"
| "evaluate_list exec (x # xs) =
     bind_res (EvaluateValuesTemplates exec x)
       (\<lambda>y. bind_res (evaluate_list exec xs) (\<lambda>ys. Inr (y # ys)))"
| "evaluate_map exec res [] = Inr res"
| "evaluate_map exec res ((k, item) # m) =
     bind_res (RenderTemplate exec k) (\<lambda>key.
       bind_res (EvaluateValuesTemplates exec item) (\<lambda>x.
         evaluate_map exec (AList.update key x res) m))"

subsection \<open>Reading back what was written\<close>

lemma map_of_update [simp]: "map_of (AList.update k x m) j = (if j = k then Some x else map_of m j)"
  by (simp add: update_conv')

lemma grow_list_nth [simp]: "i < length (grow_list xs i)"
  by (simp add: grow_list_def)

lemma grow_list_old: "j < length xs \<Longrightarrow> grow_list xs i ! j = xs ! j"
  by (simp add: grow_list_def nth_append)

text \<open>The container a write starts from: the one that is there, or a new one in place of nil.\<close>

abbreviation target_map :: "vval \<Rightarrow> vmap option" where
  "target_map cur \<equiv>
     (case asMap cur of None \<Rightarrow> (if cur \<noteq> VNil then None else Some []) | Some m \<Rightarrow> Some m)"

abbreviation target_list :: "vval \<Rightarrow> vval list option" where
  "target_list cur \<equiv>
     (case cur of VList xs \<Rightarrow> Some xs | _ \<Rightarrow> (if cur \<noteq> VNil then None else Some []))"

lemma option_bind_Inr:
  "(case x of None \<Rightarrow> Inl e | Some m \<Rightarrow> bind_res (h m) (\<lambda>c. Inr (g m c))) = Inr r \<longleftrightarrow>
   (\<exists>m c. x = Some m \<and> r = g m c \<and> h m = Inr c)"
  by (cases x) (auto simp: bind_res_Inr)

lemma setSegments_Cons:
  "setSegments cur (seg # segs) val at = Inr r \<longleftrightarrow>
   (\<exists>m child. target_map cur = Some m \<and>
     r = VMap MString (AList.update (ps_key seg) child m) \<and>
     (case ps_indices seg of
        [] \<Rightarrow> setSegments (mget m (ps_key seg)) segs val
               (if at \<noteq> [] then at @ ''.'' @ ps_key seg else ps_key seg)
      | i # ix \<Rightarrow> setIndices (mget m (ps_key seg)) i ix segs val
               (if at \<noteq> [] then at @ ''.'' @ ps_key seg else ps_key seg)) = Inr child)"
  by (subst setSegments.simps(2)) (simp only: Let_def option_bind_Inr)

lemma setIndices_eq:
  "setIndices cur i ix rest val at = Inr r \<longleftrightarrow>
   (\<exists>xs child. target_list cur = Some xs \<and> r = VList ((grow_list xs i)[i := child]) \<and>
     (case ix of
        [] \<Rightarrow> setSegments (grow_list xs i ! i) rest val (at @ ''['' @ show_nat i @ '']'')
      | j # js \<Rightarrow> setIndices (grow_list xs i ! i) j js rest val (at @ ''['' @ show_nat i @ '']'')) = Inr child)"
  by (subst setIndices.simps) (simp only: Let_def option_bind_Inr)

lemma get_set:
  "setSegments cur segs val at = Inr r \<Longrightarrow> get_segments r segs = Some val"
  "setIndices cur' i ix rest val' at' = Inr r' \<Longrightarrow>
     \<exists>y. get_indices r' (i # ix) = Some y \<and> get_segments y rest = Some val'"
proof (induction cur segs val at and cur' i ix rest val' at' arbitrary: r and r'
    rule: setSegments_setIndices.induct)
  case (2 cur seg segs val at)
  from 2(3) obtain m child where
    m: "target_map cur = Some m" and r: "r = VMap MString (AList.update (ps_key seg) child m)" and
    c: "(case ps_indices seg of
        [] \<Rightarrow> setSegments (mget m (ps_key seg)) segs val
               (if at \<noteq> [] then at @ ''.'' @ ps_key seg else ps_key seg)
      | i # ix \<Rightarrow> setIndices (mget m (ps_key seg)) i ix segs val
               (if at \<noteq> [] then at @ ''.'' @ ps_key seg else ps_key seg)) = Inr child"
    unfolding setSegments_Cons by blast
  show ?case
  proof (cases "ps_indices seg")
    case Nil
    with 2(1) [OF m refl refl Nil] c r show ?thesis by (simp add: asMap_def)
  next
    case (Cons i ix)
    with 2(2) [OF m refl refl Cons] c r show ?thesis by (auto simp: asMap_def)
  qed
next
  case (3 cur i ix rest val at)
  from 3(3) obtain xs child where
    xs: "target_list cur = Some xs" and r: "r' = VList ((grow_list xs i)[i := child])" and
    c: "(case ix of
        [] \<Rightarrow> setSegments (grow_list xs i ! i) rest val (at @ ''['' @ show_nat i @ '']'')
      | j # js \<Rightarrow> setIndices (grow_list xs i ! i) j js rest val (at @ ''['' @ show_nat i @ '']'')) = Inr child"
    unfolding setIndices_eq by blast
  have l: "\<not> length ((grow_list xs i)[i := child]) \<le> i" by (simp add: not_le)
  show ?case
  proof (cases ix)
    case Nil
    with 3(1) [OF xs refl refl Nil] c r l show ?thesis by simp
  next
    case (Cons j js)
    with 3(2) [OF xs refl refl Cons] c r l show ?thesis by auto
  qed
qed simp

subsection \<open>Writes leave other paths alone\<close>

text \<open>A path flattened into single steps, and the value a list of steps leads to.\<close>

datatype path_step = Key string | Idx nat

definition path_steps :: "pathSegment list \<Rightarrow> path_step list" where
  "path_steps segs = concat (map (\<lambda>s. Key (ps_key s) # map Idx (ps_indices s)) segs)"

fun get_steps :: "vval \<Rightarrow> path_step list \<Rightarrow> vval option" where
  "get_steps v [] = Some v"
| "get_steps v (Key k # q) =
     (case asMap v of None \<Rightarrow> None
      | Some m \<Rightarrow> (case map_of m k of None \<Rightarrow> None | Some x \<Rightarrow> get_steps x q))"
| "get_steps v (Idx i # q) =
     (case v of VList xs \<Rightarrow> (if i \<ge> length xs then None else get_steps (xs ! i) q) | _ \<Rightarrow> None)"

lemma get_indices_steps:
  "get_steps v (map Idx ix @ q) = (case get_indices v ix of None \<Rightarrow> None | Some y \<Rightarrow> get_steps y q)"
  by (induction v ix rule: get_indices.induct) (auto split: vval.split)

lemma get_segments_steps: "get_segments v segs = get_steps v (path_steps segs)"
  by (induction v segs rule: get_segments.induct)
    (auto simp: path_steps_def get_indices_steps split: option.split)

text \<open>What a reader may see change: nothing, or a hole of a grown list that now reads nil.\<close>

definition same_or_hole :: "vval option \<Rightarrow> vval option \<Rightarrow> bool" where
  "same_or_hole a b \<longleftrightarrow> b = a \<or> (a = None \<and> b = Some VNil)"

lemma get_steps_VNil: "get_steps VNil q = (if q = [] then Some VNil else None)"
  by (cases "(VNil, q)" rule: get_steps.cases) (auto simp: asMap_def)

lemma parallel_Cons: "(x # xs) \<parallel> (y # ys) \<longleftrightarrow> x \<noteq> y \<or> xs \<parallel> ys"
  by (auto simp: parallel_def)

lemma frame_map:
  assumes m: "target_map cur = Some m"
    and child: "\<And>q. q \<parallel> p \<Longrightarrow> same_or_hole (get_steps (mget m k) q) (get_steps child q)"
    and q: "q \<parallel> (Key k # p)"
  shows "same_or_hole (get_steps cur q) (get_steps (VMap MString (AList.update k child m)) q)"
proof (cases q)
  case Nil
  with q show ?thesis by simp
next
  case (Cons s q')
  show ?thesis
  proof (cases s)
    case (Key j)
    show ?thesis
    proof (cases "j = k")
      case True
      with q Cons Key have q': "q' \<parallel> p" by (simp add: parallel_Cons)
      then have "q' \<noteq> []" by auto
      with child [OF q'] m True Cons Key show ?thesis
        by (auto simp: asMap_def mget_def same_or_hole_def get_steps_VNil
            split: option.splits if_splits)
    next
      case False
      with m Cons Key show ?thesis
        by (auto simp: same_or_hole_def asMap_def split: option.splits if_splits)
    qed
  next
    case (Idx j)
    with m Cons show ?thesis
      by (auto simp: same_or_hole_def asMap_def split: vval.splits option.splits if_splits)
  qed
qed

lemma frame_list:
  assumes xs: "target_list cur = Some xs"
    and child: "\<And>q. q \<parallel> p \<Longrightarrow> same_or_hole (get_steps (grow_list xs i ! i) q) (get_steps child q)"
    and q: "q \<parallel> (Idx i # p)"
  shows "same_or_hole (get_steps cur q) (get_steps (VList ((grow_list xs i)[i := child])) q)"
proof (cases q)
  case Nil
  with q show ?thesis by simp
next
  case (Cons s q')
  have len: "length (grow_list xs i) = max (length xs) (Suc i)"
    by (simp add: grow_list_def)
  have nth: "j < length (grow_list xs i) \<Longrightarrow>
      grow_list xs i ! j = (if j < length xs then xs ! j else VNil)" for j
    by (auto simp: grow_list_def nth_append)
  show ?thesis
  proof (cases s)
    case (Key j)
    with xs Cons show ?thesis
      by (auto simp: same_or_hole_def asMap_def split: vval.splits if_splits)
  next
    case (Idx j)
    show ?thesis
    proof (cases "j = i")
      case True
      with q Cons Idx have q': "q' \<parallel> p" by (simp add: parallel_Cons)
      then have "q' \<noteq> []" by auto
      with child [OF q'] xs True Cons Idx show ?thesis
        by (auto simp: same_or_hole_def get_steps_VNil nth len split: vval.splits if_splits)
    next
      case False
      with xs Cons Idx show ?thesis
        by (auto simp: same_or_hole_def get_steps_VNil nth len not_le split: vval.splits if_splits)
    qed
  qed
qed

lemma set_frame:
  "setSegments cur segs val at = Inr r \<Longrightarrow> q \<parallel> path_steps segs \<Longrightarrow>
     same_or_hole (get_steps cur q) (get_steps r q)"
  "setIndices cur' i ix rest val' at' = Inr r' \<Longrightarrow> q' \<parallel> (Idx i # map Idx ix @ path_steps rest) \<Longrightarrow>
     same_or_hole (get_steps cur' q') (get_steps r' q')"
proof (induction cur segs val at and cur' i ix rest val' at' arbitrary: r q and r' q'
    rule: setSegments_setIndices.induct)
  case (1 cur val at)
  then show ?case by (simp add: path_steps_def)
next
  case (2 cur seg segs val at)
  from 2(3) obtain m child where
    m: "target_map cur = Some m" and r: "r = VMap MString (AList.update (ps_key seg) child m)" and
    c: "(case ps_indices seg of
        [] \<Rightarrow> setSegments (mget m (ps_key seg)) segs val
               (if at \<noteq> [] then at @ ''.'' @ ps_key seg else ps_key seg)
      | i # ix \<Rightarrow> setIndices (mget m (ps_key seg)) i ix segs val
               (if at \<noteq> [] then at @ ''.'' @ ps_key seg else ps_key seg)) = Inr child"
    unfolding setSegments_Cons by blast
  have child: "same_or_hole (get_steps (mget m (ps_key seg)) q) (get_steps child q)"
    if "q \<parallel> (map Idx (ps_indices seg) @ path_steps segs)" for q
  proof (cases "ps_indices seg")
    case Nil
    with 2(1) [OF m refl refl Nil] c that show ?thesis by simp
  next
    case (Cons i ix)
    with 2(2) [OF m refl refl Cons] c that show ?thesis by simp
  qed
  from 2(4) frame_map [OF m child] r show ?case by (simp add: path_steps_def)
next
  case (3 cur i ix rest val at)
  from 3(3) obtain xs child where
    xs: "target_list cur = Some xs" and r: "r' = VList ((grow_list xs i)[i := child])" and
    c: "(case ix of
        [] \<Rightarrow> setSegments (grow_list xs i ! i) rest val (at @ ''['' @ show_nat i @ '']'')
      | j # js \<Rightarrow> setIndices (grow_list xs i ! i) j js rest val (at @ ''['' @ show_nat i @ '']'')) = Inr child"
    unfolding setIndices_eq by blast
  have child: "same_or_hole (get_steps (grow_list xs i ! i) q) (get_steps child q)"
    if "q \<parallel> (map Idx ix @ path_steps rest)" for q
  proof (cases ix)
    case Nil
    with 3(1) [OF xs refl refl Nil] c that show ?thesis by simp
  next
    case (Cons j js)
    with 3(2) [OF xs refl refl Cons] c that show ?thesis by simp
  qed
  from 3(4) frame_list [OF xs child] r show ?case by simp
qed

subsection \<open>Bounds\<close>

lemma parse_indices_bound:
  "parse_indices full key rest = Inr ix \<Longrightarrow> i \<in> set ix \<Longrightarrow> int i \<le> maxIndex"
proof (induction full key rest arbitrary: ix rule: parse_indices.induct)
  case (1 full key rest)
  show ?case
  proof (cases "rest = []")
    case True
    with 1(2,3) show ?thesis by (simp add: parse_indices.simps)
  next
    case False
    obtain a b found where cut: "cut CHR '']'' rest = (a, b, found)" by (cases "cut CHR '']'' rest")
    from 1(2) False cut obtain n js where
      ok: "\<not> (hd rest \<noteq> CHR ''['' \<or> \<not> found)" "atoi (tl a) = Some n" "\<not> n < 0" "\<not> n > maxIndex"
      and js: "parse_indices full key b = Inr js" and ix: "ix = nat n # js"
      by (auto simp: parse_indices.simps [of full key rest] bind_res_Inr split: if_splits option.splits)
    from 1(1) [OF False cut [symmetric] refl ok(1,2,3,4) js] 1(3) ix ok show ?thesis by auto
  qed
qed

definition segment_ok :: "pathSegment \<Rightarrow> bool" where
  "segment_ok seg \<longleftrightarrow> ps_key seg \<noteq> [] \<and> (\<forall>i \<in> set (ps_indices seg). int i \<le> maxIndex)"

lemma parseSegment_ok: "parseSegment raw full = Inr seg \<Longrightarrow> segment_ok seg"
  by (auto simp: parseSegment_def segment_ok_def Let_def bind_res_Inr
      split: prod.splits if_splits dest: parse_indices_bound)

lemma valuePath_segment_ok:
  assumes "valuePath path = Inr segs" shows "\<forall>seg \<in> set segs. segment_ok seg"
proof
  fix seg assume seg: "seg \<in> set segs"
  from assms seg have "parsePath (tl path) = Inr segs"
    by (auto simp: valuePath_def split: if_splits)
  then have "list_all2 (\<lambda>raw s. parseSegment raw (tl path) = Inr s) (splitEscaped (tl path) CHR ''.'') segs"
    by (simp add: parsePath_def map_res_Inr)
  with seg obtain raw where "parseSegment raw (tl path) = Inr seg"
    by (auto simp: list_all2_conv_all_nth in_set_conv_nth)
  then show "segment_ok seg" by (rule parseSegment_ok)
qed

text \<open>Every list inside a value holds at most \<open>n\<close> elements.\<close>

primrec lists_within :: "nat \<Rightarrow> vval \<Rightarrow> bool" where
  "lists_within n VNil = True"
| "lists_within n (VBool b) = True"
| "lists_within n (VInt i) = True"
| "lists_within n (VFloat f) = True"
| "lists_within n (VStr s) = True"
| "lists_within n (VList xs) = (length xs \<le> n \<and> list_all id (map (lists_within n) xs))"
| "lists_within n (VMap k m) = list_all snd (map (map_prod id (lists_within n)) m)"

lemma lists_within_list [simp]:
  "lists_within n (VList xs) \<longleftrightarrow> length xs \<le> n \<and> (\<forall>x \<in> set xs. lists_within n x)"
  by (auto simp: list_all_iff)

definition map_within :: "nat \<Rightarrow> vmap \<Rightarrow> bool" where
  "map_within n m \<longleftrightarrow> (\<forall>p \<in> set m. lists_within n (snd p))"

lemma lists_within_map [simp]: "lists_within n (VMap k m) \<longleftrightarrow> map_within n m"
  by (auto simp: list_all_iff map_within_def)

declare lists_within.simps(6,7) [simp del]

lemma map_within_Nil [simp]: "map_within n []"
  by (simp add: map_within_def)

lemma set_update_subset: "set (AList.update k x m) \<subseteq> insert (k, x) (set m)"
  by (induction m) (auto split: if_splits)

lemma within_update: "map_within n m \<Longrightarrow> lists_within n x \<Longrightarrow> map_within n (AList.update k x m)"
  using set_update_subset [of k x m] by (auto simp: map_within_def)

lemma within_build: "map_within n out \<Longrightarrow> map_within n m \<Longrightarrow> map_within n (build_map out m)"
  by (induction out m rule: build_map.induct) (auto simp: map_within_def [of n "_ # _"] within_update
      map_within_def [symmetric])

lemma within_asMap: "asMap v = Some m \<Longrightarrow> lists_within n v \<Longrightarrow> map_within n m"
  by (auto simp: asMap_def within_build split: vval.splits if_splits)

lemma within_mget: "map_within n m \<Longrightarrow> lists_within n (mget m k)"
  by (fastforce simp: mget_def map_within_def split: option.splits dest: map_of_SomeD)

lemma set_within:
  "setSegments cur segs val at = Inr r \<Longrightarrow> lists_within n cur \<Longrightarrow> lists_within n val \<Longrightarrow>
     \<forall>s \<in> set segs. \<forall>i \<in> set (ps_indices s). i < n \<Longrightarrow> lists_within n r"
  "setIndices cur' i ix rest val' at' = Inr r' \<Longrightarrow> lists_within n cur' \<Longrightarrow> lists_within n val' \<Longrightarrow>
     (\<forall>j \<in> set (i # ix). j < n) \<and> (\<forall>s \<in> set rest. \<forall>i \<in> set (ps_indices s). i < n) \<Longrightarrow>
     lists_within n r'"
proof (induction cur segs val at and cur' i ix rest val' at' arbitrary: r and r'
    rule: setSegments_setIndices.induct)
  case (2 cur seg segs val at)
  from 2(3) obtain m child where
    m: "target_map cur = Some m" and r: "r = VMap MString (AList.update (ps_key seg) child m)" and
    c: "(case ps_indices seg of
        [] \<Rightarrow> setSegments (mget m (ps_key seg)) segs val
               (if at \<noteq> [] then at @ ''.'' @ ps_key seg else ps_key seg)
      | i # ix \<Rightarrow> setIndices (mget m (ps_key seg)) i ix segs val
               (if at \<noteq> [] then at @ ''.'' @ ps_key seg else ps_key seg)) = Inr child"
    unfolding setSegments_Cons by blast
  from m 2(4) have wm: "map_within n m"
    by (cases "asMap cur") (auto dest: within_asMap split: if_splits)
  note old = within_mget [OF wm, of "ps_key seg"]
  have "lists_within n child"
  proof (cases "ps_indices seg")
    case Nil
    with 2(1) [OF m refl refl Nil _ old 2(5)] 2(6) c show ?thesis by simp
  next
    case (Cons i ix)
    with 2(2) [OF m refl refl Cons _ old 2(5)] 2(6) c show ?thesis by auto
  qed
  with r wm show ?case by (simp add: within_update)
next
  case (3 cur i ix rest val at)
  from 3(3) obtain xs child where
    xs: "target_list cur = Some xs" and r: "r' = VList ((grow_list xs i)[i := child])" and
    c: "(case ix of
        [] \<Rightarrow> setSegments (grow_list xs i ! i) rest val (at @ ''['' @ show_nat i @ '']'')
      | j # js \<Rightarrow> setIndices (grow_list xs i ! i) j js rest val (at @ ''['' @ show_nat i @ '']'')) = Inr child"
    unfolding setIndices_eq by blast
  from xs 3(4) have wx: "length xs \<le> n" "\<forall>x \<in> set xs. lists_within n x"
    by (auto split: vval.splits if_splits)
  then have wg: "\<forall>x \<in> set (grow_list xs i). lists_within n x"
    by (auto simp: grow_list_def)
  then have old: "lists_within n (grow_list xs i ! i)" by simp
  have "lists_within n child"
  proof (cases ix)
    case Nil
    with 3(1) [OF xs refl refl Nil _ old 3(5)] 3(6) c show ?thesis by simp
  next
    case (Cons j js)
    with 3(2) [OF xs refl refl Cons _ old 3(5)] 3(6) c show ?thesis by auto
  qed
  with r wg wx 3(6) show ?case
    by (auto simp: grow_list_def dest!: set_update_subset_insert [THEN subsetD])
qed simp

subsection \<open>Merging\<close>

text \<open>What normalisation gives: string maps all the way down, no key twice.\<close>

inductive normal :: "vval \<Rightarrow> bool" and normal_map :: "vmap \<Rightarrow> bool" where
  "normal VNil"
| "normal (VBool b)"
| "normal (VInt i)"
| "normal (VFloat f)"
| "normal (VStr s)"
| "(\<And>x. x \<in> set xs \<Longrightarrow> normal x) \<Longrightarrow> normal (VList xs)"
| "normal_map m \<Longrightarrow> normal (VMap MString m)"
| "distinct (map fst m) \<Longrightarrow> (\<And>k x. (k, x) \<in> set m \<Longrightarrow> normal x) \<Longrightarrow> normal_map m"

inductive_simps normal_VMap [simp]: "normal (VMap k m)"
inductive_simps normal_VList [simp]: "normal (VList xs)"
inductive_simps normal_map_iff: "normal_map m"

lemma normal_atoms [simp]:
  "normal VNil" "normal (VBool b)" "normal (VInt i)" "normal (VFloat f)" "normal (VStr s)"
  by (auto intro: normal_normal_map.intros)

lemma normal_map_Nil [simp]: "normal_map []"
  by (simp add: normal_map_iff)

lemma normal_map_Cons: "normal_map ((k, x) # m) \<longleftrightarrow> k \<notin> fst ` set m \<and> normal x \<and> normal_map m"
  by (auto simp: normal_map_iff)

lemma normal_update: "normal_map m \<Longrightarrow> normal x \<Longrightarrow> normal_map (AList.update k x m)"
  using set_update_subset [of k x m]
  by (auto simp: normal_map_iff distinct_update)

lemma normal_build:
  "normal_map out \<Longrightarrow> \<forall>p \<in> set m. normal (snd p) \<Longrightarrow> normal_map (build_map out m)"
  by (induction out m rule: build_map.induct) (simp_all add: normal_update)

lemma normal_normalizeValue: "normal (normalizeValue v)"
proof (induction v)
  case (VMap k m)
  have "normal_map (build_map [] (map (map_prod id normalizeValue) m))"
    by (rule normal_build) (auto simp: snds.simps fsts.simps intro: VMap.IH)
  then show ?case by simp
qed auto

lemma normal_normalizeMap: "normal_map (normalizeMap m)"
  using normal_normalizeValue [of "VMap MString m"] by (simp add: normalizeMap_def)

lemma normal_mget: "normal_map m \<Longrightarrow> map_of m k = Some x \<Longrightarrow> normal x"
  by (auto simp: normal_map_iff dest: map_of_SomeD)

lemma map_of_mergeInto:
  "distinct (map fst src) \<Longrightarrow>
   map_of (mergeInto dst src) k =
     (case map_of src k of None \<Rightarrow> map_of dst k | Some v \<Rightarrow> Some (merge_value (map_of dst k) v))"
proof (induction src arbitrary: dst)
  case (Cons p src)
  obtain j v where p: "p = (j, v)" by (cases p)
  from Cons.prems p have "map_of src j = None" by (auto simp: map_of_eq_None_iff)
  with Cons p show ?case by (auto split: option.split)
qed simp

text \<open>The leaf a list of keys leads to, and the overlay of two trees seen through their leaves:
  what \<open>src\<close> holds at a path wins, a leaf of \<open>src\<close> on the way there hides what \<open>dst\<close> has
  below it, and every other leaf of \<open>dst\<close> shows through.\<close>

definition at_keys :: "vmap \<Rightarrow> string list \<Rightarrow> vval option" where
  "at_keys m ks = get_steps (VMap MString m) (map Key ks)"

definition is_map :: "vval \<Rightarrow> bool" where
  "is_map v \<longleftrightarrow> (case v of VMap _ _ \<Rightarrow> True | _ \<Rightarrow> False)"

definition leaf_at :: "vmap \<Rightarrow> string list \<Rightarrow> vval option" where
  "leaf_at m ks = (case at_keys m ks of None \<Rightarrow> None | Some v \<Rightarrow> if is_map v then None else Some v)"

definition overlay :: "vmap \<Rightarrow> vmap \<Rightarrow> string list \<Rightarrow> vval option" where
  "overlay dst src ks =
     (if at_keys src ks \<noteq> None then leaf_at src ks
      else if \<exists>n < length ks. leaf_at src (take n ks) \<noteq> None then None
      else leaf_at dst ks)"

lemma at_keys_Nil [simp]: "at_keys m [] = Some (VMap MString m)"
  by (simp add: at_keys_def)

lemma leaf_at_Nil [simp]: "leaf_at m [] = None"
  by (simp add: leaf_at_def is_map_def)

lemma get_keys_leaf: "asMap v = None \<Longrightarrow> get_steps v (map Key ks) = (if ks = [] then Some v else None)"
  by (cases ks) auto

lemma asMap_normal: "normal v \<Longrightarrow> asMap v = (case v of VMap _ m \<Rightarrow> Some m | _ \<Rightarrow> None)"
  by (cases v) (auto simp: asMap_def)

lemma at_keys_Cons:
  assumes "normal_map m"
  shows "at_keys m (k # ks) =
    (case map_of m k of None \<Rightarrow> None
     | Some (VMap _ m') \<Rightarrow> at_keys m' ks
     | Some v \<Rightarrow> if ks = [] then Some v else None)"
proof (cases "map_of m k")
  case None
  then show ?thesis by (simp add: at_keys_def asMap_def)
next
  case (Some v)
  from normal_mget [OF assms Some] have n: "normal v" .
  with Some show ?thesis
    by (cases v) (auto simp: at_keys_def asMap_def get_keys_leaf)
qed

lemma leaf_at_Cons:
  assumes "normal_map m"
  shows "leaf_at m (k # ks) =
    (case map_of m k of None \<Rightarrow> None
     | Some (VMap _ m') \<Rightarrow> leaf_at m' ks
     | Some v \<Rightarrow> if ks = [] then Some v else None)"
  unfolding leaf_at_def at_keys_Cons [OF assms]
  by (auto simp: is_map_def split: option.split vval.split)

lemma merge_value_normal_simps:
  "merge_value d v =
     (case (d, v) of
        (Some (VMap MString dm), VMap MString sm) \<Rightarrow> VMap MString (mergeInto dm sm)
      | _ \<Rightarrow> v)"
  by (auto split: option.split vval.split mkind.split)

lemma normal_merge:
  "normal_map dst \<Longrightarrow> normal_map src \<Longrightarrow> normal_map (mergeInto dst src)"
  "(\<And>x. d = Some x \<Longrightarrow> normal x) \<Longrightarrow> normal v \<Longrightarrow> normal (merge_value d v)"
proof (induction dst src and d v rule: mergeInto_merge_value.induct)
  case (2 dst k v src)
  then show ?case
    by (auto simp: normal_map_Cons intro!: 2 normal_update dest: normal_mget)
next
  case (3 d v)
  then show ?case by (auto split: vval.split mkind.split option.split)
qed simp

lemma leaf_at_mergeInto:
  "normal_map dst \<Longrightarrow> normal_map src \<Longrightarrow> leaf_at (mergeInto dst src) ks = overlay dst src ks"
proof (induction ks arbitrary: dst src)
  case Nil
  then show ?case by (simp add: overlay_def)
next
  case (Cons k ks)
  note n = Cons.prems
  then have "distinct (map fst src)" by (simp add: normal_map_iff)
  note mo = map_of_mergeInto [OF this, of dst k]
  note lc = leaf_at_Cons [OF normal_merge(1) [OF n]] leaf_at_Cons [OF n(1)] leaf_at_Cons [OF n(2)]
    at_keys_Cons [OF n(2)]
  show ?case
  proof (cases "map_of src k")
    case None
    have no: "leaf_at src (take i (k # ks)) = None" for i
      using None by (cases i) (simp_all add: lc)
    with None show ?thesis by (simp add: lc mo overlay_def)
  next
    case (Some v)
    note nv = normal_mget [OF n(2) Some]
    show ?thesis
    proof (cases "is_map v")
      case True
      then obtain sm where v: "v = VMap MString sm" and sm: "normal_map sm"
        using nv by (cases v) (auto simp: is_map_def)
      have take: "(\<exists>i < length (k # ks). leaf_at src (take i (k # ks)) \<noteq> None) \<longleftrightarrow>
          (\<exists>i < length ks. leaf_at sm (take i ks) \<noteq> None)"
        using Some v by (auto simp: lc less_Suc_eq_0_disj Ex_less_Suc2 split: option.splits)
      show ?thesis
      proof (cases "\<exists>dm. map_of dst k = Some (VMap MString dm)")
        case True
        then obtain dm where d: "map_of dst k = Some (VMap MString dm)" by blast
        with normal_mget [OF n(1) d] have "normal_map dm" by simp
        from Cons.IH [OF this sm] d Some v take show ?thesis
          by (auto simp: lc mo overlay_def)
      next
        case False
        then have d: "leaf_at dst (k # ks) = None" if "ks \<noteq> []"
          using that normal_mget [OF n(1)] by (fastforce simp: lc(2) split: option.split vval.split)
        have s: "ks \<noteq> [] \<and> leaf_at sm ks = None" if "at_keys sm ks = None"
          using that by (cases ks) (auto simp: leaf_at_def)
        have mv: "merge_value (map_of dst k) v = v"
          using False by (auto simp: merge_value_normal_simps v split: option.split vval.split mkind.split)
        have "leaf_at (mergeInto dst src) (k # ks) = leaf_at sm ks"
          using Some v mv by (simp add: lc(1) mo)
        moreover have "at_keys src (k # ks) = at_keys sm ks" "leaf_at src (k # ks) = leaf_at sm ks"
          using Some v by (simp_all add: lc(3,4))
        ultimately show ?thesis
          unfolding overlay_def using d s by metis
      qed
    next
      case False
      have mv: "merge_value (map_of dst k) v = v"
        using False by (auto simp: merge_value_normal_simps is_map_def split: option.split vval.split mkind.split)
      show ?thesis
      proof (cases "ks = []")
        case True
        with Some False mv show ?thesis
          by (auto simp: lc mo overlay_def is_map_def split: vval.splits)
      next
        case kne: False
        then have "leaf_at src (take 1 (k # ks)) \<noteq> None" "1 < length (k # ks)"
          using Some False by (auto simp: lc is_map_def split: vval.splits)
        then have "\<exists>i < length (k # ks). leaf_at src (take i (k # ks)) \<noteq> None" by blast
        with Some False mv kne show ?thesis
          by (auto simp: lc mo overlay_def is_map_def split: vval.splits)
      qed
    qed
  qed
qed

subsection \<open>Templates\<close>

text \<open>A value with no template in any string or key of it.\<close>

inductive plain :: "vval \<Rightarrow> bool" and plain_map :: "vmap \<Rightarrow> bool" where
  "plain VNil"
| "plain (VBool b)"
| "plain (VInt i)"
| "plain (VFloat f)"
| "\<not> str_contains s ''{{'' \<Longrightarrow> plain (VStr s)"
| "\<forall>x \<in> set xs. plain x \<Longrightarrow> plain (VList xs)"
| "plain_map m \<Longrightarrow> plain (VMap k m)"
| "distinct (map fst m) \<Longrightarrow> \<forall>p \<in> set m. \<not> str_contains (fst p) ''{{'' \<and> plain (snd p) \<Longrightarrow> plain_map m"

inductive_simps plain_simps [simp]:
  "plain VNil" "plain (VBool b)" "plain (VInt i)" "plain (VFloat f)" "plain (VStr s)"
  "plain (VList xs)" "plain (VMap k m)"

inductive_simps plain_map_iff: "plain_map m"

text \<open>The one change rendering makes to it: a \<open>map[any]any\<close> comes back as a string map.\<close>

primrec string_keyed :: "vval \<Rightarrow> vval" where
  "string_keyed VNil = VNil"
| "string_keyed (VBool b) = VBool b"
| "string_keyed (VInt i) = VInt i"
| "string_keyed (VFloat f) = VFloat f"
| "string_keyed (VStr s) = VStr s"
| "string_keyed (VList xs) = VList (map string_keyed xs)"
| "string_keyed (VMap k m) = VMap (if k = MDig then MDig else MString) (map (map_prod id string_keyed) m)"

lemma update_new: "k \<notin> fst ` set m \<Longrightarrow> AList.update k x m = m @ [(k, x)]"
  by (induction m) auto

lemma evaluate_plain:
  "plain v \<Longrightarrow> EvaluateValuesTemplates exec v = Inr (string_keyed v)"
  "\<forall>x \<in> set xs. plain x \<Longrightarrow> evaluate_list exec xs = Inr (map string_keyed xs)"
  "\<forall>p \<in> set m. \<not> str_contains (fst p) ''{{'' \<and> plain (snd p) \<Longrightarrow>
     distinct (map fst (res @ m)) \<Longrightarrow>
     evaluate_map exec res m = Inr (res @ map (map_prod id string_keyed) m)"
proof (induction exec v and exec xs and exec res m
    rule: EvaluateValuesTemplates_evaluate_list_evaluate_map.induct)
  case (1 exec s)
  then show ?case by (simp add: evaluate_string_def RenderTemplate_def)
next
  case (2 exec k m)
  then show ?case by (simp add: plain_map_iff id_def)
next
  case (8 exec res k item m)
  then have "AList.update k (string_keyed item) res = res @ [(k, string_keyed item)]"
    by (simp add: update_new)
  with 8(2) [of k "string_keyed item"] 8(1,3,4) show ?case by (simp add: RenderTemplate_def id_def)
qed (simp_all add: plain_map_iff)

text \<open>No string or key of a value reads \<open><no value>\<close>.\<close>

inductive missing_free :: "vval \<Rightarrow> bool" and missing_free_map :: "vmap \<Rightarrow> bool" where
  "missing_free VNil"
| "missing_free (VBool b)"
| "missing_free (VInt i)"
| "missing_free (VFloat f)"
| "\<not> str_contains s noValue \<Longrightarrow> missing_free (VStr s)"
| "\<forall>x \<in> set xs. missing_free x \<Longrightarrow> missing_free (VList xs)"
| "missing_free_map m \<Longrightarrow> missing_free (VMap k m)"
| "\<forall>p \<in> set m. \<not> str_contains (fst p) noValue \<and> missing_free (snd p) \<Longrightarrow> missing_free_map m"

inductive_simps missing_free_simps [simp]:
  "missing_free VNil" "missing_free (VBool b)" "missing_free (VInt i)" "missing_free (VFloat f)"
  "missing_free (VStr s)" "missing_free (VList xs)" "missing_free (VMap k m)"

inductive_simps missing_free_map_iff: "missing_free_map m"

lemma RenderTemplate_missing_free:
  "RenderTemplate exec t = Inr out \<Longrightarrow> \<not> str_contains t noValue \<Longrightarrow> \<not> str_contains out noValue"
  by (auto simp: RenderTemplate_def split: if_splits sum.splits)

lemma evaluate_string_missing_free:
  assumes "evaluate_string exec s = Inr v" "\<not> str_contains s noValue" shows "missing_free v"
proof -
  from assms obtain out where r: "RenderTemplate exec s = Inr out"
    and v: "v = VStr out \<or> v = typedScalar (trim_space out) \<and> typedScalar (trim_space out) \<noteq> VStr (trim_space out)"
    by (auto simp: evaluate_string_def bind_res_Inr Let_def split: if_splits)
  from RenderTemplate_missing_free [OF r assms(2)] v show ?thesis
    by (auto simp: typedScalar_def split: if_splits option.splits)
qed

lemma missing_free_update:
  "missing_free_map m \<Longrightarrow> \<not> str_contains k noValue \<Longrightarrow> missing_free x \<Longrightarrow>
   missing_free_map (AList.update k x m)"
  using set_update_subset [of k x m] by (auto simp: missing_free_map_iff)

lemma evaluate_missing_free:
  "missing_free v \<Longrightarrow> EvaluateValuesTemplates exec v = Inr v' \<Longrightarrow> missing_free v'"
  "\<forall>x \<in> set xs. missing_free x \<Longrightarrow> evaluate_list exec xs = Inr ys \<Longrightarrow> \<forall>y \<in> set ys. missing_free y"
  "missing_free_map m \<Longrightarrow> missing_free_map res \<Longrightarrow> evaluate_map exec res m = Inr res' \<Longrightarrow>
     missing_free_map res'"
proof (induction exec v and exec xs and exec res m arbitrary: v' and ys and res'
    rule: EvaluateValuesTemplates_evaluate_list_evaluate_map.induct)
  case (1 exec s)
  then show ?case by (auto intro: evaluate_string_missing_free)
next
  case (2 exec k m)
  then show ?case by (auto simp: bind_res_Inr missing_free_map_iff)
next
  case (3 exec xs)
  then show ?case by (auto simp: bind_res_Inr)
next
  case (6 exec x xs)
  then show ?case by (auto simp: bind_res_Inr)
next
  case (8 exec res k item m)
  from 8(5) obtain key x where key: "RenderTemplate exec k = Inr key"
    and x: "EvaluateValuesTemplates exec item = Inr x"
    and rest: "evaluate_map exec (AList.update key x res) m = Inr res'"
    by (auto simp: bind_res_Inr)
  from 8(3) have k: "\<not> str_contains k noValue" "missing_free item" "missing_free_map m"
    by (auto simp: missing_free_map_iff)
  from 8(1) [OF k(2) x] have "missing_free_map (AList.update key x res)"
    by (intro missing_free_update 8(4) RenderTemplate_missing_free [OF key k(1)])
  from 8(2) [OF k(3) this rest] show ?case .
qed auto

subsection \<open>Properties\<close>

lemma SetValuePath_segments:
  assumes "SetValuePath dst path val = Inr dst'" "valuePath path = Inr segs" "segs \<noteq> []"
  shows "setSegments (VMap MString dst) segs val [] = Inr (VMap MString dst')"
proof (cases segs)
  case Nil
  with assms(3) show ?thesis by simp
next
  case (Cons seg rest)
  from assms obtain v where v: "setSegments (VMap MString dst) segs val [] = Inr v"
    and d: "dst' = (case v of VMap _ m \<Rightarrow> m | _ \<Rightarrow> dst)"
    by (auto simp: SetValuePath_def bind_res_Inr)
  from v [unfolded Cons setSegments_Cons] obtain m where "v = VMap MString m" by blast
  with v d show ?thesis by simp
qed

lemma valuePath_nonroot: "valuePath path = Inr [] \<Longrightarrow> path = ''.''"
proof (rule ccontr)
  assume a: "valuePath path = Inr []" "path \<noteq> ''.''"
  then have "list_all2 (\<lambda>raw s. parseSegment raw (tl path) = Inr s) (splitEscaped (tl path) CHR ''.'') []"
    by (auto simp: valuePath_def parsePath_def map_res_Inr split: if_splits)
  then have "splitEscaped (tl path) CHR ''.'' = []" by simp
  moreover have "splitEscaped_loop sep e c s \<noteq> []" for sep e c s
    by (induction sep e c s rule: splitEscaped_loop.induct) auto
  ultimately show False by (simp add: splitEscaped_def)
qed

lemma SetValuePath_read:
  assumes "SetValuePath dst path val = Inr dst'" "path \<noteq> ''.''"
  shows "GetValuePath dst' path = Inr (Some val)"
proof -
  from assms(1) obtain segs where p: "valuePath path = Inr segs"
    by (auto simp: SetValuePath_def bind_res_Inr)
  with assms(2) valuePath_nonroot have "segs \<noteq> []" by auto
  from get_set(1) [OF SetValuePath_segments [OF assms(1) p this]] p show ?thesis
    by (simp add: GetValuePath_def)
qed

lemma within_normalize: "lists_within n v \<Longrightarrow> lists_within n (normalizeValue v)"
proof (induction v)
  case (VMap k m)
  then have "map_within n (map (map_prod id normalizeValue) m)"
    by (fastforce simp: map_within_def snds.simps fsts.simps)
  then show ?case by (simp add: within_build)
qed auto

lemma within_merge:
  "map_within n dst \<Longrightarrow> map_within n src \<Longrightarrow> map_within n (mergeInto dst src)"
  "(\<And>x. d = Some x \<Longrightarrow> lists_within n x) \<Longrightarrow> lists_within n v \<Longrightarrow> lists_within n (merge_value d v)"
proof (induction dst src and d v rule: mergeInto_merge_value.induct)
  case (2 dst k v src)
  then have "lists_within n x" if "map_of dst k = Some x" for x
    using that by (fastforce simp: map_within_def dest: map_of_SomeD)
  with 2 show ?case by (simp add: map_within_def [of n "_ # _"] map_within_def [symmetric] within_update)
next
  case (3 d v)
  then show ?case by (auto split: vval.split mkind.split option.split)
qed simp

text \<open>Reading a path that was just written gives the value written: after
  \<open>SetValuePath\<close> succeeds at any path but the root, \<open>GetValuePath\<close> at the same path finds
  exactly that value, whatever maps and lists the write had to create or grow.\<close>

theorem SetValuePath_then_get:
  assumes "SetValuePath dst path val = Inr dst'" and "path \<noteq> ''.''"
  shows "GetValuePath dst' path = Inr (Some val)"
  using assms by (rule SetValuePath_read)

definition sample_values :: vmap where
  "sample_values = [(''a'', VMap MAny [(''x'', VList [VInt 1])]), (''b'', VStr ''keep'')]"

lemma SetValuePath_then_get_witness:
  "GetValuePath (case SetValuePath sample_values ''.a.x[2].c'' (VBool True) of Inr d \<Rightarrow> d)
     ''.a.x[2].c'' = Inr (Some (VBool True))"
  by (rule SetValuePath_then_get [of sample_values _ "VBool True"]) code_simp+

lemma SetValuePath_elsewhere:
  assumes "SetValuePath dst path val = Inr dst'"
    and "valuePath path = Inr p" and "valuePath other = Inr q"
    and "path_steps q \<parallel> path_steps p"
  shows "\<exists>a b. GetValuePath dst other = Inr a \<and> GetValuePath dst' other = Inr b \<and> same_or_hole a b"
proof -
  from assms(4) have "p \<noteq> []" by (auto simp: path_steps_def)
  from set_frame(1) [OF SetValuePath_segments [OF assms(1,2) this] assms(4)] assms(3)
  show ?thesis by (simp add: GetValuePath_def get_segments_steps)
qed

text \<open>A write touches only its own path: for any other path that neither leads to nor lies
  below the one written, \<open>GetValuePath\<close> gives after the write what it gave before, apart from
  the skipped positions of a list the write grew, which were absent and now read nil.\<close>

theorem SetValuePath_frame:
  assumes "SetValuePath dst path val = Inr dst'"
    and "valuePath path = Inr p" and "valuePath other = Inr q"
    and "path_steps q \<parallel> path_steps p"
  shows "\<exists>a b. GetValuePath dst other = Inr a \<and> GetValuePath dst' other = Inr b \<and> same_or_hole a b"
  using assms by (rule SetValuePath_elsewhere)

lemma SetValuePath_frame_witness:
  "\<exists>a b. GetValuePath sample_values ''.a.x[0]'' = Inr a \<and>
     GetValuePath (case SetValuePath sample_values ''.a.x[2]'' (VBool True) of Inr d \<Rightarrow> d) ''.a.x[0]'' = Inr b \<and>
     same_or_hole a b"
  by (rule SetValuePath_frame [of _ "''.a.x[2]''" "VBool True" _
        "[\<lparr>ps_key = ''a'', ps_indices = []\<rparr>, \<lparr>ps_key = ''x'', ps_indices = [2]\<rparr>]" _
        "[\<lparr>ps_key = ''a'', ps_indices = []\<rparr>, \<lparr>ps_key = ''x'', ps_indices = [0]\<rparr>]"])
    (code_simp, code_simp, code_simp, simp add: path_steps_def parallel_Cons)

text \<open>A path cannot make the values grow without limit: no list of the result is longer
  than 64 elements unless the values or the value written already held a longer one.\<close>

theorem SetValuePath_bounded:
  assumes "SetValuePath dst path val = Inr dst'"
    and "map_within n dst" and "lists_within n val" and "64 \<le> n"
  shows "map_within n dst'"
proof -
  from assms(1) obtain segs where p: "valuePath path = Inr segs"
    by (auto simp: SetValuePath_def bind_res_Inr)
  show ?thesis
  proof (cases "segs = []")
    case True
    with assms p within_normalize [OF assms(3)] show ?thesis
      by (auto simp: SetValuePath_def within_merge split: vval.splits mkind.splits)
  next
    case False
    from valuePath_segment_ok [OF p] assms(4)
    have "\<forall>s \<in> set segs. \<forall>i \<in> set (ps_indices s). i < n"
      by (fastforce simp: segment_ok_def maxIndex_def)
    from set_within(1) [OF SetValuePath_segments [OF assms(1) p False] _ assms(3) this] assms(2)
    show ?thesis by simp
  qed
qed

lemma SetValuePath_bounded_witness:
  "map_within 64 (case SetValuePath sample_values ''.a.x[63]'' VNil of Inr d \<Rightarrow> d)"
  by (rule SetValuePath_bounded [of sample_values "''.a.x[63]''" VNil])
    (code_simp, simp add: sample_values_def map_within_def [of _ "_ # _"] map_within_def [symmetric], simp_all)

text \<open>\<open>MergeValues\<close> is the overlay of the two trees: at every path of keys the merged tree
  has the leaf the overlay of the normalised trees has there. What the source holds wins, a
  leaf of the source hides everything below it, and every other leaf of the destination
  survives; no branch is dropped because its map has another Go type.\<close>

theorem MergeValues_overlay:
  "leaf_at (MergeValues dst src) ks = overlay (normalizeMap dst) (normalizeMap src) ks"
  by (simp add: MergeValues_def leaf_at_mergeInto normal_normalizeMap)

text \<open>A mapping sets its target exactly when the values define its source: a source that
  is absent leaves the destination as it was, and one that is present is what the target then
  reads.\<close>

theorem ApplyMapping_default:
  assumes "ApplyMapping dst values source target = Inr (found, dst')" and "target \<noteq> ''.''"
  shows "(if found then GetValuePath dst' target = GetValuePath values source \<and>
             (\<exists>val. GetValuePath values source = Inr (Some val))
          else dst' = dst \<and> GetValuePath values source = Inr None)"
proof -
  obtain r where r: "GetValuePath values source = Inr r"
    using assms(1) by (auto simp: ApplyMapping_def split: sum.splits)
  then show ?thesis
    using assms(1) SetValuePath_read [OF _ assms(2)]
    by (auto simp: ApplyMapping_def split: sum.splits option.splits)
qed

definition sample_mapped :: "vp_error + bool \<times> vmap" where
  "sample_mapped = ApplyMapping sample_values [(''n'', VInt 3)] ''.n'' ''.a.y''"

lemma ApplyMapping_default_witness:
  "GetValuePath (snd (projr sample_mapped)) ''.a.y'' = GetValuePath [(''n'', VInt 3)] ''.n'' \<and>
   (\<exists>val. GetValuePath [(''n'', VInt 3)] ''.n'' = Inr (Some val))"
proof -
  have "ApplyMapping sample_values [(''n'', VInt 3)] ''.n'' ''.a.y'' = Inr (True, snd (projr sample_mapped))"
    by code_simp
  from ApplyMapping_default [OF this] show ?thesis by simp
qed

text \<open>Rendering leaves values that hold no template alone: whatever the template engine
  does, a tree none of whose strings or keys contains an opening delimiter comes back equal,
  with its keys in place, a \<open>map[any]any\<close> in it turned into a string map.\<close>

theorem EvaluateValuesTemplates_plain:
  assumes "plain v"
  shows "EvaluateValuesTemplates exec v = Inr (string_keyed v)"
  using assms by (rule evaluate_plain)

lemma EvaluateValuesTemplates_plain_witness:
  "EvaluateValuesTemplates Inl (VMap MDig sample_values) = Inr (string_keyed (VMap MDig sample_values))"
  by (rule EvaluateValuesTemplates_plain) (simp add: sample_values_def plain_map_iff)

text \<open>A missing key never reaches the rendered values: if no string of the input reads
  \<open><no value>\<close>, a rendering that succeeds has none either, whatever the template engine
  produced along the way.\<close>

theorem EvaluateValuesTemplates_no_missing:
  assumes "missing_free v" and "EvaluateValuesTemplates exec v = Inr v'"
  shows "missing_free v'"
  using assms by (rule evaluate_missing_free)

lemma EvaluateValuesTemplates_no_missing_witness:
  "missing_free (VList [VInt 7, VStr ''x''])"
  by (rule EvaluateValuesTemplates_no_missing [of "VList [VStr ''{{ .n }}'', VStr ''x'']" "\<lambda>_. Inr '' 7''"])
    (simp add: noValue_def, code_simp)

end
