(* ===== verification/Cluster_Removal.thy ===== *)
theory Cluster_Removal
  imports Cluster_Host Value_Paths
begin

section \<open>Removing hosts from a cluster\<close>

text \<open>
  Models the parts of \<open>pkg/phase\<close> that decide which hosts a removal touches and in which order:
  target lists and the choice of a leader (\<open>85_delete_common.go\<close>), the two delete phases
  (\<open>86\<close>, \<open>87\<close>), the matching of hosts to nodes (\<open>04_node_names.go\<close>), the detection of nodes no host
  accounts for (\<open>13\<close>), the repointing of the controllers that stay (\<open>89\<close>) and the uniqueness and
  clock checks of \<open>11_validate_hosts.go\<close>. Which engines run, what kubectl prints and how an engine
  configuration is parsed and printed are parameters.
\<close>

subsection \<open>Targets\<close>

definition hostIdentifiers :: "Host \<Rightarrow> string list" where
  "hostIdentifiers h =
     filter (\<lambda>name. name \<noteq> [])
       ([h_Hostname h, hm_Hostname (h_Metadata h)] @
        (case cn_ssh (h_connection h) of Some (addr, _) \<Rightarrow> [addr] | None \<Rightarrow> []) @
        (case h_Configurer h of Some name \<Rightarrow> [name] | None \<Rightarrow> []))"

definition matchesTargetHost :: "Host \<Rightarrow> string list \<Rightarrow> bool" where
  "matchesTargetHost h targets \<longleftrightarrow>
     targets \<noteq> [] \<and>
     list_ex (\<lambda>t. t \<noteq> [] \<and> list_ex (\<lambda>name. equal_fold t name) (hostIdentifiers h)) targets"

definition filterTargetHosts :: "Hosts \<Rightarrow> string list \<Rightarrow> Hosts" where
  "filterTargetHosts hosts targets =
     (if targets = [] then hosts else Hosts_Filter (\<lambda>h. matchesTargetHost h targets) hosts)"

text \<open>The error names the targets nobody matches and the names the configuration holds.\<close>

definition CheckTargetHosts :: "Hosts \<Rightarrow> string list \<Rightarrow> (string list \<times> string list) option" where
  "CheckTargetHosts hosts targets =
     (if targets = [] then None
      else (let known = concat (map hostIdentifiers hosts);
                unmatched = filter (\<lambda>t. t \<noteq> [] \<and> \<not> list_ex (\<lambda>name. equal_fold t name) known) targets
            in if unmatched = [] then None else Some (unmatched, remdups_adj (sort_strings known))))"

subsection \<open>The plan of a removal\<close>

datatype removal_error =
    ErrNoRunningController
  | ErrNoSurvivingController
  | ErrControllersNotOneAtATime int int

definition planControllerRemovals :: "Hosts \<Rightarrow> Hosts \<Rightarrow> removal_error + bool" where
  "planControllerRemovals control surviving =
     (let removing = int (length control) - int (length surviving) in
      if removing > 1 then Inl (ErrControllersNotOneAtATime removing (int (length control)))
      else Inr (removing > 0 \<and> length surviving < 2))"

text \<open>\<open>DeleteCommon.Prepare\<close>: the leader, if there is one, and whether the engine stays up until the
  node is deleted. \<open>running\<close> says on which hosts the controller service runs.\<close>

definition DeleteCommon_Prepare ::
  "bool \<Rightarrow> (Host \<Rightarrow> bool) \<Rightarrow> string list \<Rightarrow> Hosts \<Rightarrow> removal_error + Host option \<times> bool"
where
  "DeleteCommon_Prepare dry running targets hosts =
     (let control = Hosts_Filter (\<lambda>h. running h \<and> IsController h) hosts in
      if length control = 0 then
        (if \<not> dry \<and> length (filterTargetHosts hosts targets) \<noteq> length hosts
         then Inl ErrNoRunningController else Inr (None, False))
      else
        (let surviving = Hosts_Filter (\<lambda>h. \<not> matchesTargetHost h targets) control in
         if length surviving > 0 then
           bind_res (planControllerRemovals control surviving) (\<lambda>keep. Inr (Some (surviving ! 0), keep))
         else if length (filterTargetHosts hosts targets) = length hosts then Inr (Some (control ! 0), False)
         else Inl ErrNoSurvivingController))"

text \<open>What comes before the deletion of a controller's node: a reset of the host where the distro
  resets itself, nothing where the engine has to stay up, a stop otherwise.\<close>

datatype before_delete = ResetHost | LeaveRunning | StopEngine

definition stopEngineBeforeDelete :: "bool \<Rightarrow> bool \<Rightarrow> before_delete" where
  "stopEngineBeforeDelete preUninstallResetter keepEngineForDelete =
     (if preUninstallResetter then ResetHost else if keepEngineForDelete then LeaveRunning else StopEngine)"

subsection \<open>Hosts and their nodes\<close>

text \<open>\<open>strings.FieldsFunc\<close>.\<close>

fun fields_loop :: "(char \<Rightarrow> bool) \<Rightarrow> string \<Rightarrow> string \<Rightarrow> string list" where
  "fields_loop p cur [] = (if cur = [] then [] else [cur])"
| "fields_loop p cur (c # s) =
     (if p c then (if cur = [] then fields_loop p [] s else cur # fields_loop p [] s)
      else fields_loop p (cur @ [c]) s)"

definition FieldsFunc :: "(char \<Rightarrow> bool) \<Rightarrow> string \<Rightarrow> string list" where
  "FieldsFunc p s = fields_loop p [] s"

definition node_sep :: "char \<Rightarrow> bool" where
  "node_sep c \<longleftrightarrow> c = CHR '','' \<or> c = CHR '' '' \<or> byte c = 9"

definition host_names :: "Host \<Rightarrow> string list" where
  "host_names h = [hm_Hostname (h_Metadata h), h_Hostname h, h_PrivateAddress h, Host_Address h]"

definition hostMatchesIdentities :: "Host \<Rightarrow> string list \<Rightarrow> bool" where
  "hostMatchesIdentities h identities \<longleftrightarrow>
     list_ex (\<lambda>i. i \<noteq> [] \<and> to_lower i \<in> set identities) (host_names h)"

fun match_hosts :: "string list \<Rightarrow> string \<Rightarrow> Hosts \<Rightarrow> (string \<rightharpoonup> string) \<Rightarrow> (string \<rightharpoonup> string)" where
  "match_hosts identities node [] byHost = byHost"
| "match_hosts identities node (h # hosts) byHost =
     match_hosts identities node hosts
       (if byHost (Host_String h) \<noteq> None then byHost
        else if hostMatchesIdentities h identities then byHost(Host_String h \<mapsto> node) else byHost)"

definition match_line :: "Hosts \<Rightarrow> (string \<rightharpoonup> string) \<Rightarrow> string \<Rightarrow> (string \<rightharpoonup> string)" where
  "match_line hosts byHost line =
     (case FieldsFunc node_sep line of
        [] \<Rightarrow> byHost
      | node # rest \<Rightarrow> match_hosts (map to_lower (node # rest)) node hosts byHost)"

definition newline :: char where
  "newline = char_of (10 :: nat)"

definition matchNodesToHosts :: "string \<Rightarrow> Hosts \<Rightarrow> (string \<rightharpoonup> string)" where
  "matchNodesToHosts listed hosts = foldl (match_line hosts) Map.empty (split_on newline listed)"

text \<open>\<open>listed\<close> is what kubectl printed on the leader, if the command succeeded.\<close>

definition resolveNodeNames :: "Host option \<Rightarrow> string option \<Rightarrow> Hosts \<Rightarrow> (string \<rightharpoonup> string)" where
  "resolveNodeNames leader listed hosts =
     (if leader = None \<or> length hosts = 0 then Map.empty
      else (case listed of None \<Rightarrow> Map.empty | Some out \<Rightarrow> matchNodesToHosts out hosts))"

text \<open>The fallback asks the configurer of the host, which has to be resolved.\<close>

definition nodeNameFor :: "(string \<rightharpoonup> string) \<Rightarrow> Host \<Rightarrow> string option" where
  "nodeNameFor names h = (case names (Host_String h) of Some name \<Rightarrow> Some name | None \<Rightarrow> h_Configurer h)"

definition DeleteControllers_hosts :: "Host \<Rightarrow> (string \<rightharpoonup> string) \<Rightarrow> Hosts \<Rightarrow> Hosts" where
  "DeleteControllers_hosts leader names candidates =
     rev (Hosts_Filter (\<lambda>h.
       if names (Host_String h) = None then False
       else IsController h \<and> h_Hostname h \<noteq> h_Hostname leader) candidates)"

definition DeleteControllers_Prepare ::
  "bool \<Rightarrow> (Host \<Rightarrow> bool) \<Rightarrow> string option \<Rightarrow> string list \<Rightarrow> Hosts \<Rightarrow> removal_error + (Host \<times> bool \<times> Hosts) option"
where
  "DeleteControllers_Prepare dry running listed targets hosts =
     bind_res (DeleteCommon_Prepare dry running targets hosts) (\<lambda>(leader, keep).
       case leader of
         None \<Rightarrow> Inr None
       | Some l \<Rightarrow>
           (let candidates = filterTargetHosts hosts targets;
                names = resolveNodeNames leader listed candidates
            in Inr (Some (l, keep, DeleteControllers_hosts l names candidates))))"

definition DeleteWorkers_Prepare ::
  "bool \<Rightarrow> (Host \<Rightarrow> bool) \<Rightarrow> string option \<Rightarrow> string list \<Rightarrow> Hosts \<Rightarrow> removal_error + (Host \<times> Hosts) option"
where
  "DeleteWorkers_Prepare dry running listed targets hosts =
     bind_res (DeleteCommon_Prepare dry running targets hosts) (\<lambda>(leader, keep).
       case leader of
         None \<Rightarrow> Inr None
       | Some l \<Rightarrow>
           (let candidates = filterTargetHosts hosts targets;
                names = resolveNodeNames leader listed candidates
            in Inr (Some (l, Hosts_Filter (\<lambda>h.
                 if names (Host_String h) = None then False else \<not> IsController h) candidates))))"

subsection \<open>Nodes no host accounts for\<close>

record kubectlNode =
  kn_name :: string
  kn_labels :: "(string \<times> string) list"
  kn_addresses :: "string list"

definition controlPlaneLabels :: "string list" where
  "controlPlaneLabels = [''node-role.kubernetes.io/control-plane'', ''node-role.kubernetes.io/master'',
     ''node-role.kubernetes.io/etcd'']"

definition nodeRole :: "kubectlNode \<Rightarrow> string" where
  "nodeRole node =
     (if list_ex (\<lambda>label. map_of (kn_labels node) label \<noteq> None) controlPlaneLabels
      then ''controller'' else ''worker'')"

definition known_names :: "Hosts \<Rightarrow> string list" where
  "known_names hosts = concat (map (\<lambda>h. map to_lower (filter (\<lambda>i. i \<noteq> []) (host_names h))) hosts)"

definition isKnownNode :: "kubectlNode \<Rightarrow> string list \<Rightarrow> bool" where
  "isKnownNode node known \<longleftrightarrow>
     to_lower (kn_name node) \<in> set known \<or>
     list_ex (\<lambda>addr. addr \<noteq> [] \<and> to_lower addr \<in> set known) (kn_addresses node)"

definition node_label :: "kubectlNode \<Rightarrow> string" where
  "node_label node = kn_name node @ '' ('' @ nodeRole node @ '')''"

definition unmanagedNodes :: "Hosts \<Rightarrow> kubectlNode list \<Rightarrow> string list" where
  "unmanagedNodes hosts nodes =
     sort_strings (map node_label (filter (\<lambda>n. \<not> isKnownNode n (known_names hosts)) nodes))"

definition DetectRemovedHosts_Run :: "bool \<Rightarrow> Hosts \<Rightarrow> (string + kubectlNode list) \<Rightarrow> string list option" where
  "DetectRemovedHosts_Run allowUnmanaged hosts nodes =
     (case nodes of
        Inl e \<Rightarrow> None
      | Inr ns \<Rightarrow>
          (let unmanaged = unmanagedNodes hosts ns in
           if length unmanaged = 0 then None else if allowUnmanaged then None else Some unmanaged))"

subsection \<open>Repointing the controllers that stay\<close>

definition keyServer :: string where
  "keyServer = ''server''"

definition split_controllers :: "string list \<Rightarrow> Hosts \<Rightarrow> Hosts \<times> Hosts" where
  "split_controllers targets hosts =
     foldl (\<lambda>(removed, survivors) h.
         if matchesTargetHost h targets then (removed @ [h], survivors) else (removed, survivors @ [h]))
       ([], []) (Hosts_Filter IsController hosts)"

definition ReconfigureSurvivors_ShouldRun :: "bool \<Rightarrow> string list \<Rightarrow> Hosts \<Rightarrow> bool" where
  "ReconfigureSurvivors_ShouldRun unsupported targets hosts =
     (case split_controllers targets hosts of (removed, survivors) \<Rightarrow>
        \<not> unsupported \<and> length removed > 0 \<and> length survivors > 0)"

text \<open>The survivors are told apart by their position, as the pointers are in the code: the leader is
  the first.\<close>

definition serverFor :: "string \<Rightarrow> nat \<Rightarrow> string \<times> bool" where
  "serverFor leaderURL i = (if i = 0 then ([], False) else (leaderURL, True))"

datatype repoint_outcome =
    ConfigUnreadable
  | ConfigUnparsable
  | NoLeaderName
  | InSync
  | RenderFailed
  | WriteRefused
  | Rewritten string

text \<open>\<open>got == want\<close> compares an interface value with a string: a missing key reads \<open>nil\<close>, which is
  not equal to any string, the empty one included.\<close>

definition same_server :: "vmap \<Rightarrow> string \<Rightarrow> bool \<Rightarrow> bool" where
  "same_server cfg want wantSet \<longleftrightarrow>
     (map_of cfg keyServer \<noteq> None) = wantSet \<and> mget cfg keyServer = VStr want"

definition repoint_config :: "vmap \<Rightarrow> string \<Rightarrow> bool \<Rightarrow> vmap" where
  "repoint_config cfg want wantSet =
     (if wantSet then AList.update keyServer (VStr want) cfg else AList.delete keyServer cfg)"

definition repoint ::
  "(string \<Rightarrow> vmap option) \<Rightarrow> (vmap \<Rightarrow> string option) \<Rightarrow> string option \<Rightarrow> bool \<Rightarrow> string \<Rightarrow> nat \<Rightarrow> repoint_outcome"
where
  "repoint parse render content writable leaderURL i =
     (case content of
        None \<Rightarrow> ConfigUnreadable
      | Some text \<Rightarrow>
          (case parse text of
             None \<Rightarrow> ConfigUnparsable
           | Some cfg \<Rightarrow>
               (case serverFor leaderURL i of (want, wantSet) \<Rightarrow>
                  if wantSet \<and> want = [] then NoLeaderName
                  else if same_server cfg want wantSet then InSync
                  else (case render (repoint_config cfg want wantSet) of
                          None \<Rightarrow> RenderFailed
                        | Some out \<Rightarrow> if writable then Rewritten out else WriteRefused))))"

subsection \<open>Uniqueness and clocks\<close>

definition count_of :: "'a list \<Rightarrow> 'a \<Rightarrow> nat" where
  "count_of xs x = length (filter (\<lambda>y. y = x) xs)"

definition validateUniqueHostname :: "Hosts \<Rightarrow> Host \<Rightarrow> string option" where
  "validateUniqueHostname hosts h =
     (let name = hm_Hostname (h_Metadata h) in
      if count_of (map (\<lambda>h. hm_Hostname (h_Metadata h)) hosts) name > 1 then Some name else None)"

definition validateUniquePrivateAddress :: "Hosts \<Rightarrow> Host \<Rightarrow> string option" where
  "validateUniquePrivateAddress hosts h =
     (if count_of (filter (\<lambda>a. a \<noteq> []) (map h_PrivateAddress hosts)) (h_PrivateAddress h) > 1
      then Some (h_PrivateAddress h) else None)"

text \<open>Skews in seconds; the median of no hosts does not exist, and indexing it panics.\<close>

definition maxSkew :: int where
  "maxSkew = 30"

definition validateClockSkew :: "int list \<Rightarrow> nat option" where
  "validateClockSkew skews =
     (if skews = [] then None
      else (let median = sort skews ! (length skews div 2) in
            Some (length (filter (\<lambda>s. \<bar>s - median\<bar> > maxSkew) skews))))"

subsection \<open>Lemmas\<close>

lemma matchesTargetHost_iff:
  "matchesTargetHost h targets \<longleftrightarrow>
     (\<exists>t \<in> set targets. t \<noteq> [] \<and> (\<exists>name \<in> set (hostIdentifiers h). equal_fold t name))"
  by (auto simp: matchesTargetHost_def list_ex_iff)

definition targeted :: "string list \<Rightarrow> Hosts \<Rightarrow> Hosts" where
  "targeted targets hosts = filter (\<lambda>h. matchesTargetHost h targets) hosts"

definition kept :: "string list \<Rightarrow> Hosts \<Rightarrow> Hosts" where
  "kept targets hosts = filter (\<lambda>h. \<not> matchesTargetHost h targets) hosts"

lemma targeted_kept_length: "length (targeted targets hosts) + length (kept targets hosts) = length hosts"
  by (simp add: targeted_def kept_def sum_length_filter_compl)

text \<open>The running controllers, and whether some host is not in the target list.\<close>

definition running_controllers :: "(Host \<Rightarrow> bool) \<Rightarrow> Hosts \<Rightarrow> Hosts" where
  "running_controllers running hosts = filter (\<lambda>h. running h \<and> IsController h) hosts"

definition subset_removal :: "string list \<Rightarrow> Hosts \<Rightarrow> bool" where
  "subset_removal targets hosts \<longleftrightarrow> length (filterTargetHosts hosts targets) \<noteq> length hosts"

lemma subset_removal_iff: "subset_removal targets hosts \<longleftrightarrow> targets \<noteq> [] \<and> kept targets hosts \<noteq> []"
  using targeted_kept_length [of targets hosts]
  by (auto simp: subset_removal_def filterTargetHosts_def targeted_def)

lemma DeleteCommon_Prepare_eq:
  "DeleteCommon_Prepare dry running targets hosts =
     (let control = running_controllers running hosts in
      if control = [] then
        (if \<not> dry \<and> subset_removal targets hosts then Inl ErrNoRunningController else Inr (None, False))
      else if kept targets control \<noteq> [] then
        (if length (targeted targets control) > 1
         then Inl (ErrControllersNotOneAtATime (int (length (targeted targets control))) (int (length control)))
         else Inr (Some (hd (kept targets control)),
                   targeted targets control \<noteq> [] \<and> length (kept targets control) < 2))
      else if subset_removal targets hosts then Inl ErrNoSurvivingController
      else Inr (Some (hd control), False))"
proof -
  let ?control = "running_controllers running hosts"
  have removing: "int (length ?control) - int (length (kept targets ?control)) = int (length (targeted targets ?control))"
    using targeted_kept_length [of targets ?control] by simp
  have plan: "planControllerRemovals ?control (kept targets ?control) =
      (if length (targeted targets ?control) > 1
       then Inl (ErrControllersNotOneAtATime (int (length (targeted targets ?control))) (int (length ?control)))
       else Inr (targeted targets ?control \<noteq> [] \<and> length (kept targets ?control) < 2))"
    unfolding planControllerRemovals_def removing by auto
  show ?thesis
    unfolding DeleteCommon_Prepare_def Let_def Hosts_Filter_filter running_controllers_def [symmetric]
      kept_def [symmetric] subset_removal_def
    using plan by (auto simp: hd_conv_nth)
qed

lemma match_hosts_other: "k \<notin> Host_String ` set hosts \<Longrightarrow> match_hosts ids node hosts m k = m k"
  by (induction ids node hosts m rule: match_hosts.induct) auto

lemma match_hosts_at:
  "distinct (map Host_String hosts) \<Longrightarrow> h \<in> set hosts \<Longrightarrow>
   match_hosts ids node hosts m (Host_String h) =
     (case m (Host_String h) of
        Some n \<Rightarrow> Some n
      | None \<Rightarrow> if hostMatchesIdentities h ids then Some node else None)"
proof (induction ids node hosts m rule: match_hosts.induct)
  case (2 ids node g hosts m)
  show ?case
  proof (cases "h = g")
    case True
    with 2(2) have "Host_String h \<notin> Host_String ` set hosts" by simp
    with True show ?thesis by (auto simp: match_hosts_other split: option.split)
  next
    case False
    with 2(2,3) have "h \<in> set hosts" "Host_String h \<noteq> Host_String g" by (auto simp: image_iff)
    with 2 show ?thesis by (auto split: option.split)
  qed
qed simp

definition line_match :: "Host \<Rightarrow> string list \<Rightarrow> bool" where
  "line_match h ws \<longleftrightarrow> ws \<noteq> [] \<and> hostMatchesIdentities h (map to_lower ws)"

lemma match_line_at:
  assumes "distinct (map Host_String hosts)" "h \<in> set hosts"
  shows "match_line hosts m line (Host_String h) =
     (case m (Host_String h) of
        Some n \<Rightarrow> Some n
      | None \<Rightarrow> if line_match h (FieldsFunc node_sep line) then Some (hd (FieldsFunc node_sep line)) else None)"
  using match_hosts_at [OF assms] assms
  by (auto simp: match_line_def line_match_def split: list.split option.split)

lemma match_lines_at:
  assumes "distinct (map Host_String hosts)" "h \<in> set hosts"
  shows "foldl (match_line hosts) m lines (Host_String h) =
     (case m (Host_String h) of
        Some n \<Rightarrow> Some n
      | None \<Rightarrow> map_option hd (find (line_match h) (map (FieldsFunc node_sep) lines)))"
proof (induction lines arbitrary: m)
  case (Cons line lines)
  then show ?case by (auto simp: match_line_at [OF assms] split: option.split)
qed (simp split: option.split)

lemma find_Some: "find P xs = Some x \<Longrightarrow> P x \<and> x \<in> set xs"
  by (induction xs) (auto split: if_splits)

lemma count_of_mset: "count_of xs x = count (mset xs) x"
  by (induction xs) (auto simp: count_of_def)

lemma count_of_distinct: "list_all (\<lambda>x. count_of xs x \<le> 1) xs \<longleftrightarrow> distinct xs"
proof
  assume "list_all (\<lambda>x. count_of xs x \<le> 1) xs"
  then have "count (mset xs) a = (if a \<in> set xs then 1 else 0)" for a
    by (auto simp: list_all_iff count_of_mset not_in_iff intro!: le_antisym count_greater_zero_iff [THEN iffD2, THEN Suc_leI, simplified])
  then show "distinct xs" by (simp add: distinct_count_atmost_1)
qed (auto simp: list_all_iff count_of_mset distinct_count_atmost_1)

subsection \<open>Properties\<close>

definition up_at_delete :: "bool \<Rightarrow> string list \<Rightarrow> Hosts \<Rightarrow> nat" where
  "up_at_delete keepEngine targets control =
     (case stopEngineBeforeDelete False keepEngine of
        StopEngine \<Rightarrow> length (kept targets control)
      | _ \<Rightarrow> length control)"


definition three_controllers :: Hosts where
  "three_controllers = [sample_host ''a'' RoleController [], sample_host ''b'' RoleController [],
     sample_host ''c'' RoleController [], sample_host ''w'' RoleWorker []]"


text \<open>When a removal is refused: exactly when some host is kept and either nothing runs to drive
  it, or every running controller goes, or more than one running controller goes while
  another stays. A dry run is not refused for lack of a running controller.\<close>

theorem removal_refused_iff:
  "isl (DeleteCommon_Prepare dry running targets hosts) =
     (subset_removal targets hosts \<and>
      (let control = running_controllers running hosts in
       control = [] \<and> \<not> dry \<or> control \<noteq> [] \<and> kept targets control = [] \<or>
       kept targets control \<noteq> [] \<and> length (targeted targets control) > 1))"
proof -
  have sub: "subset_removal targets hosts"
    if "kept targets (running_controllers running hosts) \<noteq> []"
      "Suc 0 < length (targeted targets (running_controllers running hosts))"
  proof -
    from that(2) have "targeted targets (running_controllers running hosts) \<noteq> []" by auto
    then obtain g where "matchesTargetHost g targets" by (auto simp: targeted_def filter_empty_conv)
    then have "targets \<noteq> []" by (auto simp: matchesTargetHost_def)
    moreover from that(1) have "kept targets hosts \<noteq> []"
      by (auto simp: kept_def running_controllers_def filter_empty_conv)
    ultimately show ?thesis by (simp add: subset_removal_iff)
  qed
  show ?thesis
    using sub by (auto simp: DeleteCommon_Prepare_eq Let_def targeted_def [of _ "[]"])
qed

text \<open>Controllers without a host name override are never deleted through the leader: the phase
  tells the leader from the others by \<open>Hostname\<close>, which is empty on both when neither sets it,
  so the list of controllers to drain, stop and delete is empty whatever the targets are.\<close>

theorem unset_hostnames_delete_nothing:
  assumes "h_Hostname leader = []" and "\<forall>h \<in> set candidates. h_Hostname h = []"
  shows "DeleteControllers_hosts leader names candidates = []"
  using assms by (auto simp: DeleteControllers_hosts_def filter_empty_conv)

lemma unset_hostnames_delete_nothing_witness:
  "DeleteControllers_hosts (hd three_controllers) [''b'' \<mapsto> ''b''] (filterTargetHosts three_controllers [''b'']) = []"
  by (rule unset_hostnames_delete_nothing)
    (simp_all add: three_controllers_def sample_host_def filterTargetHosts_def)

text \<open>A target list that passes the check removes something for every entry: each target that is
  not empty names at least one host of the configuration, and a list that fails names one that
  names none.\<close>

theorem CheckTargetHosts_iff:
  "(CheckTargetHosts hosts targets = None) =
     list_all (\<lambda>t. t = [] \<or> list_ex (\<lambda>h. matchesTargetHost h [t]) hosts) targets"
  by (auto simp: CheckTargetHosts_def Let_def filter_empty_conv list_all_iff list_ex_iff matchesTargetHost_iff)

definition node_line :: "kubectlNode \<Rightarrow> string list" where
  "node_line n = kn_name n # filter (\<lambda>a. a \<noteq> []) (kn_addresses n)"

text \<open>The apply and the removal side agree on which node is which host: a node is accounted for
  exactly when some host would be matched to the line kubectl prints for it, and the nodes
  reported as unmanaged are the others, sorted.\<close>

theorem unmanaged_iff_unmatched:
  "isKnownNode n (known_names hosts) = list_ex (\<lambda>h. line_match h (node_line n)) hosts \<and>
   unmanagedNodes hosts nodes =
     sort_strings (map node_label (filter (\<lambda>n. \<not> list_ex (\<lambda>h. line_match h (node_line n)) hosts) nodes))"
proof -
  have mem: "x \<in> set (known_names hosts) \<longleftrightarrow>
      (\<exists>h \<in> set hosts. \<exists>i \<in> set (host_names h). i \<noteq> [] \<and> to_lower i = x)" for x
    by (auto simp: known_names_def)
  have known: "isKnownNode n (known_names hosts) = list_ex (\<lambda>h. line_match h (node_line n)) hosts" for n
  proof -
    have "isKnownNode n (known_names hosts) \<longleftrightarrow> (\<exists>y \<in> set (node_line n). to_lower y \<in> set (known_names hosts))"
      by (auto simp: isKnownNode_def node_line_def list_ex_iff)
    also have "\<dots> \<longleftrightarrow> list_ex (\<lambda>h. line_match h (node_line n)) hosts"
      by (fastforce simp: mem list_ex_iff line_match_def hostMatchesIdentities_def node_line_def)
    finally show ?thesis .
  qed
  then show ?thesis by (simp add: unmanagedNodes_def)
qed

text \<open>A host is given the name of the first node it shares an identifier with, in the order the
  nodes are listed, and no name when it shares none.\<close>

theorem matchNodesToHosts_first:
  assumes "distinct (map Host_String hosts)" and "h \<in> set hosts"
  shows "matchNodesToHosts listed hosts (Host_String h) =
     map_option hd (find (line_match h) (map (FieldsFunc node_sep) (split_on newline listed)))"
  by (simp add: matchNodesToHosts_def match_lines_at [OF assms])

lemma matchNodesToHosts_first_witness:
  "matchNodesToHosts (''n1 10.0.0.1'' @ newline # ''n2 10.0.0.2,B'') three_controllers ''b'' = Some ''n2''"
proof -
  have "distinct (map Host_String three_controllers)" "sample_host ''b'' RoleController [] \<in> set three_controllers"
    "Host_String (sample_host ''b'' RoleController []) = ''b''"
    by (simp_all add: three_controllers_def sample_host_def Host_String_def)
  moreover have "map_option hd (find (line_match (sample_host ''b'' RoleController []))
      (map (FieldsFunc node_sep) (split_on newline (''n1 10.0.0.1'' @ newline # ''n2 10.0.0.2,B'')))) = Some ''n2''"
    by code_simp
  ultimately show ?thesis
    using matchNodesToHosts_first [of three_controllers "sample_host ''b'' RoleController []"] by simp
qed

text \<open>Repointing converges on every controller but the leader: the rewritten configuration of
  another survivor names the leader and would be left alone by a second run, and no other key
  changes; the leader's configuration has its \<open>server\<close> key removed but is never recognised as in
  sync, so each run writes it again and reports it as changed.\<close>

theorem repoint_converges_except_leader:
  "same_server (repoint_config cfg url True) url True \<and>
   \<not> same_server (repoint_config cfg [] False) [] False \<and>
   map_of (repoint_config cfg [] False) keyServer = None \<and>
   (k = keyServer \<or> map_of (repoint_config cfg url b) k = map_of cfg k)"
  by (auto simp: same_server_def repoint_config_def mget_def delete_conv')

text \<open>Validated hosts are told apart and their clocks agree: every host passes the uniqueness
  checks exactly when no two report one host name and no two carry one private address, and
  when no clock is found to exceed the limit any two clocks are within a minute.\<close>

theorem ValidateHosts_unique_and_close:
  assumes "validateClockSkew skews = Some 0"
  shows "list_all (\<lambda>h. validateUniqueHostname hosts h = None) hosts =
      distinct (map (\<lambda>h. hm_Hostname (h_Metadata h)) hosts) \<and>
    list_all (\<lambda>h. validateUniquePrivateAddress hosts h = None) hosts =
      distinct (filter (\<lambda>a. a \<noteq> []) (map h_PrivateAddress hosts)) \<and>
    list_all (\<lambda>a. list_all (\<lambda>b. \<bar>a - b\<bar> \<le> 60) skews) skews"
proof (intro conjI)
  show "list_all (\<lambda>h. validateUniqueHostname hosts h = None) hosts = distinct (map (\<lambda>h. hm_Hostname (h_Metadata h)) hosts)"
    unfolding count_of_distinct [symmetric]
    by (auto simp: validateUniqueHostname_def Let_def list_all_iff not_less)
  have empty: "count_of (filter (\<lambda>a. a \<noteq> []) xs) [] = 0" for xs :: "string list"
    by (simp add: count_of_def)
  show "list_all (\<lambda>h. validateUniquePrivateAddress hosts h = None) hosts =
      distinct (filter (\<lambda>a. a \<noteq> []) (map h_PrivateAddress hosts))"
    unfolding count_of_distinct [symmetric]
    using empty [of "map h_PrivateAddress hosts"]
    by (auto simp: validateUniquePrivateAddress_def list_all_iff not_less)
  let ?m = "sort skews ! (length skews div 2)"
  from assms have "\<forall>s \<in> set skews. \<bar>s - ?m\<bar> \<le> 30"
    by (auto simp: validateClockSkew_def Let_def maxSkew_def filter_empty_conv split: if_splits)
  then have "\<bar>a - b\<bar> \<le> 60" if "a \<in> set skews" "b \<in> set skews" for a b
    using that by (smt (verit))
  then show "list_all (\<lambda>a. list_all (\<lambda>b. \<bar>a - b\<bar> \<le> 60) skews) skews"
    by (simp add: list_all_iff)
qed

lemma ValidateHosts_unique_and_close_witness:
  "list_all (\<lambda>a. list_all (\<lambda>b. \<bar>a - b\<bar> \<le> 60) [5, -3, 20 :: int]) [5, -3, 20]"
  using ValidateHosts_unique_and_close [of "[5, -3, 20]" three_controllers]
  by (simp add: validateClockSkew_def maxSkew_def)

end
