(* ===== verification/Remote_Files.thy ===== *)
theory Remote_Files
  imports Cluster_Host Phase_Manager
begin

section \<open>Files on a remote host\<close>

text \<open>
  The file operations of \<open>cluster.Host\<close> (\<open>host.go\<close>) and the helpers of
  \<open>pkg/phase/01_generic_phase_file.go\<close>. They act through the file system of the rig library, which
  is a parameter here: a record of its calls on a state of the host, and a locale with what the
  library documents of them. A call that fails may leave the file it was about in any state, but
  no other. Directories, owners and time stamps are part of the state the calls act on and not of
  the files one sees; permission bits are.
\<close>

subsection \<open>The file system interface\<close>

datatype fs_error = ErrNotExist | ErrFS string | ErrMode string

record 's remote =
  r_exists :: "'s \<Rightarrow> string \<Rightarrow> bool"
  r_read :: "'s \<Rightarrow> string \<Rightarrow> string option"
  r_stat :: "'s \<Rightarrow> string \<Rightarrow> nat option"
  r_find :: "'s \<Rightarrow> string \<Rightarrow> string option"
  r_readdir :: "'s \<Rightarrow> string \<Rightarrow> (string \<times> bool) list option"
  r_sha256 :: "'s \<Rightarrow> string \<Rightarrow> string option"
  r_write :: "string \<Rightarrow> string \<Rightarrow> nat \<Rightarrow> 's \<Rightarrow> fs_error option \<times> 's"
  r_remove :: "string \<Rightarrow> 's \<Rightarrow> fs_error option \<times> 's"
  r_mkdir :: "string \<Rightarrow> nat \<Rightarrow> 's \<Rightarrow> fs_error option \<times> 's"
  r_chmod :: "string \<Rightarrow> nat \<Rightarrow> 's \<Rightarrow> fs_error option \<times> 's"
  r_chown :: "string \<Rightarrow> string \<Rightarrow> 's \<Rightarrow> fs_error option \<times> 's"
  r_touch :: "string \<Rightarrow> 's \<Rightarrow> fs_error option \<times> 's"
  r_upload :: "string \<Rightarrow> string \<Rightarrow> nat \<Rightarrow> 's \<Rightarrow> fs_error option \<times> 's"
  r_create :: "string \<Rightarrow> string \<Rightarrow> nat \<Rightarrow> 's \<Rightarrow> fs_error option \<times> 's"
  r_rename :: "string \<Rightarrow> string \<Rightarrow> 's \<Rightarrow> fs_error option \<times> 's"

text \<open>\<open>r_upload\<close> copies local content to a path, \<open>r_create\<close> opens a path truncated, creating it with a
  mode, and writes content to it, \<open>r_rename\<close> is the \<open>mv\<close> command. \<open>r_find\<close> is the output of
  \<open>find\<close> for the plain files of a directory, \<open>r_readdir\<close> names its entries and says which are
  directories.\<close>

text \<open>\<open>fs.FileMode.Perm\<close>: the nine permission bits.\<close>

definition perm_bits :: "nat \<Rightarrow> nat" where
  "perm_bits m = m mod 512"

lemma perm_bits_idem [simp]: "perm_bits (perm_bits m) = perm_bits m"
  by (simp add: perm_bits_def)

text \<open>
  \<open>files s p\<close> is the content and the permission bits of the regular file at \<open>p\<close>. \<open>FileExist\<close> of a
  rig file system is \<open>test -f\<close>: it answers for regular files only.
\<close>

locale remote_fs =
  fixes R :: "'s remote" and files :: "'s \<Rightarrow> string \<Rightarrow> (string \<times> nat) option"
  assumes exists_files: "r_exists R s p \<longleftrightarrow> files s p \<noteq> None"
    and read_files: "r_read R s p = Some c \<Longrightarrow> \<exists>m. files s p = Some (c, m)"
    and stat_files: "r_stat R s p = Some m \<Longrightarrow> files s p \<noteq> None \<Longrightarrow> \<exists>c. files s p = Some (c, perm_bits m)"
    and write_ok: "r_write R p c m s = (None, s') \<Longrightarrow> files s' = (files s)(p \<mapsto> (c, perm_bits m))"
    and write_other: "r_write R p c m s = (e, s') \<Longrightarrow> q \<noteq> p \<Longrightarrow> files s' q = files s q"
    and remove_ok: "r_remove R p s = (None, s') \<Longrightarrow> files s' = (files s)(p := None)"
    and remove_gone: "r_remove R p s = (Some ErrNotExist, s') \<Longrightarrow> files s p = None \<and> files s' = files s"
    and remove_failed: "r_remove R p s = (Some err, s') \<Longrightarrow> files s' = files s \<or> files s' = (files s)(p := None)"
    and mkdir_files: "r_mkdir R p m s = (e, s') \<Longrightarrow> files s' = files s"
    and chown_files: "r_chown R p w s = (e, s') \<Longrightarrow> files s' = files s"
    and chmod_other: "r_chmod R p m s = (e, s') \<Longrightarrow> q \<noteq> p \<Longrightarrow> files s' q = files s q"
    and chmod_content: "r_chmod R p m s = (e, s') \<Longrightarrow> map_option fst (files s' p) = map_option fst (files s p)"
    and chmod_ok: "r_chmod R p m s = (None, s') \<Longrightarrow> files s p = Some (c, k) \<Longrightarrow> files s' p = Some (c, perm_bits m)"
    and touch_other: "r_touch R p s = (e, s') \<Longrightarrow> q \<noteq> p \<Longrightarrow> files s' q = files s q"
    and upload_ok: "r_upload R p c m s = (None, s') \<Longrightarrow> files s' = (files s)(p \<mapsto> (c, perm_bits m))"
    and upload_other: "r_upload R p c m s = (e, s') \<Longrightarrow> q \<noteq> p \<Longrightarrow> files s' q = files s q"
    and create_ok: "r_create R p c m s = (None, s') \<Longrightarrow> files s' =
      (files s)(p \<mapsto> (c, case files s p of None \<Rightarrow> perm_bits m | Some (_, k) \<Rightarrow> k))"
    and create_other: "r_create R p c m s = (e, s') \<Longrightarrow> q \<noteq> p \<Longrightarrow> files s' q = files s q"
    and rename_ok: "r_rename R p q s = (None, s') \<Longrightarrow> p \<noteq> q \<Longrightarrow> files s' = (files s)(q := files s p, p := None)"
    and rename_other: "r_rename R p q s = (e, s') \<Longrightarrow> r \<notin> {p, q} \<Longrightarrow> files s' r = files s r"
    and touch_same: "r_touch R p s = (e, s') \<Longrightarrow> files s p \<noteq> None \<Longrightarrow> files s' p = files s p"

text \<open>A host whose files can all be read, and on which only removals fail.\<close>

locale steady_fs = remote_fs +
  assumes read_total: "files s p = Some (c, m) \<Longrightarrow> r_read R s p = Some c"
    and stat_total: "files s p \<noteq> None \<Longrightarrow> r_stat R s p \<noteq> None"
    and write_total: "fst (r_write R p c m s) = None"
    and mkdir_total: "fst (r_mkdir R p m s) = None"
    and chmod_total: "fst (r_chmod R p m s) = None"

subsection \<open>A disk\<close>

text \<open>
  An instance: the regular files of a disk, with the paths on which an operation is refused. It
  shows that the laws can hold and is what the theorems are run on. Only the parent of a path that
  some file lies under is a directory here.
\<close>

type_synonym disk = "string \<Rightarrow> (string \<times> nat) option"

definition disk_remote ::
  "(string \<Rightarrow> bool) \<Rightarrow> (string \<Rightarrow> bool) \<Rightarrow> (string \<Rightarrow> bool) \<Rightarrow> (string \<Rightarrow> (string \<times> bool) list) \<Rightarrow> disk remote"
where
  "disk_remote unreadable readonly stuck listing =
     \<lparr>r_exists = (\<lambda>d p. d p \<noteq> None),
      r_read = (\<lambda>d p. if unreadable p then None else map_option fst (d p)),
      r_stat = (\<lambda>d p. map_option snd (d p)),
      r_find = (\<lambda>d p. if d p = None then None else Some (p @ [CHR 0x0A])),
      r_readdir = (\<lambda>d p. Some (listing p)),
      r_sha256 = (\<lambda>d p. if unreadable p then None else map_option (\<lambda>(c, _). ''sha:'' @ c) (d p)),
      r_write = (\<lambda>p c m d. if readonly p then (Some (ErrFS p), d) else (None, d(p \<mapsto> (c, perm_bits m)))),
      r_remove = (\<lambda>p d. if d p = None then (Some ErrNotExist, d)
                        else if stuck p then (Some (ErrFS p), d) else (None, d(p := None))),
      r_mkdir = (\<lambda>p m d. (None, d)),
      r_chmod = (\<lambda>p m d. (None, d(p := map_option (\<lambda>(c, k). (c, perm_bits m)) (d p)))),
      r_chown = (\<lambda>p w d. (None, d)),
      r_touch = (\<lambda>p d. (None, d(p := Some (case d p of None \<Rightarrow> ([], 420) | Some f \<Rightarrow> f)))),
      r_upload = (\<lambda>p c m d. if readonly p then (Some (ErrFS p), d) else (None, d(p \<mapsto> (c, perm_bits m)))),
      r_create = (\<lambda>p c m d. if readonly p then (Some (ErrFS p), d)
                  else (None, d(p \<mapsto> (c, case d p of None \<Rightarrow> perm_bits m | Some (_, k) \<Rightarrow> perm_bits k)))),
      r_rename = (\<lambda>p q d. if d p = None then (Some ErrNotExist, d) else (None, d(q := d p, p := None)))\<rparr>"

definition disk_files :: "disk \<Rightarrow> string \<Rightarrow> (string \<times> nat) option" where
  "disk_files d p = map_option (\<lambda>(c, m). (c, perm_bits m)) (d p)"

lemmas disk_simps = disk_remote_def disk_files_def [abs_def]

interpretation disk: remote_fs "disk_remote u w k l" disk_files
  by unfold_locales
    (auto simp: disk_simps option.map_comp comp_def case_prod_unfold intro!: ext split: if_splits option.splits)

interpretation calm: steady_fs "disk_remote (\<lambda>_. False) (\<lambda>_. False) k l" disk_files
  by unfold_locales (auto simp: disk_simps)

subsection \<open>The operations of a host\<close>

text \<open>Steps one after the other; the first error ends them.\<close>

definition and_then ::
  "('s \<Rightarrow> 'e option \<times> 's) \<Rightarrow> ('s \<Rightarrow> 'e option \<times> 's) \<Rightarrow> 's \<Rightarrow> 'e option \<times> 's"
where
  "and_then f g s = (case f s of (Some e, s1) \<Rightarrow> (Some e, s1) | (None, s1) \<Rightarrow> g s1)"

definition Host_WriteFile :: "'s remote \<Rightarrow> string \<Rightarrow> string \<Rightarrow> string \<Rightarrow> 's \<Rightarrow> fs_error option \<times> 's" where
  "Host_WriteFile R path data permissions s =
     (case parseFileMode permissions of
        None \<Rightarrow> (Some (ErrMode permissions), s)
      | Some mode \<Rightarrow> r_write R path data mode s)"

definition chmodWithString :: "'s remote \<Rightarrow> string \<Rightarrow> string \<Rightarrow> 's \<Rightarrow> fs_error option \<times> 's" where
  "chmodWithString R path perm s =
     (case parse_uint 8 32 perm of
        None \<Rightarrow> (Some (ErrMode perm), s)
      | Some mode \<Rightarrow> r_chmod R path mode s)"

definition ensureDir :: "bool \<Rightarrow> 's remote \<Rightarrow> string \<Rightarrow> string \<Rightarrow> string \<Rightarrow> 's \<Rightarrow> fs_error option \<times> 's" where
  "ensureDir dry R dir perm owner =
     (let target = (if perm = [] then ''0755'' else perm);
          mode = (case parse_uint 8 32 target of Some v \<Rightarrow> v | None \<Rightarrow> 493)
      in and_then (\<lambda>s. if \<not> r_exists R s dir then Wet dry (r_mkdir R dir mode) s else (None, s))
        (and_then (\<lambda>s. if owner \<noteq> [] then Wet dry (r_chown R dir owner) s else (None, s))
          (Wet dry (chmodWithString R dir target))))"

definition applyFileMetadata ::
  "'s remote \<Rightarrow> string \<Rightarrow> string \<Rightarrow> string \<Rightarrow> bool \<Rightarrow> 's \<Rightarrow> fs_error option \<times> 's"
where
  "applyFileMetadata R dest owner perm timestamp =
     and_then (\<lambda>s. if owner \<noteq> [] then r_chown R dest owner s else (None, s))
       (and_then (\<lambda>s. if perm \<noteq> [] then chmodWithString R dest perm s else (None, s))
         (\<lambda>s. if timestamp then r_touch R dest s else (None, s)))"

lemma and_then_total:
  "(\<And>s. fst (f s) = None) \<Longrightarrow> (\<And>s. fst (g s) = None) \<Longrightarrow> fst (and_then f g s) = None"
  by (simp add: and_then_def split: prod.splits option.splits) (metis fst_conv option.distinct(1))

lemma and_then_pair:
  "and_then f g s = (e, s') \<longleftrightarrow>
     (\<exists>s1. f s = (None, s1) \<and> g s1 = (e, s')) \<or> (f s = (e, s') \<and> e \<noteq> None)"
  by (cases "f s"; cases "fst (f s)") (auto simp: and_then_def)

text \<open>\<open>frame v f\<close>: whatever \<open>f\<close> does, it leaves the view \<open>v\<close> of the state alone.\<close>

definition frame :: "('s \<Rightarrow> 'v) \<Rightarrow> ('s \<Rightarrow> 'r \<times> 's) \<Rightarrow> bool" where
  "frame v f \<longleftrightarrow> (\<forall>s. v (snd (f s)) = v s)"

named_theorems frames \<open>what an operation leaves alone\<close>

lemma frame_eq: "frame v f \<Longrightarrow> v (snd (f s)) = v s"
  by (simp add: frame_def)

lemma frame_D: "frame v f \<Longrightarrow> f s = (e, s') \<Longrightarrow> v s' = v s"
  by (metis frame_eq snd_conv)

lemma frame_basic [frames]:
  "frame v (Pair e)"
  "frame v f \<Longrightarrow> frame v (Wet dry f)"
  "(b \<Longrightarrow> frame v f) \<Longrightarrow> (\<not> b \<Longrightarrow> frame v g) \<Longrightarrow> frame v (\<lambda>s. if b then f s else g s)"
  "frame v f \<Longrightarrow> frame v g \<Longrightarrow> frame v (\<lambda>s. if c s then f s else g s)"
  by (simp_all add: frame_def Wet_def)

lemma frame_and_then [frames]: "frame v f \<Longrightarrow> frame v g \<Longrightarrow> frame v (and_then f g)"
  by (simp add: frame_def and_then_def split: prod.splits option.splits)
    (metis snd_conv)

context remote_fs
begin

lemma frame_write [frames]: "q \<noteq> p \<Longrightarrow> frame (\<lambda>s. files s q) (r_write R p c m)"
  unfolding frame_def by (metis write_other prod.collapse)

lemma frame_chmod [frames]: "q \<noteq> p \<Longrightarrow> frame (\<lambda>s. files s q) (r_chmod R p m)"
  unfolding frame_def by (metis chmod_other prod.collapse)

lemma frame_chmod_content [frames]: "frame (\<lambda>s. map_option fst (files s q)) (r_chmod R p m)"
  unfolding frame_def by (metis chmod_other chmod_content prod.collapse)

lemma frame_touch [frames]: "q \<noteq> p \<Longrightarrow> frame (\<lambda>s. files s q) (r_touch R p)"
  unfolding frame_def by (metis touch_other prod.collapse)

lemma frame_upload [frames]: "q \<noteq> p \<Longrightarrow> frame (\<lambda>s. files s q) (r_upload R p c m)"
  unfolding frame_def by (metis upload_other prod.collapse)

lemma frame_create [frames]: "q \<noteq> p \<Longrightarrow> frame (\<lambda>s. files s q) (r_create R p c m)"
  unfolding frame_def by (metis create_other prod.collapse)

lemma frame_rename [frames]: "r \<notin> {p, q} \<Longrightarrow> frame (\<lambda>s. files s r) (r_rename R p q)"
  unfolding frame_def by (metis rename_other prod.collapse)

lemma frame_mkdir [frames]:
  "frame (\<lambda>s. files s q) (r_mkdir R p m)"
  "frame (\<lambda>s. map_option fst (files s q)) (r_mkdir R p m)"
  unfolding frame_def by (metis mkdir_files prod.collapse)+

lemma frame_chown [frames]:
  "frame (\<lambda>s. files s q) (r_chown R p w)"
  "frame (\<lambda>s. map_option fst (files s q)) (r_chown R p w)"
  unfolding frame_def by (metis chown_files prod.collapse)+

lemma remove_cases:
  assumes "r_remove R p s = (e, s')"
  shows "files s' = files s \<or> files s' = (files s)(p := None)"
proof (cases e)
  case None
  with assms remove_ok show ?thesis by blast
next
  case (Some err)
  with assms remove_failed show ?thesis by blast
qed

lemma frame_remove [frames]: "q \<noteq> p \<Longrightarrow> frame (\<lambda>s. files s q) (r_remove R p)"
  unfolding frame_def by (metis remove_cases fun_upd_other prod.collapse)

lemma frame_WriteFile [frames]: "q \<noteq> p \<Longrightarrow> frame (\<lambda>s. files s q) (Host_WriteFile R p c perm)"
  unfolding Host_WriteFile_def frame_def
  by (auto split: option.splits simp: frame_eq [OF frame_write])

lemma frame_chmodWithString [frames]:
  "q \<noteq> p \<Longrightarrow> frame (\<lambda>s. files s q) (chmodWithString R p perm)"
  unfolding chmodWithString_def frame_def
  by (auto split: option.splits simp: frame_eq [OF frame_chmod])

lemma frame_chmodWithString_content [frames]:
  "frame (\<lambda>s. map_option fst (files s q)) (chmodWithString R p perm)"
  unfolding chmodWithString_def frame_def
  by (auto split: option.splits simp: frame_eq [OF frame_chmod_content])

lemma frame_ensureDir [frames]:
  "q \<noteq> d \<Longrightarrow> frame (\<lambda>s. files s q) (ensureDir dry R d perm owner)"
  "frame (\<lambda>s. map_option fst (files s q)) (ensureDir dry R d perm owner)"
  unfolding ensureDir_def Let_def by (intro frames; assumption)+

lemma frame_applyFileMetadata [frames]:
  "q \<noteq> p \<Longrightarrow> frame (\<lambda>s. files s q) (applyFileMetadata R p owner perm t)"
  unfolding applyFileMetadata_def by (intro frames)

lemma Host_WriteFile_ok:
  "Host_WriteFile R p c perm s = (None, s') \<Longrightarrow>
     \<exists>m. parseFileMode perm = Some m \<and> files s' = (files s)(p \<mapsto> (c, perm_bits m))"
  by (auto simp: Host_WriteFile_def write_ok split: option.splits)

lemma ensureDir_exists:
  "files (snd (ensureDir dry R d perm owner s)) q = None \<longleftrightarrow> files s q = None"
  using frame_eq [OF frame_ensureDir(2) [where q = q], where s = s]
  by (metis option.map_disc_iff)

end

context steady_fs
begin

lemma read_files_iff: "r_read R s p = map_option fst (files s p)"
  by (cases "files s p"; cases "r_read R s p") (auto dest: read_files read_total)

lemma Host_WriteFile_steady:
  "parseFileMode perm = Some m \<Longrightarrow>
     fst (Host_WriteFile R p c perm s) = None \<and>
     files (snd (Host_WriteFile R p c perm s)) = (files s)(p \<mapsto> (c, perm_bits m))"
  using write_ok [of p c m s "snd (r_write R p c m s)"] write_total [of p c m s]
  by (simp add: Host_WriteFile_def prod_eq_iff)

lemma ensureDir_steady:
  "parse_uint 8 32 perm = Some m \<Longrightarrow> fst (ensureDir dry R d perm [] s) = None"
  unfolding ensureDir_def Let_def
  by (intro and_then_total)
    (auto simp: Wet_def chmodWithString_def parse_uint_def mkdir_total chmod_total split: if_splits)

end

end
