(* ===== verification/Upload_Manifest.thy ===== *)
theory Upload_Manifest
  imports Remote_Files
begin

section \<open>The upload manifest\<close>

text \<open>
  \<open>pkg/phase/03_manifest.go\<close>: the file on every host that names what cargoship uploaded there, so
  that an upgrade or an uninstall can find it again. Its text form and back, the merge and the
  difference of entry lists, and the operations that record, remove and clean up.
\<close>

subsection \<open>Entries and their text\<close>

record ManifestEntry =
  me_Category :: string
  me_Path :: string

definition manifestDir :: string where "manifestDir = ''/var/lib/cargoship''"

definition manifestFile :: string where "manifestFile = manifestDir @ ''/manifest.txt''"

definition manifestSep :: char where "manifestSep = CHR 0x09"

definition newline :: char where "newline = CHR 0x0A"

definition manifest_line :: "ManifestEntry \<Rightarrow> string" where
  "manifest_line e = me_Category e @ manifestSep # me_Path e"

definition encodeManifest :: "ManifestEntry list \<Rightarrow> string" where
  "encodeManifest entries = join [newline] (map manifest_line entries) @ [newline]"

definition parse_line :: "string \<Rightarrow> ManifestEntry list" where
  "parse_line text =
     (let line = trim_space text in
      if line = [] then []
      else (case cut manifestSep line of
              (category, path, found) \<Rightarrow>
                if found then [\<lparr>me_Category = category, me_Path = path\<rparr>] else []))"

definition ParseManifest :: "string \<Rightarrow> ManifestEntry list" where
  "ParseManifest content = concat (map parse_line (split_on newline content))"

definition merge_step ::
  "string list \<times> (string \<Rightarrow> ManifestEntry option) \<Rightarrow> ManifestEntry \<Rightarrow>
   string list \<times> (string \<Rightarrow> ManifestEntry option)"
where
  "merge_step acc e =
     (case acc of (order, byPath) \<Rightarrow>
        (if byPath (me_Path e) = None then order @ [me_Path e] else order, byPath(me_Path e \<mapsto> e)))"

definition mergeManifest :: "ManifestEntry list \<Rightarrow> ManifestEntry list" where
  "mergeManifest entries =
     (case foldl merge_step ([], Map.empty) entries of
        (order, byPath) \<Rightarrow>
          map (\<lambda>path. case byPath path of Some e \<Rightarrow> e | None \<Rightarrow> \<lparr>me_Category = [], me_Path = []\<rparr>) order)"

definition diffManifest :: "ManifestEntry list \<Rightarrow> ManifestEntry list \<Rightarrow> ManifestEntry list" where
  "diffManifest old current = filter (\<lambda>e. me_Path e \<notin> me_Path ` set current) old"

definition filterManifestByCategory :: "string \<Rightarrow> ManifestEntry list \<Rightarrow> ManifestEntry list" where
  "filterManifestByCategory category entries = filter (\<lambda>e. me_Category e = category) entries"

subsection \<open>Operations on a host\<close>

definition readManifest :: "'s remote \<Rightarrow> 's \<Rightarrow> ManifestEntry list" where
  "readManifest R s =
     (if \<not> r_exists R s manifestFile then []
      else (case r_read R s manifestFile of None \<Rightarrow> [] | Some content \<Rightarrow> ParseManifest content))"

text \<open>Failures are logged and dropped, so the state is the whole result. \<open>uploads\<close> is the host's
  record of this run, \<open>Metadata.UploadedFiles\<close>.\<close>

definition default_category :: "string \<Rightarrow> string" where
  "default_category category = (if category = [] then ''file'' else category)"

definition recordManifestEntry ::
  "bool \<Rightarrow> 's remote \<Rightarrow> string \<Rightarrow> string \<Rightarrow> string list \<times> 's \<Rightarrow> string list \<times> 's"
where
  "recordManifestEntry dry R category0 path us =
     (case us of (uploads, s) \<Rightarrow>
        (let category = default_category category0;
             entry = \<lparr>me_Category = category, me_Path = path\<rparr>;
             entries = mergeManifest (readManifest R s @ [entry])
         in (uploads @ [manifest_line entry],
             snd (and_then (ensureDir dry R manifestDir ''0755'' [])
                    (Host_WriteFile R manifestFile (encodeManifest entries) ''0644'') s))))"

definition deleteRecordedUpload :: "'s remote \<Rightarrow> string \<Rightarrow> 's \<Rightarrow> fs_error option \<times> 's" where
  "deleteRecordedUpload R path s =
     (case r_remove R path s of
        (Some ErrNotExist, s') \<Rightarrow> (None, s')
      | (result, s') \<Rightarrow> (result, s'))"

text \<open>The loop both cleanups run; it collects the entries whose file is gone.\<close>

fun delete_all :: "'s remote \<Rightarrow> ManifestEntry list \<Rightarrow> 's \<Rightarrow> ManifestEntry list \<times> 's" where
  "delete_all R [] s = ([], s)"
| "delete_all R (e # es) s =
     (case deleteRecordedUpload R (me_Path e) s of
        (Some _, s1) \<Rightarrow> delete_all R es s1
      | (None, s1) \<Rightarrow> (case delete_all R es s1 of (removed, s2) \<Rightarrow> (e # removed, s2)))"

definition removeStaleManifestEntries ::
  "'s remote \<Rightarrow> ManifestEntry list \<Rightarrow> ManifestEntry list \<Rightarrow> 's \<Rightarrow> 's"
where
  "removeStaleManifestEntries R old current s =
     (case delete_all R (diffManifest old current) s of
        (removed, s1) \<Rightarrow>
          if removed = [] then s1
          else snd (Host_WriteFile R manifestFile
                      (encodeManifest (diffManifest (readManifest R s1) removed)) ''0644'' s1))"

definition cleanUploadManifest :: "'s remote \<Rightarrow> 's \<Rightarrow> 's" where
  "cleanUploadManifest R s =
     (let entries = readManifest R s in
      if entries = [] then s
      else snd (r_remove R manifestFile (snd (delete_all R entries s))))"

subsection \<open>Text and entries\<close>

text \<open>What a line can carry: a category that starts with neither white space nor a separator and
  holds no separator, a path that does not end in white space, and no line break.\<close>

definition entry_ok :: "ManifestEntry \<Rightarrow> bool" where
  "entry_ok e \<longleftrightarrow>
     me_Category e \<noteq> [] \<and> \<not> is_space (hd (me_Category e)) \<and> manifestSep \<notin> set (me_Category e) \<and>
     me_Path e \<noteq> [] \<and> \<not> is_space (last (me_Path e)) \<and> newline \<notin> set (me_Category e @ me_Path e)"

lemma separators [simp]:
  "is_space manifestSep" "is_space newline" "newline \<noteq> manifestSep" "manifestSep \<noteq> newline"
  by (simp_all add: is_space_def byte_def manifestSep_def newline_def)

lemma cut_at_sep: "c \<notin> set a \<Longrightarrow> cut c (a @ c # b) = (a, b, True)"
  by (induction a) auto

lemma parse_line_Nil [simp]: "parse_line [] = []"
  by (simp add: parse_line_def)

lemma parse_line_manifest_line: "entry_ok e \<Longrightarrow> parse_line (manifest_line e) = [e]"
proof -
  assume ok: "entry_ok e"
  then have "trim_space (manifest_line e) = manifest_line e"
    by (intro trim_space_fixed) (auto simp: entry_ok_def manifest_line_def)
  with ok show ?thesis
    by (simp add: parse_line_def Let_def manifest_line_def cut_at_sep entry_ok_def)
qed

lemma parse_line_ok:
  assumes "e \<in> set (parse_line raw)" "newline \<notin> set raw"
  shows "entry_ok e"
proof -
  define line where "line = trim_space raw"
  from assms obtain a b where ab: "line = a @ manifestSep # b" "manifestSep \<notin> set a"
      "e = \<lparr>me_Category = a, me_Path = b\<rparr>"
    by (auto simp: parse_line_def Let_def line_def split: if_splits prod.splits dest!: cut_found [OF sym])
  have "line \<noteq> []" using ab by simp
  then have ends: "\<not> is_space (hd line)" "\<not> is_space (last line)"
    using trim_space_ends [of raw] by (auto simp: line_def)
  have "a \<noteq> []" using ab ends by auto
  moreover have "b \<noteq> []" using ab ends by auto
  moreover have "newline \<notin> set line"
    using assms(2) set_trim_by [of is_space raw] by (auto simp: line_def trim_space_def)
  ultimately show ?thesis using ab ends by (auto simp: entry_ok_def)
qed

lemma ParseManifest_ok: "list_all entry_ok (ParseManifest content)"
  by (auto simp: ParseManifest_def list_all_iff intro: parse_line_ok dest: split_on_no_sep)

lemma no_newline_in_line: "entry_ok e \<Longrightarrow> newline \<notin> set (manifest_line e)"
  by (auto simp: entry_ok_def manifest_line_def)

lemma split_on_snoc_sep: "split_on c (s @ [c]) = split_on c s @ [[]]"
  by (induction s) (auto split: list.splits)

lemma split_on_encode:
  "list_all entry_ok es \<Longrightarrow> split_on newline (encodeManifest es) =
     (if es = [] then [[], []] else map manifest_line es @ [[]])"
proof (cases "es = []")
  case False
  moreover assume "list_all entry_ok es"
  ultimately show ?thesis
    by (simp add: encodeManifest_def split_on_snoc_sep)
      (subst split_on_join, auto simp: list_all_iff no_newline_in_line)
qed (simp add: encodeManifest_def)

lemma parse_encode: "list_all entry_ok es \<Longrightarrow> ParseManifest (encodeManifest es) = es"
  by (cases "es = []")
    (auto simp: ParseManifest_def split_on_encode comp_def parse_line_manifest_line list_all_iff
      cong: map_cong)

text \<open>Reading a manifest inverts writing it: entries that fit on a line come back exactly, and
  whatever the content of the file, the entries read from it do fit, so a manifest that has been
  read once survives any number of rewrites.
\<close>

theorem ParseManifest_encodeManifest:
  assumes "list_all entry_ok es"
  shows "ParseManifest (encodeManifest es) = es \<and>
         list_all entry_ok (ParseManifest content) \<and>
         ParseManifest (encodeManifest (ParseManifest content)) = ParseManifest content"
  using assms ParseManifest_ok parse_encode by blast

lemma ParseManifest_encodeManifest_witness:
  "ParseManifest (encodeManifest [\<lparr>me_Category = ''image'', me_Path = ''/a b.tar''\<rparr>]) =
     [\<lparr>me_Category = ''image'', me_Path = ''/a b.tar''\<rparr>]"
  by (rule ParseManifest_encodeManifest [where content = "[]", THEN conjunct1]) code_simp

subsection \<open>Lists of entries as maps\<close>

text \<open>A list of entries claims a path for the category of the last entry with it.\<close>

definition claims :: "ManifestEntry list \<Rightarrow> string \<Rightarrow> string option" where
  "claims es = map_of (rev (map (\<lambda>e. (me_Path e, me_Category e)) es))"

lemma claims_simps [simp]:
  "claims [] = Map.empty"
  "claims (es @ [e]) = (claims es)(me_Path e \<mapsto> me_Category e)"
  by (simp_all add: claims_def)

lemma dom_claims: "dom (claims es) = me_Path ` set es"
  by (simp add: claims_def dom_map_of_conv_image_fst image_comp comp_def)

lemma claims_None: "claims es p = None \<longleftrightarrow> p \<notin> me_Path ` set es"
  using dom_claims [of es] by (metis domIff)

lemma claims_filter: "claims (filter (\<lambda>e. P (me_Path e)) es) = (claims es) |` {p. P p}"
proof (induction es rule: rev_induct)
  case (snoc e es)
  then show ?case by (auto simp: restrict_map_def fun_eq_iff)
qed simp

lemma claims_diffManifest: "claims (diffManifest old current) = (claims old) |` (- me_Path ` set current)"
  unfolding diffManifest_def Compl_eq by (rule claims_filter)

lemma merge_fold:
  "foldl merge_step ([], Map.empty) es =
     (first_seen (map me_Path es), map_of (rev (map (\<lambda>e. (me_Path e, e)) es)))"
proof (induction es rule: rev_induct)
  case (snoc e es)
  have "map_of (rev (map (\<lambda>e. (me_Path e, e)) es)) (me_Path e) = None \<longleftrightarrow>
      me_Path e \<notin> set (map me_Path es)"
    by (simp add: map_of_eq_None_iff image_comp comp_def)
  with snoc show ?case by (simp add: merge_step_def first_seen_snoc fun_eq_iff)
qed simp

lemma map_of_rev_last:
  "p \<in> me_Path ` set es \<Longrightarrow>
     map_of (rev (map (\<lambda>e. (me_Path e, e)) es)) p = Some (last (filter (\<lambda>e. me_Path e = p) es))"
  by (induction es rule: rev_induct) auto

lemma merge_reference:
  "mergeManifest es =
     map (\<lambda>p. last (filter (\<lambda>e. me_Path e = p) es)) (first_seen (map me_Path es))"
  by (simp add: mergeManifest_def merge_fold map_of_rev_last cong: map_cong)

lemma last_path: "p \<in> me_Path ` set es \<Longrightarrow> me_Path (last (filter (\<lambda>e. me_Path e = p) es)) = p"
  using last_in_set [of "filter (\<lambda>e. me_Path e = p) es"] by (auto simp: filter_empty_conv)

lemma merge_paths: "map me_Path (mergeManifest es) = first_seen (map me_Path es)"
  unfolding merge_reference map_map comp_def by (rule map_idI) (simp add: last_path)

lemma merge_distinct: "distinct (map me_Path (mergeManifest es))"
  by (simp add: merge_paths)

lemma merge_subset: "set (mergeManifest es) \<subseteq> set es"
proof
  fix x assume "x \<in> set (mergeManifest es)"
  then obtain p where "p \<in> me_Path ` set es" "x = last (filter (\<lambda>e. me_Path e = p) es)"
    by (auto simp: merge_reference)
  then show "x \<in> set es"
    using last_in_set [of "filter (\<lambda>e. me_Path e = p) es"] by (auto simp: filter_empty_conv)
qed

lemma claims_last:
  "claims es p = (if p \<in> me_Path ` set es
     then Some (me_Category (last (filter (\<lambda>e. me_Path e = p) es))) else None)"
  by (induction es rule: rev_induct) auto

lemma merge_claims: "claims (mergeManifest es) = claims es"
proof
  fix p
  have same: "me_Path ` set (mergeManifest es) = me_Path ` set es"
    using arg_cong [OF merge_paths [of es], of set] by simp
  show "claims (mergeManifest es) p = claims es p"
  proof (cases "p \<in> me_Path ` set es")
    case True
    then obtain e where e: "e \<in> set (mergeManifest es)" "me_Path e = p" using same by (metis imageE)
    then have "e = last (filter (\<lambda>e. me_Path e = p) es)"
      by (auto simp: merge_reference last_path)
    moreover have "claims (mergeManifest es) p = Some (me_Category e)"
      using e merge_distinct [of es] unfolding claims_def
      by (intro map_of_is_SomeI) (force simp: comp_def rev_map [symmetric])+
    ultimately show ?thesis using True by (simp add: claims_last)
  next
    case False
    with same show ?thesis by (metis claims_None)
  qed
qed

text \<open>The merge has a loop-free description: the paths in the order they were first listed, each
  with the entry listed last for it. It therefore names no path twice and claims exactly what the
  list claimed.
\<close>

theorem mergeManifest_spec:
  shows "mergeManifest es =
           map (\<lambda>p. last (filter (\<lambda>e. me_Path e = p) es)) (first_seen (map me_Path es)) \<and>
         distinct (map me_Path (mergeManifest es)) \<and> claims (mergeManifest es) = claims es"
  using merge_reference merge_distinct merge_claims by blast

subsection \<open>Removing recorded files\<close>


lemma deleteRecordedUpload_None:
  "deleteRecordedUpload R p s = (None, s') \<longleftrightarrow>
     r_remove R p s = (None, s') \<or> r_remove R p s = (Some ErrNotExist, s')"
  by (auto simp: deleteRecordedUpload_def split: prod.splits option.splits fs_error.splits)

lemma snd_deleteRecordedUpload [simp]: "snd (deleteRecordedUpload R p s) = snd (r_remove R p s)"
  by (auto simp: deleteRecordedUpload_def split: prod.splits option.splits fs_error.splits)

lemma delete_all_removed: "delete_all R es s = (removed, s') \<Longrightarrow> set removed \<subseteq> set es"
  by (induction es arbitrary: s removed) (fastforce split: prod.splits option.splits)+

context remote_fs
begin

lemma deleted_gone: "deleteRecordedUpload R p s = (None, s') \<Longrightarrow> files s' = (files s)(p := None)"
  by (auto simp: deleteRecordedUpload_None dest!: remove_ok remove_gone)

lemma delete_one_cases:
  "deleteRecordedUpload R p s = (e, s') \<Longrightarrow> files s' = files s \<or> files s' = (files s)(p := None)"
  using remove_cases [of p s "fst (r_remove R p s)" s'] snd_deleteRecordedUpload [of R p s]
  by (metis prod.collapse snd_conv)

lemma delete_all_files:
  assumes "delete_all R es s = (removed, s')"
  shows "files s' q = files s q \<or> (files s' q = None \<and> q \<in> me_Path ` set es)"
  using assms
proof (induction es arbitrary: s removed)
  case (Cons e es)
  obtain r s1 where step: "deleteRecordedUpload R (me_Path e) s = (r, s1)" by fastforce
  from Cons.prems obtain removed1 where "delete_all R es s1 = (removed1, s')"
    by (auto simp: step split: option.splits prod.splits)
  with Cons.IH [of s1 removed1] delete_one_cases [OF step] show ?case by auto
qed simp

lemma delete_all_gone:
  assumes "delete_all R es s = (removed, s')" "e \<in> set removed"
  shows "files s' (me_Path e) = None"
  using assms
proof (induction es arbitrary: s removed)
  case (Cons d es)
  obtain r s1 where step: "deleteRecordedUpload R (me_Path d) s = (r, s1)" by fastforce
  from Cons.prems obtain removed1 where rest: "delete_all R es s1 = (removed1, s')"
      "e \<in> set removed1 \<or> e = d \<and> r = None"
    by (auto simp: step split: option.splits prod.splits)
  show ?case
  proof (cases "e \<in> set removed1")
    case False
    with rest have "e = d" "r = None" by auto
    with step have "files s1 (me_Path e) = None" by (simp add: deleted_gone)
    with delete_all_files [OF rest(1), of "me_Path e"] show ?thesis by auto
  qed (use Cons.IH [OF rest(1)] in simp)
qed simp

end

text \<open>A host on which no deletion is refused.\<close>

definition deletes_work :: "'s remote \<Rightarrow> bool" where
  "deletes_work R \<longleftrightarrow> (\<forall>p s. fst (deleteRecordedUpload R p s) = None)"

lemma delete_all_total: "deletes_work R \<Longrightarrow> fst (delete_all R es s) = es"
proof (induction es arbitrary: s)
  case (Cons e es)
  then obtain s1 where "deleteRecordedUpload R (me_Path e) s = (None, s1)"
    by (metis deletes_work_def prod.collapse)
  with Cons(1) [OF Cons(2), of s1] show ?case by (cases "delete_all R es s1") simp
qed simp

context steady_fs
begin

lemma readManifest_steady:
  "readManifest R s = (case files s manifestFile of None \<Rightarrow> [] | Some (c, _) \<Rightarrow> ParseManifest c)"
  by (simp add: readManifest_def exists_files read_files_iff split: option.splits)

lemma readManifest_ok: "list_all entry_ok (readManifest R s)"
  by (simp add: readManifest_steady ParseManifest_ok split: option.splits)

lemma write_manifest:
  assumes "list_all entry_ok es"
  shows "readManifest R (snd (Host_WriteFile R manifestFile (encodeManifest es) ''0644'' s)) = es"
    and "q \<noteq> manifestFile \<Longrightarrow>
           files (snd (Host_WriteFile R manifestFile (encodeManifest es) ''0644'' s)) q = files s q"
proof -
  have "parseFileMode ''0644'' = Some 420" by code_simp
  from Host_WriteFile_steady [OF this] assms
  show "readManifest R (snd (Host_WriteFile R manifestFile (encodeManifest es) ''0644'' s)) = es"
    by (simp add: readManifest_steady parse_encode)
  show "q \<noteq> manifestFile \<Longrightarrow>
      files (snd (Host_WriteFile R manifestFile (encodeManifest es) ''0644'' s)) q = files s q"
    by (simp add: frame_eq [OF frame_WriteFile])
qed

lemma manifestDir_neq [simp]: "manifestDir \<noteq> manifestFile" "manifestFile \<noteq> manifestDir"
  by (simp_all add: manifestFile_def)

lemma record_steady:
  assumes "entry_ok \<lparr>me_Category = default_category category, me_Path = path\<rparr>"
    and "recordManifestEntry dry R category path (us, s) = (us', s')"
  shows "readManifest R s' =
           mergeManifest (readManifest R s @ [\<lparr>me_Category = default_category category, me_Path = path\<rparr>])"
    and "q \<noteq> manifestFile \<Longrightarrow> q \<noteq> manifestDir \<Longrightarrow> files s' q = files s q"
    and "us' = us @ [manifest_line \<lparr>me_Category = default_category category, me_Path = path\<rparr>]"
proof -
  define entry where "entry = \<lparr>me_Category = default_category category, me_Path = path\<rparr>"
  define entries where "entries = mergeManifest (readManifest R s @ [entry])"
  define s1 where "s1 = snd (ensureDir dry R manifestDir ''0755'' [] s)"
  have "parse_uint 8 32 ''0755'' = Some 493" by code_simp
  from ensureDir_steady [OF this, of dry manifestDir s]
  have s1: "ensureDir dry R manifestDir ''0755'' [] s = (None, s1)" by (simp add: s1_def prod_eq_iff)
  have s': "s' = snd (Host_WriteFile R manifestFile (encodeManifest entries) ''0644'' s1)"
    using assms(2) s1
    by (simp add: recordManifestEntry_def Let_def entries_def entry_def and_then_def)
  have "list_all entry_ok entries"
    using assms(1) readManifest_ok [of s] merge_subset
    unfolding entries_def entry_def list_all_iff by fastforce
  note written = write_manifest [OF this]
  show "readManifest R s' = mergeManifest (readManifest R s @ [\<lparr>me_Category = default_category category, me_Path = path\<rparr>])"
    using written(1) by (simp add: s' entries_def entry_def)
  show "q \<noteq> manifestFile \<Longrightarrow> q \<noteq> manifestDir \<Longrightarrow> files s' q = files s q"
    using written(2) frame_eq [OF frame_ensureDir(1), of q manifestDir] by (simp add: s' s1_def)
  show "us' = us @ [manifest_line \<lparr>me_Category = default_category category, me_Path = path\<rparr>]"
    using assms(2) by (simp add: recordManifestEntry_def Let_def)
qed

lemma stale_steady:
  assumes "manifestFile \<notin> me_Path ` set (diffManifest old current)"
    and s': "s' = removeStaleManifestEntries R old current s"
  shows "\<exists>removed. set removed \<subseteq> set (diffManifest old current) \<and>
    (deletes_work R \<longrightarrow> removed = diffManifest old current) \<and>
    readManifest R s' = diffManifest (readManifest R s) removed \<and>
    (\<forall>e \<in> set removed. files s' (me_Path e) = None) \<and>
    (\<forall>q. q \<noteq> manifestFile \<longrightarrow> files s' q = files s q \<or>
         files s' q = None \<and> q \<in> me_Path ` set (diffManifest old current))"
proof -
  obtain removed s1 where loop: "delete_all R (diffManifest old current) s = (removed, s1)" by fastforce
  have sub: "set removed \<subseteq> set (diffManifest old current)" by (rule delete_all_removed [OF loop])
  have "files s1 manifestFile = files s manifestFile"
    using delete_all_files [OF loop] assms by blast
  then have same: "readManifest R s1 = readManifest R s" by (simp add: readManifest_steady)
  have ok: "list_all entry_ok (diffManifest (readManifest R s1) removed)"
    using readManifest_ok [of s1] by (auto simp: diffManifest_def list_all_iff)
  have files': "files s' q = files s1 q" if "q \<noteq> manifestFile" for q
    using that write_manifest(2) [OF ok]
    by (simp add: s' removeStaleManifestEntries_def loop)
  have "readManifest R s' = diffManifest (readManifest R s) removed"
    using write_manifest(1) [OF ok]
    by (simp add: s' removeStaleManifestEntries_def loop same) (simp add: diffManifest_def)
  moreover have "files s' (me_Path e) = None" if "e \<in> set removed" for e
    using that sub assms files' [of "me_Path e"] delete_all_gone [OF loop that] by force
  moreover have "deletes_work R \<longrightarrow> removed = diffManifest old current"
    using delete_all_total [of R "diffManifest old current" s] by (simp add: loop)
  ultimately show ?thesis
    using sub files' delete_all_files [OF loop] by metis
qed

end

subsection \<open>What the manifest promises\<close>

text \<open>On a host whose files can be read and written, recording an upload updates the map of claims
  the manifest stands for at that path and nowhere else, and leaves a manifest that names no path
  twice.
\<close>

theorem recordManifestEntry_refines:
  assumes "steady_fs R files"
    and "entry_ok \<lparr>me_Category = default_category category, me_Path = path\<rparr>"
    and "recordManifestEntry dry R category path (us, s) = (us', s')"
  shows "claims (readManifest R s') = (claims (readManifest R s))(path \<mapsto> default_category category) \<and>
         distinct (map me_Path (readManifest R s')) \<and>
         (q \<in> {manifestFile, manifestDir} \<or> files s' q = files s q)"
  using steady_fs.record_steady(1) [OF assms] steady_fs.record_steady(2) [OF assms, of q]
  by (auto simp: merge_claims merge_distinct)

abbreviation calm_disk :: "disk remote" where
  "calm_disk \<equiv> disk_remote (\<lambda>_. False) (\<lambda>_. False) (\<lambda>_. False) (\<lambda>_. [])"

lemma recordManifestEntry_refines_witness:
  "claims (readManifest calm_disk (snd (recordManifestEntry False calm_disk [] ''/opt/x'' ([], Map.empty))))
     ''/opt/x'' = Some ''file''"
proof -
  have "entry_ok \<lparr>me_Category = default_category [], me_Path = ''/opt/x''\<rparr>" by code_simp
  from recordManifestEntry_refines [OF calm.steady_fs_axioms this prod.collapse [symmetric]]
  show ?thesis by (simp add: default_category_def)
qed


definition two_uploads :: disk where
  "two_uploads = [manifestFile \<mapsto> (encodeManifest [\<lparr>me_Category = ''image'', me_Path = ''/old''\<rparr>,
     \<lparr>me_Category = ''engine'', me_Path = ''/bin''\<rparr>], 420), ''/old'' \<mapsto> (''x'', 420), ''/bin'' \<mapsto> (''y'', 420)]"


text \<open>A manifest that exists but cannot be read is taken for an empty one: the next upload recorded
  writes a manifest that names that upload alone, and every earlier claim is lost.
\<close>

theorem unreadable_manifest_is_overwritten:
  assumes "remote_fs R files"
    and "entry_ok \<lparr>me_Category = default_category category, me_Path = path\<rparr>"
    and "r_read R s manifestFile = None"
    and "ensureDir dry R manifestDir ''0755'' [] s = (None, s1)"
    and "\<And>c. fst (r_write R manifestFile c 420 s1) = None"
  shows "files (snd (recordManifestEntry dry R category path (us, s))) manifestFile =
           Some (encodeManifest [\<lparr>me_Category = default_category category, me_Path = path\<rparr>], 420)"
proof -
  have mode: "parseFileMode ''0644'' = Some 420" by code_simp
  have empty: "readManifest R s = []" using assms(3) by (simp add: readManifest_def)
  have merged: "mergeManifest [e] = [e]" for e
    by (simp add: mergeManifest_def merge_step_def)
  let ?c = "encodeManifest [\<lparr>me_Category = default_category category, me_Path = path\<rparr>]"
  obtain s2 where w: "r_write R manifestFile ?c 420 s1 = (None, s2)"
    using assms(5) [of ?c] by (metis prod.collapse)
  have "perm_bits 420 = 420" by code_simp
  with remote_fs.write_ok [OF assms(1) w] show ?thesis
    by (simp add: recordManifestEntry_def Let_def and_then_def assms(4) empty merged Host_WriteFile_def mode w)
qed

lemma unreadable_manifest_is_overwritten_witness:
  "disk_files (snd (recordManifestEntry False
       (disk_remote (\<lambda>p. p = manifestFile) (\<lambda>_. False) (\<lambda>_. False) (\<lambda>_. [])) ''file'' ''/new'' ([], two_uploads)))
     manifestFile = Some (''file'' @ [CHR 0x09] @ ''/new'' @ [CHR 0x0A], 420)"
proof -
  have ok: "entry_ok \<lparr>me_Category = default_category ''file'', me_Path = ''/new''\<rparr>" by code_simp
  let ?R = "disk_remote (\<lambda>p. p = manifestFile) (\<lambda>_. False) (\<lambda>_. False) (\<lambda>_. [])"
  have "fst (ensureDir False ?R manifestDir ''0755'' [] two_uploads) = None" by code_simp
  then have dir: "ensureDir False ?R manifestDir ''0755'' [] two_uploads =
      (None, snd (ensureDir False ?R manifestDir ''0755'' [] two_uploads))"
    by (simp add: prod_eq_iff)
  have "encodeManifest [\<lparr>me_Category = default_category ''file'', me_Path = ''/new''\<rparr>] =
      ''file'' @ [CHR 0x09] @ ''/new'' @ [CHR 0x0A]"
    by code_simp
  with unreadable_manifest_is_overwritten [OF disk.remote_fs_axioms ok _ dir, where us = "[]"]
  show ?thesis by (simp add: disk_remote_def)
qed

context steady_fs
begin

lemma clean_steady:
  assumes "readManifest R s \<noteq> []"
    and "s1 = snd (delete_all R (readManifest R s) s)"
    and "fst (deleteRecordedUpload R manifestFile s1) = None"
  shows "files (cleanUploadManifest R s) = (files s1)(manifestFile := None)"
proof -
  have "cleanUploadManifest R s = snd (deleteRecordedUpload R manifestFile s1)"
    using assms by (simp add: cleanUploadManifest_def Let_def)
  then show ?thesis using deleted_gone [of manifestFile s1] assms(3) by (metis prod.collapse)
qed

end

text \<open>Cleaning up deletes what the manifest names and then the manifest, and touches nothing else.
  The manifest goes whatever became of the files, so one that could not be deleted stays on the host
  with nothing left to name it; when deletions work, every claimed file is gone.
\<close>

theorem cleanUploadManifest_effect:
  assumes "steady_fs R files" and "readManifest R s \<noteq> []"
    and "s1 = snd (delete_all R (readManifest R s) s)"
    and "fst (deleteRecordedUpload R manifestFile s1) = None"
    and "s' = cleanUploadManifest R s" and "q \<noteq> manifestFile"
  shows "readManifest R s' = [] \<and> files s' q = files s1 q \<and>
         (claims (readManifest R s) q \<noteq> None \<or> files s' q = files s q) \<and>
         (deletes_work R \<and> claims (readManifest R s) q \<noteq> None \<longrightarrow> files s' q = None)"
proof -
  have fs: "remote_fs R files" using assms(1) by (rule steady_fs.axioms)
  have after: "files s' = (files s1)(manifestFile := None)"
    unfolding assms(5) by (rule steady_fs.clean_steady [OF assms(1-4)])
  have loop: "delete_all R (readManifest R s) s = (fst (delete_all R (readManifest R s) s), s1)"
    by (simp add: assms(3) prod_eq_iff)
  have "readManifest R s' = []" by (simp add: steady_fs.readManifest_steady [OF assms(1)] after)
  moreover have "files s' q = files s1 q" by (simp add: after assms(6))
  moreover have "files s1 q = files s q" if "claims (readManifest R s) q = None"
    using that remote_fs.delete_all_files [OF fs loop, of q] by (auto simp: claims_None)
  moreover have "files s1 q = None" if "deletes_work R" "claims (readManifest R s) q \<noteq> None"
    using that remote_fs.delete_all_gone [OF fs loop] delete_all_total [of R "readManifest R s" s]
    by (auto simp: claims_None)
  ultimately show ?thesis by auto
qed

text \<open>A file that cannot be deleted outlives the manifest that named it.\<close>

lemma cleanUploadManifest_effect_witness:
  "disk_files (cleanUploadManifest (disk_remote (\<lambda>_. False) (\<lambda>_. False) (\<lambda>p. p = ''/old'') (\<lambda>_. [])) two_uploads)
     ''/old'' = Some (''x'', 420)"
proof -
  let ?R = "disk_remote (\<lambda>_. False) (\<lambda>_. False) (\<lambda>p. p = ''/old'') (\<lambda>_. [])"
  let ?s1 = "snd (delete_all ?R (readManifest ?R two_uploads) two_uploads)"
  have "readManifest ?R two_uploads \<noteq> []" "fst (deleteRecordedUpload ?R manifestFile ?s1) = None"
    "''/old'' \<noteq> manifestFile" "disk_files ?s1 ''/old'' = Some (''x'', 420)"
    by code_simp+
  with cleanUploadManifest_effect [OF calm.steady_fs_axioms _ refl _ refl, of "\<lambda>p. p = ''/old''" "\<lambda>_. []" two_uploads "''/old''"]
  show ?thesis by simp
qed

end
