(* ===== verification/Go_Path.thy ===== *)
theory Go_Path
  imports Cargo_Prelude
begin

section \<open>Slash-separated paths\<close>

text \<open>
  The functions of Go's \<open>path\<close> and \<open>path/filepath\<close> packages the modelled code calls, on a host
  with \<open>/\<close> as separator: \<open>Base\<close>, \<open>Clean\<close>, \<open>Dir\<close>, \<open>Join\<close> and \<open>Match\<close>. A character in a pattern is a
  byte here.
\<close>

definition slash :: char where "slash = CHR ''/''"

definition trim_suffix :: "string \<Rightarrow> string \<Rightarrow> string" where
  "trim_suffix s p = (if suffix p s then take (length s - length p) s else s)"

definition path_Base :: "string \<Rightarrow> string" where
  "path_Base p =
     (if p = [] then ''.''
      else (let q = trim_right (\<lambda>c. c = slash) p in
            if q = [] then [slash] else last (split_on slash q)))"

text \<open>\<open>Clean\<close>: the elements without empty ones and dots, each \<open>..\<close> taking back the element before
  it; at the root there is nothing to take back.\<close>

fun clean_step :: "bool \<Rightarrow> string list \<Rightarrow> string \<Rightarrow> string list" where
  "clean_step rooted out w =
     (if w = [] \<or> w = ''.'' then out
      else if w = ''..'' then
        (if out \<noteq> [] \<and> last out \<noteq> ''..'' then butlast out
         else if rooted then out
         else out @ [''..''])
      else out @ [w])"

definition path_Clean :: "string \<Rightarrow> string" where
  "path_Clean p =
     (if p = [] then ''.''
      else (let rooted = (hd p = slash);
                out = join [slash] (foldl (clean_step rooted) [] (split_on slash p))
            in if rooted then slash # out else if out = [] then ''.'' else out))"

definition path_Dir :: "string \<Rightarrow> string" where
  "path_Dir p = path_Clean (rev (dropWhile (\<lambda>c. c \<noteq> slash) (rev p)))"

definition path_Joins :: "string list \<Rightarrow> string" where
  "path_Joins ws =
     (let parts = filter (\<lambda>w. w \<noteq> []) ws in
      if parts = [] then [] else path_Clean (join [slash] parts))"

abbreviation path_Join :: "string \<Rightarrow> string \<Rightarrow> string" where
  "path_Join a b \<equiv> path_Joins [a, b]"

lemma path_examples:
  "path_Base ''/etc/rancher/k3s/registries.yaml'' = ''registries.yaml''"
  "path_Dir ''/var/lib/x'' = ''/var/lib''" "path_Dir ''x'' = ''.''" "path_Dir ''/x'' = ''/''"
  "path_Join ''/a/b/'' ''../c'' = ''/a/c''" "path_Clean ''/..//a/./b/..'' = ''/a''"
  by code_simp+

subsection \<open>Patterns\<close>

datatype glob = Star | One | Lit char | Class bool "(char \<times> char) list"

text \<open>One end of a range: \<open>getEsc\<close>. Nothing may follow it only after the closing bracket.\<close>

definition class_char :: "string \<Rightarrow> (char \<times> string) option" where
  "class_char s =
     (case s of
        [] \<Rightarrow> None
      | c # t \<Rightarrow>
          if c = CHR ''-'' \<or> c = CHR '']'' then None
          else if c = CHR 0x5C then
            (case t of d # u \<Rightarrow> if u = [] then None else Some (d, u) | [] \<Rightarrow> None)
          else if t = [] then None
          else Some (c, t))"

lemma class_char_shorter: "class_char s = Some (c, t) \<Longrightarrow> length t < length s"
  by (auto simp: class_char_def split: list.splits if_splits)

function (sequential) class_ranges :: "(char \<times> char) list \<Rightarrow> string \<Rightarrow> ((char \<times> char) list \<times> string) option" where
  "class_ranges acc s =
     (if s \<noteq> [] \<and> hd s = CHR '']'' \<and> acc \<noteq> [] then Some (acc, tl s)
      else (case class_char s of
              None \<Rightarrow> None
            | Some (lo, s1) \<Rightarrow>
                if hd s1 = CHR ''-'' then
                  (case class_char (tl s1) of
                     None \<Rightarrow> None
                   | Some (hi, s2) \<Rightarrow> class_ranges (acc @ [(lo, hi)]) s2)
                else class_ranges (acc @ [(lo, lo)]) s1))"
  by pat_completeness auto

termination class_ranges
proof (relation "measure (\<lambda>(acc, s). length s)", goal_cases)
  case (2 acc s p lo s1 q hi s2)
  then have "length s2 < length (tl s1)" "length s1 < length s" by (auto dest: class_char_shorter)
  then show ?case by simp
qed (auto dest: class_char_shorter)

declare class_ranges.simps [simp del]

text \<open>What follows a class is shorter than what preceded it; the comparison only says so to the
  termination prover.\<close>

fun parse_glob :: "string \<Rightarrow> glob list option" where
  "parse_glob [] = Some []"
| "parse_glob (c # s) =
     (if c = CHR ''*'' then map_option ((#) Star) (parse_glob s)
      else if c = CHR ''?'' then map_option ((#) One) (parse_glob s)
      else if c = CHR 0x5C then
        (case s of [] \<Rightarrow> None | d # t \<Rightarrow> map_option ((#) (Lit d)) (parse_glob t))
      else if c = CHR ''['' then
        (let negated = (s \<noteq> [] \<and> hd s = CHR ''^'') in
         (case class_ranges [] (if negated then tl s else s) of
            None \<Rightarrow> None
          | Some (ranges, t) \<Rightarrow>
              if length t < Suc (length s) then map_option ((#) (Class negated ranges)) (parse_glob t)
              else None))
      else map_option ((#) (Lit c)) (parse_glob s))"

fun glob_match :: "glob list \<Rightarrow> string \<Rightarrow> bool" where
  "glob_match [] s \<longleftrightarrow> s = []"
| "glob_match (Star # ps) [] \<longleftrightarrow> glob_match ps []"
| "glob_match (Star # ps) (c # s) \<longleftrightarrow> glob_match ps (c # s) \<or> (c \<noteq> slash \<and> glob_match (Star # ps) s)"
| "glob_match (One # ps) (c # s) \<longleftrightarrow> c \<noteq> slash \<and> glob_match ps s"
| "glob_match (Lit d # ps) (c # s) \<longleftrightarrow> c = d \<and> glob_match ps s"
| "glob_match (Class negated ranges # ps) (c # s) \<longleftrightarrow>
     list_ex (\<lambda>(lo, hi). byte lo \<le> byte c \<and> byte c \<le> byte hi) ranges \<noteq> negated \<and> glob_match ps s"
| "glob_match (p # ps) [] \<longleftrightarrow> False"

definition path_Match :: "string \<Rightarrow> string \<Rightarrow> bool option" where
  "path_Match pattern name =
     map_option (\<lambda>ps. glob_match ps name) (parse_glob pattern)"

lemma path_Match_examples:
  "path_Match ''*-config.yaml'' ''traefik-config.yaml'' = Some True"
  "path_Match ''*-config.yaml'' ''traefik.yaml'' = Some False"
  "path_Match ''[^a-c]?'' ''dx'' = Some True" "path_Match ''[a-'' ''a'' = None"
  by code_simp+

end
