(* ===== verification/File_Selection.thy ===== *)
theory File_Selection
  imports Cluster_Host Go_Path Value_Paths
begin

section \<open>Files of a package and their selection\<close>

text \<open>
  The file of \<open>api/colonel-byte.dev/v1alpha1/file.go\<close> with its selector, owner and permission, the
  architectures of \<open>api/arch.go\<close>, and which files of a package a host is sent: \<open>whenEnabled\<close> and
  \<open>distroFilesFor\<close> of \<open>50_uploadfiles.go\<close>, \<open>profileFilesForArch\<close> and \<open>engineFilesFor\<close> of
  \<open>55_files_common.go\<close>. Templates of files are rendered before, on the management node.
\<close>

subsection \<open>Architectures, selectors and files\<close>

definition arches :: "string list" where
  "arches = [''amd64'', ''arm64'', ''riscv64'']"

datatype arch_error = ErrUnknownArch string | ArchUndetected string

definition ParseArch :: "string \<Rightarrow> arch_error + string" where
  "ParseArch s = (if s \<in> set arches then Inr s else Inl (ErrUnknownArch s))"

text \<open>\<open>raw\<close> is what \<open>Host.Arch\<close> detects.\<close>

definition hostArch :: "(Host \<Rightarrow> arch_error + string) \<Rightarrow> Host \<Rightarrow> arch_error + string" where
  "hostArch raw h = bind_res (raw h) ParseArch"

definition arch_step :: "(Host \<Rightarrow> arch_error + string) \<Rightarrow> string list \<Rightarrow> Host \<Rightarrow> string list" where
  "arch_step raw out h =
     (case hostArch raw h of
        Inl _ \<Rightarrow> out
      | Inr arch \<Rightarrow> if arch \<notin> set out then out @ [arch] else out)"

definition hostArches :: "(Host \<Rightarrow> arch_error + string) \<Rightarrow> Hosts \<Rightarrow> string list" where
  "hostArches raw hosts = foldl (arch_step raw) [] hosts"

record BinarySelector =
  bs_Roles :: "string list"
  bs_Profile :: string
  bs_Package :: string
  bs_Arch :: "string list"
  bs_When :: string

definition MatchesArch :: "BinarySelector \<Rightarrow> string \<Rightarrow> bool" where
  "MatchesArch s arch \<longleftrightarrow> bs_Arch s = [] \<or> arch \<in> set (bs_Arch s)"

datatype perm_value = PermInt int | PermFloat int | PermText string | PermOther

record File =
  fl_Data :: string
  fl_Executable :: bool
  fl_ExtractPath :: string
  fl_Group :: string
  fl_Name :: string
  fl_PermMode :: perm_value
  fl_Selector :: BinarySelector
  fl_Shasum :: string
  fl_Source :: string
  fl_Symlinks :: "string list"
  fl_Target :: string
  fl_Template :: "bool option"
  fl_TargetIsDir :: bool
  fl_User :: string
  fl_Base :: string
  fl_Category :: string
  fl_PermString :: string
  fl_DirPermString :: string
  fl_OriginalTarget :: string
  fl_LocalPath :: string
  fl_LocalPerm :: string

definition zero_selector :: BinarySelector where
  "zero_selector = \<lparr>bs_Roles = [], bs_Profile = [], bs_Package = [], bs_Arch = [], bs_When = []\<rparr>"

definition zero_file :: File where
  "zero_file = \<lparr>fl_Data = [], fl_Executable = False, fl_ExtractPath = [], fl_Group = [], fl_Name = [],
     fl_PermMode = PermOther, fl_Selector = zero_selector, fl_Shasum = [], fl_Source = [], fl_Symlinks = [],
     fl_Target = [], fl_Template = None, fl_TargetIsDir = False, fl_User = [], fl_Base = [], fl_Category = [],
     fl_PermString = [], fl_DirPermString = [], fl_OriginalTarget = [], fl_LocalPath = [], fl_LocalPerm = []\<rparr>"

definition IsTemplate :: "File \<Rightarrow> bool" where
  "IsTemplate f \<longleftrightarrow> fl_Template f = Some True"

definition File_String :: "File \<Rightarrow> string" where
  "File_String f = (if fl_Name f = [] then fl_Source f else fl_Name f)"

definition Owner :: "File \<Rightarrow> string" where
  "Owner f = trim_suffix (fl_User f @ '':'' @ fl_Group f) '':''"

text \<open>\<open>permToString\<close>: a number is printed in octal with a leading zero, and every character is then
  checked; a float is cut to an integer first.\<close>

datatype perm_error = NotPositive int | NilPermission | PermSyntax string | OwnerAccess string | OverSeven string

fun show_oct :: "nat \<Rightarrow> string" where
  "show_oct n = (if n < 8 then [char_of (48 + n)] else show_oct (n div 8) @ [char_of (48 + n mod 8)])"

declare show_oct.simps [simp del]

fun perm_check :: "string \<Rightarrow> nat \<Rightarrow> string \<Rightarrow> perm_error option" where
  "perm_check s i [] = None"
| "perm_check s i (c # cs) =
     (if \<not> is_digit c then Some (PermSyntax s)
      else if i = 1 \<and> digit_val c < 4 then Some (OwnerAccess s)
      else if digit_val c > 7 then Some (OverSeven s)
      else perm_check s (i + 1) cs)"

definition perm_text :: "string \<Rightarrow> perm_error + string" where
  "perm_text s = (case perm_check s 0 s of Some e \<Rightarrow> Inl e | None \<Rightarrow> Inr s)"

definition perm_number :: "int \<Rightarrow> perm_error + string" where
  "perm_number num =
     (if num < 0 then Inl (NotPositive num)
      else if num = 0 then Inl NilPermission
      else perm_text (CHR ''0'' # show_oct (nat num)))"

fun permToString :: "perm_value \<Rightarrow> perm_error + string" where
  "permToString (PermInt n) = perm_number n"
| "permToString (PermFloat n) = perm_number n"
| "permToString (PermText s) = perm_text s"
| "permToString PermOther = Inr []"

text \<open>\<open>File.UnmarshalYAML\<close> after decoding: a file with a permission it does not accept is no file.\<close>

definition File_UnmarshalYAML :: "File \<Rightarrow> perm_error + File" where
  "File_UnmarshalYAML u = bind_res (permToString (fl_PermMode u)) (\<lambda>fp. Inr (u\<lparr>fl_PermString := fp\<rparr>))"

subsection \<open>Which files a host is sent\<close>

definition parse_bool :: "string \<Rightarrow> bool option" where
  "parse_bool s =
     (if s \<in> {''1'', ''t'', ''T'', ''TRUE'', ''true'', ''True''} then Some True
      else if s \<in> {''0'', ''f'', ''F'', ''FALSE'', ''false'', ''False''} then Some False
      else None)"

fun truthy :: "vval \<Rightarrow> bool option" where
  "truthy (VBool b) = Some b"
| "truthy (VStr s) = parse_bool s"
| "truthy _ = None"

definition whenEnabled :: "vmap \<Rightarrow> string \<Rightarrow> bool" where
  "whenEnabled values path =
     (if path = [] then True
      else (case GetValuePath values path of
              Inl _ \<Rightarrow> False
            | Inr None \<Rightarrow> False
            | Inr (Some v) \<Rightarrow> (case truthy v of None \<Rightarrow> False | Some enabled \<Rightarrow> enabled)))"

definition hostProfile :: "Host \<Rightarrow> string" where
  "hostProfile h = (if IsController h then RoleController else RoleWorker)"

definition getPath :: "File list \<Rightarrow> string list" where
  "getPath files = map fl_Target files"

text \<open>A file's position in the list names the directory it was assembled into.\<close>

definition distro_file :: "string \<Rightarrow> nat \<Rightarrow> File \<Rightarrow> File" where
  "distro_file tmp i f =
     zero_file\<lparr>fl_Name := path_Base (fl_Target f), fl_Target := fl_Target f, fl_OriginalTarget := fl_Target f,
       fl_TargetIsDir := fl_TargetIsDir f, fl_Category := ''file'',
       fl_LocalPath := path_Joins [tmp, ''files'', show_nat i, path_Base (fl_Target f)]\<rparr>"

fun distroFilesFor_loop :: "string option \<Rightarrow> string \<Rightarrow> vmap \<Rightarrow> string \<Rightarrow> string \<Rightarrow> nat \<Rightarrow> File list \<Rightarrow> string + File list" where
  "distroFilesFor_loop ctx_err tmp values profile arch i [] = Inr []"
| "distroFilesFor_loop ctx_err tmp values profile arch i (f # fs) =
     (case ctx_err of
        Some c \<Rightarrow> Inl c
      | None \<Rightarrow>
          bind_res (distroFilesFor_loop ctx_err tmp values profile arch (i + 1) fs) (\<lambda>rest.
            Inr (if \<not> MatchesArch (fl_Selector f) arch then rest
                 else if bs_Profile (fl_Selector f) \<noteq> [] \<and> bs_Profile (fl_Selector f) \<noteq> profile then rest
                 else if \<not> whenEnabled values (bs_When (fl_Selector f)) then rest
                 else distro_file tmp i f # rest)))"

definition distroFilesFor ::
  "string option \<Rightarrow> string \<Rightarrow> vmap \<Rightarrow> Host \<Rightarrow> string \<Rightarrow> File list \<Rightarrow> string + File list"
where
  "distroFilesFor ctx_err tmp values h arch disFiles =
     distroFilesFor_loop ctx_err tmp values (hostProfile h) arch 0 disFiles"

text \<open>Only files of the binary selector are staged under a name of their own; \<open>nonce\<close> is the time in
  nanoseconds as text.\<close>

definition stageTempPath :: "bool \<Rightarrow> string \<Rightarrow> string \<Rightarrow> string" where
  "stageTempPath isWin nonce bin =
     (let ext = rev (takeWhile (\<lambda>c. c \<noteq> CHR ''.'' \<and> c \<noteq> slash) (rev bin));
          dotted = (if length ext < length bin \<and> bin ! (length bin - length ext - 1) = CHR ''.'' then CHR ''.'' # ext else [])
      in if isWin \<and> equal_fold dotted ''.exe'' then trim_suffix bin dotted @ ''.tmp.'' @ nonce @ dotted
         else bin @ ''.tmp.'' @ nonce)"

definition engine_file :: "string \<Rightarrow> string \<Rightarrow> string \<Rightarrow> nat \<Rightarrow> File \<Rightarrow> File" where
  "engine_file tmp nonce selector i f =
     zero_file\<lparr>fl_Name := path_Base (fl_Target f),
       fl_Target := (if fl_Executable f \<and> selector = ''binary'' then stageTempPath False nonce (fl_Target f) else fl_Target f),
       fl_OriginalTarget := fl_Target f, fl_Category := ''engine'',
       fl_LocalPath := path_Joins [tmp, ''os'', show_nat i, path_Base (fl_Target f)]\<rparr>"

fun profileFilesForArch ::
  "string \<Rightarrow> string \<Rightarrow> vmap \<Rightarrow> string \<Rightarrow> string \<Rightarrow> string \<Rightarrow> nat \<Rightarrow> File list \<Rightarrow> File list"
where
  "profileFilesForArch tmp nonce values selector profile arch i [] = []"
| "profileFilesForArch tmp nonce values selector profile arch i (f # fs) =
     (let rest = profileFilesForArch tmp nonce values selector profile arch (i + 1) fs in
      if bs_Package (fl_Selector f) \<noteq> selector then rest
      else if bs_Profile (fl_Selector f) \<noteq> [] \<and> bs_Profile (fl_Selector f) \<noteq> profile then rest
      else if \<not> MatchesArch (fl_Selector f) arch then rest
      else if \<not> whenEnabled values (bs_When (fl_Selector f)) then rest
      else engine_file tmp nonce selector i f # rest)"

definition getProfileFiles ::
  "(Host \<Rightarrow> arch_error + string) \<Rightarrow> string \<Rightarrow> string \<Rightarrow> vmap \<Rightarrow> Hosts \<Rightarrow> File list \<Rightarrow> string \<Rightarrow> string \<Rightarrow>
   (string \<times> File list) list"
where
  "getProfileFiles raw tmp nonce values hosts distroFiles selector profile =
     map (\<lambda>arch. (arch, profileFilesForArch tmp nonce values selector profile arch 0 distroFiles))
       (hostArches raw hosts)"

definition engineFilesFor ::
  "(Host \<Rightarrow> arch_error + string) \<Rightarrow> (string \<times> File list) list \<Rightarrow> Host \<Rightarrow> arch_error + File list"
where
  "engineFilesFor raw byArch h =
     bind_res (hostArch raw h) (\<lambda>arch. Inr (case map_of byArch arch of None \<Rightarrow> [] | Some files \<Rightarrow> files))"

subsection \<open>Selection\<close>

text \<open>The reference: the files that apply, each with its position in the package.\<close>

definition applies :: "vmap \<Rightarrow> string \<Rightarrow> string \<Rightarrow> File \<Rightarrow> bool" where
  "applies values profile arch f \<longleftrightarrow>
     MatchesArch (fl_Selector f) arch \<and>
     (bs_Profile (fl_Selector f) = [] \<or> bs_Profile (fl_Selector f) = profile) \<and>
     whenEnabled values (bs_When (fl_Selector f))"

lemma distroFilesFor_loop_eq:
  "distroFilesFor_loop None tmp values profile arch i fs =
     Inr (map (\<lambda>(i, f). distro_file tmp i f) (filter (\<lambda>(i, f). applies values profile arch f) (enumerate i fs)))"
  by (induction fs arbitrary: i) (auto simp: applies_def)

lemma profileFilesForArch_eq:
  "profileFilesForArch tmp nonce values selector profile arch i fs =
     map (\<lambda>(i, f). engine_file tmp nonce selector i f)
       (filter (\<lambda>(i, f). bs_Package (fl_Selector f) = selector \<and> applies values profile arch f) (enumerate i fs))"
  by (induction fs arbitrary: i) (auto simp: applies_def Let_def)

text \<open>The files a host is sent are exactly those that apply to it, each read from the directory its
  position in the whole package names; but whatever owner, permission and executable bit the package
  gave them is gone: none is sent with an owner, a mode or the executable mark.\<close>

theorem package_files_lose_attributes:
  assumes "distroFilesFor None tmp values h arch disFiles = Inr sent"
  shows "sent = map (\<lambda>(i, f). distro_file tmp i f)
                  (filter (\<lambda>(i, f). applies values (hostProfile h) arch f) (enumerate 0 disFiles)) \<and>
         list_all (\<lambda>g. Owner g = [] \<and> fl_LocalPerm g = [] \<and> fl_PermString g = [] \<and> \<not> fl_Executable g) sent"
proof -
  have "Owner (distro_file tmp i f) = []" for i f
    by (simp add: Owner_def distro_file_def zero_file_def trim_suffix_def)
  then show ?thesis
    using assms
    by (auto simp: distroFilesFor_def distroFilesFor_loop_eq list_all_iff)
      (auto simp: distro_file_def zero_file_def)
qed

definition root_file :: File where
  "root_file = zero_file\<lparr>fl_Target := ''/opt/tool'', fl_User := ''app'', fl_PermString := ''0750'', fl_Executable := True\<rparr>"

lemma package_files_lose_attributes_witness:
  "list_all (\<lambda>g. Owner g = [] \<and> fl_LocalPerm g = [] \<and> fl_PermString g = [] \<and> \<not> fl_Executable g)
     [distro_file ''/t'' 0 root_file] \<and> Owner root_file = ''app''"
proof -
  have "distroFilesFor None ''/t'' [] (sample_host ''a'' RoleWorker []) ''amd64'' [root_file] = Inr [distro_file ''/t'' 0 root_file]"
    by (simp add: distroFilesFor_def MatchesArch_def whenEnabled_def, simp add: root_file_def zero_file_def zero_selector_def)
  note package_files_lose_attributes [OF this, THEN conjunct2]
  moreover have "Owner root_file = ''app''"
    by (simp add: Owner_def root_file_def zero_file_def trim_suffix_def suffix_def)
  ultimately show ?thesis by blast
qed

subsection \<open>Permissions\<close>

definition octal :: "char \<Rightarrow> bool" where
  "octal c \<longleftrightarrow> is_digit c \<and> digit_val c < 8"

lemma perm_check_None:
  "perm_check s i t = None \<longleftrightarrow>
     (\<forall>c \<in> set t. octal c) \<and> (i \<le> 1 \<and> 1 - i < length t \<longrightarrow> 4 \<le> digit_val (t ! (1 - i)))"
proof (induction t arbitrary: i)
  case (Cons c t)
  consider "i = 0" | "i = 1" | "1 < i" by linarith
  then show ?case by cases (auto simp: Cons octal_def nth_Cons)
qed simp

lemma perm_text_iff:
  "perm_text s = Inr t \<longleftrightarrow> t = s \<and> (\<forall>c \<in> set s. octal c) \<and> (1 < length s \<longrightarrow> 4 \<le> digit_val (s ! 1))"
  using perm_check_None [of s 0 s] by (auto simp: perm_text_def split: option.splits)

lemma digits_value_snoc:
  "digits_value b a (s @ [c]) =
     (case digits_value b a s of None \<Rightarrow> None
      | Some m \<Rightarrow> if is_digit c \<and> digit_val c < b then Some (m * b + digit_val c) else None)"
  by (induction b a s rule: digits_value.induct) auto

lemma octal_of_nat: "n < 8 \<Longrightarrow> is_digit (char_of (48 + n)) \<and> digit_val (char_of (48 + n)) = n"
  by (simp add: is_digit_def digit_val_def byte_def)

lemma show_oct_value: "digits_value 8 0 (show_oct n) = Some n"
proof (induction n rule: show_oct.induct)
  case (1 n)
  show ?case
  proof (cases "n < 8")
    case True
    with octal_of_nat [of n] show ?thesis by (simp add: show_oct.simps [of n])
  next
    case False
    with 1 octal_of_nat [of "n mod 8"] show ?thesis
      by (simp add: show_oct.simps [of n] digits_value_snoc)
  qed
qed

lemma octal_value: "\<forall>c \<in> set s. octal c \<Longrightarrow> \<exists>m. digits_value 8 a s = Some m"
  by (induction s arbitrary: a) (auto simp: octal_def)

text \<open>A file the decoder accepts carries a permission text of octal digits, so that a later reading of
  it as a number cannot fail on a digit; a number is given as the text that reads back as it. A text
  or a number whose second digit is below 4 is refused: so the owner of a mode written with its
  leading zero can at least read, but \<open>600\<close> without the zero is refused, and so is the integer 644,
  whose octal digits are 1204.\<close>

theorem File_UnmarshalYAML_permission:
  assumes "File_UnmarshalYAML u = Inr f" and "fl_PermString f \<noteq> []"
  shows "f = u\<lparr>fl_PermString := fl_PermString f\<rparr> \<and>
         (\<exists>m. digits_value 8 0 (fl_PermString f) = Some m \<and>
              (\<forall>n. fl_PermMode u \<in> {PermInt n, PermFloat n} \<longrightarrow> 0 < n \<and> int m = n)) \<and>
         (\<forall>s. fl_PermMode u = PermText s \<longrightarrow> fl_PermString f = s) \<and>
         (1 < length (fl_PermString f) \<longrightarrow> 4 \<le> digit_val (fl_PermString f ! 1)) \<and>
         fl_PermMode u \<notin> {PermText ''600'', PermInt 644}"
proof -
  let ?s = "fl_PermString f"
  from assms(1) have perm: "permToString (fl_PermMode u) = Inr ?s" and f: "f = u\<lparr>fl_PermString := ?s\<rparr>"
    by (auto simp: File_UnmarshalYAML_def bind_res_def split: sum.splits)
  have number: "0 < n \<and> ?s = CHR ''0'' # show_oct (nat n) \<and> perm_text ?s = Inr ?s" if "perm_number n = Inr ?s" for n
    using that by (auto simp: perm_number_def perm_text_iff split: if_splits)
  have ok: "perm_text ?s = Inr ?s"
    using perm assms(2) number by (cases "fl_PermMode u") (auto simp: perm_text_iff)
  then obtain m where m: "digits_value 8 0 ?s = Some m"
    unfolding perm_text_iff using octal_value by blast
  have number_value: "0 < n \<and> int m = n" if "fl_PermMode u \<in> {PermInt n, PermFloat n}" for n
  proof -
    have n: "perm_number n = Inr ?s" using that perm by auto
    have "digits_value 8 0 (CHR ''0'' # show_oct (nat n)) = Some (nat n)"
      by (simp add: show_oct_value is_digit_def digit_val_def byte_def)
    with number [OF n] m show ?thesis by auto
  qed
  have refused: "permToString (PermText ''600'') = Inl (OwnerAccess ''600'')"
    "permToString (PermInt 644) = Inl (OwnerAccess ''01204'')" by code_simp+
  have "permToString (PermText ''600'') \<noteq> Inr s" "permToString (PermInt 644) \<noteq> Inr s" for s
    using refused by (simp_all del: permToString.simps)
  then have "fl_PermMode u \<notin> {PermText ''600'', PermInt 644}" using perm by auto
  moreover have "\<forall>s. fl_PermMode u = PermText s \<longrightarrow> ?s = s" using perm by (auto simp: perm_text_iff)
  ultimately show ?thesis using f m number_value ok by (auto simp: perm_text_iff)
qed

lemma File_UnmarshalYAML_permission_witness:
  "\<exists>f. File_UnmarshalYAML (zero_file\<lparr>fl_PermMode := PermInt 420\<rparr>) = Inr f \<and> digits_value 8 0 (fl_PermString f) = Some 420"
proof -
  have "permToString (PermInt 420) = Inr ''0644''" by code_simp
  then have f: "File_UnmarshalYAML (zero_file\<lparr>fl_PermMode := PermInt 420\<rparr>) =
      Inr (zero_file\<lparr>fl_PermMode := PermInt 420, fl_PermString := ''0644''\<rparr>)"
    by (simp add: File_UnmarshalYAML_def bind_res_def del: permToString.simps)
  from File_UnmarshalYAML_permission [OF f] f show ?thesis by auto
qed

subsection \<open>Gates\<close>

text \<open>Setting the path a file is gated by decides whether the file is sent, whatever the values held
  before; a gate at any other path, neither above nor below the one set, stays as it was.\<close>

theorem whenEnabled_set:
  assumes "SetValuePath values path (VBool b) = Inr values'" and "path \<notin> {[], ''.''}"
    and "valuePath path = Inr p" and "valuePath other = Inr q" and "path_steps q \<parallel> path_steps p"
  shows "whenEnabled values' path = b \<and> whenEnabled values' other = whenEnabled values other"
proof -
  from SetValuePath_elsewhere [OF assms(1,3-5)] have "whenEnabled values' other = whenEnabled values other"
    by (auto simp: whenEnabled_def same_or_hole_def)
  with SetValuePath_read [OF assms(1)] assms(2) show ?thesis by (simp add: whenEnabled_def)
qed

lemma whenEnabled_set_witness:
  "whenEnabled (case SetValuePath sample_values ''.a.x[2]'' (VBool True) of Inr d \<Rightarrow> d) ''.a.x[2]'' \<and>
   \<not> whenEnabled (case SetValuePath sample_values ''.a.x[2]'' (VBool True) of Inr d \<Rightarrow> d) ''.b''"
proof -
  have set: "SetValuePath sample_values ''.a.x[2]'' (VBool True) =
      Inr (case SetValuePath sample_values ''.a.x[2]'' (VBool True) of Inr d \<Rightarrow> d)"
    by code_simp
  have p: "valuePath ''.a.x[2]'' = Inr [\<lparr>ps_key = ''a'', ps_indices = []\<rparr>, \<lparr>ps_key = ''x'', ps_indices = [2]\<rparr>]"
    "valuePath ''.b'' = Inr [\<lparr>ps_key = ''b'', ps_indices = []\<rparr>]" by code_simp+
  have "\<not> whenEnabled sample_values ''.b''" by code_simp
  with whenEnabled_set [OF set _ p] show ?thesis by (simp add: path_steps_def parallel_Cons)
qed

end
