(* ===== verification/Upload_Files.thy ===== *)
theory Upload_Files
  imports Upload_Manifest File_Selection
begin

section \<open>Uploading files\<close>

text \<open>
  What a host is sent and what becomes of what it had: the uploads of
  \<open>pkg/phase/01_generic_phase_file.go\<close>, the package files and image tarballs of
  \<open>50_uploadfiles.go\<close> and the engine files of \<open>55_files_common.go\<close> and \<open>59_bin_install.go\<close>.
  The state is the host's record of this run, \<open>Metadata.UploadedFiles\<close>, with the remote host. The
  files of the machine cargoship runs on are a parameter: content and mode for every local path.
\<close>

subsection \<open>One upload\<close>

type_synonym local_files = "string \<Rightarrow> (string \<times> nat) option"

text \<open>\<open>Host.FileChanged\<close>; \<open>sha\<close> is the checksum of a content.\<close>

definition FileChanged :: "(string \<Rightarrow> string) \<Rightarrow> local_files \<Rightarrow> 's remote \<Rightarrow> 's \<Rightarrow> string \<Rightarrow> string \<Rightarrow> bool" where
  "FileChanged sha L R s lpath rpath =
     (case L lpath of
        None \<Rightarrow> True
      | Some (content, _) \<Rightarrow>
          (case r_sha256 R s rpath of None \<Rightarrow> True | Some rsha \<Rightarrow> sha content \<noteq> rsha))"

definition upload_target :: "File \<Rightarrow> string" where
  "upload_target f = (if fl_TargetIsDir f then path_Join (fl_Target f) (path_Base (fl_LocalPath f)) else fl_Target f)"

definition upload_source :: "File \<Rightarrow> string" where
  "upload_source f = path_Join (fl_Base f) (fl_LocalPath f)"

definition upload_perm :: "File \<Rightarrow> nat \<Rightarrow> nat" where
  "upload_perm f mode =
     (if fl_LocalPerm f \<noteq> [] then (case parse_uint 8 32 (fl_LocalPerm f) of Some v \<Rightarrow> v | None \<Rightarrow> mode) else mode)"

definition transfer :: "(string \<Rightarrow> string) \<Rightarrow> local_files \<Rightarrow> bool \<Rightarrow> 's remote \<Rightarrow> File \<Rightarrow> 's \<Rightarrow> fs_error option \<times> 's" where
  "transfer sha L dry R f s =
     (if FileChanged sha L R s (upload_source f) (upload_target f) then
        Wet dry (\<lambda>s. case L (upload_source f) of
            None \<Rightarrow> (Some (ErrFS (upload_source f)), s)
          | Some (content, mode) \<Rightarrow>
              and_then (r_upload R (upload_target f) content (upload_perm f mode)) (r_touch R (upload_target f)) s) s
      else (None, s))"

definition manifest_path :: "File \<Rightarrow> string" where
  "manifest_path f = (if fl_OriginalTarget f \<noteq> [] then fl_OriginalTarget f else upload_target f)"

definition upload_dirs :: "bool \<Rightarrow> 's remote \<Rightarrow> File \<Rightarrow> 's \<Rightarrow> fs_error option \<times> 's" where
  "upload_dirs dry R f =
     and_then (ensureDir dry R (path_Dir (fl_Target f)) (fl_DirPermString f) (Owner f))
       (\<lambda>s. if fl_TargetIsDir f then ensureDir dry R (fl_Target f) (fl_DirPermString f) (Owner f) s else (None, s))"

definition uploadFile ::
  "(string \<Rightarrow> string) \<Rightarrow> local_files \<Rightarrow> bool \<Rightarrow> 's remote \<Rightarrow> File \<Rightarrow> string list \<times> 's \<Rightarrow>
   fs_error option \<times> string list \<times> 's"
where
  "uploadFile sha L dry R f us =
     (case us of (uploads, s) \<Rightarrow>
        (case and_then (upload_dirs dry R f) (transfer sha L dry R f) s of
           (Some e, s1) \<Rightarrow> (Some e, uploads, s1)
         | (None, s1) \<Rightarrow>
             (case recordManifestEntry dry R (fl_Category f) (manifest_path f) (uploads, s1) of
                (uploads2, s2) \<Rightarrow>
                  (case applyFileMetadata R (fl_Target f) (Owner f) (fl_LocalPerm f) True s2 of
                     (e, s3) \<Rightarrow> (e, uploads2, s3)))))"

text \<open>An upload that fails is logged and the next one tried.\<close>

definition uploadFiles ::
  "(string \<Rightarrow> string) \<Rightarrow> local_files \<Rightarrow> bool \<Rightarrow> 's remote \<Rightarrow> File list \<Rightarrow> string list \<times> 's \<Rightarrow> string list \<times> 's"
where
  "uploadFiles sha L dry R files us = foldl (\<lambda>us f. snd (uploadFile sha L dry R f us)) us files"

text \<open>A parse error is logged and the value \<open>ParseUint\<close> returns with it used: the largest one for a
  number out of range, zero otherwise.\<close>

definition data_mode :: "File \<Rightarrow> nat" where
  "data_mode f =
     (if fl_PermString f = [] then 0
      else (case digits_value 8 0 (fl_PermString f) of Some m \<Rightarrow> min m (2 ^ 32 - 1) | None \<Rightarrow> 0))"

definition uploadData ::
  "bool \<Rightarrow> 's remote \<Rightarrow> File \<Rightarrow> string list \<times> 's \<Rightarrow> fs_error option \<times> string list \<times> 's"
where
  "uploadData dry R f us =
     (case us of (uploads, s) \<Rightarrow>
        (case and_then (ensureDir dry R (path_Dir (fl_Target f)) (fl_DirPermString f) (Owner f))
                (Wet dry (r_create R (fl_Target f) (fl_Data f) (data_mode f))) s of
           (Some e, s1) \<Rightarrow> (Some e, uploads, s1)
         | (None, s1) \<Rightarrow>
             (case recordManifestEntry dry R (if fl_Category f = [] then ''data'' else fl_Category f)
                     (fl_Target f) (uploads, s1) of
                (uploads2, s2) \<Rightarrow>
                  (case applyFileMetadata R (fl_Target f) (Owner f) [] False s2 of
                     (e, s3) \<Rightarrow> (e, uploads2, s3)))))"

subsection \<open>The upload phase\<close>

text \<open>A file of the cluster configuration as far as the code reads it: destination and content.\<close>

record HostFile =
  hf_Destination :: string
  hf_Data :: string

definition inline_file :: "HostFile \<Rightarrow> File" where
  "inline_file f = zero_file\<lparr>fl_Name := path_Base (hf_Destination f), fl_Target := hf_Destination f, fl_Data := hf_Data f\<rparr>"

definition upload_inline :: "bool \<Rightarrow> 's remote \<Rightarrow> HostFile list \<Rightarrow> string list \<times> 's \<Rightarrow> string list \<times> 's" where
  "upload_inline dry R hostFiles us =
     foldl (\<lambda>us f. if hf_Data f \<noteq> [] then snd (uploadData dry R (inline_file f) us) else us) us hostFiles"

text \<open>\<open>chmodx\<close> is the \<open>chmod +x\<close> command run for a file that says it is executable.\<close>

definition upload_package ::
  "(string \<Rightarrow> string) \<Rightarrow> local_files \<Rightarrow> bool \<Rightarrow> 's remote \<Rightarrow> (string \<Rightarrow> 's \<Rightarrow> 's) \<Rightarrow> File list \<Rightarrow> string list \<times> 's \<Rightarrow> string list \<times> 's"
where
  "upload_package sha L dry R chmodx files us =
     foldl (\<lambda>us f. case snd (uploadFile sha L dry R f us) of
              (uploads, s) \<Rightarrow> (uploads, if fl_Executable f then chmodx (fl_Target f) s else s)) us files"

definition uploadDistroFiles ::
  "(string \<Rightarrow> string) \<Rightarrow> local_files \<Rightarrow> bool \<Rightarrow> 's remote \<Rightarrow> (string \<Rightarrow> 's \<Rightarrow> 's) \<Rightarrow> string option \<Rightarrow> string \<Rightarrow> vmap \<Rightarrow>
   (Host \<Rightarrow> arch_error + string) \<Rightarrow> File list \<Rightarrow> (string \<times> File list) list \<Rightarrow> HostFile list \<Rightarrow> Host \<Rightarrow>
   string list \<times> 's \<Rightarrow> (arch_error + string) option \<times> string list \<times> 's"
where
  "uploadDistroFiles sha L dry R chmodx ctx_err tmp values raw disFiles imgFiles hostFiles h us =
     (case hostArch raw h of
        Inl e \<Rightarrow> (Some (Inl e), us)
      | Inr arch \<Rightarrow>
          (case distroFilesFor ctx_err tmp values h arch disFiles of
             Inl c \<Rightarrow> (Some (Inr c), us)
           | Inr files \<Rightarrow>
               (case (ctx_err, hostFiles) of
                  (Some c, _ # _) \<Rightarrow> (Some (Inr c), us)
                | _ \<Rightarrow>
                    (None, uploadFiles sha L dry R (case map_of imgFiles arch of None \<Rightarrow> [] | Some imgs \<Rightarrow> imgs)
                             (upload_package sha L dry R chmodx files (upload_inline dry R hostFiles us))))))"

definition imageTarBallSuffixes :: "string list" where
  "imageTarBallSuffixes = [''.tar'', ''.tar.gz'', ''.tar.zst'']"

definition isImageTarBall :: "string \<Rightarrow> bool" where
  "isImageTarBall name \<longleftrightarrow> list_ex (\<lambda>suffix. has_suffix name suffix) imageTarBallSuffixes"

definition tarball_char :: "char \<Rightarrow> bool" where
  "tarball_char c \<longleftrightarrow> is_digit c \<or> 65 \<le> byte c \<and> byte c \<le> 90 \<or> 97 \<le> byte c \<and> byte c \<le> 122 \<or>
     c = CHR ''.'' \<or> c = CHR ''_'' \<or> c = CHR ''-''"

definition imageTarBallName :: "string \<Rightarrow> string \<Rightarrow> string" where
  "imageTarBallName ref tarSuffix = map (\<lambda>c. if tarball_char c then c else CHR ''_'') ref @ tarSuffix"

definition KeepImagesMarker :: string where "KeepImagesMarker = ''cargoship-keep-images''"

text \<open>The sweep: entries of the directory in turn, the warnings it leaves and the deletions.\<close>

fun sweep_entries ::
  "'s remote \<Rightarrow> string \<Rightarrow> string \<Rightarrow> string set \<Rightarrow> bool \<Rightarrow> (string \<times> bool) list \<Rightarrow> Warning list \<times> 's \<Rightarrow> Warning list \<times> 's"
where
  "sweep_entries R address dir managed keep [] ws = ws"
| "sweep_entries R address dir managed keep ((name, isDir) # es) ws =
     (case ws of (kept, s) \<Rightarrow>
        (let target = path_Join dir name in
         sweep_entries R address dir managed keep es
           (if isDir \<or> \<not> isImageTarBall name then (kept, s)
            else if target \<in> managed then (kept, s)
            else if keep then
              (kept @ [\<lparr>w_phase = [], w_host = address, w_path = target, w_reason = ''kept, unmanaged''\<rparr>], s)
            else (kept, snd (deleteRecordedUpload R target s)))))"

definition sweepUnmanagedImages ::
  "'s remote \<Rightarrow> string \<Rightarrow> string \<Rightarrow> ManifestEntry list \<Rightarrow> Warning list \<times> 's \<Rightarrow> Warning list \<times> 's"
where
  "sweepUnmanagedImages R address dir current ws =
     (if dir = [] then ws
      else (case r_readdir R (snd ws) dir of
              None \<Rightarrow> ws
            | Some entries \<Rightarrow>
                sweep_entries R address dir (me_Path ` set current)
                  (r_exists R (snd ws) (path_Join dir KeepImagesMarker)) entries ws))"

definition current_uploads :: "string \<Rightarrow> string list \<Rightarrow> ManifestEntry list" where
  "current_uploads category uploads =
     filterManifestByCategory category (ParseManifest (join [newline] uploads))"

definition images_cleanStaleUploads ::
  "'s remote \<Rightarrow> string \<Rightarrow> string \<Rightarrow> ManifestEntry list \<Rightarrow> string list \<Rightarrow> Warning list \<times> 's \<Rightarrow> Warning list \<times> 's"
where
  "images_cleanStaleUploads R address dir prior uploads ws =
     (let current = current_uploads ''image'' uploads in
      sweepUnmanagedImages R address dir current
        (fst ws, removeStaleManifestEntries R (filterManifestByCategory ''image'' prior) current (snd ws)))"

text \<open>
  \<open>cleanUpOldTmpFiles\<close> looks below the folder of each file for names the regular expression
  \<open>base.tmp.*\<close> matches anywhere; the base is put into it as it is, so a dot of it stands for any
  character but a line break. Bases with other operators of regular expressions are outside the
  model. \<open>walk\<close> is what \<open>fs.WalkDir\<close> finds below a folder that is not a directory.
\<close>

definition pattern_char :: "char \<Rightarrow> char \<Rightarrow> bool" where
  "pattern_char p c \<longleftrightarrow> (if p = CHR ''.'' then c \<noteq> newline else c = p)"

fun matches_here :: "string \<Rightarrow> string \<Rightarrow> bool" where
  "matches_here [] s = True"
| "matches_here (p # ps) [] = False"
| "matches_here (p # ps) (c # s) = (pattern_char p c \<and> matches_here ps s)"

definition tmp_match :: "string \<Rightarrow> string \<Rightarrow> bool" where
  "tmp_match base name \<longleftrightarrow> list_ex (matches_here (base @ ''.tmp'')) (suffixes name)"

definition clean_folder :: "File \<Rightarrow> string" where
  "clean_folder f = (if fl_TargetIsDir f then fl_Target f else path_Dir (fl_Target f))"

fun clean_walk :: "'s remote \<Rightarrow> string \<Rightarrow> string list \<Rightarrow> 's \<Rightarrow> 's" where
  "clean_walk R base [] s = s"
| "clean_walk R base (p # ps) s =
     clean_walk R base ps (if tmp_match base (path_Base p) then snd (r_remove R p s) else s)"

definition cleanUpOldTmpFiles ::
  "'s remote \<Rightarrow> ('s \<Rightarrow> string \<Rightarrow> string list) \<Rightarrow> File list \<Rightarrow> File list \<Rightarrow> 's \<Rightarrow> 's"
where
  "cleanUpOldTmpFiles R walk disFiles osFiles s =
     foldl (\<lambda>s f. clean_walk R (path_Base (fl_Target f)) (walk s (clean_folder f)) s) s (disFiles @ osFiles)"

subsection \<open>The engine install phases\<close>

text \<open>The engine flag of a host travels with its uploads: \<open>Metadata.EngineUploaded\<close>.\<close>

definition blockOtherInstallsIfUploaded ::
  "(Host \<Rightarrow> arch_error + string) \<Rightarrow> (string \<times> File list) list \<Rightarrow> Host \<Rightarrow> bool \<Rightarrow> arch_error option \<times> bool"
where
  "blockOtherInstallsIfUploaded raw byArch h engine =
     (case engineFilesFor raw byArch h of
        Inl e \<Rightarrow> (Some e, engine)
      | Inr files \<Rightarrow> (None, if files = [] then engine else True))"

definition engine_cleanStaleUploads ::
  "'s remote \<Rightarrow> ManifestEntry list \<Rightarrow> bool \<Rightarrow> string list \<Rightarrow> 's \<Rightarrow> 's"
where
  "engine_cleanStaleUploads R prior engine uploads s =
     (if \<not> engine then s
      else removeStaleManifestEntries R (filterManifestByCategory ''engine'' prior)
             (current_uploads ''engine'' uploads) s)"

text \<open>What one host goes through in \<open>Run\<close>: its uploads, the flag and the cleanup. The prior manifest is
  read in \<open>Prepare\<close>.\<close>

definition engine_phase_host ::
  "(string \<Rightarrow> string) \<Rightarrow> local_files \<Rightarrow> bool \<Rightarrow> 's remote \<Rightarrow> (Host \<Rightarrow> arch_error + string) \<Rightarrow>
   (string \<times> File list) list \<Rightarrow> Host \<Rightarrow> bool \<Rightarrow> string list \<times> 's \<Rightarrow> arch_error + (bool \<times> string list \<times> 's)"
where
  "engine_phase_host sha L dry R raw byArch h engine us =
     (case engineFilesFor raw byArch h of
        Inl e \<Rightarrow> Inl e
      | Inr files \<Rightarrow>
          (let prior = readManifest R (snd us);
               engine' = snd (blockOtherInstallsIfUploaded raw byArch h engine)
           in case uploadFiles sha L dry R files us of
                (uploads, s1) \<Rightarrow> Inr (engine', uploads, engine_cleanStaleUploads R prior engine' uploads s1)))"

text \<open>The install of the binary phase: every staged file is moved to its place.\<close>

fun install_binaries :: "'s remote \<Rightarrow> File list \<Rightarrow> 's \<Rightarrow> 's" where
  "install_binaries R [] s = s"
| "install_binaries R (f # fs) s =
     install_binaries R fs
       (if fl_OriginalTarget f \<noteq> fl_Target f then snd (r_rename R (fl_Target f) (fl_OriginalTarget f) s) else s)"

text \<open>The hosts a phase acts on, \<open>Prepare\<close> of the common phase with the filter of the operating system.\<close>

definition engine_hosts :: "(Host \<Rightarrow> bool) \<Rightarrow> bool \<Rightarrow> Hosts \<Rightarrow> Hosts" where
  "engine_hosts system controllers hosts =
     Hosts_Filter system (Hosts_Filter (\<lambda>h. \<not> hm_EngineUploaded (h_Metadata h))
       (Hosts_Filter (\<lambda>h. \<not> hm_EngineUploaded (h_Metadata h) \<and> IsController h = controllers) hosts))"

subsection \<open>One upload places one file\<close>

text \<open>Checksums of a file system are those of its files, and no two contents share one.\<close>

definition checksums ::
  "('s \<Rightarrow> string \<Rightarrow> (string \<times> nat) option) \<Rightarrow> 's remote \<Rightarrow> (string \<Rightarrow> string) \<Rightarrow> bool"
where
  "checksums files R sha \<longleftrightarrow> inj sha \<and>
     (\<forall>s p d. r_sha256 R s p = Some d \<longrightarrow> (\<exists>c m. files s p = Some (c, m) \<and> d = sha c))"

context remote_fs
begin

lemma frame_upload_dirs [frames]:
  "q \<noteq> path_Dir (fl_Target f) \<Longrightarrow> q \<noteq> fl_Target f \<Longrightarrow> frame (\<lambda>s. files s q) (upload_dirs dry R f)"
  "frame (\<lambda>s. map_option fst (files s q)) (upload_dirs dry R f)"
  unfolding upload_dirs_def by (intro frames; assumption)+

lemma frame_transfer [frames]:
  "q \<noteq> upload_target f \<Longrightarrow> frame (\<lambda>s. files s q) (transfer sha L dry R f)"
  unfolding transfer_def
  by (cases "L (upload_source f)") (auto simp: case_prod_beta intro!: frames)

lemma touch_content:
  "r_touch R p s = (e, s') \<Longrightarrow> files s p \<noteq> None \<Longrightarrow> files s' q = files s q"
  by (cases "q = p") (auto simp: touch_other touch_same)

lemma applyFileMetadata_content:
  assumes "applyFileMetadata R p owner perm t s = (e, s')" "files s p \<noteq> None"
  shows "map_option fst (files s' q) = map_option fst (files s q)"
proof -
  let ?prep = "and_then (\<lambda>s. if owner \<noteq> [] then r_chown R p owner s else (None, s))
     (\<lambda>s. if perm \<noteq> [] then chmodWithString R p perm s else (None, s))"
  have prep: "frame (\<lambda>s. map_option fst (files s r)) ?prep" for r by (intro frames)
  have split: "applyFileMetadata R p owner perm t = and_then ?prep (\<lambda>s. if t then r_touch R p s else (None, s))"
    by (simp add: applyFileMetadata_def and_then_def fun_eq_iff split: prod.splits option.splits)
  obtain r s1 where s1: "?prep s = (r, s1)" by fastforce
  have "files s1 p \<noteq> None" using frame_D [OF prep s1, of p] assms(2) by auto
  then have "map_option fst (files s' q) = map_option fst (files s1 q)"
    using assms(1) s1 unfolding split by (auto simp: and_then_pair touch_content split: if_splits)
  with frame_D [OF prep s1] show ?thesis by simp
qed

lemma transfer_content:
  assumes "transfer sha L False R f s = (None, s')" "L (upload_source f) = Some (c, m)" "checksums files R sha"
  shows "map_option fst (files s' (upload_target f)) = Some c"
proof (cases "FileChanged sha L R s (upload_source f) (upload_target f)")
  case True
  with assms(1,2) obtain s1 where "r_upload R (upload_target f) c (upload_perm f m) s = (None, s1)"
      and touch: "r_touch R (upload_target f) s1 = (None, s')"
    by (auto simp: transfer_def Wet_def and_then_pair)
  then have "files s1 (upload_target f) = Some (c, perm_bits (upload_perm f m))" by (simp add: upload_ok)
  with touch_content [OF touch] show ?thesis by simp
next
  case False
  with assms(2) have "r_sha256 R s (upload_target f) = Some (sha c)"
    by (auto simp: FileChanged_def split: option.splits)
  with assms(3) obtain c' m' where "files s (upload_target f) = Some (c', m')" "sha c = sha c'" "inj sha"
    unfolding checksums_def by metis
  moreover have "s' = s" using False assms(1) by (simp add: transfer_def)
  ultimately show ?thesis by (simp add: inj_eq)
qed

end

lemma uploadFile_split:
  assumes "uploadFile sha L dry R f (us, s) = (None, us', s')"
  obtains s0 s1 s2 where "upload_dirs dry R f s = (None, s0)" "transfer sha L dry R f s0 = (None, s1)"
    "recordManifestEntry dry R (fl_Category f) (manifest_path f) (us, s1) = (us', s2)"
    "applyFileMetadata R (fl_Target f) (Owner f) (fl_LocalPerm f) True s2 = (None, s')"
  using assms by (auto simp: uploadFile_def and_then_def split: prod.splits option.splits)


definition sha_disk :: "string \<Rightarrow> string" where "sha_disk c = ''sha:'' @ c"

lemma checksums_disk: "checksums disk_files (disk_remote u w k l) sha_disk"
  by (auto simp: checksums_def sha_disk_def inj_def disk_simps)

definition sample_upload :: File where
  "sample_upload = zero_file\<lparr>fl_Target := ''/opt/x'', fl_Category := ''engine'', fl_LocalPath := ''/tmp/x''\<rparr>"

definition sample_local :: local_files where
  "sample_local = [''/tmp/x'' \<mapsto> (''new'', 493)]"


subsection \<open>What an upload that fails does\<close>

lemma uploadFile_failed:
  "fst (and_then (upload_dirs dry R f) (transfer sha L dry R f) s) = Some e \<Longrightarrow>
     uploadFile sha L dry R f (us, s) = (Some e, us, snd (and_then (upload_dirs dry R f) (transfer sha L dry R f) s))"
  by (cases "and_then (upload_dirs dry R f) (transfer sha L dry R f) s") (simp add: uploadFile_def)

lemma removeStale_gone:
  assumes "steady_fs R files" "manifestFile \<notin> me_Path ` set (diffManifest old current)"
    and "s' = removeStaleManifestEntries R old current s" "deletes_work R"
    and "q \<in> me_Path ` set (diffManifest old current)"
  shows "files s' q = None \<and> claims (readManifest R s') q = None"
  using steady_fs.stale_steady [OF assms(1-3)] assms(4,5) by (auto simp: claims_diffManifest)

text \<open>C16. An engine upload that fails is only logged, and the file it was meant to replace is then taken
  for one the new version dropped: on a host whose manifest names the target as an engine file the phase
  deletes the old copy, so the host is left with neither.\<close>

theorem failed_engine_upload_removes_old_engine:
  assumes "steady_fs R files" and "deletes_work R"
    and "engineFilesFor raw byArch h = Inr [f]"
    and "fst (and_then (upload_dirs dry R f) (transfer sha L dry R f) s) = Some err"
    and "\<lparr>me_Category = ''engine'', me_Path = fl_OriginalTarget f\<rparr> \<in> set (readManifest R s)"
    and "manifestFile \<notin> me_Path ` set (readManifest R s)"
    and "engine_phase_host sha L dry R raw byArch h False ([], s) = Inr (engine, us', s')"
  shows "engine \<and> us' = [] \<and> files s' (fl_OriginalTarget f) = None \<and>
         claims (readManifest R s') (fl_OriginalTarget f) = None"
proof -
  let ?old = "filterManifestByCategory ''engine'' (readManifest R s)"
  let ?s1 = "snd (and_then (upload_dirs dry R f) (transfer sha L dry R f) s)"
  let ?current = "current_uploads ''engine'' []"
  have none: "?current = []"
    by (simp add: current_uploads_def ParseManifest_def filterManifestByCategory_def)
  have result: "engine" "us' = []" "s' = removeStaleManifestEntries R ?old ?current ?s1"
    using assms(7) uploadFile_failed [OF assms(4), of "[]"]
    by (simp_all add: engine_phase_host_def assms(3) blockOtherInstallsIfUploaded_def uploadFiles_def
        engine_cleanStaleUploads_def Let_def)
  have diff: "diffManifest ?old ?current = ?old" by (simp add: none diffManifest_def)
  have "manifestFile \<notin> me_Path ` set (diffManifest ?old ?current)"
    unfolding diff using assms(6) by (auto simp: filterManifestByCategory_def)
  from removeStale_gone [OF assms(1) this result(3) assms(2), unfolded diff, of "fl_OriginalTarget f"] assms(5) result(1,2)
  show ?thesis by (force simp: filterManifestByCategory_def)
qed

lemma engine_phase_host_total:
  "engineFilesFor raw byArch h = Inr fs \<Longrightarrow>
     \<exists>en us' s'. engine_phase_host sha L dry R raw byArch h engine us = Inr (en, us', s')"
  by (cases "uploadFiles sha L dry R fs us") (simp add: engine_phase_host_def Let_def)

definition running_engine :: disk where
  "running_engine = [manifestFile \<mapsto> (encodeManifest [\<lparr>me_Category = ''engine'', me_Path = ''/bin/k3s''\<rparr>], 420),
     ''/bin/k3s'' \<mapsto> (''old'', 493)]"

definition engine_upload :: File where
  "engine_upload = engine_file ''/tmp'' ''7'' ''binary'' 0 (zero_file\<lparr>fl_Target := ''/bin/k3s'', fl_Executable := True\<rparr>)"

text \<open>The local copy is missing, so nothing can be sent.\<close>

lemma failed_engine_upload_removes_old_engine_witness:
  "(case engine_phase_host sha_disk (\<lambda>_. None) False calm_disk (\<lambda>_. Inr ''amd64'') [(''amd64'', [engine_upload])]
          (sample_host ''a'' RoleController []) False ([], running_engine) of
      Inl _ \<Rightarrow> False | Inr (_, _, s') \<Rightarrow> disk_files s' ''/bin/k3s'' = None)"
proof -
  have work: "deletes_work calm_disk"
    by (auto simp: deletes_work_def deleteRecordedUpload_def disk_remote_def)
  have one: "engineFilesFor (\<lambda>_. Inr ''amd64'') [(''amd64'', [engine_upload])] (sample_host ''a'' RoleController []) = Inr [engine_upload]"
    by (simp add: engineFilesFor_def hostArch_def ParseArch_def arches_def)
  have manifest: "readManifest calm_disk running_engine = [\<lparr>me_Category = ''engine'', me_Path = ''/bin/k3s''\<rparr>]"
    "fl_OriginalTarget engine_upload = ''/bin/k3s''" "''/bin/k3s'' \<noteq> manifestFile"
    by code_simp+
  have failed: "fst (and_then (upload_dirs False calm_disk engine_upload)
      (transfer sha_disk (\<lambda>_. None) False calm_disk engine_upload) running_engine) = Some (ErrFS (upload_source engine_upload))"
    by code_simp
  obtain en us' s' where X: "engine_phase_host sha_disk (\<lambda>_. None) False calm_disk (\<lambda>_. Inr ''amd64'')
      [(''amd64'', [engine_upload])] (sample_host ''a'' RoleController []) False ([], running_engine) = Inr (en, us', s')"
    using engine_phase_host_total [OF one, where R = calm_disk and us = "([], running_engine)"] by blast
  from failed_engine_upload_removes_old_engine [OF calm.steady_fs_axioms work one failed _ _ X]
  show ?thesis using manifest(3) by (auto simp: X manifest)
qed

subsection \<open>Inline files\<close>

lemma record_elsewhere:
  assumes "remote_fs R files" "q \<noteq> manifestFile" "q \<noteq> manifestDir"
  shows "files (snd (recordManifestEntry dry R c p us)) q = files (snd us) q"
  using frame_eq [OF frame_and_then [OF remote_fs.frame_ensureDir(1) [OF assms(1,3)]
      remote_fs.frame_WriteFile [OF assms(1,2)]], of _ _ _ _ _ "snd us"]
  by (simp add: recordManifestEntry_def Let_def case_prod_beta)

text \<open>An inline file of the cluster configuration is created with no permission at all: its mode,
  owner and group never reach the upload.\<close>

theorem inline_files_get_no_mode:
  assumes "remote_fs R files" and "files s (hf_Destination f) = None"
    and "ensureDir False R (path_Dir (hf_Destination f)) [] [] s = (None, s0)"
    and "r_create R (hf_Destination f) (hf_Data f) 0 s0 = (None, s1)"
    and "hf_Destination f \<notin> {manifestFile, manifestDir}"
    and "uploadData False R (inline_file f) (us, s) = (e, us', s')"
  shows "files s' (hf_Destination f) = Some (hf_Data f, 0) \<and> e = None"
proof -
  have owner: "Owner (inline_file f) = []"
    by (simp add: Owner_def inline_file_def zero_file_def trim_suffix_def)
  have fields: "fl_Target (inline_file f) = hf_Destination f" "fl_Data (inline_file f) = hf_Data f"
    "data_mode (inline_file f) = 0" "fl_DirPermString (inline_file f) = []" "fl_Category (inline_file f) = []"
    by (simp_all add: inline_file_def zero_file_def data_mode_def)
  have s0: "files s0 (hf_Destination f) = None"
    using remote_fs.ensureDir_exists [OF assms(1), of False "path_Dir (hf_Destination f)" "[]" "[]" s "hf_Destination f"] assms(2,3)
    by simp
  have "perm_bits 0 = 0" by (simp add: perm_bits_def)
  then have s1: "files s1 (hf_Destination f) = Some (hf_Data f, 0)"
    using remote_fs.create_ok [OF assms(1,4)] s0 by simp
  have rec: "files (snd (recordManifestEntry False R c p (us, s1))) (hf_Destination f) = files s1 (hf_Destination f)" for c p
    using assms(5) record_elsewhere [OF assms(1)] by simp
  show ?thesis
    using assms(6) s1 rec [of "''data''" "hf_Destination f"]
    by (simp add: uploadData_def and_then_def owner fields assms(3,4) Wet_def applyFileMetadata_def split: prod.splits)
qed

definition motd :: HostFile where
  "motd = \<lparr>hf_Destination = ''/etc/motd'', hf_Data = ''hi''\<rparr>"

lemma inline_files_get_no_mode_witness:
  "disk_files (snd (snd (uploadData False calm_disk (inline_file motd) ([], two_uploads)))) ''/etc/motd'' = Some (''hi'', 0)"
proof -
  have dest: "hf_Destination motd = ''/etc/motd''" "hf_Data motd = ''hi''"
    "hf_Destination motd \<notin> {manifestFile, manifestDir}" "disk_files two_uploads (hf_Destination motd) = None"
    by code_simp+
  obtain r s0 where S0: "ensureDir False calm_disk (path_Dir (hf_Destination motd)) [] [] two_uploads = (r, s0)"
    by fastforce
  obtain r1 s1 where S1: "r_create calm_disk (hf_Destination motd) (hf_Data motd) 0 s0 = (r1, s1)"
    by fastforce
  obtain e us' s' where X: "uploadData False calm_disk (inline_file motd) ([], two_uploads) = (e, us', s')"
    using prod_cases3 by blast
  have "fst (ensureDir False calm_disk (path_Dir (hf_Destination motd)) [] [] two_uploads) = None" by code_simp
  with S0 have "r = None" by simp
  moreover have "r1 = None" using S1 by (simp add: disk_remote_def)
  ultimately show ?thesis
    using inline_files_get_no_mode [where f = motd and us = "[]", OF disk.remote_fs_axioms dest(4) _ _ dest(3) X] S0 S1 X dest(1,2)
    by simp
qed

subsection \<open>The sweep of the image directory\<close>

definition unmanaged :: "string \<Rightarrow> string set \<Rightarrow> (string \<times> bool) list \<Rightarrow> string list" where
  "unmanaged dir managed es =
     filter (\<lambda>p. p \<notin> managed) (map (\<lambda>(name, _). path_Join dir name)
       (filter (\<lambda>(name, isDir). \<not> isDir \<and> isImageTarBall name) es))"

lemma unmanaged_Nil [simp]: "unmanaged dir managed [] = []"
  by (simp add: unmanaged_def)

lemma unmanaged_Cons:
  "unmanaged dir managed ((name, isDir) # es) =
     (if isDir \<or> \<not> isImageTarBall name \<or> path_Join dir name \<in> managed then unmanaged dir managed es
      else path_Join dir name # unmanaged dir managed es)"
  by (simp add: unmanaged_def)

lemma sweep_keeps:
  "sweep_entries R a dir managed True es (kept, s) =
     (kept @ map (\<lambda>p. \<lparr>w_phase = [], w_host = a, w_path = p, w_reason = ''kept, unmanaged''\<rparr>) (unmanaged dir managed es), s)"
proof (induction es arbitrary: kept)
  case (Cons e es)
  then show ?case by (cases e) (simp add: unmanaged_Cons Let_def)
qed simp

lemma snd_delete_all:
  "snd (delete_all R (e # es) s) = snd (delete_all R es (snd (r_remove R (me_Path e) s)))"
  using snd_deleteRecordedUpload [of R "me_Path e" s]
  by (auto split: prod.splits option.splits simp del: snd_deleteRecordedUpload)

lemma sweep_deletes:
  "sweep_entries R a dir managed False es (kept, s) =
     (kept, snd (delete_all R (map (ManifestEntry.make ''image'') (unmanaged dir managed es)) s))"
proof (induction es arbitrary: s)
  case (Cons e es)
  then show ?case
    by (cases e) (simp add: unmanaged_Cons Let_def snd_delete_all ManifestEntry.defs del: delete_all.simps(2))
qed simp

lemma delete_all_absent:
  assumes "remote_fs R files" "deletes_work R" "q \<in> me_Path ` set es"
  shows "files (snd (delete_all R es s)) q = None"
  using remote_fs.delete_all_gone [OF assms(1), of es s "fst (delete_all R es s)"]
    delete_all_total [OF assms(2), of es s] assms(3)
  by (metis imageE prod.collapse)

lemma delete_all_elsewhere:
  assumes "remote_fs R files" "q \<notin> me_Path ` set es"
  shows "files (snd (delete_all R es s)) q = files s q"
  using remote_fs.delete_all_files [OF assms(1), of es s "fst (delete_all R es s)"] assms(2)
  by (metis prod.collapse)

text \<open>The sweep of the image directory touches nothing but image tarballs of that directory which this
  run does not claim. On a host that carries the marker it deletes none and warns of each, in order;
  on any other it deletes them all and warns of none.\<close>

theorem sweepUnmanagedImages_spec:
  assumes "remote_fs R files" and "dir \<noteq> []" and "r_readdir R s dir = Some entries"
    and "sweepUnmanagedImages R address dir current (kept, s) = (kept', s')"
  shows "(q \<notin> set (unmanaged dir (me_Path ` set current) entries) \<longrightarrow> files s' q = files s q) \<and>
         (if files s (path_Join dir KeepImagesMarker) \<noteq> None
          then map w_path kept' = map w_path kept @ unmanaged dir (me_Path ` set current) entries \<and> s' = s
          else kept' = kept \<and>
               (deletes_work R \<and> q \<in> set (unmanaged dir (me_Path ` set current) entries) \<longrightarrow> files s' q = None))"
proof (cases "files s (path_Join dir KeepImagesMarker)")
  case None
  let ?gone = "map (ManifestEntry.make ''image'') (unmanaged dir (me_Path ` set current) entries)"
  have paths: "me_Path ` set ?gone = set (unmanaged dir (me_Path ` set current) entries)"
    by (auto simp: ManifestEntry.defs image_image)
  have "kept' = kept" "s' = snd (delete_all R ?gone s)"
    using assms(2-4) None
    by (simp_all add: sweepUnmanagedImages_def remote_fs.exists_files [OF assms(1)] sweep_deletes)
  with None delete_all_absent [OF assms(1), of q ?gone s] delete_all_elsewhere [OF assms(1), of q ?gone s]
  show ?thesis by (simp only: paths) simp
next
  case (Some m)
  with assms(2-4) show ?thesis
    by (auto simp: sweepUnmanagedImages_def remote_fs.exists_files [OF assms(1)] sweep_keeps comp_def)
qed

definition image_dir :: "string \<Rightarrow> (string \<times> bool) list" where
  "image_dir d = [(''old.tar'', False), (''notes.txt'', False), (''now.tar.zst'', False), (''x.tar'', True)]"

definition image_disk :: disk where
  "image_disk = [''/img/old.tar'' \<mapsto> ([], 420), ''/img/now.tar.zst'' \<mapsto> ([], 420)]"

lemma sweepUnmanagedImages_spec_witness:
  "disk_files (snd (sweepUnmanagedImages (disk_remote (\<lambda>_. False) (\<lambda>_. False) (\<lambda>_. False) image_dir) ''a'' ''/img''
     [\<lparr>me_Category = ''image'', me_Path = ''/img/now.tar.zst''\<rparr>] ([], image_disk))) ''/img/old.tar'' = None"
proof -
  let ?R = "disk_remote (\<lambda>_. False) (\<lambda>_. False) (\<lambda>_. False) image_dir"
  let ?current = "[\<lparr>me_Category = ''image'', me_Path = ''/img/now.tar.zst''\<rparr>]"
  have listing: "r_readdir ?R image_disk ''/img'' = Some (image_dir ''/img'')" by (simp add: disk_remote_def)
  have stale: "unmanaged ''/img'' (me_Path ` set ?current) (image_dir ''/img'') = [''/img/old.tar'']"
    "disk_files image_disk (path_Join ''/img'' KeepImagesMarker) = None" by code_simp+
  have works: "deletes_work ?R" by (auto simp: deletes_work_def deleteRecordedUpload_def disk_remote_def)
  obtain kept' s' where X: "sweepUnmanagedImages ?R ''a'' ''/img'' ?current ([], image_disk) = (kept', s')" by fastforce
  have "''/img'' \<noteq> ([] :: string)" by simp
  from sweepUnmanagedImages_spec [OF disk.remote_fs_axioms this listing X, of "''/img/old.tar''", unfolded stale]
  show ?thesis using works by (simp add: X)
qed

subsection \<open>Left-over staged files\<close>

context remote_fs
begin

lemma clean_walk_files:
  "files (clean_walk R base ps s) q = files s q \<or>
     files (clean_walk R base ps s) q = None \<and> q \<in> set ps \<and> tmp_match base (path_Base q)"
proof (induction ps arbitrary: s)
  case (Cons p ps)
  show ?case
    using Cons.IH [of "if tmp_match base (path_Base p) then snd (r_remove R p s) else s"]
      remove_cases [of p s "fst (r_remove R p s)" "snd (r_remove R p s)"]
    by (auto split: if_splits)
qed simp

lemma clean_walk_gone:
  assumes "deletes_work R" "q \<in> set ps" "tmp_match base (path_Base q)"
  shows "files (clean_walk R base ps s) q = None"
  using assms(2)
proof (induction ps arbitrary: s)
  case (Cons p ps)
  let ?s = "if tmp_match base (path_Base p) then snd (r_remove R p s) else s"
  show ?case
  proof (cases "q \<in> set ps")
    case False
    with Cons.prems have "q = p" by simp
    moreover have "fst (deleteRecordedUpload R p s) = None" using assms(1) by (simp add: deletes_work_def)
    ultimately have "files ?s q = None"
      using assms(3) deleted_gone [of p s "snd (r_remove R p s)"] snd_deleteRecordedUpload [of R p s]
      by (metis fun_upd_same prod.collapse)
    with clean_walk_files [of base ps ?s q] show ?thesis by auto
  qed (simp add: Cons.IH)
qed simp

end

lemma matches_here_self: "newline \<notin> set ps \<Longrightarrow> matches_here ps (ps @ v)"
  by (induction ps) (auto simp: pattern_char_def)

lemma tmp_match_name:
  "name = u @ base @ ''.tmp'' @ v \<Longrightarrow> newline \<notin> set name \<Longrightarrow> tmp_match base name"
  using matches_here_self [of "base @ ''.tmp''" v]
  by (fastforce simp: tmp_match_def list_ex_iff suffix_def)

abbreviation clean_step :: "'s remote \<Rightarrow> ('s \<Rightarrow> string \<Rightarrow> string list) \<Rightarrow> 's \<Rightarrow> File \<Rightarrow> 's" where
  "clean_step R walk s f \<equiv> clean_walk R (path_Base (fl_Target f)) (walk s (clean_folder f)) s"

lemma clean_fold_files:
  assumes "remote_fs R files"
  shows "files (foldl (clean_step R walk) s fs) q = files s q \<or>
     files (foldl (clean_step R walk) s fs) q = None \<and>
     (\<exists>g \<in> set fs. tmp_match (path_Base (fl_Target g)) (path_Base q))"
proof (induction fs arbitrary: s)
  case (Cons g fs)
  from remote_fs.clean_walk_files [OF assms, of "path_Base (fl_Target g)" "walk s (clean_folder g)" s q]
    Cons.IH [of "clean_step R walk s g"]
  show ?case by auto
qed simp

lemma clean_fold_gone:
  assumes "remote_fs R files" "deletes_work R" "f \<in> set fs"
    and "\<And>s. files s q \<noteq> None \<Longrightarrow> q \<in> set (walk s (clean_folder f))"
    and "tmp_match (path_Base (fl_Target f)) (path_Base q)"
  shows "files (foldl (clean_step R walk) s fs) q = None"
  using assms(3)
proof (induction fs arbitrary: s)
  case (Cons g fs)
  show ?case
  proof (cases "f \<in> set fs")
    case False
    with Cons.prems have "g = f" by simp
    then have "files (clean_step R walk s g) q = None"
      using remote_fs.clean_walk_gone [OF assms(1,2) _ assms(5), of "walk s (clean_folder f)" s] assms(4) [of s]
        remote_fs.clean_walk_files [OF assms(1), of "path_Base (fl_Target f)" "walk s (clean_folder f)" s q]
      by (cases "files s q = None") auto
    with clean_fold_files [OF assms(1), of walk "clean_step R walk s g" fs q] show ?thesis by auto
  qed (simp add: Cons.IH)
qed simp

text \<open>Before an upload every file below a target's folder whose name holds the target's name, any
  character and \<open>tmp\<close> is deleted, and no other file: a staged copy an earlier run left behind is, but
  so is a template \<open>name.tmpl\<close> that somebody else keeps beside the file.\<close>

theorem cleanUpOldTmpFiles_deletes:
  assumes "remote_fs R files"
    and "\<forall>s p. files s p \<noteq> None \<and> p \<in> below \<longrightarrow> p \<in> set (walk s (clean_folder f))"
    and "f \<in> set (disFiles @ osFiles)" and "deletes_work R"
  shows "(\<forall>p u v. p \<in> below \<and> path_Base p = u @ path_Base (fl_Target f) @ ''.tmp'' @ v \<and> newline \<notin> set (path_Base p) \<longrightarrow>
             files (cleanUpOldTmpFiles R walk disFiles osFiles s) p = None) \<and>
         (\<forall>p. files (cleanUpOldTmpFiles R walk disFiles osFiles s) p = files s p \<or>
              (\<exists>g \<in> set (disFiles @ osFiles). tmp_match (path_Base (fl_Target g)) (path_Base p)))"
proof (intro conjI allI impI)
  fix p u v
  assume p: "p \<in> below \<and> path_Base p = u @ path_Base (fl_Target f) @ ''.tmp'' @ v \<and> newline \<notin> set (path_Base p)"
  then have "tmp_match (path_Base (fl_Target f)) (path_Base p)" by (blast intro: tmp_match_name)
  with clean_fold_gone [OF assms(1,4,3), of p walk s] p assms(2)
  show "files (cleanUpOldTmpFiles R walk disFiles osFiles s) p = None"
    unfolding cleanUpOldTmpFiles_def by blast
next
  fix p
  show "files (cleanUpOldTmpFiles R walk disFiles osFiles s) p = files s p \<or>
      (\<exists>g \<in> set (disFiles @ osFiles). tmp_match (path_Base (fl_Target g)) (path_Base p))"
    using clean_fold_files [OF assms(1), of walk s "disFiles @ osFiles" p]
    unfolding cleanUpOldTmpFiles_def by blast
qed

definition containerd_disk :: disk where
  "containerd_disk = [''/etc/k3s/config.toml.tmpl'' \<mapsto> (''mine'', 420)]"

lemma cleanUpOldTmpFiles_deletes_witness:
  "disk_files (cleanUpOldTmpFiles calm_disk (\<lambda>_ _. [''/etc/k3s/config.toml.tmpl''])
     [zero_file\<lparr>fl_Target := ''/etc/k3s/config.toml''\<rparr>] [] containerd_disk) ''/etc/k3s/config.toml.tmpl'' = None"
proof -
  let ?f = "zero_file\<lparr>fl_Target := ''/etc/k3s/config.toml''\<rparr>"
  have works: "deletes_work calm_disk"
    by (auto simp: deletes_work_def deleteRecordedUpload_def disk_remote_def)
  have name: "path_Base ''/etc/k3s/config.toml.tmpl'' = [] @ path_Base (fl_Target ?f) @ ''.tmp'' @ ''l''"
    "newline \<notin> set (path_Base ''/etc/k3s/config.toml.tmpl'')" by code_simp+
  have listed: "\<forall>s p. disk_files s p \<noteq> None \<and> p \<in> {''/etc/k3s/config.toml.tmpl''} \<longrightarrow> p \<in> set [''/etc/k3s/config.toml.tmpl'']"
    by simp
  from cleanUpOldTmpFiles_deletes [where walk = "\<lambda>_ _. [''/etc/k3s/config.toml.tmpl'']" and f = ?f and disFiles = "[?f]"
      and osFiles = "[]" and s = containerd_disk, OF disk.remote_fs_axioms listed _ works, THEN conjunct1] name
  show ?thesis by auto
qed

end
