(* ===== verification/Config_Sync.thy ===== *)
theory Config_Sync
  imports Remote_Files Go_Path "HOL-Library.Multiset"
begin

section \<open>Keeping engine configuration in sync\<close>

text \<open>
  \<open>pkg/phase/70_engine_config_sync_common.go\<close> with its two phases (\<open>71\<close>, \<open>72\<close>), the diffs of
  \<open>70_engine_config_diff.go\<close> and the managed directories of \<open>types/distrocfg/managed_files.go\<close>:
  which files of a host differ from the desired ones, whether the difference needs a restart, the
  writes made while preparing, the full rewrite, and what the phase reports. The desired files are
  an association list: a Go map visits its keys in any order, and the theorems hold for every list.
\<close>

subsection \<open>Desired files and managed directories\<close>

record DesiredFile =
  df_Content :: string
  df_Mode :: string
  df_NoRestart :: bool

type_synonym desired = "(string \<times> DesiredFile) list"

record ManagedDir =
  md_Path :: string
  md_Glob :: string

definition prunes :: "ManagedDir \<Rightarrow> string \<Rightarrow> bool" where
  "prunes d path =
     (if md_Glob d = [] then True
      else (case path_Match (md_Glob d) (path_Base path) of None \<Rightarrow> False | Some ok \<Rightarrow> ok))"

text \<open>\<open>listFiles\<close> is a variable in the code, \<open>listManagedFiles\<close> its value outside tests.\<close>

type_synonym 's listing = "'s \<Rightarrow> string \<Rightarrow> string list"

definition StaleFiles :: "'s listing \<Rightarrow> 's \<Rightarrow> ManagedDir list \<Rightarrow> desired \<Rightarrow> string list" where
  "StaleFiles listFiles s dirs desired =
     sort_strings
       (concat (map (\<lambda>dir. filter (\<lambda>path. map_of desired path = None \<and> prunes dir path)
                             (listFiles s (md_Path dir))) dirs))"

text \<open>The deletions, up to the first that fails.\<close>

fun remove_each :: "'s remote \<Rightarrow> string list \<Rightarrow> 's \<Rightarrow> fs_error option \<times> 's" where
  "remove_each R [] s = (None, s)"
| "remove_each R (path # paths) s =
     (case r_remove R path s of
        (Some e, s1) \<Rightarrow> (Some e, s1)
      | (None, s1) \<Rightarrow> remove_each R paths s1)"

definition RemoveStaleFiles ::
  "'s listing \<Rightarrow> 's remote \<Rightarrow> ManagedDir list \<Rightarrow> desired \<Rightarrow> 's \<Rightarrow> fs_error option \<times> 's"
where
  "RemoveStaleFiles listFiles R dirs desired s = remove_each R (StaleFiles listFiles s dirs desired) s"

definition listManagedFiles :: "'s remote \<Rightarrow> 's listing" where
  "listManagedFiles R s dir =
     (if dir = [] \<or> \<not> r_exists R s dir then []
      else (case r_find R s dir of
              None \<Rightarrow> []
            | Some out \<Rightarrow> filter (\<lambda>path. path \<noteq> []) (map trim_space (split_on (CHR 0x0A) out))))"

subsection \<open>Diffs\<close>

text \<open>\<open>utf8.ValidString\<close>, and the diff of the difflib package as a parameter.\<close>

definition cont_byte :: "char \<Rightarrow> bool" where
  "cont_byte c \<longleftrightarrow> 128 \<le> byte c \<and> byte c \<le> 191"

fun valid_utf8 :: "string \<Rightarrow> bool" where
  "valid_utf8 [] \<longleftrightarrow> True"
| "valid_utf8 (a # s) \<longleftrightarrow>
     (if byte a < 128 then valid_utf8 s
      else (case s of
        [] \<Rightarrow> False
      | b # s1 \<Rightarrow>
          if 194 \<le> byte a \<and> byte a \<le> 223 then cont_byte b \<and> valid_utf8 s1
          else (case s1 of
            [] \<Rightarrow> False
          | c # s2 \<Rightarrow>
              if 224 \<le> byte a \<and> byte a \<le> 239 then
                cont_byte b \<and> cont_byte c \<and> (byte a = 224 \<longrightarrow> 160 \<le> byte b) \<and>
                (byte a = 237 \<longrightarrow> byte b \<le> 159) \<and> valid_utf8 s2
              else (case s2 of
                [] \<Rightarrow> False
              | d # s3 \<Rightarrow>
                  240 \<le> byte a \<and> byte a \<le> 244 \<and> cont_byte b \<and> cont_byte c \<and> cont_byte d \<and>
                  (byte a = 240 \<longrightarrow> 144 \<le> byte b) \<and> (byte a = 244 \<longrightarrow> byte b \<le> 143) \<and>
                  valid_utf8 s3))))"

definition maxDiffInput :: nat where "maxDiffInput = 65536"

definition unifiedDiff ::
  "(string \<Rightarrow> string \<Rightarrow> string \<Rightarrow> string option) \<Rightarrow> string \<Rightarrow> string \<Rightarrow> string \<Rightarrow> string"
where
  "unifiedDiff difflib path current desired =
     (if length current > maxDiffInput \<or> length desired > maxDiffInput then []
      else if \<not> valid_utf8 current \<or> \<not> valid_utf8 desired then []
      else (case difflib path current desired of None \<Rightarrow> [] | Some out \<Rightarrow> out))"

subsection \<open>Drift\<close>

record driftDetail =
  dd_path :: string
  dd_reason :: string
  dd_diff :: string

definition reasonMissing :: string where "reasonMissing = ''missing''"
definition reasonUnreadable :: string where "reasonUnreadable = ''unreadable''"
definition reasonOutOfSync :: string where "reasonOutOfSync = ''out of sync''"
definition reasonWrongMode :: string where "reasonWrongMode = ''wrong mode''"
definition reasonStale :: string where "reasonStale = ''stale''"

lemmas reasons = reasonMissing_def reasonUnreadable_def reasonOutOfSync_def reasonWrongMode_def reasonStale_def

definition driftDetail_String :: "driftDetail \<Rightarrow> string" where
  "driftDetail_String d = path_Base (dd_path d) @ '' ('' @ dd_reason d @ '')''"

definition driftLabels :: "driftDetail list \<Rightarrow> string list" where
  "driftLabels drifted = map driftDetail_String drifted"

definition defaultFileMode :: string where "defaultFileMode = ''0600''"

definition file_mode :: "DesiredFile \<Rightarrow> string" where
  "file_mode f = (if df_Mode f = [] then defaultFileMode else df_Mode f)"

definition fileModeMatches :: "'s remote \<Rightarrow> 's \<Rightarrow> string \<Rightarrow> string \<Rightarrow> bool" where
  "fileModeMatches R s path want0 =
     (let want = (if want0 = [] then defaultFileMode else want0) in
      (case parse_uint 8 32 want of
         None \<Rightarrow> True
       | Some parsed \<Rightarrow>
           (case r_stat R s path of
              None \<Rightarrow> True
            | Some mode \<Rightarrow> perm_bits mode = perm_bits parsed)))"

type_synonym differ = "string \<Rightarrow> string \<Rightarrow> string \<Rightarrow> string option"

definition file_drift ::
  "differ \<Rightarrow> 's remote \<Rightarrow> 's \<Rightarrow> string \<times> DesiredFile \<Rightarrow> driftDetail option"
where
  "file_drift difflib R s pw =
     (case pw of (path, want) \<Rightarrow>
        (if \<not> r_exists R s path then Some \<lparr>dd_path = path, dd_reason = reasonMissing, dd_diff = []\<rparr>
         else (case r_read R s path of
                 None \<Rightarrow> Some \<lparr>dd_path = path, dd_reason = reasonUnreadable, dd_diff = []\<rparr>
               | Some current \<Rightarrow>
                   if current \<noteq> df_Content want then
                     Some \<lparr>dd_path = path, dd_reason = reasonOutOfSync,
                           dd_diff = unifiedDiff difflib path current (df_Content want)\<rparr>
                   else if \<not> fileModeMatches R s path (df_Mode want) then
                     Some \<lparr>dd_path = path, dd_reason = reasonWrongMode, dd_diff = []\<rparr>
                   else None)))"

definition driftedFiles ::
  "differ \<Rightarrow> 's listing \<Rightarrow> 's remote \<Rightarrow> ManagedDir list \<Rightarrow> desired \<Rightarrow> 's \<Rightarrow> driftDetail list"
where
  "driftedFiles difflib listFiles R dirs files s =
     sort_key dd_path (List.map_filter (file_drift difflib R s) files) @
     map (\<lambda>path. \<lparr>dd_path = path, dd_reason = reasonStale, dd_diff = []\<rparr>) (StaleFiles listFiles s dirs files)"

subsection \<open>The phase\<close>

text \<open>What both phases carry from \<open>Prepare\<close> to \<open>Run\<close>, hosts being pointers \<open>'h\<close>. The desired
  files of controllers are absent until the configuration is loaded.\<close>

record 'h sync_phase =
  sp_desired :: desired
  sp_controllerDesired :: "desired option"
  sp_drift :: "('h \<times> driftDetail list) list"
  sp_changed :: bool
  sp_changedHosts :: "'h list"

definition markChanged :: "'h list \<Rightarrow> 'h sync_phase \<Rightarrow> 'h sync_phase" where
  "markChanged hosts p = p\<lparr>sp_changed := True, sp_changedHosts := sp_changedHosts p @ hosts\<rparr>"

definition sync_HostsChanged :: "('h \<Rightarrow> string) \<Rightarrow> 'h sync_phase \<Rightarrow> HostChange list" where
  "sync_HostsChanged address p =
     sort_key hc_host
       (map (\<lambda>(h, drifted).
           \<lparr>hc_host = address h, hc_changed = h \<in> set (sp_changedHosts p),
            hc_details = map (\<lambda>d. \<lparr>hd_path = dd_path d, hd_reason = dd_reason d, hd_diff = dd_diff d\<rparr>) drifted\<rparr>)
         (sp_drift p))"

definition sync_Changed :: "'h sync_phase \<Rightarrow> bool" where
  "sync_Changed p = sp_changed p"

definition filesFor :: "bool \<Rightarrow> 'h sync_phase \<Rightarrow> desired" where
  "filesFor controller p =
     (if controller then (case sp_controllerDesired p of Some d \<Rightarrow> d | None \<Rightarrow> sp_desired p)
      else sp_desired p)"

text \<open>Whether some drift calls for a restart: the loop over the drifted files.\<close>

definition restart_required :: "desired \<Rightarrow> driftDetail list \<Rightarrow> bool" where
  "restart_required desired drifted =
     list_ex (\<lambda>d. dd_reason d = reasonStale \<or>
                   (case map_of desired (dd_path d) of Some want \<Rightarrow> \<not> df_NoRestart want | None \<Rightarrow> False))
       drifted"

text \<open>Writing files up to the first failure, and the two callers: the files the engine picks up by
  itself, and all of them.\<close>

fun write_each :: "'s remote \<Rightarrow> desired \<Rightarrow> 's \<Rightarrow> fs_error option \<times> 's" where
  "write_each R [] s = (None, s)"
| "write_each R ((path, file) # rest) s =
     (case Host_WriteFile R path (df_Content file) (file_mode file) s of
        (Some e, s1) \<Rightarrow> (Some e, s1)
      | (None, s1) \<Rightarrow> write_each R rest s1)"

definition no_restart_files :: "desired \<Rightarrow> desired" where
  "no_restart_files files = filter (\<lambda>(path, file). df_NoRestart file) files"

definition record_drift :: "'h \<Rightarrow> driftDetail list \<Rightarrow> 'h sync_phase \<Rightarrow> 'h sync_phase" where
  "record_drift h drifted p =
     p\<lparr>sp_drift := (if h \<in> fst ` set (sp_drift p)
          then map (\<lambda>(k, d). if k = h then (k, drifted) else (k, d)) (sp_drift p)
          else sp_drift p @ [(h, drifted)])\<rparr>"

definition needsUpdate ::
  "bool \<Rightarrow> differ \<Rightarrow> 's listing \<Rightarrow> 's remote \<Rightarrow> ManagedDir list \<Rightarrow> bool \<Rightarrow> 'h \<Rightarrow>
   'h sync_phase \<times> 's \<Rightarrow> bool \<times> 'h sync_phase \<times> 's"
where
  "needsUpdate dry difflib listFiles R dirs controller h ps =
     (case ps of (p0, s) \<Rightarrow>
        (let files = filesFor controller p0;
             drifted = driftedFiles difflib listFiles R dirs files s;
             p = record_drift h drifted p0
         in if drifted = [] then (False, p, s)
            else if restart_required files drifted then (True, p, s)
            else if dry then (False, p, s)
            else (case write_each R (no_restart_files files) s of
                    (Some e, s1) \<Rightarrow> (True, p, s1)
                  | (None, s1) \<Rightarrow> (False, markChanged [h] p, s1))))"

definition driftReason :: "'h sync_phase \<Rightarrow> 'h \<Rightarrow> string" where
  "driftReason p h =
     join '', '' (driftLabels (case map_of (sp_drift p) h of None \<Rightarrow> [] | Some d \<Rightarrow> d))"

definition writeFiles ::
  "'s listing \<Rightarrow> 's remote \<Rightarrow> ManagedDir list \<Rightarrow> desired \<Rightarrow> 's \<Rightarrow> fs_error option \<times> 's"
where
  "writeFiles listFiles R dirs files =
     and_then (write_each R files) (RemoveStaleFiles listFiles R dirs files)"

text \<open>\<open>prepareLeader\<close> and the candidates of the two phases: the hosts for which \<open>needsUpdate\<close> holds,
  in the order the parallel sweep reaches them.\<close>

definition prepareLeader :: "(Host \<Rightarrow> bool) \<Rightarrow> Hosts \<Rightarrow> Host option" where
  "prepareLeader running hosts =
     (case Hosts_Filter (\<lambda>h. running h \<and> IsController h) hosts of [] \<Rightarrow> None | h # _ \<Rightarrow> Some h)"

fun sync_sweep :: "('h \<Rightarrow> 'c \<Rightarrow> bool \<times> 'c) \<Rightarrow> 'h list \<Rightarrow> 'c \<Rightarrow> 'h list \<times> 'c" where
  "sync_sweep needs [] c = ([], c)"
| "sync_sweep needs (h # hs) c =
     (case needs h c of (need, c1) \<Rightarrow>
        (case sync_sweep needs hs c1 of (matched, c2) \<Rightarrow> (if need then h # matched else matched, c2)))"

definition EngineConfigSync_Prepare ::
  "('h sync_phase \<Rightarrow> 'e + 'h sync_phase) \<Rightarrow> 'e \<Rightarrow> (Host \<Rightarrow> bool) \<Rightarrow> (Hosts \<Rightarrow> Hosts) \<Rightarrow>
   (Host \<Rightarrow> 'h sync_phase \<times> 's \<Rightarrow> bool \<times> 'h sync_phase \<times> 's) \<Rightarrow> Hosts \<Rightarrow> 'h sync_phase \<times> 's \<Rightarrow>
   'e + (Host \<times> Hosts \<times> 'h sync_phase \<times> 's)"
where
  "EngineConfigSync_Prepare load noControllers running candidates needs hosts ps =
     (case load (fst ps) of
        Inl e \<Rightarrow> Inl e
      | Inr p \<Rightarrow>
          (case prepareLeader running hosts of
             None \<Rightarrow> Inl noControllers
           | Some leader \<Rightarrow> Inr (leader, sync_sweep needs (candidates hosts) (p, snd ps))))"

text \<open>\<open>Run\<close>: the hosts are marked first, then taken one controller at a time, or in the batches of
  their profile for workers. \<open>steps\<close> drain, stop, write, start, wait and uncordon.\<close>

definition EngineConfigSyncController_Run ::
  "('s \<Rightarrow> string option) \<Rightarrow> (Hosts \<Rightarrow> Hosts) \<Rightarrow> 's host_fun list \<Rightarrow> Hosts \<Rightarrow> Host sync_phase \<Rightarrow> 's \<Rightarrow>
   ((each_error option \<times> 's) option) \<times> Host sync_phase"
where
  "EngineConfigSyncController_Run ctx_err sched steps hosts p s =
     (batchedParallel ctx_err sched 1 steps hosts s, markChanged hosts p)"

definition EngineConfigSyncWorker_Run ::
  "('s \<Rightarrow> string option) \<Rightarrow> (Hosts \<Rightarrow> Hosts) \<Rightarrow> ((HostGroup \<times> int) list \<Rightarrow> (HostGroup \<times> int) list) \<Rightarrow>
   (string \<Rightarrow> string) \<Rightarrow> string \<Rightarrow> 's host_fun list \<Rightarrow> Hosts \<Rightarrow> Host sync_phase \<Rightarrow> 's \<Rightarrow>
   (conc_error + ((string \<times> each_error) list \<times> 's)) option \<times> Host sync_phase"
where
  "EngineConfigSyncWorker_Run ctx_err sched gsched concurrency fallback steps hosts p s =
     (batchedParallelPerProfile ctx_err sched gsched concurrency fallback steps hosts s, markChanged hosts p)"

subsection \<open>Writes and deletions\<close>

text \<open>A host carries a desired file when the content and the mode are the desired ones.\<close>

definition carries :: "('s \<Rightarrow> string \<Rightarrow> (string \<times> nat) option) \<Rightarrow> 's \<Rightarrow> string \<times> DesiredFile \<Rightarrow> bool" where
  "carries files s pf \<longleftrightarrow>
     (\<exists>m. parseFileMode (file_mode (snd pf)) = Some m \<and>
          files s (fst pf) = Some (df_Content (snd pf), perm_bits m))"

lemma carries_cong: "files s (fst pf) = files t (fst pf) \<Longrightarrow> carries files s pf = carries files t pf"
  by (simp add: carries_def)

context remote_fs
begin

lemma write_each_other:
  "write_each R fs s = (e, s') \<Longrightarrow> q \<notin> fst ` set fs \<Longrightarrow> files s' q = files s q"
proof (induction fs arbitrary: s)
  case (Cons pf fs)
  obtain p f where pf: "pf = (p, f)" by (cases pf)
  obtain r s1 where w: "Host_WriteFile R p (df_Content f) (file_mode f) s = (r, s1)" by fastforce
  have "files s1 q = files s q"
    using frame_D [OF frame_WriteFile w, of q] Cons.prems pf by auto
  with Cons w pf show ?case by (cases r) auto
qed simp

lemma write_each_carries:
  "write_each R fs s = (None, s') \<Longrightarrow> distinct (map fst fs) \<Longrightarrow> \<forall>pf \<in> set fs. carries files s' pf"
proof (induction fs arbitrary: s)
  case (Cons pf fs)
  obtain p f where pf: "pf = (p, f)" by (cases pf)
  with Cons.prems obtain s1 where w: "Host_WriteFile R p (df_Content f) (file_mode f) s = (None, s1)"
      and rest: "write_each R fs s1 = (None, s')"
    by (auto split: option.splits prod.splits)
  from Host_WriteFile_ok [OF w] have "carries files s1 pf" by (auto simp: carries_def pf)
  moreover have "files s' p = files s1 p"
    using Cons.prems(2) pf by (intro write_each_other [OF rest]) auto
  ultimately have "carries files s' pf" using carries_cong [of files s' pf s1] by (simp add: pf)
  with Cons.IH [OF rest] Cons.prems(2) show ?case by simp
qed simp

lemma remove_each_ok:
  "remove_each R ps s = (None, s') \<Longrightarrow> files s' q = (if q \<in> set ps then None else files s q)"
proof (induction ps arbitrary: s)
  case (Cons p ps)
  then obtain s1 where "r_remove R p s = (None, s1)" "remove_each R ps s1 = (None, s')"
    by (auto split: option.splits prod.splits)
  with Cons.IH [of s1] show ?case by (auto simp: remove_ok)
qed simp

lemma writeFiles_ok:
  assumes "writeFiles lf R dirs fs s = (None, s')" "distinct (map fst fs)"
  shows "\<exists>s1. (\<forall>pf \<in> set fs. carries files s1 pf) \<and> (\<forall>q. q \<notin> fst ` set fs \<longrightarrow> files s1 q = files s q) \<and>
    (\<forall>q. files s' q = (if q \<in> set (StaleFiles lf s1 dirs fs) then None else files s1 q))"
proof -
  from assms(1) obtain s1 where w: "write_each R fs s = (None, s1)"
      and r: "remove_each R (StaleFiles lf s1 dirs fs) s1 = (None, s')"
    by (auto simp: writeFiles_def and_then_pair RemoveStaleFiles_def)
  show ?thesis
    by (rule exI [of _ s1])
      (simp add: write_each_carries [OF w assms(2)] write_each_other [OF w] remove_each_ok [OF r])
qed

end

lemma set_StaleFiles:
  "q \<in> set (StaleFiles lf s dirs fs) \<longleftrightarrow>
     q \<notin> fst ` set fs \<and> (\<exists>d \<in> set dirs. q \<in> set (lf s (md_Path d)) \<and> prunes d q)"
  by (auto simp: StaleFiles_def map_of_eq_None_iff)

context steady_fs
begin

lemma stat_perm:
  assumes "files s p = Some (c, m)"
  obtains k where "r_stat R s p = Some k" "perm_bits k = m"
  using assms stat_total [of s p] stat_files [of s p] by fastforce

lemma fileModeMatches_steady:
  "files s p = Some (c, m) \<Longrightarrow> fileModeMatches R s p w =
     (case parse_uint 8 32 (if w = [] then defaultFileMode else w) of
        None \<Rightarrow> True | Some v \<Rightarrow> m = perm_bits v)"
  by (rule stat_perm [of s p c m]) (auto simp: fileModeMatches_def Let_def split: option.splits)

lemma file_drift_steady:
  "file_drift difflib R s (p, want) = None \<longleftrightarrow>
     (case files s p of None \<Rightarrow> False
      | Some (c, m) \<Rightarrow> c = df_Content want \<and>
          (case parseFileMode (file_mode want) of None \<Rightarrow> True | Some v \<Rightarrow> m = perm_bits v))"
  by (auto simp: file_drift_def exists_files read_files_iff fileModeMatches_steady parseFileMode_def
      file_mode_def split: option.splits)

lemma file_drift_None: "carries files s pf \<Longrightarrow> file_drift difflib R s pf = None"
  by (cases pf) (auto simp: carries_def file_drift_steady)

lemma file_drift_cong:
  "files s (fst pf) = files t (fst pf) \<Longrightarrow>
     file_drift difflib R s pf = None \<longleftrightarrow> file_drift difflib R t pf = None"
  by (cases pf) (simp add: file_drift_steady)

end

lemma map_filter_Nil: "List.map_filter f xs = [] \<longleftrightarrow> (\<forall>x \<in> set xs. f x = None)"
  by (induction xs) (auto simp: List.map_filter_def split: option.splits)

lemma sort_key_Nil [simp]: "sort_key f xs = [] \<longleftrightarrow> xs = []"
  by (metis length_0_conv length_sort)

lemma driftedFiles_Nil:
  "driftedFiles difflib lf R dirs fs s = [] \<longleftrightarrow>
     (\<forall>pf \<in> set fs. file_drift difflib R s pf = None) \<and> StaleFiles lf s dirs fs = []"
  by (simp add: driftedFiles_def map_filter_Nil)

subsection \<open>What a sync achieves\<close>

text \<open>A directory listing: the files of the host that lie under the directory.\<close>

definition lists_files ::
  "('s \<Rightarrow> string \<Rightarrow> (string \<times> nat) option) \<Rightarrow> 's listing \<Rightarrow> (string \<Rightarrow> string \<Rightarrow> bool) \<Rightarrow> bool"
where
  "lists_files files lf below \<longleftrightarrow> (\<forall>s d p. p \<in> set (lf s d) \<longleftrightarrow> files s p \<noteq> None \<and> below d p)"

lemma lists_D: "lists_files files lf below \<Longrightarrow> p \<in> set (lf s d) \<longleftrightarrow> files s p \<noteq> None \<and> below d p"
  by (simp add: lists_files_def)

lemma StaleFiles_Nil: "StaleFiles lf s dirs fs = [] \<longleftrightarrow> (\<forall>q. q \<notin> set (StaleFiles lf s dirs fs))"
  by (cases "StaleFiles lf s dirs fs") auto


text \<open>A host with a certificate left over, one file missing and one with a widened mode.\<close>

definition sync_files :: desired where
  "sync_files = [(''/cfg'', \<lparr>df_Content = ''a'', df_Mode = [], df_NoRestart = False\<rparr>),
                 (''/m/x-config.yaml'', \<lparr>df_Content = ''b'', df_Mode = ''0644'', df_NoRestart = True\<rparr>)]"

definition sync_disk :: disk where
  "sync_disk = [''/cfg'' \<mapsto> (''a'', 420), ''/m/y-config.yaml'' \<mapsto> (''c'', 420), ''/m/engine.yaml'' \<mapsto> (''d'', 420)]"

definition sync_dirs :: "ManagedDir list" where
  "sync_dirs = [\<lparr>md_Path = ''/m'', md_Glob = ''*-config.yaml''\<rparr>]"

definition sync_listing :: "disk listing" where
  "sync_listing d dir =
     filter (\<lambda>p. d p \<noteq> None \<and> path_Dir p = dir) [''/cfg'', ''/m/x-config.yaml'', ''/m/y-config.yaml'', ''/m/engine.yaml'']"

lemma sync_listing: "lists_files disk_files sync_listing (\<lambda>dir p. path_Dir p = dir \<and>
    p \<in> set [''/cfg'', ''/m/x-config.yaml'', ''/m/y-config.yaml'', ''/m/engine.yaml''])"
  unfolding lists_files_def sync_listing_def set_filter disk_files_def by auto

abbreviation sync_remote :: "disk remote" where
  "sync_remote \<equiv> disk_remote (\<lambda>_. False) (\<lambda>_. False) (\<lambda>_. False) (\<lambda>_. [])"


lemma file_drift_fields:
  "file_drift difflib R s (p, w) = Some d \<Longrightarrow> dd_path d = p \<and> dd_reason d \<noteq> reasonStale"
  by (auto simp: file_drift_def reasons split: if_splits option.splits)

lemma set_map_filter: "set (List.map_filter f xs) = {y. \<exists>x \<in> set xs. f x = Some y}"
  by (induction xs) (auto simp: List.map_filter_def split: option.splits)

lemma restart_required_iff:
  assumes "distinct (map fst fs)"
  shows "restart_required fs (driftedFiles difflib lf R dirs fs s) \<longleftrightarrow>
     StaleFiles lf s dirs fs \<noteq> [] \<or>
     list_ex (\<lambda>pf. \<not> df_NoRestart (snd pf) \<and> file_drift difflib R s pf \<noteq> None) fs"
proof -
  let ?P = "\<lambda>d. dd_reason d = reasonStale \<or>
      (case map_of fs (dd_path d) of Some want \<Rightarrow> \<not> df_NoRestart want | None \<Rightarrow> False)"
  have "(\<exists>d. file_drift difflib R s pf = Some d \<and> ?P d) \<longleftrightarrow>
      \<not> df_NoRestart (snd pf) \<and> file_drift difflib R s pf \<noteq> None" if "pf \<in> set fs" for pf
  proof -
    have "map_of fs (fst pf) = Some (snd pf)" using that assms by simp
    with file_drift_fields [of difflib R s "fst pf" "snd pf"] show ?thesis
      by (cases "file_drift difflib R s pf") auto
  qed
  then have "(\<exists>d \<in> set (List.map_filter (file_drift difflib R s) fs). ?P d) \<longleftrightarrow>
      (\<exists>pf \<in> set fs. \<not> df_NoRestart (snd pf) \<and> file_drift difflib R s pf \<noteq> None)"
    unfolding set_map_filter by blast
  then have "list_ex ?P (List.map_filter (file_drift difflib R s) fs) \<longleftrightarrow>
      list_ex (\<lambda>pf. \<not> df_NoRestart (snd pf) \<and> file_drift difflib R s pf \<noteq> None) fs"
    by (simp only: list_ex_iff)
  moreover have "list_ex P (sort_key f xs) = list_ex P xs" for P and f :: "driftDetail \<Rightarrow> string" and xs
    by (simp add: list_ex_iff)
  ultimately show ?thesis
    by (cases "StaleFiles lf s dirs fs") (auto simp: restart_required_def driftedFiles_def)
qed

lemma record_drift_simps [simp]:
  "sp_changed (record_drift h d p) = sp_changed p"
  "sp_changedHosts (record_drift h d p) = sp_changedHosts p"
  "filesFor c (record_drift h d p) = filesFor c p"
  by (simp_all add: record_drift_def filesFor_def split: option.splits)

text \<open>C38. Under a dry run the check writes nothing and marks nothing, whatever the file system does, and
  a host is selected exactly when a stale file is listed or a file that needs a restart has drifted.
\<close>

theorem needsUpdate_dry_run:
  assumes "distinct (map fst (filesFor c p))"
    and "needsUpdate True difflib lf R dirs c h (p, s) = (b, p', s')"
  shows "s' = s \<and> sp_changed p' = sp_changed p \<and> sp_changedHosts p' = sp_changedHosts p \<and>
         b = (StaleFiles lf s dirs (filesFor c p) \<noteq> [] \<or>
              list_ex (\<lambda>pf. \<not> df_NoRestart (snd pf) \<and> file_drift difflib R s pf \<noteq> None) (filesFor c p))"
  using assms(2) unfolding restart_required_iff [OF assms(1), symmetric]
  by (auto simp: needsUpdate_def Let_def restart_required_def split: if_splits)

definition sync_start :: "nat sync_phase" where
  "sync_start = \<lparr>sp_desired = sync_files, sp_controllerDesired = None, sp_drift = [], sp_changed = False,
     sp_changedHosts = []\<rparr>"

lemma needsUpdate_dry_run_witness:
  "fst (needsUpdate True (\<lambda>_ _ _. None) sync_listing sync_remote sync_dirs True 1 (sync_start, sync_disk))"
proof -
  have "distinct (map fst (filesFor True sync_start))"
    "StaleFiles sync_listing sync_disk sync_dirs (filesFor True sync_start) \<noteq> []"
    by code_simp+
  moreover obtain b p' s' where
    X: "needsUpdate True (\<lambda>_ _ _. None) sync_listing sync_remote sync_dirs True 1 (sync_start, sync_disk) = (b, p', s')"
    using prod_cases3 by blast
  ultimately have b using needsUpdate_dry_run [OF _ X] by blast
  with X show ?thesis by simp
qed

lemma fst_no_restart: "fst ` set (no_restart_files fs) \<subseteq> fst ` set fs"
  by (auto simp: no_restart_files_def)

context steady_fs
begin

text \<open>Writing the files without restart settles a host whose drift needs no restart.\<close>

lemma in_place_settles:
  assumes "lists_files files lf below" and "distinct (map fst fs)"
    and "\<not> restart_required fs (driftedFiles difflib lf R dirs fs s)"
    and "write_each R (no_restart_files fs) s = (None, s')"
  shows "driftedFiles difflib lf R dirs fs s' = []"
proof -
  note other = write_each_other [OF assms(4)]
  have d: "distinct (map fst (no_restart_files fs))"
    using assms(2) by (simp add: no_restart_files_def distinct_map_filter)
  have none: "StaleFiles lf s dirs fs = []"
      "\<forall>pf \<in> set fs. df_NoRestart (snd pf) \<or> file_drift difflib R s pf = None"
    using assms(3) unfolding restart_required_iff [OF assms(2)] by (auto simp: list_ex_iff)
  have "file_drift difflib R s' pf = None" if pf: "pf \<in> set fs" for pf
  proof (cases "df_NoRestart (snd pf)")
    case True
    with pf have "pf \<in> set (no_restart_files fs)" by (auto simp: no_restart_files_def)
    with write_each_carries [OF assms(4) d] show ?thesis by (simp add: file_drift_None)
  next
    case False
    have "fst pf \<notin> fst ` set (no_restart_files fs)"
    proof
      assume "fst pf \<in> fst ` set (no_restart_files fs)"
      then obtain f where "(fst pf, f) \<in> set fs" "df_NoRestart f" by (auto simp: no_restart_files_def)
      with pf assms(2) False show False by (metis eq_key_imp_eq_value prod.collapse)
    qed
    from other [OF this] none(2) pf False show ?thesis
      using file_drift_cong [of s' pf s] by auto
  qed
  moreover have "StaleFiles lf s' dirs fs = []"
  proof (subst StaleFiles_Nil, intro allI notI)
    fix q assume q: "q \<in> set (StaleFiles lf s' dirs fs)"
    then have "q \<notin> fst ` set (no_restart_files fs)"
      using fst_no_restart [of fs] unfolding set_StaleFiles by blast
    from other [OF this] q have "q \<in> set (StaleFiles lf s dirs fs)"
      by (auto simp: set_StaleFiles lists_D [OF assms(1)])
    with none(1) show False by simp
  qed
  ultimately show ?thesis by (simp add: driftedFiles_Nil)
qed

end

text \<open>The four ways the check ends outside a dry run.\<close>

lemma needsUpdate_wet:
  assumes "needsUpdate False difflib lf R dirs c h (p, s) = (b, p', s')"
    and "drifted = driftedFiles difflib lf R dirs (filesFor c p) s"
    and "w = write_each R (no_restart_files (filesFor c p)) s"
  shows "(b, s') =
      (if drifted = [] then (False, s) else if restart_required (filesFor c p) drifted then (True, s)
       else case w of (Some e, s1) \<Rightarrow> (True, s1) | (None, s1) \<Rightarrow> (False, s1))"
  using assms by (simp add: needsUpdate_def Let_def split: if_splits prod.splits option.splits)


definition settled_disk :: disk where
  "settled_disk = [''/cfg'' \<mapsto> (''a'', 384), ''/m/engine.yaml'' \<mapsto> (''d'', 420)]"


subsection \<open>What the directory listing sees\<close>

context remote_fs
begin

lemma listManagedFiles_blind: "files s d = None \<Longrightarrow> listManagedFiles R s d = []"
  by (simp add: listManagedFiles_def exists_files)

end

text \<open>The listing cargoship runs asks \<open>FileExist\<close> for the directory first, which answers for regular
  files only. No file of a managed directory is therefore ever stale: a rewrite deletes nothing, and
  every file the configuration no longer calls for stays on the host as it was.
\<close>

theorem managed_directories_are_never_pruned:
  assumes "remote_fs R files" and "distinct (map fst fs)"
    and "list_all (\<lambda>d. files s (md_Path d) = None \<and> md_Path d \<notin> fst ` set fs) dirs"
    and "writeFiles (listManagedFiles R) R dirs fs s = (None, s')"
  shows "StaleFiles (listManagedFiles R) s dirs fs = [] \<and> (q \<in> fst ` set fs \<or> files s' q = files s q)"
proof -
  obtain s1 where s1: "\<forall>q. q \<notin> fst ` set fs \<longrightarrow> files s1 q = files s q"
      "\<forall>q. files s' q = (if q \<in> set (StaleFiles (listManagedFiles R) s1 dirs fs) then None else files s1 q)"
    using remote_fs.writeFiles_ok [OF assms(1,4,2)] by blast
  have blind: "StaleFiles (listManagedFiles R) t dirs fs = []"
    if "\<forall>q. q \<notin> fst ` set fs \<longrightarrow> files t q = files s q" for t
    using that assms(3) remote_fs.listManagedFiles_blind [OF assms(1), of t]
    by (auto simp: StaleFiles_Nil set_StaleFiles list_all_iff)
  show ?thesis using s1 blind [of s] blind [OF s1(1)] by auto
qed

lemma managed_directories_are_never_pruned_witness:
  "disk_files (snd (writeFiles (listManagedFiles sync_remote) sync_remote sync_dirs sync_files sync_disk))
     ''/m/y-config.yaml'' = Some (''c'', 420)"
proof -
  let ?w = "writeFiles (listManagedFiles sync_remote) sync_remote sync_dirs sync_files sync_disk"
  have "distinct (map fst sync_files)" "fst ?w = None"
    "list_all (\<lambda>d. disk_files sync_disk (md_Path d) = None \<and> md_Path d \<notin> fst ` set sync_files) sync_dirs"
    "disk_files sync_disk ''/m/y-config.yaml'' = Some (''c'', 420)" "''/m/y-config.yaml'' \<notin> fst ` set sync_files"
    by code_simp+
  then show ?thesis
    using managed_directories_are_never_pruned [OF disk.remote_fs_axioms, of sync_files sync_disk sync_dirs
        "\<lambda>_. False" "\<lambda>_. False" "\<lambda>_. False" "\<lambda>_. []" "snd ?w" "''/m/y-config.yaml''"]
    by (simp add: prod_eq_iff)
qed

subsection \<open>The phases\<close>

text \<open>One controller through all the steps: every step runs, also after one that failed.\<close>

definition one_host ::
  "('s \<Rightarrow> string option) \<Rightarrow> 's host_fun list \<Rightarrow> Host \<Rightarrow> 's \<Rightarrow> string list \<times> 's"
where
  "one_host ctx_err steps h s = foldl (\<lambda>st f. run_goroutine ctx_err f st h) ([], s) steps"

fun one_by_one ::
  "('s \<Rightarrow> string option) \<Rightarrow> 's host_fun list \<Rightarrow> Hosts \<Rightarrow> 's \<Rightarrow> each_error option \<times> 's"
where
  "one_by_one ctx_err steps [] s = (None, s)"
| "one_by_one ctx_err steps (h # hs) s =
     (case ctx_err s of
        Some e \<Rightarrow> (Some (ContextError e), s)
      | None \<Rightarrow>
          (case one_host ctx_err steps h s of
             ([], s1) \<Rightarrow> one_by_one ctx_err steps hs s1
           | (e # es, s1) \<Rightarrow> (Some (FailedOn (length (e # es)) (e # es)), s1)))"

lemma chunks_1: "chunks 1 xs = map (\<lambda>x. [x]) xs"
  by (induction xs) simp_all

lemma run_chunks_single:
  assumes "\<And>h. sched [h] = [h]"
  shows "run_chunks ctx_err sched steps (map (\<lambda>x. [x]) hs) s = one_by_one ctx_err steps hs s"
proof (induction hs arbitrary: s)
  case (Cons h hs)
  have "foldl (\<lambda>st f. foldl (run_goroutine ctx_err f) st (sched [h])) ([], s) steps = one_host ctx_err steps h s"
    by (simp add: one_host_def assms)
  with Cons show ?case
    by (auto simp: ParallelEach_def split: option.splits prod.splits list.splits)
qed simp

text \<open>Controllers are synced strictly one at a time, in list order: the next one is touched only
  after all the steps of the one before have run without an error, and the first that reports one
  ends the phase. All of them are marked as changed before the first is touched.
\<close>

theorem EngineConfigSyncController_one_at_a_time:
  assumes "\<And>h. sched [h] = [h]"
  shows "EngineConfigSyncController_Run ctx_err sched steps hosts p s =
           (Some (one_by_one ctx_err steps hosts s),
            p\<lparr>sp_changed := True, sp_changedHosts := sp_changedHosts p @ hosts\<rparr>)"
proof -
  have "BatchedParallelEach ctx_err sched 1 steps hosts s = Some (run_chunks ctx_err sched steps (chunks 1 hosts) s)"
    using batched_loop_chunks [of 1 ctx_err sched steps hosts 0 s] by (simp add: BatchedParallelEach_def)
  then show ?thesis
    by (simp add: EngineConfigSyncController_Run_def batchedParallel_def chunks_1 [unfolded One_nat_def]
        run_chunks_single [OF assms] markChanged_def)
qed

lemma EngineConfigSyncController_one_at_a_time_witness:
  "fst (EngineConfigSyncController_Run (\<lambda>_. None) id [\<lambda>h s. (Some ''e'', s + 1), \<lambda>h s. (None, s + 1)] sample_fleet
     \<lparr>sp_desired = [], sp_controllerDesired = None, sp_drift = [], sp_changed = False, sp_changedHosts = []\<rparr> (0::nat))
   = Some (Some (FailedOn 1 [''a: e'']), 2)"
proof -
  have a: "Host_String (sample_host ''a'' RoleController []) = ''a''" by code_simp
  show ?thesis
    by (subst EngineConfigSyncController_one_at_a_time)
      (simp_all add: sample_fleet_def one_host_def run_goroutine_def a)
qed

text \<open>What holds of the phase after \<open>Prepare\<close> and \<open>Run\<close>: one entry for every host that was checked,
  changed hosts among them, and the flag of the fleet raised with the first of them.\<close>

definition sync_inv :: "'h list \<Rightarrow> 'h sync_phase \<Rightarrow> bool" where
  "sync_inv checked p \<longleftrightarrow>
     map fst (sp_drift p) = first_seen checked \<and> set (sp_changedHosts p) \<subseteq> set checked \<and>
     (sp_changed p \<longleftrightarrow> sp_changedHosts p \<noteq> [])"

lemma sync_inv_record:
  "sync_inv checked p \<Longrightarrow> sync_inv (checked @ [h]) (record_drift h d p)"
proof -
  assume inv: "sync_inv checked p"
  then have "fst ` set (sp_drift p) = set checked"
    by (metis set_first_seen set_map sync_inv_def)
  moreover have "fst \<circ> (\<lambda>(k, x). if k = h then (k, d) else (k, x)) = fst" by (auto simp: fun_eq_iff)
  ultimately show ?thesis
    using inv by (auto simp: sync_inv_def record_drift_def first_seen_snoc)
qed

lemma sync_inv_mark: "sync_inv checked p \<Longrightarrow> set hosts \<subseteq> set checked \<Longrightarrow> hosts \<noteq> [] \<Longrightarrow> sync_inv checked (markChanged hosts p)"
  by (auto simp: sync_inv_def markChanged_def)

lemma sync_inv_needsUpdate:
  assumes "sync_inv checked p"
    and "needsUpdate dry difflib lf R dirs c h (p, s) = (b, p', s')"
  shows "sync_inv (checked @ [h]) p'"
proof -
  define drifted where "drifted = driftedFiles difflib lf R dirs (filesFor c p) s"
  have "p' = record_drift h drifted p \<or> p' = markChanged [h] (record_drift h drifted p)"
    using assms(2) by (auto simp: needsUpdate_def Let_def drifted_def [symmetric]
        split: if_splits prod.splits option.splits)
  then show ?thesis
    using sync_inv_record [OF assms(1), of h drifted] sync_inv_mark [of "checked @ [h]" _ "[h]"] by auto
qed

lemma sync_inv_sweep:
  assumes "\<And>h p s. needs h (p, s) = needsUpdate dry difflib (lf h) (R h) dirs (ctl h) h (p, s)"
    and "sync_inv checked p" and "sync_sweep needs hs (p, s) = (matched, p', s')"
  shows "sync_inv (checked @ hs) p' \<and> set matched \<subseteq> set hs"
  using assms(2,3)
proof (induction hs arbitrary: checked p s matched)
  case (Cons h hs)
  obtain b p1 s1 where n: "needs h (p, s) = (b, p1, s1)" using prod_cases3 by blast
  obtain m where rest: "sync_sweep needs hs (p1, s1) = (m, p', s')" "matched = (if b then h # m else m)"
    using Cons.prems(2) by (auto simp: n split: prod.splits)
  have "sync_inv (checked @ [h]) p1"
    using sync_inv_needsUpdate [OF Cons.prems(1)] n assms(1) by metis
  from Cons.IH [OF this rest(1)] rest(2) show ?case by auto
qed simp

text \<open>What the phase reports after a preparation and a run adds up: exactly the hosts that were
  checked are reported, each once, also when several were checked twice, and the fleet counts as
  changed exactly when one of the reported hosts does.
\<close>

theorem sync_report_adds_up:
  assumes "\<And>h p s. needs h (p, s) = needsUpdate dry difflib (lf h) (R h) dirs (ctl h) h (p, s)"
    and "sp_drift p = []" and "\<not> sp_changed p" and "sp_changedHosts p = []"
    and "sync_sweep needs hs (p, s) = (matched, p', s')"
    and "q \<in> (if matched = [] then {p'} else {p', markChanged matched p'})"
  shows "sync_Changed q = list_ex hc_changed (sync_HostsChanged address q) \<and>
         mset (map hc_host (sync_HostsChanged address q)) = mset (map address (first_seen hs)) \<and>
         sorted (map hc_host (sync_HostsChanged address q))"
proof -
  have "sync_inv [] p" using assms(2-4) by (simp add: sync_inv_def)
  from sync_inv_sweep [OF assms(1) this assms(5)] have inv': "sync_inv hs p'" and m: "set matched \<subseteq> set hs"
    by auto
  then have inv: "sync_inv hs q" using assms(6) sync_inv_mark [OF inv' m] by (auto split: if_splits)
  then have keys: "fst ` set (sp_drift q) = set hs" by (metis set_first_seen set_map sync_inv_def)
  have "list_ex hc_changed (sync_HostsChanged address q) \<longleftrightarrow> (\<exists>h \<in> set hs. h \<in> set (sp_changedHosts q))"
    unfolding keys [symmetric] by (auto simp: sync_HostsChanged_def list_ex_iff split: prod.splits) force+
  also have "\<dots> \<longleftrightarrow> sync_Changed q"
    using inv by (cases "sp_changedHosts q") (auto simp: sync_inv_def sync_Changed_def)
  finally have "sync_Changed q = list_ex hc_changed (sync_HostsChanged address q)" by simp
  moreover have "mset (map hc_host (sync_HostsChanged address q)) = mset (map address (first_seen hs))"
  proof -
    define es where "es = map (\<lambda>(h, drifted). \<lparr>hc_host = address h, hc_changed = h \<in> set (sp_changedHosts q),
        hc_details = map (\<lambda>d. \<lparr>hd_path = dd_path d, hd_reason = dd_reason d, hd_diff = dd_diff d\<rparr>) drifted\<rparr>)
        (sp_drift q)"
    have "map hc_host es = map address (map fst (sp_drift q))" by (auto simp: es_def split: prod.splits)
    then have "map hc_host es = map address (first_seen hs)" using inv unfolding sync_inv_def by metis
    moreover have "mset (map hc_host (sort_key hc_host es)) = mset (map hc_host es)" by simp
    ultimately show ?thesis by (simp only: sync_HostsChanged_def es_def)
  qed
  ultimately show ?thesis by (simp add: sync_HostsChanged_def)
qed

definition sample_needs :: "nat \<Rightarrow> nat sync_phase \<times> disk \<Rightarrow> bool \<times> nat sync_phase \<times> disk" where
  "sample_needs h ps =
     needsUpdate False (\<lambda>_ _ _. None) sync_listing sync_remote sync_dirs True h (fst ps, snd ps)"

lemma sync_report_adds_up_witness:
  "sync_Changed (fst (snd (sync_sweep sample_needs [1] (sync_start, settled_disk))))
   = list_ex hc_changed (sync_HostsChanged (\<lambda>_. ''h'') (fst (snd (sync_sweep sample_needs [1] (sync_start, settled_disk)))))"
proof -
  obtain m p' s' where X: "sync_sweep sample_needs [1] (sync_start, settled_disk) = (m, p', s')"
    using prod_cases3 by blast
  have "\<not> fst (sample_needs 1 (sync_start, settled_disk))"
    unfolding sample_needs_def fst_conv snd_conv by code_simp
  with X have m: "m = []" by (auto split: prod.splits)
  have n: "sample_needs h (p, s) = needsUpdate False (\<lambda>_ _ _. None) sync_listing sync_remote sync_dirs True h (p, s)"
    for h p s by (simp add: sample_needs_def)
  have start: "sp_drift sync_start = []" "\<not> sp_changed sync_start" "sp_changedHosts sync_start = []"
    by code_simp+
  have "p' \<in> (if m = [] then {p'} else {p', markChanged m p'})" by simp
  from sync_report_adds_up [where needs = sample_needs and dry = False and difflib = "\<lambda>_ _ _. None"
      and lf = "\<lambda>_. sync_listing" and R = "\<lambda>_. sync_remote" and dirs = sync_dirs and ctl = "\<lambda>_. True",
      OF n start X this, of "\<lambda>_. ''h''"]
  show ?thesis unfolding X fst_conv snd_conv by (rule conjunct1)
qed

end
