(* ===== verification/Cluster_Registries.thy ===== *)
theory Cluster_Registries
  imports Cargo_Prelude
begin

section \<open>Registries\<close>

text \<open>
  The registries of \<open>api/colonel-byte.dev/v1alpha1/cluster/spec.go\<close>: their validation, the host an
  entry configures, the check that no entry is silently lost, and the headers that mark a value as
  ciphertext. \<open>url.Parse\<close>, \<open>pem.Decode\<close> and the compilation of a regular expression (which answers
  the number of its groups) are parameters, the record \<open>registry_lib\<close>. A map is the list of its
  entries in the order one iteration gives them.
\<close>

subsection \<open>Ciphertext headers\<close>

definition VaultHeader :: string where "VaultHeader = ''$ANSIBLE_VAULT''"

definition IsVaultEncrypted :: "string \<Rightarrow> bool" where
  "IsVaultEncrypted v \<longleftrightarrow> has_prefix (trim_space v) VaultHeader"

definition AgeHeader :: string where "AgeHeader = ''-----BEGIN AGE ENCRYPTED FILE-----''"

definition IsAgeEncrypted :: "string \<Rightarrow> bool" where
  "IsAgeEncrypted v \<longleftrightarrow> has_prefix (trim_space v) AgeHeader"

definition IsEncrypted :: "string \<Rightarrow> bool" where
  "IsEncrypted v \<longleftrightarrow> IsVaultEncrypted v \<or> IsAgeEncrypted v"

lemma headers_exclusive: "\<not> (IsVaultEncrypted v \<and> IsAgeEncrypted v)"
  by (auto simp: IsVaultEncrypted_def IsAgeEncrypted_def VaultHeader_def AgeHeader_def has_prefix_def prefix_def)

lemma IsEncrypted_Nil [simp]: "\<not> IsEncrypted []" "\<not> IsVaultEncrypted []" "\<not> IsAgeEncrypted []"
  by (simp_all add: IsEncrypted_def IsVaultEncrypted_def IsAgeEncrypted_def VaultHeader_def AgeHeader_def has_prefix_def)

subsection \<open>Entries\<close>

record RegistryAuth =
  ra_Username :: string
  ra_Password :: string
  ra_Token :: string

record RegistryTLS =
  rt_CA :: string
  rt_CAFile :: string
  rt_CertFile :: string
  rt_KeyFile :: string
  rt_InsecureSkipVerify :: bool

record RegistryProxy =
  rp_URL :: string
  rp_Rewrite :: "(string \<times> string) list"

record Registries =
  rg_Name :: string
  rg_Authentication :: RegistryAuth
  rg_Proxy :: "RegistryProxy option"
  rg_TLS :: "RegistryTLS option"

record parsed_url =
  u_Scheme :: string
  u_Host :: string
  u_User :: bool

record registry_lib =
  rl_url :: "string \<Rightarrow> parsed_url option"
  rl_pem :: "string \<Rightarrow> string option"
  rl_groups :: "string \<Rightarrow> nat option"

datatype registry_error =
    NameRequired
  | NameIsURL string
  | NameIsPath string
  | NameHasSpace string
  | CAandCAFile string
  | NotACertificate string
  | CertWithoutKey string
  | ProxyURLMissing string
  | ProxyURLInvalid string string
  | ProxyWithoutHost string string
  | ProxyScheme string string string
  | ProxyCarriesUser string
  | RewriteInvalid string string
  | RewriteEmpty string string
  | RewriteGroup string string string int nat
  | UserWithoutPass string
  | PassWithoutUser string
  | ConfiguresNothing string
  | ListedTwice string
  | HostConflict string string string

definition validateRegistryName :: "string \<Rightarrow> registry_error option" where
  "validateRegistryName v =
     (if v = [] then Some NameRequired
      else if v = ''*'' then None
      else if str_contains v ''://'' then Some (NameIsURL v)
      else if CHR ''/'' \<in> set v then Some (NameIsPath v)
      else if trim_space v \<noteq> v \<or> CHR '' '' \<in> set v \<or> CHR 0x09 \<in> set v then Some (NameHasSpace v)
      else None)"

definition RegistryTLS_Validate :: "registry_lib \<Rightarrow> RegistryTLS option \<Rightarrow> string \<Rightarrow> registry_error option" where
  "RegistryTLS_Validate L t name =
     (case t of
        None \<Rightarrow> None
      | Some t \<Rightarrow>
          if rt_CA t \<noteq> [] \<and> rt_CAFile t \<noteq> [] then Some (CAandCAFile name)
          else if rt_CA t \<noteq> [] \<and> \<not> IsEncrypted (rt_CA t) \<and> rl_pem L (rt_CA t) \<noteq> Some ''CERTIFICATE''
          then Some (NotACertificate name)
          else if (rt_CertFile t = []) \<noteq> (rt_KeyFile t = []) then Some (CertWithoutKey name)
          else None)"

definition RegistryAuth_Validate :: "RegistryAuth \<Rightarrow> string \<Rightarrow> registry_error option" where
  "RegistryAuth_Validate a name =
     (if ra_Username a \<noteq> [] \<and> ra_Password a = [] then Some (UserWithoutPass name)
      else if ra_Password a \<noteq> [] \<and> ra_Username a = [] then Some (PassWithoutUser name)
      else None)"

subsection \<open>The proxy\<close>

definition is_alpha :: "char \<Rightarrow> bool" where
  "is_alpha c \<longleftrightarrow> (65 \<le> byte c \<and> byte c \<le> 90) \<or> (97 \<le> byte c \<and> byte c \<le> 122)"

definition scheme_char :: "char \<Rightarrow> bool" where
  "scheme_char c \<longleftrightarrow> is_alpha c \<or> is_digit c \<or> c = CHR ''+'' \<or> c = CHR ''.'' \<or> c = CHR ''-''"

definition endpoint_has_scheme :: "string \<Rightarrow> bool" where
  "endpoint_has_scheme s \<longleftrightarrow>
     s \<noteq> [] \<and> is_alpha (hd s) \<and> has_prefix (dropWhile scheme_char (tl s)) ''://''"

definition word_char :: "char \<Rightarrow> bool" where
  "word_char c \<longleftrightarrow> is_alpha c \<or> is_digit c \<or> c = CHR ''_''"

text \<open>\<open>strings.ReplaceAll(replacement, "$$", "")\<close>, and the names of the groups it refers to.\<close>

fun drop_escapes :: "string \<Rightarrow> string" where
  "drop_escapes [] = []"
| "drop_escapes (c # s) =
     (if c = CHR ''$'' \<and> s \<noteq> [] \<and> hd s = CHR ''$'' then drop_escapes (tl s) else c # drop_escapes s)"

function (sequential) group_refs :: "string \<Rightarrow> string list" where
  "group_refs [] = []"
| "group_refs (c # s) =
     (let bare = takeWhile word_char s; braced = takeWhile word_char (tl s); after = dropWhile word_char (tl s) in
      if c \<noteq> CHR ''$'' then group_refs s
      else if bare \<noteq> [] then bare # group_refs (dropWhile word_char s)
      else if s \<noteq> [] \<and> hd s = CHR ''{'' \<and> braced \<noteq> [] \<and> after \<noteq> [] \<and> hd after = CHR ''}''
      then braced # group_refs (tl after)
      else group_refs s)"
  by pat_completeness auto
termination
proof (relation "measure length", goal_cases)
  case (3 c s)
  show ?case by (simp add: le_imp_less_Suc length_dropWhile_le)
next
  case (4 c s bare braced after)
  then have "length after \<le> length (tl s)" by (metis length_dropWhile_le)
  then show ?case by simp
qed auto

fun bad_ref :: "nat \<Rightarrow> string list \<Rightarrow> int option" where
  "bad_ref groups [] = None"
| "bad_ref groups (r # rs) =
     (case atoi r of
        Some n \<Rightarrow> if n > int groups then Some n else bad_ref groups rs
      | None \<Rightarrow> bad_ref groups rs)"

fun rewrite_errors :: "registry_lib \<Rightarrow> string \<Rightarrow> (string \<times> string) list \<Rightarrow> registry_error option" where
  "rewrite_errors L name [] = None"
| "rewrite_errors L name ((pattern, replacement) # rest) =
     (case rl_groups L pattern of
        None \<Rightarrow> Some (RewriteInvalid name pattern)
      | Some groups \<Rightarrow>
          if replacement = [] then Some (RewriteEmpty name pattern)
          else (case bad_ref groups (group_refs (drop_escapes replacement)) of
                  Some n \<Rightarrow> Some (RewriteGroup name replacement pattern n groups)
                | None \<Rightarrow> rewrite_errors L name rest))"

definition with_scheme :: "string \<Rightarrow> string" where
  "with_scheme url = (if endpoint_has_scheme url then url else ''https://'' @ url)"

definition RegistryProxy_Validate :: "registry_lib \<Rightarrow> RegistryProxy option \<Rightarrow> string \<Rightarrow> registry_error option" where
  "RegistryProxy_Validate L p name =
     (case p of
        None \<Rightarrow> None
      | Some p \<Rightarrow>
          if rp_URL p = [] then Some (ProxyURLMissing name)
          else (case rl_url L (with_scheme (rp_URL p)) of
                  None \<Rightarrow> Some (ProxyURLInvalid name (rp_URL p))
                | Some u \<Rightarrow>
                    if u_Host u = [] then Some (ProxyWithoutHost name (rp_URL p))
                    else if u_Scheme u \<noteq> ''http'' \<and> u_Scheme u \<noteq> ''https''
                    then Some (ProxyScheme name (rp_URL p) (u_Scheme u))
                    else if u_User u then Some (ProxyCarriesUser name)
                    else rewrite_errors L name (rp_Rewrite p)))"

definition UnreferencedRewrites :: "registry_lib \<Rightarrow> RegistryProxy option \<Rightarrow> string list" where
  "UnreferencedRewrites L p =
     (case p of
        None \<Rightarrow> []
      | Some p \<Rightarrow> sort_strings (map fst (filter
          (\<lambda>(pattern, replacement). (case rl_groups L pattern of None \<Rightarrow> False | Some n \<Rightarrow> n \<noteq> 0) \<and>
             group_refs (drop_escapes replacement) = []) (rp_Rewrite p))))"

subsection \<open>One entry\<close>

definition ProxyURL :: "Registries \<Rightarrow> string" where
  "ProxyURL r = (case rg_Proxy r of None \<Rightarrow> [] | Some p \<Rightarrow> rp_URL p)"

definition MirrorEndpoint :: "Registries \<Rightarrow> string" where
  "MirrorEndpoint r = (if ProxyURL r = [] then [] else with_scheme (ProxyURL r))"

definition ConfigHost :: "registry_lib \<Rightarrow> Registries \<Rightarrow> string" where
  "ConfigHost L r =
     (let endpoint = MirrorEndpoint r; before = fst (cut (CHR ''/'') endpoint) in
      if endpoint = [] then rg_Name r
      else (case rl_url L endpoint of
              Some u \<Rightarrow> if u_Host u \<noteq> [] then u_Host u else before
            | None \<Rightarrow> before))"

definition Registries_Validate :: "registry_lib \<Rightarrow> Registries \<Rightarrow> registry_error option" where
  "Registries_Validate L r =
     first_error [
       validateRegistryName (rg_Name r),
       RegistryTLS_Validate L (rg_TLS r) (rg_Name r),
       RegistryProxy_Validate L (rg_Proxy r) (rg_Name r),
       RegistryAuth_Validate (rg_Authentication r) (rg_Name r),
       if ProxyURL r \<noteq> [] \<or> rg_TLS r \<noteq> None \<or> ra_Username (rg_Authentication r) \<noteq> [] \<or>
          ra_Password (rg_Authentication r) \<noteq> [] \<or> ra_Token (rg_Authentication r) \<noteq> []
       then None else Some (ConfiguresNothing (rg_Name r))]"

subsection \<open>All entries\<close>

definition sealed :: "RegistryAuth \<Rightarrow> bool" where
  "sealed a \<longleftrightarrow>
     (IsEncrypted (ra_Username a) \<or> ra_Username a = []) \<and>
     (IsEncrypted (ra_Password a) \<or> ra_Password a = []) \<and>
     (IsEncrypted (ra_Token a) \<or> ra_Token a = [])"

definition sameRegistryConfig :: "Registries \<Rightarrow> Registries \<Rightarrow> bool" where
  "sameRegistryConfig a b \<longleftrightarrow>
     (if rg_Authentication a \<noteq> rg_Authentication b \<and>
         (\<not> sealed (rg_Authentication a) \<or> \<not> sealed (rg_Authentication b) \<or>
          ra_Token (rg_Authentication a) \<noteq> [] \<or> ra_Token (rg_Authentication b) \<noteq> [])
      then False
      else (case (rg_TLS a, rg_TLS b) of
              (None, None) \<Rightarrow> True | (Some s, Some t) \<Rightarrow> s = t | _ \<Rightarrow> False))"

fun validate_entries ::
  "registry_lib \<Rightarrow> string set \<Rightarrow> (string \<rightharpoonup> Registries) \<Rightarrow> Registries list \<Rightarrow> registry_error option"
where
  "validate_entries L byName byHost [] = None"
| "validate_entries L byName byHost (r # rs) =
     (case Registries_Validate L r of
        Some e \<Rightarrow> Some e
      | None \<Rightarrow>
          if rg_Name r \<in> byName then Some (ListedTwice (rg_Name r))
          else (let host = ConfigHost L r in
            case byHost host of
              Some previous \<Rightarrow>
                if \<not> sameRegistryConfig previous r then Some (HostConflict (rg_Name previous) (rg_Name r) host)
                else validate_entries L (insert (rg_Name r) byName) byHost rs
            | None \<Rightarrow> validate_entries L (insert (rg_Name r) byName) (byHost(host \<mapsto> r)) rs))"

definition ValidateRegistries :: "registry_lib \<Rightarrow> Registries list \<Rightarrow> registry_error option" where
  "ValidateRegistries L rs = validate_entries L {} Map.empty rs"

subsection \<open>What the check accepts\<close>

definition earlier :: "registry_lib \<Rightarrow> (string \<rightharpoonup> Registries) \<Rightarrow> Registries list \<Rightarrow> Registries \<Rightarrow> Registries option" where
  "earlier L byHost pre r =
     (case byHost (ConfigHost L r) of
        Some p \<Rightarrow> Some p | None \<Rightarrow> List.find (\<lambda>p. ConfigHost L p = ConfigHost L r) pre)"

text \<open>Every entry agrees with the first of its host.\<close>

definition hosts_agree :: "registry_lib \<Rightarrow> (string \<rightharpoonup> Registries) \<Rightarrow> Registries list \<Rightarrow> bool" where
  "hosts_agree L byHost rs \<longleftrightarrow>
     (\<forall>pre r post p. rs = pre @ r # post \<longrightarrow> earlier L byHost pre r = Some p \<longrightarrow> sameRegistryConfig p r)"

lemma hosts_agree_Nil [simp]: "hosts_agree L byHost []"
  by (simp add: hosts_agree_def)

lemma hosts_agree_Cons:
  "hosts_agree L byHost (q # rs) \<longleftrightarrow>
     (case byHost (ConfigHost L q) of
        Some p \<Rightarrow> sameRegistryConfig p q \<and> hosts_agree L byHost rs
      | None \<Rightarrow> hosts_agree L (byHost(ConfigHost L q \<mapsto> q)) rs)"
proof -
  let ?host = "ConfigHost L q"
  let ?next = "case byHost ?host of Some p \<Rightarrow> byHost | None \<Rightarrow> byHost(?host \<mapsto> q)"
  have step: "earlier L byHost (q # pre) r = earlier L ?next pre r" for pre r
    by (auto simp: earlier_def split: option.splits)
  have head: "earlier L byHost [] q = byHost ?host" by (simp add: earlier_def split: option.splits)
  have "hosts_agree L byHost (q # rs) \<longleftrightarrow> (\<forall>p. byHost ?host = Some p \<longrightarrow> sameRegistryConfig p q) \<and> hosts_agree L ?next rs"
    (is "?l \<longleftrightarrow> ?h \<and> ?t")
  proof (intro iffI conjI)
    assume ?l
    then show ?h using head unfolding hosts_agree_def by (metis append_Nil)
    show ?t using \<open>?l\<close> step unfolding hosts_agree_def by (metis append_Cons)
  next
    assume ht: "?h \<and> ?t"
    have "sameRegistryConfig p r" if a: "q # rs = pre @ r # post" "earlier L byHost pre r = Some p" for pre r post p
    proof (cases pre)
      case Nil then show ?thesis using a head ht by simp
    next
      case (Cons x xs)
      have "rs = xs @ r # post" "earlier L ?next xs r = Some p" using a Cons step [of xs r] by simp_all
      then show ?thesis using ht unfolding hosts_agree_def by blast
    qed
    then show ?l unfolding hosts_agree_def by blast
  qed
  then show ?thesis by (simp split: option.split)
qed

lemma validate_entries_None:
  "validate_entries L byName byHost rs = None \<longleftrightarrow>
     (\<forall>r \<in> set rs. Registries_Validate L r = None \<and> rg_Name r \<notin> byName) \<and> distinct (map rg_Name rs) \<and>
     hosts_agree L byHost rs"
proof (induction rs arbitrary: byName byHost)
  case (Cons q rs)
  show ?case
    by (cases "byHost (ConfigHost L q)")
      (auto simp: Let_def Cons.IH hosts_agree_Cons image_iff simp del: fun_upd_apply split: option.splits)
qed simp

theorem ValidateRegistries_iff:
  "ValidateRegistries L rs = None \<longleftrightarrow>
     (\<forall>r \<in> set rs. Registries_Validate L r = None) \<and> distinct (map rg_Name rs) \<and>
     (\<forall>pre r post p. rs = pre @ r # post \<longrightarrow> List.find (\<lambda>p. ConfigHost L p = ConfigHost L r) pre = Some p \<longrightarrow>
        sameRegistryConfig p r)"
  by (simp add: ValidateRegistries_def validate_entries_None hosts_agree_def earlier_def)

definition open_pair :: "Registries \<Rightarrow> Registries \<Rightarrow> bool" where
  "open_pair a b \<longleftrightarrow>
     sealed (rg_Authentication a) \<and> sealed (rg_Authentication b) \<and>
     ra_Token (rg_Authentication a) = [] \<and> ra_Token (rg_Authentication b) = []"

lemma sameRegistryConfig_D:
  assumes "sameRegistryConfig a b"
  shows "rg_TLS a = rg_TLS b \<and> (rg_Authentication a = rg_Authentication b \<or> open_pair a b)"
  using assms by (auto simp: sameRegistryConfig_def open_pair_def split: if_splits option.splits)

lemma first_of_host:
  assumes "ValidateRegistries L rs = None" and "r \<in> set rs"
    and "List.find (\<lambda>p. ConfigHost L p = host) rs = Some f" and "ConfigHost L r = host"
  shows "f = r \<or> sameRegistryConfig f r"
proof -
  obtain pre post where rs: "rs = pre @ r # post" using assms(2) by (meson split_list)
  show ?thesis
  proof (cases "List.find (\<lambda>p. ConfigHost L p = host) pre")
    case None
    then have "List.find (\<lambda>p. ConfigHost L p = host) (pre @ r # post) = Some r"
      using assms(4) by (induction pre) (auto split: if_splits)
    then show ?thesis using assms(3) rs by simp
  next
    case (Some p)
    then have "List.find (\<lambda>p. ConfigHost L p = host) (pre @ r # post) = Some p"
      by (induction pre) (auto split: if_splits)
    then have "p = f" using assms(3) rs by simp
    then show ?thesis using assms(1,4) rs Some unfolding ValidateRegistries_iff by blast
  qed
qed

lemma hosts_share_settings:
  assumes "ValidateRegistries L rs = None" and "a \<in> set rs" and "b \<in> set rs" and "ConfigHost L a = ConfigHost L b"
  shows "rg_TLS a = rg_TLS b \<and>
    (rg_Authentication a = rg_Authentication b \<or>
     sealed (rg_Authentication a) \<and> sealed (rg_Authentication b) \<and>
     ra_Token (rg_Authentication a) = [] \<and> ra_Token (rg_Authentication b) = [])"
proof -
  let ?p = "\<lambda>p. ConfigHost L p = ConfigHost L b"
  obtain f where f: "List.find ?p rs = Some f"
    using assms(3) by (cases "List.find ?p rs") (auto simp: find_None_iff)
  have "f = a \<or> sameRegistryConfig f a" by (rule first_of_host [OF assms(1,2) f assms(4)])
  then have a: "rg_TLS f = rg_TLS a \<and> (rg_Authentication f = rg_Authentication a \<or> open_pair f a)"
    using sameRegistryConfig_D [of f a] by blast
  have "f = b \<or> sameRegistryConfig f b" by (rule first_of_host [OF assms(1,3) f refl])
  then have b: "rg_TLS f = rg_TLS b \<and> (rg_Authentication f = rg_Authentication b \<or> open_pair f b)"
    using sameRegistryConfig_D [of f b] by blast
  from a b show ?thesis unfolding open_pair_def by auto
qed

text \<open>Of an accepted list, any two entries that configure the same host have the same TLS settings, and
  the same credentials unless both are ciphertext or empty and neither has a token: credentials given in
  the clear are never lost to another entry of their host, while of two entries with different
  ciphertexts, or of one with ciphertext and one without credentials, the last one wins unseen.\<close>

theorem accepted_hosts_agree:
  assumes "ValidateRegistries L rs = None" and "a \<in> set rs" and "b \<in> set rs" and "ConfigHost L a = ConfigHost L b"
  shows "rg_TLS a = rg_TLS b \<and>
    (rg_Authentication a = rg_Authentication b \<or>
     sealed (rg_Authentication a) \<and> sealed (rg_Authentication b) \<and>
     ra_Token (rg_Authentication a) = [] \<and> ra_Token (rg_Authentication b) = [])"
  using assms by (rule hosts_share_settings)

definition bare_registry :: "string \<Rightarrow> string \<Rightarrow> string \<Rightarrow> Registries" where
  "bare_registry name user pass =
     \<lparr>rg_Name = name, rg_Authentication = \<lparr>ra_Username = user, ra_Password = pass, ra_Token = []\<rparr>,
      rg_Proxy = Some \<lparr>rp_URL = ''mirror/v2'', rp_Rewrite = []\<rparr>, rg_TLS = None\<rparr>"

definition sample_lib :: registry_lib where
  "sample_lib =
     \<lparr>rl_url = (\<lambda>u. Some \<lparr>u_Scheme = ''https'', u_Host = fst (cut (CHR ''/'') (drop 8 u)), u_User = False\<rparr>),
      rl_pem = (\<lambda>_. None), rl_groups = (\<lambda>_. Some 0)\<rparr>"

lemma accepted_hosts_agree_witness:
  "ValidateRegistries sample_lib
     [bare_registry ''a'' (VaultHeader @ ''1'') (VaultHeader @ ''2''), bare_registry ''b'' [] []] = None \<and>
   ConfigHost sample_lib (bare_registry ''a'' (VaultHeader @ ''1'') (VaultHeader @ ''2'')) = ''mirror'' \<and>
   ConfigHost sample_lib (bare_registry ''b'' [] []) = ''mirror'' \<and>
   sealed (rg_Authentication (bare_registry ''a'' (VaultHeader @ ''1'') (VaultHeader @ ''2'')))"
proof -
  let ?a = "bare_registry ''a'' (VaultHeader @ ''1'') (VaultHeader @ ''2'')" and ?b = "bare_registry ''b'' [] []"
  have ok: "ValidateRegistries sample_lib [?a, ?b] = None" by code_simp
  have hosts: "ConfigHost sample_lib ?a = ''mirror''" "ConfigHost sample_lib ?b = ''mirror''" by code_simp+
  have differ: "rg_Authentication ?a \<noteq> rg_Authentication ?b" by code_simp
  show ?thesis using accepted_hosts_agree [OF ok, of ?a ?b] ok hosts differ by auto
qed

text \<open>A replacement refers to no group the pattern does not capture: after the escaped dollars are taken
  out, every numbered reference of an accepted rewrite is at most the number of groups; its pattern
  compiles and its replacement is not empty.\<close>

theorem rewrite_accepted:
  assumes "RegistryProxy_Validate L (Some p) name = None" and "(pattern, replacement) \<in> set (rp_Rewrite p)"
  shows "\<exists>groups. rl_groups L pattern = Some groups \<and> replacement \<noteq> [] \<and>
    (\<forall>w \<in> set (group_refs (drop_escapes replacement)). \<forall>n. atoi w = Some n \<longrightarrow> n \<le> int groups)"
proof -
  have refs: "bad_ref g ws = None \<Longrightarrow> \<forall>w \<in> set ws. \<forall>n. atoi w = Some n \<longrightarrow> n \<le> int g" for g ws
    by (induction ws) (auto split: option.splits if_splits)
  have each: "rewrite_errors L name rs = None \<Longrightarrow> (pattern, replacement) \<in> set rs \<Longrightarrow>
      \<exists>g. rl_groups L pattern = Some g \<and> replacement \<noteq> [] \<and> bad_ref g (group_refs (drop_escapes replacement)) = None" for rs
    by (induction L name rs rule: rewrite_errors.induct) (auto split: option.splits if_splits)
  have "rewrite_errors L name (rp_Rewrite p) = None"
    using assms(1) by (auto simp: RegistryProxy_Validate_def split: if_splits option.splits)
  from each [OF this assms(2)] refs show ?thesis by blast
qed

end
