(* ===== verification/Yaml_Splice.thy ===== *)
theory Yaml_Splice
  imports Cargo_Prelude
begin

section \<open>Rewriting one scalar of a YAML document\<close>

text \<open>
  The text layer of \<open>internal/clustercfg/vaultpath.go\<close>: how a document is numbered in lines, where a
  scalar and a block scalar begin and end, how a value is quoted, and the splice that replaces one
  value and leaves every other byte. Where a value sits is reported by the YAML library as a token; the
  library's encoder and decoder are parameters of \<open>renderScalar\<close>. Offsets are byte offsets, lines and
  columns are counted from 1. A slice out of range is a run-time panic in Go and the error
  \<open>SplicePanic\<close> here. Quoting goes by bytes, which on valid UTF-8 is the same as by runes: only ASCII
  characters are escaped.
\<close>

subsection \<open>Lines\<close>

definition nl :: char where "nl = CHR 0x0A"

definition cr :: char where "cr = CHR 0x0D"

definition sp :: char where "sp = CHR '' ''"

definition blank_char :: "char \<Rightarrow> bool" where
  "blank_char c \<longleftrightarrow> c = sp \<or> c = CHR 0x09"

fun line_starts :: "nat \<Rightarrow> string \<Rightarrow> nat list" where
  "line_starts i [] = []"
| "line_starts i (c # cs) =
     (if c = nl then (i + 1) # line_starts (i + 1) cs
      else if c = cr \<and> (cs = [] \<or> hd cs \<noteq> nl) then (i + 1) # line_starts (i + 1) cs
      else line_starts (i + 1) cs)"

definition lineOffsets :: "string \<Rightarrow> nat list" where
  "lineOffsets t = 0 # line_starts 0 t"

definition lineEndOffset :: "string \<Rightarrow> nat list \<Rightarrow> nat \<Rightarrow> nat" where
  "lineEndOffset t ls line =
     (if line \<ge> length ls then length t
      else (let end1 = ls ! line - 1 in
            if t ! end1 = nl \<and> end1 > ls ! (line - 1) \<and> t ! (end1 - 1) = cr then end1 - 1 else end1))"

definition lineEndingAt :: "string \<Rightarrow> nat list \<Rightarrow> nat \<Rightarrow> string" where
  "lineEndingAt t ls line =
     (let e = lineEndOffset t ls line in
      if e < length t \<and> t ! e = cr then
        (if e + 1 < length t \<and> t ! (e + 1) \<noteq> nl then [cr] else [cr, nl])
      else [nl])"

text \<open>\<open>text[a:b]\<close>.\<close>

definition sub :: "string \<Rightarrow> nat \<Rightarrow> nat \<Rightarrow> string" where
  "sub t a b = take (b - a) (drop a t)"

definition indentOf :: "string \<Rightarrow> nat" where
  "indentOf line = length line - length (trim_left (\<lambda>c. c = sp) line)"

definition line_content :: "string \<Rightarrow> nat list \<Rightarrow> nat \<Rightarrow> string" where
  "line_content t ls line = sub t (ls ! (line - 1)) (lineEndOffset t ls line)"

fun block_loop :: "string \<Rightarrow> nat list \<Rightarrow> nat \<Rightarrow> nat list \<Rightarrow> nat \<Rightarrow> nat" where
  "block_loop t ls headerIndent [] e = e"
| "block_loop t ls headerIndent (line # rest) e =
     (if ls ! (line - 1) \<ge> length t then e
      else (let content = line_content t ls line in
            if trim_space content \<noteq> [] \<and> indentOf content \<le> headerIndent then e
            else block_loop t ls headerIndent rest (lineEndOffset t ls line)))"

definition blockEndOffset :: "string \<Rightarrow> nat list \<Rightarrow> nat \<Rightarrow> nat" where
  "blockEndOffset t ls headerLine =
     block_loop t ls (indentOf (line_content t ls headerLine)) [headerLine + 1 ..< length ls + 1]
       (lineEndOffset t ls headerLine)"

function strip_dashes :: "string \<Rightarrow> string" where
  "strip_dashes s =
     (if has_prefix s ''- '' then strip_dashes (trim_left (\<lambda>c. c = sp) (drop 2 s)) else s)"
  by pat_completeness auto
termination
proof (relation "measure length")
  fix s assume "has_prefix s ''- ''"
  then obtain r where "s = ''- '' @ r" by (auto simp: has_prefix_def prefix_def)
  moreover have "length (trim_left (\<lambda>c. c = sp) r) \<le> length r"
    by (simp add: trim_left_def length_dropWhile_le)
  ultimately show "(trim_left (\<lambda>c. c = sp) (drop 2 s), s) \<in> measure length" by simp
qed simp

declare strip_dashes.simps [simp del]

definition keyColumnOn :: "string \<Rightarrow> nat \<Rightarrow> nat option" where
  "keyColumnOn line valueColumn =
     (if valueColumn - 1 > length line then None
      else (let before = take (valueColumn - 1) line in
            if \<not> has_suffix (trim_right blank_char before) '':'' then None
            else Some (length before - length (strip_dashes (trim_left (\<lambda>c. c = sp) before)) + 1)))"

subsection \<open>Scalars in the text\<close>

definition header_char :: "char \<Rightarrow> bool" where
  "header_char c \<longleftrightarrow> c = CHR ''+'' \<or> c = CHR ''-'' \<or> is_digit c"

fun blockHeaderAt :: "string \<Rightarrow> string option" where
  "blockHeaderAt [] = None"
| "blockHeaderAt (c # cs) =
     (if c \<noteq> CHR ''|'' \<and> c \<noteq> CHR ''>'' then None
      else (let rest = trim_left blank_char (dropWhile header_char cs) in
            if rest \<noteq> [] \<and> hd rest \<noteq> CHR ''#'' then None
            else Some (c # takeWhile header_char cs)))"

text \<open>What follows the opening quote, up to and with the closing one.\<close>

fun quoted_loop :: "char \<Rightarrow> string \<Rightarrow> string option" where
  "quoted_loop q [] = None"
| "quoted_loop q (c # cs) =
     (if c = CHR 0x5C then
        (if q = CHR 0x22 then
           (case cs of [] \<Rightarrow> None | d # ds \<Rightarrow> map_option (\<lambda>r. c # d # r) (quoted_loop q ds))
         else map_option (Cons c) (quoted_loop q cs))
      else if c = q then
        (case cs of
           d # ds \<Rightarrow> if q = CHR 0x27 \<and> d = CHR 0x27 then map_option (\<lambda>r. c # d # r) (quoted_loop q ds) else Some [c]
         | [] \<Rightarrow> Some [c])
      else if c = nl then None
      else map_option (Cons c) (quoted_loop q cs))"

definition quotedScalarAt :: "string \<Rightarrow> string option" where
  "quotedScalarAt s =
     (case s of
        [] \<Rightarrow> None
      | q # cs \<Rightarrow> if q \<noteq> CHR 0x22 \<and> q \<noteq> CHR 0x27 then None else map_option (Cons q) (quoted_loop q cs))"

subsection \<open>Quoting\<close>

definition hex_digit :: "nat \<Rightarrow> char" where
  "hex_digit n = char_of (if n < 10 then 48 + n else 87 + n)"

definition control_char :: "char \<Rightarrow> bool" where
  "control_char c \<longleftrightarrow> byte c < 32 \<or> byte c = 127"

definition quote_char :: "char \<Rightarrow> string" where
  "quote_char c =
     (if c = CHR 0x22 then [CHR 0x5C, CHR 0x22]
      else if c = CHR 0x5C then [CHR 0x5C, CHR 0x5C]
      else if c = nl then [CHR 0x5C, CHR ''n'']
      else if c = cr then [CHR 0x5C, CHR ''r'']
      else if c = CHR 0x09 then [CHR 0x5C, CHR ''t'']
      else if control_char c then [CHR 0x5C, CHR ''x'', hex_digit (byte c div 16), hex_digit (byte c mod 16)]
      else [c])"

definition quoteScalar :: "string \<Rightarrow> string" where
  "quoteScalar v = [CHR 0x22] @ concat (map quote_char v) @ [CHR 0x22]"

text \<open>\<open>utf8.ValidString\<close>: for a lead byte, the number of continuation bytes and the range of the
  first of them.\<close>

definition utf8_lead :: "nat \<Rightarrow> (nat \<times> nat \<times> nat) option" where
  "utf8_lead b =
     (if b < 128 then Some (0, 0, 0)
      else if 194 \<le> b \<and> b \<le> 223 then Some (1, 128, 191)
      else if b = 224 then Some (2, 160, 191)
      else if b = 237 then Some (2, 128, 159)
      else if 225 \<le> b \<and> b \<le> 239 then Some (2, 128, 191)
      else if b = 240 then Some (3, 144, 191)
      else if 241 \<le> b \<and> b \<le> 243 then Some (3, 128, 191)
      else if b = 244 then Some (3, 128, 143)
      else None)"

fun valid_utf8 :: "string \<Rightarrow> bool" where
  "valid_utf8 [] = True"
| "valid_utf8 (c # cs) =
     (case utf8_lead (byte c) of
        None \<Rightarrow> False
      | Some (n, lo, hi) \<Rightarrow>
          n \<le> length cs \<and> (n = 0 \<or> lo \<le> byte (hd cs) \<and> byte (hd cs) \<le> hi) \<and>
          list_all (\<lambda>d. 128 \<le> byte d \<and> byte d \<le> 191) (take n cs) \<and> valid_utf8 (drop n cs))"

definition blockSafe :: "string \<Rightarrow> bool" where
  "blockSafe v \<longleftrightarrow>
     \<not> (v \<noteq> [] \<and> trim_by (\<lambda>c. c = nl) v = []) \<and>
     list_all (\<lambda>c. c = nl \<or> \<not> control_char c) v \<and>
     (nl \<notin> set v \<or>
      \<not> (has_prefix v [nl] \<and>
         (case filter (\<lambda>l. l \<noteq> []) (split_on nl v) of [] \<Rightarrow> False | l # _ \<Rightarrow> has_prefix l [sp])) \<and>
      list_all (\<lambda>l. l = trim_right blank_char l) (split_on nl v))"

text \<open>The encoder and the decoder of the YAML library: \<open>marshal\<close> writes a string, \<open>unmarshal\<close> reads a
  document as a map of strings.\<close>

datatype render_error = NotUTF8 | MarshalFailed

definition scalarReadsBack :: "(string \<Rightarrow> (string \<rightharpoonup> string) option) \<Rightarrow> string \<Rightarrow> string \<Rightarrow> bool" where
  "scalarReadsBack unmarshal scalar v =
     (case unmarshal (''v: '' @ scalar @ [nl]) of
        None \<Rightarrow> False
      | Some m \<Rightarrow> (case m ''v'' of None \<Rightarrow> [] | Some w \<Rightarrow> w) = v)"

definition trim_prefix :: "string \<Rightarrow> string \<Rightarrow> string" where
  "trim_prefix s p = (if has_prefix s p then drop (length p) s else s)"

definition drop_newline :: "string \<Rightarrow> string" where
  "drop_newline s = (if has_suffix s [nl] then butlast s else s)"

definition render_text ::
  "(string \<Rightarrow> string option) \<Rightarrow> (string \<Rightarrow> (string \<rightharpoonup> string) option) \<Rightarrow> string \<Rightarrow> bool \<Rightarrow> render_error + string"
where
  "render_text marshal unmarshal v flow =
     (if flow then Inr (quoteScalar v)
      else if blockSafe v then
        (case marshal v of
           None \<Rightarrow> Inl MarshalFailed
         | Some encoded \<Rightarrow>
             Inr (if scalarReadsBack unmarshal (drop_newline encoded) v then drop_newline encoded else quoteScalar v))
      else Inr (quoteScalar v))"

definition renderScalar ::
  "(string \<Rightarrow> string option) \<Rightarrow> (string \<Rightarrow> (string \<rightharpoonup> string) option) \<Rightarrow> string \<Rightarrow> bool \<Rightarrow>
   render_error + (string \<times> string list)"
where
  "renderScalar marshal unmarshal v flow =
     (if \<not> valid_utf8 v then Inl NotUTF8
      else bind_res (render_text marshal unmarshal v flow) (\<lambda>scalar.
        let ws = split_on nl scalar in Inr (hd ws, map (\<lambda>l. trim_prefix l ''  '') (tl ws))))"

subsection \<open>The splice\<close>

record token =
  tk_line :: nat
  tk_column :: nat
  tk_offset :: nat
  tk_value :: string
  tk_origin :: string

datatype splice_error = OutsideDocument nat nat | NotABlock nat nat | NotParsed nat nat | SplicePanic

definition scalarStartsAt :: "string \<Rightarrow> nat \<Rightarrow> nat \<Rightarrow> bool \<Rightarrow> string \<Rightarrow> bool" where
  "scalarStartsAt t at lineEnd isLiteral current \<longleftrightarrow>
     (if isLiteral then blockHeaderAt (sub t at lineEnd) \<noteq> None
      else current \<noteq> [] \<and> has_prefix (drop at t) current)"

text \<open>The nearest column at or before \<open>at\<close> where the value starts.\<close>

fun walk_back :: "(nat \<Rightarrow> bool) \<Rightarrow> nat list \<Rightarrow> nat \<Rightarrow> nat" where
  "walk_back p [] start = start"
| "walk_back p (at # ats) start = (if p at then at else walk_back p ats start)"

definition value_start :: "string \<Rightarrow> nat \<Rightarrow> nat \<Rightarrow> nat \<Rightarrow> bool \<Rightarrow> string \<Rightarrow> nat" where
  "value_start t lineStart lineEnd start isLiteral current =
     (if scalarStartsAt t start lineEnd isLiteral current then start
      else walk_back (\<lambda>at. scalarStartsAt t at lineEnd isLiteral current) (rev [lineStart ..< start]) start)"

definition current_text ::
  "string \<Rightarrow> nat \<Rightarrow> nat \<Rightarrow> bool \<Rightarrow> string \<Rightarrow> nat \<Rightarrow> nat \<Rightarrow> splice_error + string"
where
  "current_text t start lineEnd isLiteral current line column =
     bind_res
       (if isLiteral then
          (case blockHeaderAt (sub t start lineEnd) of
             None \<Rightarrow> Inl (NotABlock line column) | Some header \<Rightarrow> Inr header)
        else Inr current)
       (\<lambda>current.
         if has_prefix (drop start t) current then Inr current
         else (case quotedScalarAt (drop start t) of
                 None \<Rightarrow> Inl (NotParsed line column) | Some quoted \<Rightarrow> Inr quoted))"

text \<open>The span to replace: where it starts, what of its own line stays, where it ends.\<close>

definition span_of :: "string \<Rightarrow> bool \<Rightarrow> token \<Rightarrow> splice_error + (nat \<times> string \<times> nat)" where
  "span_of t isLiteral tk =
     (let ls = lineOffsets t; line = tk_line tk; column = tk_column tk in
      if line < 1 \<or> line > length ls then Inl (OutsideDocument line column)
      else (let lineStart = ls ! (line - 1); reported = lineStart + column - 1 in
        if reported > length t then Inl (OutsideDocument line column)
        else (let lineEnd = lineEndOffset t ls line;
                  current0 = trim_by (\<lambda>c. blank_char c \<or> c = cr \<or> c = nl) (tk_origin tk) in
          if isLiteral \<and> reported > lineEnd then Inl SplicePanic
          else (let start = value_start t lineStart lineEnd reported isLiteral current0 in
            bind_res (current_text t start lineEnd isLiteral current0 line column) (\<lambda>current.
              let currentEnd = start + length current in
              if isLiteral then Inr (start, sub t currentEnd lineEnd, blockEndOffset t ls line)
              else if nl \<in> set current then Inr (start, [], currentEnd)
              else if currentEnd > lineEnd then Inl SplicePanic
              else Inr (start, sub t currentEnd lineEnd, lineEnd))))))"

definition splice_indent :: "string \<Rightarrow> token \<Rightarrow> nat" where
  "splice_indent t tk =
     (case keyColumnOn (line_content t (lineOffsets t) (tk_line tk)) (tk_column tk) of
        Some keyColumn \<Rightarrow> keyColumn + 1 | None \<Rightarrow> tk_column tk)"

definition tail_text :: "string \<Rightarrow> nat \<Rightarrow> string list \<Rightarrow> string" where
  "tail_text eol indent tail =
     concat (map (\<lambda>l. eol @ (if l \<noteq> [] then replicate indent sp @ l else [])) tail)"

definition spliceScalar ::
  "string \<Rightarrow> bool \<Rightarrow> token \<Rightarrow> string \<Rightarrow> string list \<Rightarrow> splice_error + string"
where
  "spliceScalar t isLiteral tk head tail =
     bind_res (span_of t isLiteral tk) (\<lambda>(start, rest, end1).
       let eol = lineEndingAt t (lineOffsets t) (tk_line tk) in
       Inr (take start t @
            (if start > 0 \<and> t ! (start - 1) = CHR '':'' then [sp] else []) @
            head @ rest @ tail_text eol (splice_indent t tk) tail @
            drop end1 t @ (if end1 \<ge> length t then eol else [])))"

subsection \<open>Carriage returns\<close>

fun crlf_to_lf :: "string \<Rightarrow> string" where
  "crlf_to_lf [] = []"
| "crlf_to_lf (c # cs) =
     (if c = cr \<and> cs \<noteq> [] \<and> hd cs = nl then nl # crlf_to_lf (tl cs) else c # crlf_to_lf cs)"

definition lf_to_crlf :: "string \<Rightarrow> string" where
  "lf_to_crlf s = concat (map (\<lambda>c. if c = nl then [cr, nl] else [c]) s)"

fun count_crlf :: "string \<Rightarrow> nat" where
  "count_crlf [] = 0"
| "count_crlf (c # cs) =
     (if c = cr \<and> cs \<noteq> [] \<and> hd cs = nl then Suc (count_crlf (tl cs)) else count_crlf cs)"

definition isCRLFDocument :: "string \<Rightarrow> bool" where
  "isCRLFDocument src \<longleftrightarrow> count_list src nl > 0 \<and> count_list src nl = count_crlf src"

definition onLineFeeds :: "string \<Rightarrow> (string \<Rightarrow> 'e + string) \<Rightarrow> 'e + string" where
  "onLineFeeds src rewrite =
     (if \<not> isCRLFDocument src then rewrite src
      else bind_res (rewrite (crlf_to_lf src)) (\<lambda>r. Inr (lf_to_crlf r)))"

subsection \<open>The lines of a text\<close>

text \<open>The reference the offset arithmetic is measured against: a text as its lines, each with the
  break that ends it. The last line has none.\<close>

fun text_lines :: "string \<Rightarrow> (string \<times> string) list" where
  "text_lines [] = [([], [])]"
| "text_lines (c # cs) =
     (if c = nl then ([], [nl]) # text_lines cs
      else if c = cr \<and> cs \<noteq> [] \<and> hd cs = nl then ([], [cr, nl]) # text_lines (tl cs)
      else if c = cr then ([], [cr]) # text_lines cs
      else (c # fst (hd (text_lines cs)), snd (hd (text_lines cs))) # tl (text_lines cs))"

definition flat :: "(string \<times> string) list \<Rightarrow> string" where
  "flat ls = concat (map (\<lambda>(l, e). l @ e) ls)"

fun well_broken :: "(string \<times> string) list \<Rightarrow> bool" where
  "well_broken [] = False"
| "well_broken [(l, e)] = (nl \<notin> set l \<and> cr \<notin> set l \<and> e = [])"
| "well_broken ((l, e) # (l', e') # ls) =
     (nl \<notin> set l \<and> cr \<notin> set l \<and> e \<in> {[nl], [cr], [cr, nl]} \<and>
      (e = [cr] \<longrightarrow> (l' \<noteq> [] \<or> e' = [] \<or> hd e' \<noteq> nl)) \<and> well_broken ((l', e') # ls))"

lemma nl_cr [simp]: "nl \<noteq> cr" "cr \<noteq> nl" "sp \<noteq> nl" "nl \<noteq> sp" "sp \<noteq> cr" "cr \<noteq> sp"
  by (simp_all add: nl_def cr_def sp_def)

lemma flat_simps [simp]: "flat [] = []" "flat ((l, e) # ls) = l @ e @ flat ls" "flat (xs @ ys) = flat xs @ flat ys"
  by (simp_all add: flat_def)

lemma text_lines_nonempty [simp]: "text_lines t \<noteq> []"
  by (cases t) auto

lemma text_lines_code [code]:
  "text_lines [] = [([], [])]"
  "text_lines (c # cs) =
     (if c = nl then ([], [nl]) # text_lines cs
      else if c = cr \<and> cs \<noteq> [] \<and> hd cs = nl then ([], [cr, nl]) # text_lines (tl cs)
      else if c = cr then ([], [cr]) # text_lines cs
      else (case text_lines cs of [] \<Rightarrow> [] | x # ls \<Rightarrow> (c # fst x, snd x) # ls))"
  using text_lines_nonempty [of cs] by (simp_all split: list.split)

lemma flat_Cons: "ls \<noteq> [] \<Longrightarrow> flat ((c # fst (hd ls), snd (hd ls)) # tl ls) = c # flat ls"
  by (cases ls) auto

lemma flat_text_lines [simp]: "flat (text_lines t) = t"
proof (induction t rule: text_lines.induct)
  case (2 c cs)
  have "cs \<noteq> [] \<Longrightarrow> hd cs = nl \<Longrightarrow> nl # tl cs = cs" by (cases cs) auto
  with 2 show ?case
    using flat_Cons [of "text_lines cs" c] by auto
qed simp

lemma text_lines_hd: "fst (hd (text_lines t)) = [] \<Longrightarrow> snd (hd (text_lines t)) = [] \<or> t \<noteq> [] \<and> hd (snd (hd (text_lines t))) = hd t"
  by (cases t) auto

lemma well_broken_Cons:
  "ls \<noteq> [] \<Longrightarrow> well_broken ((l, e) # ls) \<longleftrightarrow>
     nl \<notin> set l \<and> cr \<notin> set l \<and> e \<in> {[nl], [cr], [cr, nl]} \<and>
     (e = [cr] \<longrightarrow> fst (hd ls) \<noteq> [] \<or> snd (hd ls) = [] \<or> hd (snd (hd ls)) \<noteq> nl) \<and> well_broken ls"
  by (cases ls) auto

lemma well_broken_hd:
  "ls \<noteq> [] \<Longrightarrow> c \<noteq> nl \<Longrightarrow> c \<noteq> cr \<Longrightarrow> well_broken ls \<Longrightarrow> well_broken ((c # fst (hd ls), snd (hd ls)) # tl ls)"
  by (cases ls rule: well_broken.cases) auto

lemma well_broken_text_lines [simp]: "well_broken (text_lines t)"
proof (induction t rule: text_lines.induct)
  case (2 c cs)
  then show ?case using text_lines_hd [of cs]
    by (auto simp: well_broken_Cons well_broken_hd)
qed simp

lemma text_lines_unique: "well_broken ls \<Longrightarrow> text_lines (flat ls) = ls"
proof (induction ls rule: well_broken.induct)
  case (2 l e)
  then show ?case by (induction l) auto
next
  case (3 l e l' e' ls)
  let ?rest = "flat ((l', e') # ls)"
  have rest: "text_lines ?rest = (l', e') # ls" using 3 by simp
  have "text_lines (e @ ?rest) = ([], e) # (l', e') # ls"
  proof (cases "e = [cr]")
    case True
    have "?rest = [] \<or> hd ?rest \<noteq> nl"
      using 3(2) True by (cases l') (auto split: if_splits, (cases e'; cases ls; auto)+)
    with True rest show ?thesis by (cases ?rest) (auto simp del: flat_simps(2))
  qed (use 3(2) rest in \<open>auto simp del: flat_simps(2)\<close>)
  then have "text_lines (l @ e @ ?rest) = (l, e) # (l', e') # ls" if "nl \<notin> set l" "cr \<notin> set l"
    using that by (induction l) auto
  with 3(2) show ?case by simp
qed simp

fun starts :: "nat \<Rightarrow> (string \<times> string) list \<Rightarrow> nat list" where
  "starts i [] = []"
| "starts i [x] = []"
| "starts i ((l, e) # x # ls) = (i + length l + length e) # starts (i + length l + length e) (x # ls)"

lemma starts_Cons: "ls \<noteq> [] \<Longrightarrow> starts i ((l, e) # ls) = (i + length l + length e) # starts (i + length l + length e) ls"
  by (cases ls) auto

lemma starts_shift: "ls \<noteq> [] \<Longrightarrow> starts i ((c # fst (hd ls), snd (hd ls)) # tl ls) = starts (Suc i) ls"
  by (cases ls; cases "tl ls") auto

lemma line_starts_lines: "line_starts i t = starts i (text_lines t)"
proof (induction t arbitrary: i rule: text_lines.induct)
  case (2 c cs)
  show ?case
  proof (cases "c = cr \<and> cs \<noteq> [] \<and> hd cs = nl")
    case True
    with 2(2) show ?thesis by (cases cs) (auto simp: starts_Cons)
  next
    case False
    with 2(1,3,4) show ?thesis by (auto simp: starts_Cons starts_shift)
  qed
qed simp

lemma starts_nth: "k < length ls \<Longrightarrow> (i # starts i ls) ! k = i + length (flat (take k ls))"
proof (induction i ls arbitrary: k rule: starts.induct)
  case (3 i l e x ls)
  then show ?case by (cases k) auto
qed auto

lemma length_starts: "ls \<noteq> [] \<Longrightarrow> length (i # starts i ls) = length ls"
  by (induction i ls rule: starts.induct) auto

lemma lineOffsets_nth: "k < length (text_lines t) \<Longrightarrow> lineOffsets t ! k = length (flat (take k (text_lines t)))"
  using starts_nth [of k "text_lines t" 0] by (simp add: lineOffsets_def line_starts_lines)

lemma length_lineOffsets [simp]: "length (lineOffsets t) = length (text_lines t)"
  unfolding lineOffsets_def line_starts_lines by (rule length_starts) simp

lemma well_broken_drop: "well_broken ls \<Longrightarrow> k < length ls \<Longrightarrow> well_broken (drop k ls)"
proof (induction k arbitrary: ls)
  case (Suc k)
  then show ?case by (cases ls; cases "tl ls") (auto simp: well_broken_Cons)
qed simp

lemma well_broken_start:
  assumes "well_broken ls" "fst (hd ls) \<noteq> [] \<or> snd (hd ls) = [] \<or> hd (snd (hd ls)) \<noteq> nl"
  shows "flat ls = [] \<or> hd (flat ls) \<noteq> nl"
proof (cases ls)
  case (Cons x xs)
  obtain l e where "x = (l, e)" by fastforce
  with assms Cons show ?thesis by (cases l; cases xs) (auto simp: well_broken_Cons)
qed simp

text \<open>One line of a text and what surrounds it.\<close>

lemma line_split:
  assumes "k < length (text_lines t)" "text_lines t ! k = (l, e)"
  shows "t = flat (take k (text_lines t)) @ l @ e @ flat (drop (Suc k) (text_lines t))"
    and "nl \<notin> set l" "cr \<notin> set l"
    and "Suc k < length (text_lines t) \<Longrightarrow> e \<in> {[nl], [cr], [cr, nl]}"
    and "Suc k = length (text_lines t) \<Longrightarrow> e = []"
    and "e = [cr] \<Longrightarrow> Suc k < length (text_lines t) \<Longrightarrow>
      flat (drop (Suc k) (text_lines t)) = [] \<or> hd (flat (drop (Suc k) (text_lines t))) \<noteq> nl"
proof -
  let ?ls = "text_lines t"
  have d: "drop k ?ls = (l, e) # drop (Suc k) ?ls" using assms by (metis Cons_nth_drop_Suc)
  have "flat ?ls = flat (take k ?ls) @ flat (drop k ?ls)" by (metis append_take_drop_id flat_simps(3))
  with d show "t = flat (take k ?ls) @ l @ e @ flat (drop (Suc k) ?ls)" by simp
  have wb: "well_broken ((l, e) # drop (Suc k) ?ls)" using well_broken_drop [of ?ls k] assms(1) d by simp
  then show "nl \<notin> set l" "cr \<notin> set l" by (cases "drop (Suc k) ?ls"; auto simp: well_broken_Cons)+
  show "e \<in> {[nl], [cr], [cr, nl]}" if "Suc k < length ?ls" using wb that by (simp add: well_broken_Cons)
  show "e = []" if "Suc k = length ?ls" using wb that by simp
  show "flat (drop (Suc k) ?ls) = [] \<or> hd (flat (drop (Suc k) ?ls)) \<noteq> nl" if "e = [cr]" "Suc k < length ?ls"
    using wb that by (intro well_broken_start) (auto simp: well_broken_Cons)
qed

lemma lineEndOffset_lines:
  assumes "k < length (text_lines t)"
  shows "lineEndOffset t (lineOffsets t) (Suc k) = length (flat (take k (text_lines t))) + length (fst (text_lines t ! k))"
proof -
  let ?ls = "text_lines t" let ?p = "flat (take k ?ls)"
  obtain l e where le: "?ls ! k = (l, e)" by fastforce
  note s = line_split [OF assms le]
  show ?thesis
  proof (cases "Suc k < length ?ls")
    case False
    with assms have last: "Suc k = length ?ls" by simp
    with s(1) s(5) have "t = ?p @ l" by simp
    then have "length t = length ?p + length l" by (metis length_append)
    with last le show ?thesis by (simp add: lineEndOffset_def)
  next
    case True
    have next1: "lineOffsets t ! Suc k = length ?p + length l + length e"
      using True le by (simp add: lineOffsets_nth take_Suc_conv_app_nth)
    have start: "lineOffsets t ! k = length ?p" using assms by (simp add: lineOffsets_nth)
    have at: "t ! (length ?p + i) = (l @ e @ flat (drop (Suc k) ?ls)) ! i" for i
      by (subst s(1)) (simp add: nth_append)
    have "e \<in> {[nl], [cr], [cr, nl]}" using s(4) True .
    then consider "e = [nl]" | "e = [cr]" | "e = [cr, nl]" by auto
    then show ?thesis
    proof cases
      case 1
      have "length l > 0 \<Longrightarrow> t ! (length ?p + length l - 1) \<noteq> cr"
        using at [of "length l - 1"] s(3) by (cases l rule: rev_cases) (auto simp: nth_append)
      with 1 True next1 start at [of "length l"] le show ?thesis
        by (auto simp: lineEndOffset_def Let_def nth_append)
    next
      case 2
      with True next1 start at [of "length l"] le show ?thesis
        by (auto simp: lineEndOffset_def Let_def nth_append)
    next
      case 3
      with True next1 start at [of "length l"] at [of "length l + 1"] le show ?thesis
        by (auto simp: lineEndOffset_def Let_def nth_append)
    qed
  qed
qed

lemma line_content_lines:
  assumes "k < length (text_lines t)"
  shows "line_content t (lineOffsets t) (Suc k) = fst (text_lines t ! k)"
proof -
  obtain l e where le: "text_lines t ! k = (l, e)" by fastforce
  have "drop (length (flat (take k (text_lines t)))) t = l @ e @ flat (drop (Suc k) (text_lines t))"
    by (subst line_split(1) [OF assms le]) simp
  with assms le show ?thesis
    by (simp add: line_content_def sub_def lineEndOffset_lines lineOffsets_nth)
qed

lemma lineEndingAt_lines:
  assumes "Suc k < length (text_lines t)" "snd (text_lines t ! k) = [cr] \<longrightarrow> flat (drop (Suc k) (text_lines t)) \<noteq> []"
  shows "lineEndingAt t (lineOffsets t) (Suc k) = snd (text_lines t ! k)"
proof -
  let ?ls = "text_lines t" let ?p = "flat (take k ?ls)"
  obtain l e where le: "?ls ! k = (l, e)" by fastforce
  have k: "k < length ?ls" using assms(1) by simp
  note s = line_split [OF k le]
  have at: "t ! (length ?p + i) = (l @ e @ flat (drop (Suc k) ?ls)) ! i" for i
    by (subst s(1)) (simp add: nth_append)
  have len: "length t = length ?p + length l + length e + length (flat (drop (Suc k) ?ls))"
    by (subst s(1)) simp
  let ?o = "length ?p + length l"
  have o: "lineEndOffset t (lineOffsets t) (Suc k) = ?o" using le by (simp add: lineEndOffset_lines [OF k])
  have "e \<in> {[nl], [cr], [cr, nl]}" using s(4) assms(1) .
  then consider "e = [nl]" | "e = [cr]" | "e = [cr, nl]" by auto
  then show ?thesis
  proof cases
    case 1
    with at [of "length l"] have "t ! ?o = nl" by (simp add: nth_append)
    with 1 le show ?thesis by (simp add: lineEndingAt_def o)
  next
    case 2
    with s(6) assms le obtain d r where "flat (drop (Suc k) ?ls) = d # r" "d \<noteq> nl"
      by (cases "flat (drop (Suc k) ?ls)") auto
    with 2 at [of "length l"] at [of "length l + 1"] len
    have "t ! ?o = cr" "t ! Suc ?o \<noteq> nl" "Suc ?o < length t" by (auto simp: nth_append)
    with 2 le show ?thesis by (simp add: lineEndingAt_def o)
  next
    case 3
    with at [of "length l"] at [of "length l + 1"] len
    have "t ! ?o = cr" "t ! Suc ?o = nl" "?o < length t" by (auto simp: nth_append)
    with 3 le show ?thesis by (simp add: lineEndingAt_def o)
  qed
qed

text \<open>A block scalar: the lines after its header that are blank or deeper than the header's line.\<close>

definition in_block :: "nat \<Rightarrow> string \<times> string \<Rightarrow> bool" where
  "in_block headerIndent x \<longleftrightarrow> x \<noteq> ([], []) \<and> (trim_space (fst x) = [] \<or> headerIndent < indentOf (fst x))"

definition block_lines :: "(string \<times> string) list \<Rightarrow> (string \<times> string) list" where
  "block_lines ls = takeWhile (in_block (indentOf (fst (hd ls)))) (tl ls)"

definition unterminated :: "(string \<times> string) list \<Rightarrow> string" where
  "unterminated ls = flat (butlast ls) @ fst (last ls)"

lemma past_end: "k < length (text_lines t) \<Longrightarrow> length t \<le> lineOffsets t ! k \<longleftrightarrow> text_lines t ! k = ([], [])"
proof -
  assume k: "k < length (text_lines t)"
  obtain l e where le: "text_lines t ! k = (l, e)" by fastforce
  have "length t = lineOffsets t ! k + length l + length e + length (flat (drop (Suc k) (text_lines t)))"
    by (subst line_split(1) [OF k le]) (simp add: lineOffsets_nth [OF k])
  moreover have "Suc k < length (text_lines t) \<Longrightarrow> e \<noteq> []" using line_split(4) [OF k le] by auto
  ultimately show ?thesis using k le
    by (cases "Suc k < length (text_lines t)") (auto simp: not_less)
qed

lemma block_loop_lines:
  assumes "k < length (text_lines t)"
  shows "block_loop t (lineOffsets t) hi [Suc (Suc k) ..< length (text_lines t) + 1] (lineEndOffset t (lineOffsets t) (Suc k)) =
    length (flat (take k (text_lines t))) +
    length (unterminated (text_lines t ! k # takeWhile (in_block hi) (drop (Suc k) (text_lines t))))"
  using assms
proof (induction "length (text_lines t) - k" arbitrary: k)
  case (Suc n)
  let ?ls = "text_lines t"
  show ?case
  proof (cases "Suc k < length ?ls")
    case False
    with Suc(3) show ?thesis by (simp add: lineEndOffset_lines unterminated_def)
  next
    case True
    have d: "drop (Suc k) ?ls = ?ls ! Suc k # drop (Suc (Suc k)) ?ls" using True by (metis Cons_nth_drop_Suc)
    have "[Suc (Suc k) ..< length ?ls + 1] = Suc (Suc k) # [Suc (Suc (Suc k)) ..< length ?ls + 1]"
      using True by (simp add: upt_rec)
    moreover have "block_loop t (lineOffsets t) hi [Suc (Suc (Suc k)) ..< length ?ls + 1] (lineEndOffset t (lineOffsets t) (Suc (Suc k))) =
        length (flat (take (Suc k) ?ls)) +
        length (unterminated (?ls ! Suc k # takeWhile (in_block hi) (drop (Suc (Suc k)) ?ls)))"
      using Suc True by simp
    ultimately have loop: "block_loop t (lineOffsets t) hi [Suc (Suc k) ..< length ?ls + 1] (lineEndOffset t (lineOffsets t) (Suc k)) =
        (if in_block hi (?ls ! Suc k) then length (flat (take (Suc k) ?ls)) +
           length (unterminated (?ls ! Suc k # takeWhile (in_block hi) (drop (Suc (Suc k)) ?ls)))
         else lineEndOffset t (lineOffsets t) (Suc k))"
      using True by (simp add: past_end line_content_lines in_block_def Let_def not_le)
    have "length (flat (take (Suc k) ?ls)) = length (flat (take k ?ls)) + length (flat [?ls ! k])"
      using Suc(3) by (simp add: take_Suc_conv_app_nth)
    moreover have "length (flat [?ls ! k]) + length (unterminated (?ls ! Suc k # ys)) = length (unterminated (?ls ! k # ?ls ! Suc k # ys))" for ys
      by (simp add: unterminated_def flat_def)
    ultimately have "length (flat (take (Suc k) ?ls)) + length (unterminated (?ls ! Suc k # ys)) =
        length (flat (take k ?ls)) + length (unterminated (?ls ! k # ?ls ! Suc k # ys))" for ys
      by (simp only: add.assoc)
    moreover have "lineEndOffset t (lineOffsets t) (Suc k) = length (flat (take k ?ls)) + length (unterminated [?ls ! k])"
      by (simp add: lineEndOffset_lines [OF Suc(3)] unterminated_def)
    ultimately show ?thesis unfolding loop d by simp
  qed
qed simp

lemma blockEndOffset_lines:
  assumes "k < length (text_lines t)"
  shows "blockEndOffset t (lineOffsets t) (Suc k) =
    length (flat (take k (text_lines t))) + length (unterminated (text_lines t ! k # block_lines (drop k (text_lines t))))"
  using block_loop_lines [OF assms] assms
  by (simp add: blockEndOffset_def line_content_lines block_lines_def hd_drop_conv_nth drop_Suc tl_drop)

subsection \<open>What the splice replaces\<close>

lemma blockHeaderAt_prefix: "blockHeaderAt s = Some h \<Longrightarrow> prefix h s"
  by (cases s) (auto simp: Let_def takeWhile_is_prefix split: if_splits)

lemma quoted_loop_prefix: "quoted_loop q s = Some r \<Longrightarrow> prefix r s"
  by (induction q s arbitrary: r rule: quoted_loop.induct) (auto split: if_splits list.splits)

lemma quotedScalarAt_prefix: "quotedScalarAt s = Some r \<Longrightarrow> prefix r s"
  by (auto simp: quotedScalarAt_def dest: quoted_loop_prefix split: list.splits if_splits)

lemma prefix_sub: "prefix (sub t a b) (drop a t)"
  by (simp add: sub_def take_is_prefix)

lemma current_text_prefix:
  assumes "current_text t start lineEnd lit current line column = Inr r"
  shows "prefix r (drop start t)" and "lit \<Longrightarrow> prefix r (sub t start lineEnd)"
proof -
  show "prefix r (drop start t)"
    using assms by (auto simp: current_text_def bind_res_Inr has_prefix_def dest: quotedScalarAt_prefix split: if_splits option.splits)
  assume lit
  with assms obtain h where h: "blockHeaderAt (sub t start lineEnd) = Some h"
    by (auto simp: current_text_def split: option.splits)
  with blockHeaderAt_prefix prefix_sub have "prefix h (drop start t)" by (metis prefix_order.trans)
  with assms \<open>lit\<close> h have "r = h" by (simp add: current_text_def has_prefix_def)
  with h show "prefix r (sub t start lineEnd)" by (simp add: blockHeaderAt_prefix)
qed

lemma walk_back_in: "walk_back p ats start \<in> insert start (set ats)"
  by (induction ats) auto

lemma value_start_bounds:
  "lineStart \<le> reported \<Longrightarrow>
     lineStart \<le> value_start t lineStart lineEnd reported lit current \<and> value_start t lineStart lineEnd reported lit current \<le> reported"
  using walk_back_in [of "\<lambda>at. scalarStartsAt t at lineEnd lit current" "rev [lineStart ..< reported]" reported]
  by (auto simp: value_start_def)

lemma line_bounds:
  assumes "k < length (text_lines t)"
  shows "lineOffsets t ! k \<le> lineEndOffset t (lineOffsets t) (Suc k)"
    and "lineEndOffset t (lineOffsets t) (Suc k) \<le> blockEndOffset t (lineOffsets t) (Suc k)"
    and "blockEndOffset t (lineOffsets t) (Suc k) \<le> length t"
proof -
  let ?ls = "text_lines t"
  let ?b = "?ls ! k # block_lines (drop k ?ls)"
  show "lineOffsets t ! k \<le> lineEndOffset t (lineOffsets t) (Suc k)"
    using assms by (simp add: lineOffsets_nth lineEndOffset_lines)
  have "length (fst (?ls ! k)) \<le> length (unterminated ?b)"
    by (cases "block_lines (drop k ?ls)") (auto simp: unterminated_def flat_def split: prod.splits)
  then show "lineEndOffset t (lineOffsets t) (Suc k) \<le> blockEndOffset t (lineOffsets t) (Suc k)"
    using assms by (simp add: lineEndOffset_lines blockEndOffset_lines)
  have "prefix ?b (drop k ?ls)"
    using assms by (metis Cons_nth_drop_Suc Cons_prefix_Cons block_lines_def drop_Suc takeWhile_is_prefix tl_drop)
  then obtain r where "drop k ?ls = ?b @ r" by (auto simp: prefix_def)
  then have "flat ?ls = flat (take k ?ls) @ flat ?b @ flat r" by (metis append_take_drop_id flat_simps(3))
  then have len: "length t = length (flat (take k ?ls)) + length (flat ?b) + length (flat r)"
    by (metis flat_text_lines length_append add.assoc)
  have "length (unterminated xs) \<le> length (flat xs)" if "xs \<noteq> []" for xs
    using that by (cases xs rule: rev_cases) (auto simp: unterminated_def)
  from this [of ?b] show "blockEndOffset t (lineOffsets t) (Suc k) \<le> length t"
    unfolding blockEndOffset_lines [OF assms] len by (simp del: flat_simps)
qed

lemma if_Inl_Inr: "(if b then Inl e else r) = Inr x \<longleftrightarrow> \<not> b \<and> r = Inr x"
  by simp

lemma sub_drop: "a \<le> b \<Longrightarrow> sub t a b @ drop b t = drop a t"
  by (simp add: sub_def) (metis append_take_drop_id drop_drop le_add_diff_inverse2)

lemma span_of_Inr:
  assumes "span_of t lit tk = Inr (start, rest, stop)"
  defines "ls \<equiv> lineOffsets t" and "lineStart \<equiv> lineOffsets t ! (tk_line tk - 1)"
    and "lineEnd \<equiv> lineEndOffset t (lineOffsets t) (tk_line tk)"
    and "current0 \<equiv> trim_by (\<lambda>c. blank_char c \<or> c = cr \<or> c = nl) (tk_origin tk)"
  shows "1 \<le> tk_line tk" "tk_line tk \<le> length (text_lines t)" "lineStart + tk_column tk - 1 \<le> length t"
    and "start = value_start t lineStart lineEnd (lineStart + tk_column tk - 1) lit current0"
    and "\<exists>current. current_text t start lineEnd lit current0 (tk_line tk) (tk_column tk) = Inr current \<and>
      (if lit then lineStart + tk_column tk - 1 \<le> lineEnd \<and> rest = sub t (start + length current) lineEnd \<and> stop = blockEndOffset t ls (tk_line tk)
       else if nl \<in> set current then rest = [] \<and> stop = start + length current
       else start + length current \<le> lineEnd \<and> rest = sub t (start + length current) lineEnd \<and> stop = lineEnd)"
proof -
  note spanned = assms(1) [unfolded span_of_def Let_def if_Inl_Inr bind_res_Inr, folded ls_def lineStart_def lineEnd_def current0_def]
  from spanned show "1 \<le> tk_line tk" "tk_line tk \<le> length (text_lines t)" "lineStart + tk_column tk - 1 \<le> length t"
    by (simp_all add: ls_def not_less)
  from spanned obtain current where
      cur: "current_text t (value_start t lineStart lineEnd (lineStart + tk_column tk - 1) lit current0) lineEnd lit current0
        (tk_line tk) (tk_column tk) = Inr current"
      and fits: "\<not> (lit \<and> lineEnd < lineStart + tk_column tk - 1)"
      and res: "(if lit then Inr (value_start t lineStart lineEnd (lineStart + tk_column tk - 1) lit current0,
            sub t (value_start t lineStart lineEnd (lineStart + tk_column tk - 1) lit current0 + length current) lineEnd, blockEndOffset t ls (tk_line tk))
        else if nl \<in> set current then Inr (value_start t lineStart lineEnd (lineStart + tk_column tk - 1) lit current0, [],
            value_start t lineStart lineEnd (lineStart + tk_column tk - 1) lit current0 + length current)
        else if lineEnd < value_start t lineStart lineEnd (lineStart + tk_column tk - 1) lit current0 + length current then Inl SplicePanic
        else Inr (value_start t lineStart lineEnd (lineStart + tk_column tk - 1) lit current0,
            sub t (value_start t lineStart lineEnd (lineStart + tk_column tk - 1) lit current0 + length current) lineEnd, lineEnd)) =
        Inr (start, rest, stop)"
    by blast
  from res show start: "start = value_start t lineStart lineEnd (lineStart + tk_column tk - 1) lit current0"
    by (auto split: if_splits)
  show "\<exists>current. current_text t start lineEnd lit current0 (tk_line tk) (tk_column tk) = Inr current \<and>
      (if lit then lineStart + tk_column tk - 1 \<le> lineEnd \<and> rest = sub t (start + length current) lineEnd \<and> stop = blockEndOffset t ls (tk_line tk)
       else if nl \<in> set current then rest = [] \<and> stop = start + length current
       else start + length current \<le> lineEnd \<and> rest = sub t (start + length current) lineEnd \<and> stop = lineEnd)"
    using cur fits res unfolding start [symmetric] by (intro exI [of _ current]) (auto split: if_splits)
qed

lemma span_of_bounds:
  assumes "span_of t lit tk = Inr (start, rest, stop)" "1 \<le> tk_column tk"
  shows "lineOffsets t ! (tk_line tk - 1) \<le> start" "start \<le> stop" "stop \<le> length t"
    and "lit \<Longrightarrow> stop = blockEndOffset t (lineOffsets t) (tk_line tk)"
    and "\<not> lit \<Longrightarrow> \<exists>after. start \<le> after \<and> after \<le> stop \<and> rest @ drop stop t = drop after t"
proof -
  let ?ls = "lineOffsets t"
  let ?lineEnd = "lineEndOffset t ?ls (tk_line tk)"
  note s = span_of_Inr [OF assms(1)]
  from s(5) obtain current where cur: "current_text t start ?lineEnd lit (trim_by (\<lambda>c. blank_char c \<or> c = cr \<or> c = nl) (tk_origin tk)) (tk_line tk) (tk_column tk) = Inr current"
    and cases: "if lit then ?ls ! (tk_line tk - 1) + tk_column tk - 1 \<le> ?lineEnd \<and> rest = sub t (start + length current) ?lineEnd \<and> stop = blockEndOffset t ?ls (tk_line tk)
       else if nl \<in> set current then rest = [] \<and> stop = start + length current
       else start + length current \<le> ?lineEnd \<and> rest = sub t (start + length current) ?lineEnd \<and> stop = ?lineEnd" by blast
  have b: "?ls ! (tk_line tk - 1) \<le> start" "start \<le> ?ls ! (tk_line tk - 1) + tk_column tk - 1"
    unfolding s(4)
    using value_start_bounds [of "?ls ! (tk_line tk - 1)" "?ls ! (tk_line tk - 1) + tk_column tk - 1"] assms(2) by simp_all
  show "?ls ! (tk_line tk - 1) \<le> start" by (rule b(1))
  have k: "tk_line tk - 1 < length (text_lines t)" "Suc (tk_line tk - 1) = tk_line tk" using s(1,2) by auto
  note lb = line_bounds [OF k(1), unfolded k(2)]
  have "length current \<le> length (drop start t)"
    using current_text_prefix(1) [OF cur] by (rule prefix_length_le)
  with b(2) s(3) have fits: "start + length current \<le> length t" by simp
  show "start \<le> stop" "stop \<le> length t"
    using cases lb fits b(2) by (cases lit; cases "nl \<in> set current"; simp)+
  show "lit \<Longrightarrow> stop = blockEndOffset t ?ls (tk_line tk)" using cases by simp
  show "\<exists>after. start \<le> after \<and> after \<le> stop \<and> rest @ drop stop t = drop after t" if "\<not> lit"
    using cases that sub_drop [of "start + length current" stop t]
    by (cases "nl \<in> set current") (auto intro: exI [of _ stop] exI [of _ "start + length current"])
qed


text \<open>A document of lines.\<close>

definition doc :: "string list \<Rightarrow> string" where
  "doc ws = concat (map (\<lambda>w. w @ [nl]) ws)"

definition entry_doc :: string where
  "entry_doc = doc [''files:'', ''  - data: |-'', ''      old'', ''    dst: /etc/x'', ''end: 1'']"

definition entry_token :: token where
  "entry_token = \<lparr>tk_line = 2, tk_column = 11, tk_offset = 17, tk_value = ''|-'', tk_origin = '' |-''\<rparr>"

text \<open>The key \<open>dst\<close> of the entry is lost.\<close>

lemma frame_mid:
  assumes "dst = take start t @ a @ b @ c @ d @ drop stop t @ (if stop = length t then e else [])"
  shows "\<exists>mid. dst = take start t @ mid @ drop stop t"
proof (cases "stop = length t")
  case True
  with assms show ?thesis by (intro exI [of _ "a @ b @ c @ d @ e"]) simp
next
  case False
  with assms show ?thesis by (intro exI [of _ "a @ b @ c @ d"]) simp
qed


subsection \<open>Quoting\<close>

lemma byte_simps [simp]: "byte nl = 10" "byte cr = 13" "byte sp = 32"
  by (simp_all add: byte_def nl_def cr_def sp_def)

lemma byte_less: "byte c < 256"
  by (simp add: byte_def)

lemma byte_nibbles [simp]: "byte c div 16 < 16" "byte c mod 16 < 16"
  using byte_less [of c] by (simp_all add: div_less_iff_less_mult)

lemma hex_digit_safe: "n < 16 \<Longrightarrow> hex_digit n \<notin> {CHR 0x22, CHR 0x5C, nl}"
  by (auto simp: hex_digit_def nl_def dest!: arg_cong [of _ _ "of_char :: char \<Rightarrow> nat"])

lemma quoted_loop_char: "quoted_loop (CHR 0x22) (quote_char c @ s) = map_option ((@) (quote_char c)) (quoted_loop (CHR 0x22) s)"
proof -
  show ?thesis
    using hex_digit_safe [of "byte c div 16"] hex_digit_safe [of "byte c mod 16"]
    by (cases "quoted_loop (CHR 0x22) s") (auto simp: quote_char_def nl_def split: list.splits)
qed

lemma quoted_loop_quoted:
  "quoted_loop (CHR 0x22) (concat (map quote_char v) @ CHR 0x22 # rest) = Some (concat (map quote_char v) @ [CHR 0x22])"
  by (induction v) (simp_all add: quoted_loop_char, simp split: list.splits)

lemma quotedScalarAt_quoted: "quotedScalarAt (quoteScalar v @ rest) = Some (quoteScalar v) \<and> nl \<notin> set (quoteScalar v)"
proof -
  have "nl \<notin> set (quote_char c)" for c
    using hex_digit_safe [of "byte c div 16"] hex_digit_safe [of "byte c mod 16"]
    by (auto simp: quote_char_def nl_def)
  then show ?thesis
    by (auto simp: quotedScalarAt_def quoteScalar_def quoted_loop_quoted nl_def)
qed

lemma set_trim_prefix: "set (trim_prefix l p) \<subseteq> set l"
  by (auto simp: trim_prefix_def dest: in_set_dropD)

text \<open>A value this package wrote in quotes is measured exactly when it is read back, whatever the value is
  and whatever follows it, and it stays on one line.\<close>

theorem quotedScalarAt_quoteScalar:
  "quotedScalarAt (quoteScalar v @ rest) = Some (quoteScalar v) \<and> nl \<notin> set (quoteScalar v)"
  by (rule quotedScalarAt_quoted)

text \<open>What \<open>renderScalar\<close> answers is either the value in quotes on one line or a text that the decoder
  was asked about and that reads back as the value; the tail is that text's other lines less the
  encoder's indentation. No line of it holds a line break, in flow style there is no tail, and a value
  that is not UTF-8 is refused.\<close>

theorem renderScalar_reads_back:
  "(\<exists>head tail. renderScalar marshal unmarshal v flow = Inr (head, tail) \<and> valid_utf8 v \<and>
      list_all (\<lambda>l. nl \<notin> set l) (head # tail) \<and> (flow \<longrightarrow> tail = []) \<and>
      (head = quoteScalar v \<and> tail = [] \<or>
       (\<exists>ws. tail = map (\<lambda>l. trim_prefix l ''  '') ws \<and> scalarReadsBack unmarshal (join [nl] (head # ws)) v))) \<or>
   renderScalar marshal unmarshal v flow = Inl NotUTF8 \<and> \<not> valid_utf8 v \<or>
   renderScalar marshal unmarshal v flow = Inl MarshalFailed \<and> marshal v = None \<and> \<not> flow"
proof (cases "valid_utf8 v")
  case True
  show ?thesis
  proof (cases "render_text marshal unmarshal v flow")
    case (Inl e)
    then show ?thesis using True
      by (auto simp: renderScalar_def render_text_def split: if_splits option.splits)
  next
    case (Inr scalar)
    obtain w ts where ws: "split_on nl scalar = w # ts" by (cases "split_on nl scalar") auto
    have res: "renderScalar marshal unmarshal v flow = Inr (w, map (\<lambda>l. trim_prefix l ''  '') ts)"
      using Inr True by (simp add: renderScalar_def Let_def ws)
    have "\<forall>l \<in> set (w # ts). nl \<notin> set l" unfolding ws [symmetric] using split_on_no_sep by fast
    then have lines: "list_all (\<lambda>l. nl \<notin> set l) (w # map (\<lambda>l. trim_prefix l ''  '') ts)"
      using set_trim_prefix by (fastforce simp: list_all_iff)
    have quoted: "w = quoteScalar v \<and> ts = []" if "scalar = quoteScalar v"
      using that ws quotedScalarAt_quoted [of v "[]"] by (simp add: split_on_word)
    have "join [nl] (w # ts) = scalar" unfolding ws [symmetric] by (rule join_split_on)
    then have "scalar = quoteScalar v \<or> \<not> flow \<and> scalarReadsBack unmarshal (join [nl] (w # ts)) v"
      using Inr by (auto simp: render_text_def split: if_splits option.splits)
    with res lines quoted True show ?thesis by auto
  qed
qed (simp add: renderScalar_def)

subsection \<open>Line endings\<close>

lemma crlf_feeds: "count_crlf s \<le> count_list s nl"
proof (induction s rule: count_crlf.induct)
  case (2 c cs)
  then show ?case by (cases cs) auto
qed simp

lemma crlf_inverse: "count_list s nl = count_crlf s \<Longrightarrow> lf_to_crlf (crlf_to_lf s) = s"
proof (induction s rule: count_crlf.induct)
  case (2 c cs)
  show ?case
    using 2 crlf_feeds [of cs]
    by (cases cs) (auto simp: lf_to_crlf_def split: if_splits)
qed (simp add: lf_to_crlf_def)

lemma lf_to_crlf_feeds: "count_list (lf_to_crlf r) nl = count_list r nl"
  by (induction r) (auto simp: lf_to_crlf_def)

lemma lf_to_crlf_hd: "lf_to_crlf r \<noteq> [] \<Longrightarrow> hd (lf_to_crlf r) \<noteq> nl"
  by (cases r) (auto simp: lf_to_crlf_def)

lemma lf_to_crlf_Cons: "lf_to_crlf (c # r) = (if c = nl then cr # nl # lf_to_crlf r else c # lf_to_crlf r)"
  by (simp add: lf_to_crlf_def)

lemma lf_to_crlf_pairs: "count_crlf (lf_to_crlf r) = count_list r nl"
proof (induction r)
  case (Cons c r)
  then show ?case using lf_to_crlf_hd [of r] by (auto simp: lf_to_crlf_Cons)
qed (simp add: lf_to_crlf_def)

lemma renderScalar_reads_back_witness:
  "renderScalar (\<lambda>v. Some (v @ [nl])) (\<lambda>s. None) ''a-b'' True = Inr (quoteScalar ''a-b'', []) \<and>
   (\<exists>head tail. renderScalar (\<lambda>v. Some (v @ [nl])) (\<lambda>s. None) ''a-b'' True = Inr (head, tail) \<and> (True \<longrightarrow> tail = []))"
proof -
  have "valid_utf8 ''a-b''" by code_simp
  moreover have "renderScalar (\<lambda>v. Some (v @ [nl])) (\<lambda>s. None) ''a-b'' True = Inr (quoteScalar ''a-b'', [])"
    by code_simp
  ultimately show ?thesis
    using renderScalar_reads_back [of "\<lambda>v. Some (v @ [nl])" "\<lambda>s. None" "''a-b''" True] by auto
qed

text \<open>A document whose line breaks are all of a carriage return and a line feed is rewritten with line
  feeds and put back: a rewrite that changes nothing gives the document back byte for byte, and what
  comes out has the line breaks the rewrite left, every one of them a pair again.\<close>

theorem onLineFeeds_restores:
  assumes "isCRLFDocument src"
  shows "onLineFeeds src Inr = Inr src \<and>
         (onLineFeeds src rewrite = Inr dst \<longrightarrow>
            (\<exists>r. rewrite (crlf_to_lf src) = Inr r \<and> count_crlf dst = count_list r nl \<and> count_list dst nl = count_list r nl))"
  using assms crlf_inverse [of src]
  by (auto simp: onLineFeeds_def isCRLFDocument_def bind_res_Inr lf_to_crlf_feeds lf_to_crlf_pairs)

lemma onLineFeeds_restores_witness:
  "onLineFeeds [CHR ''a'', cr, nl, CHR ''b'', cr, cr, nl] Inr = Inr [CHR ''a'', cr, nl, CHR ''b'', cr, cr, nl]"
proof -
  have "isCRLFDocument [CHR ''a'', cr, nl, CHR ''b'', cr, cr, nl]" by code_simp
  from onLineFeeds_restores [OF this, THEN conjunct1] show ?thesis .
qed

subsection \<open>Rewriting a block twice\<close>

lemma blockHeaderAt_rest:
  assumes "blockHeaderAt (h @ rest) = Some h"
  shows "blockHeaderAt (''|-'' @ rest) = Some ''|-''"
proof -
  from assms obtain c cs where h: "h = c # cs"
    by (cases "h @ rest") (auto simp: Let_def split: if_splits)
  from assms h have head: "takeWhile header_char (cs @ rest) = cs"
    and ok: "trim_left blank_char (dropWhile header_char (cs @ rest)) = [] \<or>
      hd (trim_left blank_char (dropWhile header_char (cs @ rest))) = CHR ''#''"
    by (auto simp: Let_def split: if_splits)
  have "dropWhile header_char (cs @ rest) = rest"
    using takeWhile_dropWhile_id [of header_char "cs @ rest"] unfolding head by simp
  moreover have "takeWhile header_char rest = []"
    using calculation by (metis dropWhile_eq_self_iff takeWhile_eq_Nil_iff dropWhile_idem)
  moreover have "header_char (CHR ''-'')" by (simp add: header_char_def)
  ultimately show ?thesis using ok by (simp add: Let_def) (metis dropWhile_eq_self_iff takeWhile_eq_Nil_iff)
qed

text \<open>A splice of a block on a document given by its lines.\<close>

lemma splice_block_lines:
  assumes "well_broken ls" and ls: "ls = pre @ (a @ h @ rest, e) # block @ after"
    and "blockHeaderAt (h @ rest) = Some h"
    and "block = takeWhile (in_block (indentOf (a @ h @ rest))) (block @ after)"
    and "tk_line tk = Suc (length pre)" "tk_column tk = Suc (length a)"
  shows "span_of (flat ls) True tk = Inr (length (flat pre) + length a, rest,
           length (flat pre) + length (unterminated ((a @ h @ rest, e) # block)))"
    and "splice_indent (flat ls) tk = (case keyColumnOn (a @ h @ rest) (Suc (length a)) of Some c \<Rightarrow> c + 1 | None \<Rightarrow> Suc (length a))"
    and "e = [nl] \<or> e = [] \<and> block @ after = [] \<Longrightarrow> lineEndingAt (flat ls) (lineOffsets (flat ls)) (tk_line tk) = [nl]"
proof -
  let ?t = "flat ls" let ?k = "length pre"
  have tl: "text_lines ?t = ls" by (rule text_lines_unique [OF assms(1)])
  have k: "?k < length (text_lines ?t)" and nth: "text_lines ?t ! ?k = (a @ h @ rest, e)"
    and take: "take ?k (text_lines ?t) = pre" and drop: "drop ?k (text_lines ?t) = (a @ h @ rest, e) # block @ after"
    unfolding tl by (simp_all add: ls)
  have start: "lineOffsets ?t ! ?k = length (flat pre)" using lineOffsets_nth [OF k] take by simp
  have lend: "lineEndOffset ?t (lineOffsets ?t) (Suc ?k) = length (flat pre) + length (a @ h @ rest)"
    using lineEndOffset_lines [OF k] take nth by simp
  have "block_lines (drop ?k (text_lines ?t)) = block"
    unfolding drop block_lines_def using assms(4) by simp
  then have bend: "blockEndOffset ?t (lineOffsets ?t) (Suc ?k) = length (flat pre) + length (unterminated ((a @ h @ rest, e) # block))"
    using blockEndOffset_lines [OF k] take nth by simp
  have t: "?t = flat pre @ a @ h @ rest @ e @ flat (block @ after)" by (simp add: ls)
  have sub: "sub ?t (length (flat pre) + length a) (length (flat pre) + length (a @ h @ rest)) = h @ rest"
    unfolding t by (simp add: sub_def)
  have sub2: "sub ?t (length (flat pre) + length a + length h) (length (flat pre) + length (a @ h @ rest)) = rest"
    unfolding t by (simp add: sub_def)
  have "has_prefix (drop (length (flat pre) + length a) ?t) h" unfolding t by (simp add: has_prefix_def)
  then have cur: "current_text ?t (length (flat pre) + length a) (length (flat pre) + length (a @ h @ rest)) True c l m = Inr h" for c l m
    unfolding current_text_def sub assms(3) by simp
  have vs: "value_start ?t (length (flat pre)) (length (flat pre) + length (a @ h @ rest)) (length (flat pre) + length a) True c = length (flat pre) + length a" for c
    unfolding value_start_def scalarStartsAt_def sub assms(3) by simp
  have fits: "length (flat pre) + length a \<le> length ?t" unfolding t by simp
  show "span_of ?t True tk = Inr (length (flat pre) + length a, rest,
           length (flat pre) + length (unterminated ((a @ h @ rest, e) # block)))"
    using k fits by (simp add: span_of_def Let_def assms(5,6) start bend lend del: length_append)
      (simp only: cur vs sub2 bind_res_simps if_True, simp)
  show "splice_indent ?t tk = (case keyColumnOn (a @ h @ rest) (Suc (length a)) of Some c \<Rightarrow> c + 1 | None \<Rightarrow> Suc (length a))"
    using line_content_lines [OF k] nth by (simp add: splice_indent_def assms(5,6) split: option.split)
  show "lineEndingAt ?t (lineOffsets ?t) (tk_line tk) = [nl]" if e: "e = [nl] \<or> e = [] \<and> block @ after = []"
  proof (cases "e = []")
    case True
    with e have "length ?t = lineEndOffset ?t (lineOffsets ?t) (Suc ?k)" unfolding lend by (subst t) auto
    then show ?thesis by (simp add: lineEndingAt_def assms(5))
  next
    case False
    with e have "?t ! (length (flat pre) + length (a @ h @ rest)) = nl" unfolding t by (simp add: nth_append)
    then show ?thesis by (simp add: lineEndingAt_def assms(5) lend)
  qed
qed

lemma keyColumnOn_before: "keyColumnOn (a @ x) (Suc (length a)) = keyColumnOn (a @ y) (Suc (length a))"
  by (simp add: keyColumnOn_def)

lemma indentOf_takeWhile: "indentOf l = length (takeWhile (\<lambda>c. c = sp) l)"
proof -
  have "length (takeWhile (\<lambda>c. c = sp) l) + length (dropWhile (\<lambda>c. c = sp) l) = length l"
    by (metis length_append takeWhile_dropWhile_id)
  then show ?thesis by (simp add: indentOf_def trim_left_def)
qed

lemma indentOf_append: "c \<noteq> sp \<Longrightarrow> d \<noteq> sp \<Longrightarrow> indentOf (a @ c # x) = indentOf (a @ d # y)"
  unfolding indentOf_takeWhile by (induction a) auto

lemma well_broken_append:
  "ls \<noteq> [] \<Longrightarrow> well_broken ls \<Longrightarrow> \<forall>(l, e) \<in> set xs. nl \<notin> set l \<and> cr \<notin> set l \<and> e = [nl] \<Longrightarrow> well_broken (xs @ ls)"
proof (induction xs)
  case (Cons x xs)
  then show ?case by (cases x) (auto simp: well_broken_Cons)
qed simp

lemma tail_text_lines: "\<forall>l \<in> set ts. l \<noteq> [] \<Longrightarrow>
   tail_text [nl] n ts @ [nl] = [nl] @ flat (map (\<lambda>l. (replicate n sp @ l, [nl])) ts)"
  by (induction ts) (auto simp: tail_text_def)

lemma unterminated_break: "\<forall>(l, e) \<in> set (x # xs). e = [nl] \<Longrightarrow> unterminated (x # xs) @ [nl] = flat (x # xs)"
  by (cases "x # xs" rule: rev_cases) (auto simp: unterminated_def)

text \<open>A block whose token names the place of its header, in a document of line feeds.\<close>

definition block_at :: "string \<Rightarrow> token \<Rightarrow> bool" where
  "block_at t tk \<longleftrightarrow> cr \<notin> set t \<and> 1 \<le> tk_line tk \<and> tk_line tk \<le> length (text_lines t) \<and> 1 \<le> tk_column tk \<and>
     (let l = fst (text_lines t ! (tk_line tk - 1)) in
        tk_column tk \<le> length l \<and> blockHeaderAt (drop (tk_column tk - 1) l) \<noteq> None)"

lemma no_cr_lines:
  assumes "cr \<notin> set t" "(l, e) \<in> set (text_lines t)"
  shows "nl \<notin> set l" "cr \<notin> set l" "e = [nl] \<or> e = []"
proof -
  obtain k where k: "k < length (text_lines t)" "text_lines t ! k = (l, e)"
    using assms(2) by (metis in_set_conv_nth)
  note s = line_split [OF k]
  show "nl \<notin> set l" "cr \<notin> set l" by (rule s(2), rule s(3))
  have "set e \<subseteq> set t" by (subst s(1)) auto
  with s(4,5) k(1) assms(1) show "e = [nl] \<or> e = []" by (cases "Suc k < length (text_lines t)") auto
qed

lemma breaks_before_last:
  assumes "cr \<notin> set t" "text_lines t = xs @ ys" "ys \<noteq> []" "(l, e) \<in> set xs"
  shows "e = [nl]"
proof -
  obtain k where k: "k < length xs" "xs ! k = (l, e)" using assms(4) by (metis in_set_conv_nth)
  with assms(2,3) have kt: "Suc k < length (text_lines t)" "text_lines t ! k = (l, e)"
    by (cases ys; simp add: nth_append)+
  then have "(l, e) \<in> set (text_lines t)" by (metis Suc_lessD nth_mem)
  with no_cr_lines(3) [OF assms(1)] line_split(4) [OF _ kt(2)] kt(1) show ?thesis by auto
qed

lemma block_at_split:
  assumes "block_at t tk"
  shows "\<exists>pre a h rest e block after. text_lines t = pre @ (a @ h @ rest, e) # block @ after \<and>
     blockHeaderAt (h @ rest) = Some h \<and> h \<noteq> [] \<and> hd h \<noteq> sp \<and>
     block = takeWhile (in_block (indentOf (a @ h @ rest))) (block @ after) \<and>
     tk_line tk = Suc (length pre) \<and> tk_column tk = Suc (length a)"
proof -
  let ?ls = "text_lines t" let ?k = "tk_line tk - 1"
  obtain l e where le: "?ls ! ?k = (l, e)" by fastforce
  let ?a = "take (tk_column tk - 1) l" and ?b = "drop (tk_column tk - 1) l"
  from assms le obtain h where h: "blockHeaderAt ?b = Some h" and col: "1 \<le> tk_column tk" "tk_column tk \<le> length l"
      and k: "?k < length ?ls" "tk_line tk = Suc ?k"
    by (auto simp: block_at_def Let_def)
  from blockHeaderAt_prefix [OF h] obtain rest where rest: "?b = h @ rest" by (auto simp: prefix_def)
  have l: "l = ?a @ h @ rest" by (metis append_take_drop_id rest)
  have ne: "h \<noteq> []" "hd h \<noteq> sp" using h by (cases ?b; auto simp: Let_def sp_def split: if_splits)+
  let ?P = "in_block (indentOf l)"
  have "?ls = take ?k ?ls @ (?a @ h @ rest, e) # takeWhile ?P (drop (Suc ?k) ?ls) @ dropWhile ?P (drop (Suc ?k) ?ls)"
    using id_take_nth_drop [OF k(1)] le l by simp
  moreover have "takeWhile ?P (takeWhile ?P xs @ dropWhile ?P xs) = takeWhile ?P xs" for xs by simp
  moreover have "tk_line tk = Suc (length (take ?k ?ls))" "tk_column tk = Suc (length ?a)" using k col by simp_all
  ultimately show ?thesis using h ne rest l by metis
qed

lemma block_text:
  assumes "spliceScalar t True tk head ts = Inr dst" "cr \<notin> set t"
    and "text_lines t = pre @ (a @ h @ rest, e) # block @ after"
    and "blockHeaderAt (h @ rest) = Some h" "block = takeWhile (in_block (indentOf (a @ h @ rest))) (block @ after)"
    and "tk_line tk = Suc (length pre)" "tk_column tk = Suc (length a)"
  defines "gap \<equiv> if flat pre @ a \<noteq> [] \<and> last (flat pre @ a) = CHR '':'' then [sp] else []"
    and "indent \<equiv> case keyColumnOn (a @ h @ rest) (Suc (length a)) of Some c \<Rightarrow> c + 1 | None \<Rightarrow> Suc (length a)"
  shows "dst = flat pre @ a @ gap @ head @ rest @ tail_text [nl] indent ts @ [nl] @ flat after"
proof -
  let ?ls = "text_lines t" let ?line = "(a @ h @ rest, e)"
  note s = splice_block_lines [OF well_broken_text_lines assms(3-7), unfolded flat_text_lines]
  have t: "t = flat pre @ flat (?line # block) @ flat after"
    using arg_cong [OF assms(3), of flat] by simp
  have e: "e = [nl] \<or> e = [] \<and> block @ after = []"
  proof (cases "block @ after")
    case Nil
    have "length pre < length ?ls" "?ls ! length pre = ?line" "Suc (length pre) = length ?ls"
      unfolding assms(3) Nil by simp_all
    from line_split(5) [OF this] Nil show ?thesis by simp
  next
    case (Cons x xs)
    have "?ls = (pre @ [?line]) @ block @ after" unfolding assms(3) by simp
    from breaks_before_last [OF assms(2) this, of "a @ h @ rest" e] Cons show ?thesis by simp
  qed
  let ?stop = "length (flat pre) + length (unterminated (?line # block))"
  have pre: "take (length (flat pre) + length a) t = flat pre @ a" by (simp add: t)
  have gap: "(if length (flat pre) + length a > 0 \<and> t ! (length (flat pre) + length a - 1) = CHR '':'' then [sp] else []) = gap"
  proof (cases "flat pre @ a" rule: rev_cases)
    case (snoc u c)
    with arg_cong [OF snoc, of length] t have "t ! (length (flat pre) + length a - 1) = c"
      by (metis append.assoc append_Cons append_take_drop_id diff_Suc_1 length_append length_append_singleton nth_append_length pre)
    with snoc arg_cong [OF snoc, of length] show ?thesis by (auto simp: gap_def)
  qed (simp add: gap_def)
  have stop: "drop ?stop t @ (if ?stop \<ge> length t then [nl] else []) = [nl] @ flat after"
  proof (cases "after = []")
    case True
    have "unterminated (?line # block) = flat (?line # block)"
      using line_split(5) [of "length ?ls - 1" t] assms(3) True
      by (cases "?line # block" rule: rev_cases) (auto simp: unterminated_def nth_append split: if_splits)
    with True show ?thesis by (simp add: t)
  next
    case False
    have "\<forall>(l, e) \<in> set (?line # block). e = [nl]"
      using breaks_before_last [OF assms(2), of "pre @ ?line # block" after] assms(3) False by auto
    from unterminated_break [OF this] have "flat (?line # block) = unterminated (?line # block) @ [nl]" by simp
    with t have u: "t = (flat pre @ unterminated (?line # block)) @ nl # flat after" by (simp del: flat_simps)
    have "?stop = length (flat pre @ unterminated (?line # block))" by simp
    with u have "drop ?stop t = nl # flat after" "?stop < length t"
      by (metis append_eq_conv_conj, metis length_append less_add_same_cancel1 length_greater_0_conv list.distinct(1))
    then show ?thesis by simp
  qed
  show ?thesis
    using assms(1) unfolding spliceScalar_def s(1,2) s(3) [OF e] bind_res_simps prod.case Let_def pre gap indent_def
    by (simp only: sum.inject append.assoc stop)
qed

lemma nl_block [simp]: "nl \<noteq> CHR ''|''" "nl \<noteq> CHR ''-''" "cr \<noteq> CHR ''|''" "cr \<noteq> CHR ''-''"
  by (simp_all add: nl_def cr_def)

lemma block_total:
  assumes "text_lines t = pre @ (a @ h @ rest, e) # block @ after"
    and "blockHeaderAt (h @ rest) = Some h" "block = takeWhile (in_block (indentOf (a @ h @ rest))) (block @ after)"
    and "tk_line tk = Suc (length pre)" "tk_column tk = Suc (length a)"
  shows "\<exists>dst. spliceScalar t True tk head ts = Inr dst"
  using splice_block_lines(1) [OF well_broken_text_lines assms, unfolded flat_text_lines]
  by (simp add: spliceScalar_def Let_def)

lemma in_block_indented:
  assumes "hi < n"
  shows "in_block hi (replicate n sp @ l, [nl])"
proof -
  have "takeWhile (\<lambda>c. c = sp) (replicate n sp @ l) = replicate n sp @ takeWhile (\<lambda>c. c = sp) l"
    by (induction n) auto
  with assms show ?thesis by (simp add: in_block_def indentOf_takeWhile)
qed

lemma keyColumn_bound: "keyColumnOn (a @ x) (Suc (length a)) = Some c \<Longrightarrow> length (takeWhile (\<lambda>c. c = sp) a) < c"
proof -
  assume "keyColumnOn (a @ x) (Suc (length a)) = Some c"
  then have c: "c = length a - length (strip_dashes (trim_left (\<lambda>c. c = sp) a)) + 1"
    by (simp add: keyColumnOn_def Let_def split: if_splits)
  have strip: "length (strip_dashes s) \<le> length s" for s
  proof (induction s rule: strip_dashes.induct)
    case (1 s)
    have "length (trim_left (\<lambda>c. c = sp) (drop 2 s)) \<le> length s"
      using length_dropWhile_le [of "\<lambda>c. c = sp" "drop 2 s"] by (simp add: trim_left_def)
    with 1 show ?case by (subst strip_dashes.simps) auto
  qed
  have "length (takeWhile (\<lambda>c. c = sp) a) + length (dropWhile (\<lambda>c. c = sp) a) = length a"
    by (metis length_append takeWhile_dropWhile_id)
  with strip [of "trim_left (\<lambda>c. c = sp) a"] show ?thesis unfolding c by (simp add: trim_left_def)
qed

lemma block_indent:
  assumes "h \<noteq> []" "hd h \<noteq> sp"
  shows "indentOf (a @ h @ rest) < (case keyColumnOn (a @ h @ rest) (Suc (length a)) of Some c \<Rightarrow> c + 1 | None \<Rightarrow> Suc (length a))"
proof -
  from assms obtain c cs where "h = c # cs" "c \<noteq> sp" by (cases h) auto
  then have "indentOf (a @ h @ rest) = length (takeWhile (\<lambda>c. c = sp) a)"
    unfolding indentOf_takeWhile by (induction a) auto
  moreover have "length (takeWhile (\<lambda>c. c = sp) a) \<le> length a" by (rule length_takeWhile_le)
  ultimately show ?thesis
    using keyColumn_bound [of a "h @ rest"] by (auto split: option.splits intro: less_SucI)
qed

text \<open>The lines of a document whose block was replaced.\<close>

definition written_lines :: "(string \<times> string) list \<Rightarrow> string \<Rightarrow> nat \<Rightarrow> string list \<Rightarrow> (string \<times> string) list \<Rightarrow> (string \<times> string) list" where
  "written_lines pre line indent ts after =
     pre @ (line, [nl]) # map (\<lambda>l. (replicate indent sp @ l, [nl])) ts @ (if after = [] then [([], [])] else after)"

lemma flat_written_lines:
  assumes "\<forall>l \<in> set ts. l \<noteq> []"
  shows "flat (written_lines pre line n ts after) = flat pre @ line @ tail_text [nl] n ts @ [nl] @ flat after"
proof -
  have "tail_text [nl] n ts @ [nl] @ flat after = [nl] @ flat (map (\<lambda>l. (replicate n sp @ l, [nl])) ts) @ flat after"
    using tail_text_lines [OF assms] by simp
  then show ?thesis by (simp add: written_lines_def)
qed

lemma written_lines_ok:
  assumes lf: "cr \<notin> set t" and ls: "text_lines t = pre @ (a @ h @ rest, e) # block @ after"
    and ts: "\<forall>l \<in> set ts. l \<noteq> [] \<and> nl \<notin> set l \<and> cr \<notin> set l"
  shows "text_lines (flat (written_lines pre (a @ ''|-'' @ rest) n ts after)) = written_lines pre (a @ ''|-'' @ rest) n ts after"
    and "cr \<notin> set (flat (written_lines pre (a @ ''|-'' @ rest) n ts after))"
proof -
  let ?new = "map (\<lambda>l. (replicate n sp @ l, [nl])) ts"
  let ?after = "if after = [] then [([], [])] else after"
  let ?before = "pre @ (a @ ''|-'' @ rest, [nl]) # ?new"
  have "nl \<notin> set (a @ rest)" "cr \<notin> set (a @ rest)"
    using no_cr_lines(1,2) [OF lf, of "a @ h @ rest" e] unfolding ls by auto
  moreover have "\<forall>(l, e) \<in> set pre. nl \<notin> set l \<and> cr \<notin> set l \<and> e = [nl]"
    using breaks_before_last [OF lf ls] no_cr_lines(1,2) [OF lf] unfolding ls by fastforce
  ultimately have broken: "\<forall>(l, e) \<in> set ?before. nl \<notin> set l \<and> cr \<notin> set l \<and> e = [nl]"
    using ts by auto
  have "well_broken ?after"
    using well_broken_drop [OF well_broken_text_lines [of t], of "length (pre @ (a @ h @ rest, e) # block)"]
    unfolding ls by (cases after) auto
  then have "well_broken (written_lines pre (a @ ''|-'' @ rest) n ts after)"
    using well_broken_append [OF _ _ broken, of ?after] by (simp add: written_lines_def)
  then show "text_lines (flat (written_lines pre (a @ ''|-'' @ rest) n ts after)) = written_lines pre (a @ ''|-'' @ rest) n ts after"
    by (rule text_lines_unique)
  have "t = flat (pre @ (a @ h @ rest, e) # block) @ flat after" using arg_cong [OF ls, of flat] by simp
  with lf have "cr \<notin> set (flat after)" by simp
  moreover have "cr \<notin> set (flat xs)" if "\<forall>(l, e) \<in> set xs. nl \<notin> set l \<and> cr \<notin> set l \<and> e = [nl]" for xs
    using that by (auto simp: flat_def)
  then have "cr \<notin> set (flat ?before)" using broken by blast
  ultimately show "cr \<notin> set (flat (written_lines pre (a @ ''|-'' @ rest) n ts after))"
    by (auto simp: written_lines_def)
qed

lemma written_lines_block:
  assumes "block = takeWhile (in_block hi) (block @ after)" "hi < n"
  shows "map (\<lambda>l. (replicate n sp @ l, [nl])) ts =
    takeWhile (in_block hi) (map (\<lambda>l. (replicate n sp @ l, [nl])) ts @ (if after = [] then [([], [])] else after))"
proof -
  let ?P = "in_block hi" and ?new = "map (\<lambda>l. (replicate n sp @ l, [nl])) ts"
  let ?after = "if after = [] then [([], [])] else after"
  have "\<forall>x \<in> set block. ?P x" by (subst assms(1)) (auto dest: set_takeWhileD)
  then have "block = block @ takeWhile ?P after" using assms(1) takeWhile_append2 [of block ?P after] by auto
  then have none: "takeWhile ?P ?after = []" by (auto simp: in_block_def)
  have "\<forall>x \<in> set ?new. ?P x" using assms(2) in_block_indented by auto
  then have "takeWhile ?P (?new @ ?after) = ?new @ takeWhile ?P ?after" by (intro takeWhile_append2) blast
  then show ?thesis unfolding none by simp
qed

text \<open>C11. Rewriting a block scalar twice is rewriting it once: after a block was replaced by lines of its own,
  the block found at the same place is exactly what was written, so the next rewrite leaves the document
  the second content alone would have left, with no line of the first one remaining and none around it
  taken.\<close>

theorem spliceScalar_block_again:
  assumes "block_at t tk"
    and "tk_column tk = 1 \<or> fst (text_lines t ! (tk_line tk - 1)) ! (tk_column tk - 2) \<noteq> CHR '':''"
    and "\<forall>l \<in> set ts. l \<noteq> [] \<and> nl \<notin> set l \<and> cr \<notin> set l"
    and "spliceScalar t True tk ''|-'' ts = Inr mid"
  shows "block_at mid tk \<and> spliceScalar mid True tk head2 ts2 = spliceScalar t True tk head2 ts2"
proof -
  from block_at_split [OF assms(1)] obtain pre a h rest e block after where
      ls: "text_lines t = pre @ (a @ h @ rest, e) # block @ after" and h: "blockHeaderAt (h @ rest) = Some h" "h \<noteq> []" "hd h \<noteq> sp"
      and bl: "block = takeWhile (in_block (indentOf (a @ h @ rest))) (block @ after)"
      and pos: "tk_line tk = Suc (length pre)" "tk_column tk = Suc (length a)" by blast
  have lf: "cr \<notin> set t" using assms(1) by (simp add: block_at_def)
  define n where "n = (case keyColumnOn (a @ h @ rest) (Suc (length a)) of Some c \<Rightarrow> c + 1 | None \<Rightarrow> Suc (length a))"
  let ?gap = "if flat pre @ a \<noteq> [] \<and> last (flat pre @ a) = CHR '':'' then [sp] else []"
  have gap: "?gap = []"
  proof (cases "a = []")
    case True
    have "flat pre = [] \<or> last (flat pre) = nl"
    proof (cases pre rule: rev_cases)
      case (snoc ys x)
      with breaks_before_last [OF lf ls, of "fst x" "snd x"] show ?thesis by (cases x) simp
    qed simp
    with True show ?thesis by (auto simp: nl_def)
  next
    case False
    with assms(2) pos ls have "last a \<noteq> CHR '':''" by (simp add: nth_append last_conv_nth)
    with False show ?thesis by simp
  qed
  note written = block_text [OF _ lf ls h(1) bl pos, unfolded gap, folded n_def]
  have mid: "mid = flat (written_lines pre (a @ ''|-'' @ rest) n ts after)"
    using written [OF assms(4)] assms(3) by (simp add: flat_written_lines)
  note ok = written_lines_ok [OF lf ls assms(3), of n, folded mid]
  have h': "blockHeaderAt (''|-'' @ rest) = Some ''|-''" by (rule blockHeaderAt_rest [OF h(1)])
  have hi: "indentOf (a @ ''|-'' @ rest) = indentOf (a @ h @ rest)"
    using h(2,3) indentOf_append [of "CHR ''|''" "hd h" a "CHR ''-'' # rest" "tl h @ rest"] by (cases h) (auto simp: sp_def)
  note bl' = written_lines_block [OF bl block_indent [OF h(2,3), of a rest, folded n_def], of ts, folded hi]
  have key: "keyColumnOn (a @ ''|-'' @ rest) (Suc (length a)) = keyColumnOn (a @ h @ rest) (Suc (length a))"
    by (rule keyColumnOn_before)
  note written' = block_text [OF _ ok(2) ok(1) [unfolded written_lines_def] h' bl' pos, unfolded gap key, folded n_def]
  obtain dst dst' where dst: "spliceScalar t True tk head2 ts2 = Inr dst" and dst': "spliceScalar mid True tk head2 ts2 = Inr dst'"
    using block_total [OF ls h(1) bl pos] block_total [OF ok(1) [unfolded written_lines_def] h' bl' pos] by metis
  have "dst' = dst" using written [OF dst] written' [OF dst'] by simp
  moreover have "block_at mid tk"
    unfolding block_at_def ok(1) pos written_lines_def using ok(2) h' by (simp add: nth_append)
  ultimately show ?thesis using dst dst' by simp
qed

definition pass_doc :: string where
  "pass_doc = doc [''pass: |-  # vaulted'', ''  old'', ''  lines'', [], ''next: 1'']"

definition pass_token :: token where
  "pass_token = \<lparr>tk_line = 1, tk_column = 7, tk_offset = 6, tk_value = ''|-'', tk_origin = '' |-''\<rparr>"

lemma spliceScalar_block_again_witness:
  "spliceScalar (doc [''pass: |-  # vaulted'', ''  a'', ''  b'', ''  c'', ''next: 1'']) True pass_token ''hunter2'' [] =
     Inr (doc [''pass: hunter2  # vaulted'', ''next: 1''])"
proof -
  have ok: "block_at pass_doc pass_token" "\<forall>l \<in> set [''a'', ''b'', ''c'']. l \<noteq> [] \<and> nl \<notin> set l \<and> cr \<notin> set l"
    "tk_column pass_token = 1 \<or> fst (text_lines pass_doc ! (tk_line pass_token - 1)) ! (tk_column pass_token - 2) \<noteq> CHR '':''"
    by (code_simp, simp add: nl_def cr_def, code_simp)
  have once: "spliceScalar pass_doc True pass_token ''|-'' [''a'', ''b'', ''c''] =
      Inr (doc [''pass: |-  # vaulted'', ''  a'', ''  b'', ''  c'', ''next: 1''])"
    by code_simp
  have "spliceScalar pass_doc True pass_token ''hunter2'' [] = Inr (doc [''pass: hunter2  # vaulted'', ''next: 1''])"
    by code_simp
  with spliceScalar_block_again [OF ok(1) ok(3) ok(2) once] show ?thesis by simp
qed

end
