(* ===== verification/Vault_Keys.thy ===== *)
theory Vault_Keys
  imports Cluster_Registries Yaml_Splice Go_Path
begin

section \<open>Keys and encrypted values\<close>

text \<open>
  \<open>internal/clustercfg\<close>: \<open>keyring.go\<close>, \<open>vault.go\<close>, \<open>agessh.go\<close> and the encryption of \<open>age.go\<close>. A
  keyring is read from flags, files and the environment, decides which of the two formats is written,
  and opens a value by the header the value carries. The libraries are parameters: \<open>crypto\<close> encrypts
  and decrypts (every encryption draws fresh randomness, the number that selects the ciphertext),
  \<open>key_env\<close> is the environment, the file system and the parsers of keys. Error texts are
  constructors. A \<open>nil\<close> keyring is \<open>None\<close>.
\<close>

datatype format = FormatVault | FormatAge

definition FormatOf :: "string \<Rightarrow> format option" where
  "FormatOf v =
     (if IsVaultEncrypted v then Some FormatVault
      else if IsAgeEncrypted v then Some FormatAge else None)"

lemma FormatOf_None [simp]: "FormatOf v = None \<longleftrightarrow> \<not> IsEncrypted v"
  by (simp add: FormatOf_def IsEncrypted_def)

record ('i, 'r) Keyring =
  kr_vaultPassword :: string
  kr_vaultExplicit :: bool
  kr_identities :: "'i list"
  kr_recipients :: "'r list"
  kr_recipientStrings :: "string list"
  kr_ageExplicit :: bool

record ('i, 'r) crypto =
  cy_vault_encrypt :: "nat \<Rightarrow> string \<Rightarrow> string \<Rightarrow> string option"
  cy_vault_decrypt :: "string \<Rightarrow> string \<Rightarrow> string option"
  cy_age_encrypt :: "nat \<Rightarrow> 'r list \<Rightarrow> string \<Rightarrow> string option"
  cy_age_decrypt :: "'i list \<Rightarrow> string \<Rightarrow> string option"

datatype vault_error =
    NoKeyMaterial
  | BothGiven
  | BothTargets
  | NoAgeRecipients
  | NoAgeIdentities
  | NotEncrypted
  | MissingKey format
  | EncryptFailed
  | DecryptFailed
  | FieldMissingKey string string format
  | FieldDecrypt string string
  | DecryptedTLS registry_error

subsection \<open>Which format\<close>

definition NewVaultKeyring :: "string \<Rightarrow> ('i, 'r) Keyring" where
  "NewVaultKeyring password =
     \<lparr>kr_vaultPassword = password, kr_vaultExplicit = (password \<noteq> []), kr_identities = [], kr_recipients = [],
      kr_recipientStrings = [], kr_ageExplicit = False\<rparr>"

definition Empty :: "('i, 'r) Keyring option \<Rightarrow> bool" where
  "Empty k = (case k of None \<Rightarrow> True | Some k \<Rightarrow> kr_vaultPassword k = [] \<and> kr_identities k = [] \<and> kr_recipients k = [])"

definition RecipientStrings :: "('i, 'r) Keyring option \<Rightarrow> string list" where
  "RecipientStrings k = (case k of None \<Rightarrow> [] | Some k \<Rightarrow> kr_recipientStrings k)"

definition CanDecrypt :: "('i, 'r) Keyring option \<Rightarrow> format \<Rightarrow> bool" where
  "CanDecrypt k f =
     (case k of
        None \<Rightarrow> False
      | Some k \<Rightarrow> (case f of FormatVault \<Rightarrow> kr_vaultPassword k \<noteq> [] | FormatAge \<Rightarrow> kr_identities k \<noteq> []))"

definition EncryptFormat :: "('i, 'r) Keyring option \<Rightarrow> vault_error + format" where
  "EncryptFormat k =
     (case k of
        None \<Rightarrow> Inl NoKeyMaterial
      | Some k \<Rightarrow>
          if kr_recipients k = [] \<and> kr_vaultPassword k = [] then Inl NoKeyMaterial
          else if kr_recipients k \<noteq> [] \<and> kr_ageExplicit k \<and> kr_vaultExplicit k then Inl BothGiven
          else if kr_recipients k \<noteq> [] then Inr FormatAge
          else Inr FormatVault)"

definition RekeyTarget :: "('i, 'r) Keyring \<Rightarrow> string \<Rightarrow> vault_error + (('i, 'r) Keyring \<times> bool)" where
  "RekeyTarget k newPassword =
     (if kr_recipients k \<noteq> [] \<and> newPassword \<noteq> [] then Inl BothTargets
      else if kr_recipients k \<noteq> [] then
        Inr (\<lparr>kr_vaultPassword = [], kr_vaultExplicit = False, kr_identities = [], kr_recipients = kr_recipients k,
              kr_recipientStrings = kr_recipientStrings k, kr_ageExplicit = True\<rparr>, True)
      else if newPassword \<noteq> [] then Inr (NewVaultKeyring newPassword, newPassword \<noteq> kr_vaultPassword k)
      else Inr (NewVaultKeyring (kr_vaultPassword k), False))"

subsection \<open>One value\<close>

definition encryptAge :: "('i, 'r) crypto \<Rightarrow> nat \<Rightarrow> string \<Rightarrow> 'r list \<Rightarrow> vault_error + string" where
  "encryptAge C seed v rs =
     (if rs = [] then Inl NoAgeRecipients
      else (case cy_age_encrypt C seed rs v of None \<Rightarrow> Inl EncryptFailed | Some c \<Rightarrow> Inr c))"

definition decryptAge :: "('i, 'r) crypto \<Rightarrow> string \<Rightarrow> 'i list \<Rightarrow> vault_error + string" where
  "decryptAge C v ids =
     (if ids = [] then Inl NoAgeIdentities
      else (case cy_age_decrypt C ids v of None \<Rightarrow> Inl DecryptFailed | Some p \<Rightarrow> Inr p))"

definition EncryptValue :: "('i, 'r) crypto \<Rightarrow> nat \<Rightarrow> string \<Rightarrow> ('i, 'r) Keyring option \<Rightarrow> vault_error + string" where
  "EncryptValue C seed v k =
     bind_res (EncryptFormat k) (\<lambda>f. case f of
       FormatAge \<Rightarrow> encryptAge C seed v (kr_recipients (the k))
     | FormatVault \<Rightarrow>
         (case cy_vault_encrypt C seed v (kr_vaultPassword (the k)) of None \<Rightarrow> Inl EncryptFailed | Some c \<Rightarrow> Inr c))"

definition decryptWith :: "('i, 'r) crypto \<Rightarrow> string \<Rightarrow> format \<Rightarrow> ('i, 'r) Keyring \<Rightarrow> vault_error + string" where
  "decryptWith C v f k =
     (if f = FormatAge then decryptAge C v (kr_identities k)
      else (case cy_vault_decrypt C v (kr_vaultPassword k) of None \<Rightarrow> Inl DecryptFailed | Some p \<Rightarrow> Inr p))"

definition DecryptValue :: "('i, 'r) crypto \<Rightarrow> string \<Rightarrow> ('i, 'r) Keyring option \<Rightarrow> vault_error + string" where
  "DecryptValue C v k =
     (case FormatOf v of
        None \<Rightarrow> Inl NotEncrypted
      | Some f \<Rightarrow> if \<not> CanDecrypt k f then Inl (MissingKey f) else decryptWith C v f (the k))"

subsection \<open>The credentials of a configuration\<close>

text \<open>The fields of a registry that may hold ciphertext: name, reading, writing.\<close>

type_synonym field = "string \<times> (Registries \<Rightarrow> string) \<times> (string \<Rightarrow> Registries \<Rightarrow> Registries)"

definition map_auth :: "(RegistryAuth \<Rightarrow> RegistryAuth) \<Rightarrow> Registries \<Rightarrow> Registries" where
  "map_auth f r = r\<lparr>rg_Authentication := f (rg_Authentication r)\<rparr>"

definition auth_fields :: "field list" where
  "auth_fields =
     [(''auth.user'', \<lambda>r. ra_Username (rg_Authentication r), \<lambda>v. map_auth (ra_Username_update (\<lambda>_. v))),
      (''auth.pass'', \<lambda>r. ra_Password (rg_Authentication r), \<lambda>v. map_auth (ra_Password_update (\<lambda>_. v))),
      (''auth.token'', \<lambda>r. ra_Token (rg_Authentication r), \<lambda>v. map_auth (ra_Token_update (\<lambda>_. v)))]"

definition ca_field :: field where
  "ca_field = (''tls.ca'', \<lambda>r. rt_CA (the (rg_TLS r)), \<lambda>v r. r\<lparr>rg_TLS := map_option (rt_CA_update (\<lambda>_. v)) (rg_TLS r)\<rparr>)"

definition registry_fields :: "Registries \<Rightarrow> field list" where
  "registry_fields r = auth_fields @ (if rg_TLS r \<noteq> None then [ca_field] else [])"

fun decrypt_fields ::
  "('i, 'r) crypto \<Rightarrow> ('i, 'r) Keyring option \<Rightarrow> field list \<Rightarrow> Registries \<Rightarrow> bool \<Rightarrow> vault_error option \<times> Registries \<times> bool"
where
  "decrypt_fields C k [] r decrypted = (None, r, decrypted)"
| "decrypt_fields C k ((name, get, put) # fs) r decrypted =
     (case FormatOf (get r) of
        None \<Rightarrow> decrypt_fields C k fs r decrypted
      | Some f \<Rightarrow>
          if \<not> CanDecrypt k f then (Some (FieldMissingKey (rg_Name r) name f), r, decrypted)
          else (case decryptWith C (get r) f (the k) of
                  Inl e \<Rightarrow> (Some (FieldDecrypt (rg_Name r) name), r, decrypted)
                | Inr plain \<Rightarrow> decrypt_fields C k fs (put plain r) True))"

definition decrypt_registry ::
  "registry_lib \<Rightarrow> ('i, 'r) crypto \<Rightarrow> ('i, 'r) Keyring option \<Rightarrow> Registries \<Rightarrow> vault_error option \<times> Registries"
where
  "decrypt_registry L C k r =
     (case decrypt_fields C k (registry_fields r) r False of
        (Some e, r') \<Rightarrow> (Some e, fst r')
      | (None, r', decrypted) \<Rightarrow>
          (if decrypted then map_option DecryptedTLS (RegistryTLS_Validate L (rg_TLS r') (rg_Name r')) else None, r'))"

fun DecryptRegistryAuth ::
  "registry_lib \<Rightarrow> ('i, 'r) crypto \<Rightarrow> ('i, 'r) Keyring option \<Rightarrow> Registries list \<Rightarrow> vault_error option \<times> Registries list"
where
  "DecryptRegistryAuth L C k [] = (None, [])"
| "DecryptRegistryAuth L C k (r # rs) =
     (case decrypt_registry L C k r of
        (Some e, r') \<Rightarrow> (Some e, r' # rs)
      | (None, r') \<Rightarrow> (case DecryptRegistryAuth L C k rs of (e, rs') \<Rightarrow> (e, r' # rs')))"

text \<open>The check runs on a copy, so only the error comes back; no configuration is no error.\<close>

definition VerifyRegistryAuth ::
  "registry_lib \<Rightarrow> ('i, 'r) crypto \<Rightarrow> ('i, 'r) Keyring option \<Rightarrow> Registries list option \<Rightarrow> vault_error option"
where
  "VerifyRegistryAuth L C k dis = (case dis of None \<Rightarrow> None | Some rs \<Rightarrow> fst (DecryptRegistryAuth L C k rs))"

subsection \<open>Reading keys\<close>

text \<open>What \<open>agessh.ParseIdentity\<close> answers: a key, a key that wants a passphrase with its public key if it
  carries one, or an error.\<close>

datatype ('i, 'p) ssh_key = SSHKey 'i | SSHLocked "'p option" | SSHInvalid

record ('i, 'r, 'p) key_env =
  ke_getenv :: "string \<Rightarrow> string"
  ke_file :: "string \<Rightarrow> string option"
  ke_home :: "string option"
  ke_age_recipient :: "string \<Rightarrow> 'r option"
  ke_ssh_recipient :: "string \<Rightarrow> 'r option"
  ke_age_identities :: "string \<Rightarrow> 'i list option"
  ke_ssh_identity :: "string \<Rightarrow> ('i, 'p) ssh_key"
  ke_authorized_key :: "string \<Rightarrow> 'p option"
  ke_encrypted_identity :: "'p \<Rightarrow> string \<Rightarrow> 'i option"
  ke_can_ask :: bool
  ke_public_key :: "'i \<Rightarrow> string option"

datatype key_error =
    PasswordFileUnreadable
  | HomeUnknown
  | FileUnreadable string
  | FileTooLong string
  | EmptyKey
  | RecipientIsSecret
  | RecipientInvalid
  | RecipientRefused string
  | RecipientSecretRefused
  | LineNotUTF8 nat
  | LineInvalid nat key_error
  | LineTooLong
  | LongerThanLimit
  | RecipientsInvalid string key_error
  | NoRecipientsIn string
  | IdentityInvalid
  | NoTerminal string
  | PublicKeyUnreadable string
  | PublicKeyInvalid string
  | IdentitiesInvalid string key_error
  | NoIdentitiesIn string
  | SSHHasNoPublicKey
  | NoPublicKey nat

definition keyFileSizeLimit :: nat where "keyFileSizeLimit = 16777216"

definition pemHeaderPrefix :: string where "pemHeaderPrefix = ''-----BEGIN ''"

definition secretPrefixes :: "string list" where
  "secretPrefixes = [''AGE-SECRET-KEY-'', pemHeaderPrefix]"

definition GetAbsHomePath :: "('i, 'r, 'p) key_env \<Rightarrow> string \<Rightarrow> key_error + string" where
  "GetAbsHomePath E path =
     (if \<not> has_prefix path ''~'' \<or> (tl path \<noteq> [] \<and> hd (tl path) \<noteq> CHR ''/'') then Inr path
      else (case ke_home E of None \<Rightarrow> Inl HomeUnknown | Some home \<Rightarrow> Inr (path_Join home (tl path))))"

definition readKeyFile :: "('i, 'r, 'p) key_env \<Rightarrow> string \<Rightarrow> key_error + string" where
  "readKeyFile E path =
     (case ke_file E path of
        None \<Rightarrow> Inl (FileUnreadable path)
      | Some contents \<Rightarrow> if length contents > keyFileSizeLimit then Inl (FileTooLong path) else Inr contents)"

definition ParseRecipient :: "('i, 'r, 'p) key_env \<Rightarrow> string \<Rightarrow> key_error + 'r" where
  "ParseRecipient E key =
     (if key = [] then Inl EmptyKey
      else if list_ex (has_prefix key) secretPrefixes then Inl RecipientIsSecret
      else (case (if has_prefix key ''age1'' then ke_age_recipient E key else ke_ssh_recipient E key) of
              None \<Rightarrow> Inl RecipientInvalid | Some r \<Rightarrow> Inr r))"

text \<open>\<open>bufio.Scanner\<close> splitting lines: no empty last line, a carriage return before the feed dropped.\<close>

definition scan_lines :: "string \<Rightarrow> string list" where
  "scan_lines s = (let ws = split_on nl s in if last ws = [] then butlast ws else ws)"

definition drop_cr :: "string \<Rightarrow> string" where
  "drop_cr s = (if s \<noteq> [] \<and> last s = cr then butlast s else s)"

fun parse_recipient_lines ::
  "('i, 'r, 'p) key_env \<Rightarrow> nat \<Rightarrow> string list \<Rightarrow> key_error + ('r list \<times> string list)"
where
  "parse_recipient_lines E n [] = Inr ([], [])"
| "parse_recipient_lines E n (raw # rest) =
     (let line = drop_cr raw in
      if length raw \<ge> 65536 then Inl LineTooLong
      else if line = [] \<or> has_prefix line ''#'' then parse_recipient_lines E (n + 1) rest
      else if \<not> valid_utf8 line then Inl (LineNotUTF8 n)
      else (case ParseRecipient E line of
              Inl e \<Rightarrow> Inl (LineInvalid n e)
            | Inr r \<Rightarrow> bind_res (parse_recipient_lines E (n + 1) rest) (\<lambda>(rs, ls). Inr (r # rs, line # ls))))"

definition ParseRecipients :: "('i, 'r, 'p) key_env \<Rightarrow> string \<Rightarrow> key_error + ('r list \<times> string list)" where
  "ParseRecipients E contents =
     bind_res (parse_recipient_lines E 1 (scan_lines (take (keyFileSizeLimit + 1) contents))) (\<lambda>r.
       if length contents > keyFileSizeLimit then Inl LongerThanLimit else Inr r)"

definition publicKeyBeside :: "('i, 'r, 'p) key_env \<Rightarrow> string \<Rightarrow> key_error + 'p" where
  "publicKeyBeside E path =
     (case ke_file E (path @ ''.pub'') of
        None \<Rightarrow> Inl (PublicKeyUnreadable path)
      | Some contents \<Rightarrow>
          (case ke_authorized_key E contents of None \<Rightarrow> Inl (PublicKeyInvalid path) | Some p \<Rightarrow> Inr p))"

definition encryptedSSHIdentity ::
  "('i, 'r, 'p) key_env \<Rightarrow> string \<Rightarrow> string \<Rightarrow> 'p option \<Rightarrow> key_error + 'i list"
where
  "encryptedSSHIdentity E path contents pubKey =
     (if \<not> ke_can_ask E then Inl (NoTerminal path)
      else bind_res (case pubKey of Some p \<Rightarrow> Inr p | None \<Rightarrow> publicKeyBeside E path) (\<lambda>p.
        case ke_encrypted_identity E p contents of None \<Rightarrow> Inl IdentityInvalid | Some i \<Rightarrow> Inr [i]))"

definition holds_pem :: "string \<Rightarrow> bool" where
  "holds_pem contents \<longleftrightarrow> has_prefix (trim_left (\<lambda>c. blank_char c \<or> c = cr \<or> c = nl) contents) pemHeaderPrefix"

definition parseIdentityFile :: "('i, 'r, 'p) key_env \<Rightarrow> string \<Rightarrow> string \<Rightarrow> key_error + 'i list" where
  "parseIdentityFile E path contents =
     (if \<not> holds_pem contents then
        (case ke_age_identities E contents of None \<Rightarrow> Inl IdentityInvalid | Some is \<Rightarrow> Inr is)
      else (case ke_ssh_identity E contents of
              SSHKey i \<Rightarrow> Inr [i]
            | SSHInvalid \<Rightarrow> Inl IdentityInvalid
            | SSHLocked pubKey \<Rightarrow> encryptedSSHIdentity E path contents pubKey))"

fun public_keys :: "('i, 'r, 'p) key_env \<Rightarrow> nat \<Rightarrow> 'i list \<Rightarrow> key_error + string list" where
  "public_keys E n [] = Inr []"
| "public_keys E n (i # is) =
     (case ke_public_key E i of
        None \<Rightarrow> Inl (NoPublicKey n)
      | Some p \<Rightarrow> bind_res (public_keys E (n + 1) is) (\<lambda>ps. Inr (p # ps)))"

definition AgeRecipientsIn :: "('i, 'r, 'p) key_env \<Rightarrow> string \<Rightarrow> key_error + string list" where
  "AgeRecipientsIn E contents =
     (if length contents > keyFileSizeLimit then Inl LongerThanLimit
      else if holds_pem contents then Inl SSHHasNoPublicKey
      else (case ke_age_identities E contents of
              None \<Rightarrow> Inl IdentityInvalid | Some is \<Rightarrow> public_keys E 1 is))"

subsection \<open>The keyring of a command\<close>

record KeyOptions =
  ko_VaultPasswordFile :: string
  ko_AgeIdentityFiles :: "string list"
  ko_AgeRecipients :: "string list"
  ko_AgeRecipientFiles :: "string list"

definition ResolveVaultPassword :: "('i, 'r, 'p) key_env \<Rightarrow> string \<Rightarrow> key_error + string" where
  "ResolveVaultPassword E passwordFile =
     (if passwordFile \<noteq> [] then
        (case ke_file E passwordFile of
           None \<Rightarrow> Inl PasswordFileUnreadable
         | Some b \<Rightarrow> Inr (trim_right (\<lambda>c. c = cr \<or> c = nl) b))
      else if ke_getenv E ''CARGOSHIP_VAULT_PASSWORD'' \<noteq> [] then Inr (ke_getenv E ''CARGOSHIP_VAULT_PASSWORD'')
      else Inr (ke_getenv E ''ANSIBLE_VAULT_PASSWORD''))"

definition load_identity_file :: "('i, 'r, 'p) key_env \<Rightarrow> string \<Rightarrow> key_error + 'i list" where
  "load_identity_file E path0 =
     bind_res (GetAbsHomePath E path0) (\<lambda>path.
     bind_res (readKeyFile E path) (\<lambda>contents.
       case parseIdentityFile E path contents of
         Inl e \<Rightarrow> Inl (IdentitiesInvalid path e)
       | Inr is \<Rightarrow> if is = [] then Inl (NoIdentitiesIn path) else Inr is))"

definition loadIdentities :: "('i, 'r, 'p) key_env \<Rightarrow> string list \<Rightarrow> key_error + 'i list" where
  "loadIdentities E files =
     (let env = ke_getenv E ''CARGOSHIP_AGE_IDENTITY_FILE'' in
      bind_res (map_res (load_identity_file E) (if files = [] \<and> env \<noteq> [] then [env] else files))
        (\<lambda>iss. Inr (concat iss)))"

definition recordRecipientString :: "string list \<Rightarrow> string \<Rightarrow> string list" where
  "recordRecipientString known key =
     (let trimmed = trim_space key in
      if trimmed = [] \<or> trimmed \<in> set known then known else known @ [trimmed])"

definition load_recipient_key :: "('i, 'r, 'p) key_env \<Rightarrow> string \<Rightarrow> key_error + ('r list \<times> string list)" where
  "load_recipient_key E key =
     (case ParseRecipient E key of
        Inl RecipientIsSecret \<Rightarrow> Inl RecipientSecretRefused
      | Inl e \<Rightarrow> Inl (RecipientRefused key)
      | Inr r \<Rightarrow> Inr ([r], [key]))"

definition load_recipient_file :: "('i, 'r, 'p) key_env \<Rightarrow> string \<Rightarrow> key_error + ('r list \<times> string list)" where
  "load_recipient_file E path0 =
     bind_res (GetAbsHomePath E path0) (\<lambda>path.
     bind_res (readKeyFile E path) (\<lambda>contents.
       case ParseRecipients E contents of
         Inl e \<Rightarrow> Inl (RecipientsInvalid path e)
       | Inr (rs, ls) \<Rightarrow> if rs = [] then Inl (NoRecipientsIn path) else Inr (rs, ls)))"

text \<open>\<open>strings.Fields\<close>.\<close>

fun add_char :: "string list \<Rightarrow> bool \<Rightarrow> string \<Rightarrow> string list" where
  "add_char ws open1 [] = ws"
| "add_char ws open1 (c # cs) =
     (if is_space c then add_char ws False cs
      else if open1 then add_char (butlast ws @ [last ws @ [c]]) True cs
      else add_char (ws @ [[c]]) True cs)"

definition str_fields :: "string \<Rightarrow> string list" where
  "str_fields s = add_char [] False s"

definition recipient_sources :: "('i, 'r, 'p) key_env \<Rightarrow> string list \<Rightarrow> string list \<Rightarrow> string list" where
  "recipient_sources E keys files =
     (if keys = [] \<and> files = [] then str_fields (ke_getenv E ''CARGOSHIP_AGE_RECIPIENTS'') else keys)"

definition loadRecipients ::
  "('i, 'r, 'p) key_env \<Rightarrow> string list \<Rightarrow> string list \<Rightarrow> key_error + ('r list \<times> string list)"
where
  "loadRecipients E keys files =
     bind_res (map_res (load_recipient_key E) (recipient_sources E keys files)) (\<lambda>ps.
     bind_res (map_res (load_recipient_file E) files) (\<lambda>qs.
       Inr (concat (map fst (ps @ qs)), foldl recordRecipientString [] (concat (map snd (ps @ qs))))))"

definition ResolveKeyring :: "('i, 'r, 'p) key_env \<Rightarrow> KeyOptions \<Rightarrow> key_error + ('i, 'r) Keyring" where
  "ResolveKeyring E opts =
     bind_res (ResolveVaultPassword E (ko_VaultPasswordFile opts)) (\<lambda>password.
     bind_res (loadIdentities E (ko_AgeIdentityFiles opts)) (\<lambda>is.
     bind_res (loadRecipients E (ko_AgeRecipients opts) (ko_AgeRecipientFiles opts)) (\<lambda>(rs, strings).
       Inr \<lparr>kr_vaultPassword = password, kr_vaultExplicit = (ko_VaultPasswordFile opts \<noteq> []), kr_identities = is,
            kr_recipients = rs, kr_recipientStrings = strings,
            kr_ageExplicit = (ko_AgeRecipients opts \<noteq> [] \<or> ko_AgeRecipientFiles opts \<noteq> [])\<rparr>)))"

subsection \<open>Recipients that were asked for are used\<close>

lemma parse_recipient_lines_length:
  "parse_recipient_lines E n ls = Inr (rs, ws) \<Longrightarrow> length rs = length ws \<and>
     (\<forall>w \<in> set ws. w \<in> drop_cr ` set ls \<and> (\<exists>r. ParseRecipient E w = Inr r))"
  by (induction E n ls arbitrary: rs ws rule: parse_recipient_lines.induct)
    (fastforce simp: Let_def bind_res_Inr split: if_splits sum.splits)+

lemma load_recipient_key_Inr:
  "load_recipient_key E key = Inr p \<longleftrightarrow> (\<exists>r. ParseRecipient E key = Inr r \<and> p = ([r], [key]))"
  by (auto simp: load_recipient_key_def split: sum.splits key_error.splits)

lemma load_recipient_file_Inr: "load_recipient_file E path = Inr p \<Longrightarrow> fst p \<noteq> []"
  unfolding load_recipient_file_def bind_res_Inr
  by (elim exE conjE, split sum.split_asm) (auto split: if_split_asm)

lemma map_res_each: "map_res f xs = Inr ys \<Longrightarrow> (\<And>x y. f x = Inr y \<Longrightarrow> P y) \<Longrightarrow> \<forall>y \<in> set ys. P y"
  by (induction xs arbitrary: ys) (auto simp: bind_res_Inr)

lemma load_recipient_key_some: "load_recipient_key E key = Inr p \<Longrightarrow> fst p \<noteq> []"
  by (auto simp: load_recipient_key_Inr)

lemma loadRecipients_nonempty:
  assumes "loadRecipients E keys files = Inr (rs, strings)" and "keys \<noteq> [] \<or> files \<noteq> []"
  shows "rs \<noteq> []"
proof -
  have src: "recipient_sources E keys files = keys" using assms(2) by (auto simp: recipient_sources_def)
  obtain ps qs where ps: "map_res (load_recipient_key E) keys = Inr ps" and qs: "map_res (load_recipient_file E) files = Inr qs"
      and rs: "rs = concat (map fst (ps @ qs))"
    using assms(1) by (auto simp: loadRecipients_def bind_res_Inr src)
  have "\<forall>p \<in> set ps. fst p \<noteq> []" by (rule map_res_each [OF ps load_recipient_key_some])
  moreover have "\<forall>p \<in> set qs. fst p \<noteq> []" by (rule map_res_each [OF qs load_recipient_file_Inr])
  moreover have "length (ps @ qs) = length keys + length files"
    using ps qs by (simp add: map_res_Inr list_all2_lengthD)
  then have "ps @ qs \<noteq> []" using assms(2) by auto
  ultimately have "\<exists>p \<in> set (ps @ qs). fst p \<noteq> []" by (metis Un_iff last_in_set set_append)
  then show ?thesis unfolding rs by auto
qed

text \<open>C28. Recipients named on the command line are never dropped in favour of a password: a keyring read
  with such flags writes age or, if a password file was named as well, refuses to choose. A keyring
  without these flags and without recipients in the environment writes Ansible Vault or refuses.\<close>

theorem ResolveKeyring_never_falls_back:
  assumes "ResolveKeyring E opts = Inr k"
  shows "if ko_AgeRecipients opts \<noteq> [] \<or> ko_AgeRecipientFiles opts \<noteq> []
         then EncryptFormat (Some k) = (if ko_VaultPasswordFile opts \<noteq> [] then Inl BothGiven else Inr FormatAge)
         else EncryptFormat (Some k) =
           (if str_fields (ke_getenv E ''CARGOSHIP_AGE_RECIPIENTS'') \<noteq> [] then Inr FormatAge
            else if kr_vaultPassword k \<noteq> [] then Inr FormatVault else Inl NoKeyMaterial)"
proof -
  obtain rs strings where rs: "loadRecipients E (ko_AgeRecipients opts) (ko_AgeRecipientFiles opts) = Inr (rs, strings)"
      and k: "kr_recipients k = rs" "kr_vaultExplicit k = (ko_VaultPasswordFile opts \<noteq> [])"
        "kr_ageExplicit k = (ko_AgeRecipients opts \<noteq> [] \<or> ko_AgeRecipientFiles opts \<noteq> [])"
    using assms by (auto simp: ResolveKeyring_def bind_res_Inr)
  show ?thesis
  proof (cases "ko_AgeRecipients opts \<noteq> [] \<or> ko_AgeRecipientFiles opts \<noteq> []")
    case True
    then show ?thesis using loadRecipients_nonempty [OF rs True] k by (auto simp: EncryptFormat_def)
  next
    case False
    then obtain ps where ps: "map_res (load_recipient_key E) (str_fields (ke_getenv E ''CARGOSHIP_AGE_RECIPIENTS'')) = Inr ps"
        and rs': "rs = concat (map fst ps)"
      using rs by (auto simp: loadRecipients_def recipient_sources_def bind_res_Inr)
    have "\<forall>p \<in> set ps. fst p \<noteq> []" by (rule map_res_each [OF ps load_recipient_key_some])
    then have "rs = [] \<longleftrightarrow> ps = []" unfolding rs' by (cases ps) auto
    moreover have "ps = [] \<longleftrightarrow> str_fields (ke_getenv E ''CARGOSHIP_AGE_RECIPIENTS'') = []"
      using ps by (auto simp: map_res_Inr)
    ultimately show ?thesis using False k by (simp add: EncryptFormat_def)
  qed
qed

definition sample_env :: "(string, string, string) key_env" where
  "sample_env =
     \<lparr>ke_getenv = (\<lambda>v. if v = ''CARGOSHIP_VAULT_PASSWORD'' then ''old'' else []),
      ke_file = (\<lambda>p. if p = ''/home/op/team.txt'' then Some (''age1ann'' @ [cr, nl] @ ''# bob left'' @ [nl] @ ''ssh-ed25519 AAAA cy@lap'') else None),
      ke_home = Some ''/home/op'', ke_age_recipient = Some, ke_ssh_recipient = Some,
      ke_age_identities = (\<lambda>_. None), ke_ssh_identity = (\<lambda>_. SSHInvalid), ke_authorized_key = (\<lambda>_. None),
      ke_encrypted_identity = (\<lambda>_ _. None), ke_can_ask = False, ke_public_key = (\<lambda>_. None)\<rparr>"

definition sample_options :: KeyOptions where
  "sample_options =
     \<lparr>ko_VaultPasswordFile = [], ko_AgeIdentityFiles = [], ko_AgeRecipients = [''age1ann''], ko_AgeRecipientFiles = [''~/team.txt'']\<rparr>"

definition sample_keyring :: "(string, string) Keyring" where
  "sample_keyring =
     \<lparr>kr_vaultPassword = ''old'', kr_vaultExplicit = False, kr_identities = [],
      kr_recipients = [''age1ann'', ''age1ann'', ''ssh-ed25519 AAAA cy@lap''],
      kr_recipientStrings = [''age1ann'', ''ssh-ed25519 AAAA cy@lap''], kr_ageExplicit = True\<rparr>"

lemma ResolveKeyring_sample: "ResolveKeyring sample_env sample_options = Inr sample_keyring"
  by code_simp

lemma ResolveKeyring_never_falls_back_witness:
  "ResolveKeyring sample_env sample_options = Inr sample_keyring \<and> kr_vaultPassword sample_keyring = ''old'' \<and>
   EncryptFormat (Some sample_keyring) = Inr FormatAge"
  using ResolveKeyring_never_falls_back [OF ResolveKeyring_sample] ResolveKeyring_sample
  by (simp add: sample_options_def sample_keyring_def)

lemma add_char_words:
  "\<forall>w \<in> set ws. w \<noteq> [] \<and> (\<forall>c \<in> set w. \<not> is_space c) \<Longrightarrow> open1 \<longrightarrow> ws \<noteq> [] \<Longrightarrow>
   \<forall>w \<in> set (add_char ws open1 s). w \<noteq> [] \<and> (\<forall>c \<in> set w. \<not> is_space c)"
proof (induction ws open1 s rule: add_char.induct)
  case (2 ws open1 c cs)
  have parts: "\<forall>w \<in> set (butlast ws @ [last ws @ [c]]). w \<noteq> [] \<and> (\<forall>c \<in> set w. \<not> is_space c)" if "open1" "\<not> is_space c"
    using "2.prems" that last_in_set [of ws] by (auto dest: in_set_butlastD)
  show ?case
  proof (cases "is_space c")
    case True then show ?thesis using "2.IH"(1) "2.prems" by simp
  next
    case False
    show ?thesis
    proof (cases open1)
      case True then show ?thesis using "2.IH"(2) [OF False True parts [OF True False]] False by simp
    next
      case no: False then show ?thesis using "2.IH"(3) [OF False no] "2.prems"(1) False by simp
    qed
  qed
qed simp

lemma recorded_strings: "set (foldl recordRecipientString known ws) \<subseteq> set known \<union> trim_space ` set ws"
proof (induction ws arbitrary: known)
  case (Cons w ws)
  have "set (recordRecipientString known w) \<subseteq> set known \<union> {trim_space w}"
    by (auto simp: recordRecipientString_def Let_def)
  then show ?case using Cons.IH [of "recordRecipientString known w"] by auto
qed simp

text \<open>A recipient that comes from the environment has no white space in it: the variable is split at
  white space, so an SSH public key, whose text has at least two words, cannot be given there, although
  the flag and the file accept it.\<close>

theorem environment_recipients_are_words:
  assumes "ResolveKeyring E opts = Inr k" and "ko_AgeRecipients opts = []" and "ko_AgeRecipientFiles opts = []"
  shows "\<forall>s \<in> set (kr_recipientStrings k). \<forall>c \<in> set s. \<not> is_space c"
proof -
  obtain rs where rs: "loadRecipients E [] [] = Inr (rs, kr_recipientStrings k)"
    using assms by (auto simp: ResolveKeyring_def bind_res_Inr)
  then obtain ps where ps: "map_res (load_recipient_key E) (str_fields (ke_getenv E ''CARGOSHIP_AGE_RECIPIENTS'')) = Inr ps"
      and k: "kr_recipientStrings k = foldl recordRecipientString [] (concat (map snd ps))"
    by (auto simp: loadRecipients_def recipient_sources_def bind_res_Inr)
  have keys: "map_res (load_recipient_key E) ws = Inr qs \<Longrightarrow> concat (map snd qs) = ws" for ws qs
    by (induction ws arbitrary: qs) (auto simp: bind_res_Inr load_recipient_key_Inr)
  have words: "\<forall>w \<in> set (str_fields s). w \<noteq> [] \<and> (\<forall>c \<in> set w. \<not> is_space c)" for s
    unfolding str_fields_def by (rule add_char_words) simp_all
  have "trim_space w = w" if "w \<in> set (str_fields s)" for w s
    using words [of s] that by (intro trim_space_fixed) (auto intro: hd_in_set last_in_set)
  then have "set (kr_recipientStrings k) \<subseteq> set (str_fields (ke_getenv E ''CARGOSHIP_AGE_RECIPIENTS''))"
    using recorded_strings [of "[]" "concat (map snd ps)"] unfolding k keys [OF ps] by auto
  then show ?thesis using words by blast
qed

definition no_options :: KeyOptions where
  "no_options = \<lparr>ko_VaultPasswordFile = [], ko_AgeIdentityFiles = [], ko_AgeRecipients = [], ko_AgeRecipientFiles = []\<rparr>"

definition two_recipients :: "(string, string, string) key_env" where
  "two_recipients = sample_env\<lparr>ke_getenv := (\<lambda>v. if v = ''CARGOSHIP_AGE_RECIPIENTS'' then ''ssh-rsa age1bob'' else [])\<rparr>"

lemma environment_recipients_are_words_witness:
  "\<exists>k. ResolveKeyring two_recipients no_options = Inr k \<and> kr_recipientStrings k = [''ssh-rsa'', ''age1bob''] \<and>
       (\<forall>s \<in> set (kr_recipientStrings k). \<forall>c \<in> set s. \<not> is_space c)"
proof -
  let ?k = "\<lparr>kr_vaultPassword = [], kr_vaultExplicit = False, kr_identities = [], kr_recipients = [''ssh-rsa'', ''age1bob''],
      kr_recipientStrings = [''ssh-rsa'', ''age1bob''], kr_ageExplicit = False\<rparr> :: (string, string) Keyring"
  have k: "ResolveKeyring two_recipients no_options = Inr ?k" by code_simp
  have opts: "ko_AgeRecipients no_options = []" "ko_AgeRecipientFiles no_options = []" by (simp_all add: no_options_def)
  show ?thesis
    by (rule exI [of _ ?k]) (use k environment_recipients_are_words [OF k opts] in simp)
qed

subsection \<open>What was encrypted is read back\<close>

text \<open>What the code relies on of the two libraries: a ciphertext carries the header of its format and opens
  to what was encrypted, with the password or with an identity that fits one of the recipients; line
  feeds at its end do not matter.\<close>

definition vault_opens :: "('i, 'r) crypto \<Rightarrow> bool" where
  "vault_opens C \<longleftrightarrow>
     (\<forall>seed v p c. cy_vault_encrypt C seed v p = Some c \<longrightarrow>
        IsVaultEncrypted c \<and> cy_vault_decrypt C (trim_right (\<lambda>c. c = nl) c) p = Some v)"

definition age_opens :: "('i, 'r) crypto \<Rightarrow> ('i \<Rightarrow> 'r \<Rightarrow> bool) \<Rightarrow> bool" where
  "age_opens C fits \<longleftrightarrow>
     (\<forall>seed rs v c is. cy_age_encrypt C seed rs v = Some c \<longrightarrow>
        IsAgeEncrypted c \<and>
        ((\<exists>i \<in> set is. \<exists>r \<in> set rs. fits i r) \<longrightarrow> cy_age_decrypt C is (trim_right (\<lambda>c. c = nl) c) = Some v))"

text \<open>\<open>to\<close> holds what opens the values \<open>from\<close> writes.\<close>

definition reads :: "('i \<Rightarrow> 'r \<Rightarrow> bool) \<Rightarrow> ('i, 'r) Keyring \<Rightarrow> ('i, 'r) Keyring \<Rightarrow> bool" where
  "reads fits to from \<longleftrightarrow>
     (case EncryptFormat (Some from) of
        Inl _ \<Rightarrow> False
      | Inr FormatVault \<Rightarrow> kr_vaultPassword to = kr_vaultPassword from
      | Inr FormatAge \<Rightarrow> \<exists>i \<in> set (kr_identities to). \<exists>r \<in> set (kr_recipients from). fits i r)"

lemma trim_space_chomp: "trim_space (trim_right (\<lambda>c. c = nl) s) = trim_space s"
proof -
  obtain k where s: "s = trim_right (\<lambda>c. c = nl) s @ k" and k: "\<forall>c \<in> set k. is_space c"
  proof -
    have "rev s = takeWhile (\<lambda>c. c = nl) (rev s) @ dropWhile (\<lambda>c. c = nl) (rev s)" by simp
    then have "s = trim_right (\<lambda>c. c = nl) s @ rev (takeWhile (\<lambda>c. c = nl) (rev s))"
      by (metis rev_append rev_rev_ident trim_right_def)
    moreover have "\<forall>c \<in> set (rev (takeWhile (\<lambda>c. c = nl) (rev s))). is_space c"
      by (auto dest: set_takeWhileD simp: is_space_def nl_def byte_def)
    ultimately show thesis by (rule that)
  qed
  have drop: "dropWhile is_space (rev k @ u) = dropWhile is_space u" for u
    using k by (intro dropWhile_append2) auto
  have "trim_space (u @ k) = trim_space u" for u
  proof (cases "\<forall>x \<in> set u. is_space x")
    case True
    then have "dropWhile is_space (u @ k) = []" "dropWhile is_space u = []" using k by auto
    then show ?thesis by (simp only: trim_space_def trim_by_def trim_left_def)
  next
    case False
    then obtain x where "x \<in> set u" "\<not> is_space x" by blast
    then have "dropWhile is_space (u @ k) = dropWhile is_space u @ k" by (rule dropWhile_append1)
    then show ?thesis by (simp add: trim_space_def trim_by_def trim_left_def trim_right_def drop)
  qed
  then show ?thesis using s by metis
qed

lemma FormatOf_chomp: "FormatOf (trim_right (\<lambda>c. c = nl) v) = FormatOf v"
  by (simp add: FormatOf_def IsVaultEncrypted_def IsAgeEncrypted_def trim_space_chomp)

lemma EncryptFormat_Inr:
  "EncryptFormat k = Inr f \<Longrightarrow> \<exists>q. k = Some q \<and>
     (case f of FormatAge \<Rightarrow> kr_recipients q \<noteq> [] | FormatVault \<Rightarrow> kr_recipients q = [] \<and> kr_vaultPassword q \<noteq> [])"
  by (auto simp: EncryptFormat_def split: option.splits if_splits)

text \<open>What a keyring encrypts carries the header of the format it chose, and any keyring that holds the
  password, or an identity for one of the recipients, reads the value back from it, also after the line
  feeds at its end were taken off; in particular it is never mistaken for the other format.\<close>

theorem EncryptValue_read_back:
  assumes "vault_opens C" and "age_opens C fits"
    and "EncryptValue C seed v (Some from) = Inr c" and "reads fits to from"
  shows "EncryptFormat (Some from) = Inr (the (FormatOf c)) \<and> IsEncrypted c \<and>
    FormatOf (trim_right (\<lambda>c. c = nl) c) = FormatOf c \<and>
    DecryptValue C (trim_right (\<lambda>c. c = nl) c) (Some to) = Inr v"
proof -
  obtain f where f: "EncryptFormat (Some from) = Inr f" using assms(3) by (auto simp: EncryptValue_def bind_res_Inr)
  show ?thesis
  proof (cases f)
    case FormatAge
    have c: "cy_age_encrypt C seed (kr_recipients from) v = Some c"
      using assms(3) f FormatAge by (auto simp: EncryptValue_def encryptAge_def split: if_splits option.splits)
    have fit: "\<exists>i \<in> set (kr_identities to). \<exists>r \<in> set (kr_recipients from). fits i r"
      using assms(4) f FormatAge by (simp add: reads_def)
    have h: "IsAgeEncrypted c" "cy_age_decrypt C (kr_identities to) (trim_right (\<lambda>c. c = nl) c) = Some v"
      using assms(2) c fit unfolding age_opens_def by blast+
    have fo: "FormatOf c = Some FormatAge" using h(1) headers_exclusive [of c] by (auto simp: FormatOf_def)
    have "kr_identities to \<noteq> []" using fit by auto
    then show ?thesis using f FormatAge fo h
      by (simp add: DecryptValue_def FormatOf_chomp CanDecrypt_def decryptWith_def decryptAge_def IsEncrypted_def)
  next
    case FormatVault
    have c: "cy_vault_encrypt C seed v (kr_vaultPassword from) = Some c"
      using assms(3) f FormatVault by (auto simp: EncryptValue_def split: option.splits)
    have p: "kr_vaultPassword to = kr_vaultPassword from" using assms(4) f FormatVault by (simp add: reads_def)
    have h: "IsVaultEncrypted c" "cy_vault_decrypt C (trim_right (\<lambda>c. c = nl) c) (kr_vaultPassword to) = Some v"
      using assms(1) c p unfolding vault_opens_def by auto
    have "kr_vaultPassword to \<noteq> []" using EncryptFormat_Inr [OF f] FormatVault p by simp
    moreover have fo: "FormatOf c = Some FormatVault" using h(1) by (simp add: FormatOf_def)
    ultimately show ?thesis using f FormatVault h
      by (simp add: DecryptValue_def FormatOf_chomp fo CanDecrypt_def decryptWith_def IsEncrypted_def)
  qed
qed

subsection \<open>A configuration is opened field by field\<close>

text \<open>The reference: the text of a value once it is opened, and an entry with every field opened.\<close>

definition opened :: "('i, 'r) crypto \<Rightarrow> ('i, 'r) Keyring option \<Rightarrow> string \<Rightarrow> string option" where
  "opened C k v =
     (if \<not> IsEncrypted v then Some v else (case DecryptValue C v k of Inr p \<Rightarrow> Some p | Inl _ \<Rightarrow> None))"

definition open_registry :: "('i, 'r) crypto \<Rightarrow> ('i, 'r) Keyring option \<Rightarrow> Registries \<Rightarrow> Registries option" where
  "open_registry C k r =
     (case (opened C k (ra_Username (rg_Authentication r)), opened C k (ra_Password (rg_Authentication r)),
            opened C k (ra_Token (rg_Authentication r)), map_option (\<lambda>t. opened C k (rt_CA t)) (rg_TLS r)) of
        (Some u, Some p, Some tok, None) \<Rightarrow>
          Some (r\<lparr>rg_Authentication := (rg_Authentication r)\<lparr>ra_Username := u, ra_Password := p, ra_Token := tok\<rparr>\<rparr>)
      | (Some u, Some p, Some tok, Some (Some ca)) \<Rightarrow>
          Some (r\<lparr>rg_Authentication := (rg_Authentication r)\<lparr>ra_Username := u, ra_Password := p, ra_Token := tok\<rparr>,
                  rg_TLS := map_option (rt_CA_update (\<lambda>_. ca)) (rg_TLS r)\<rparr>)
      | _ \<Rightarrow> None)"

definition has_ciphertext :: "Registries \<Rightarrow> bool" where
  "has_ciphertext r \<longleftrightarrow>
     IsEncrypted (ra_Username (rg_Authentication r)) \<or> IsEncrypted (ra_Password (rg_Authentication r)) \<or>
     IsEncrypted (ra_Token (rg_Authentication r)) \<or> (case rg_TLS r of None \<Rightarrow> False | Some t \<Rightarrow> IsEncrypted (rt_CA t))"

definition field_error :: "('i, 'r) Keyring option \<Rightarrow> string \<Rightarrow> string \<Rightarrow> string \<Rightarrow> vault_error" where
  "field_error k registry name v =
     (case FormatOf v of
        None \<Rightarrow> NotEncrypted
      | Some f \<Rightarrow> if CanDecrypt k f then FieldDecrypt registry name else FieldMissingKey registry name f)"

lemma decrypt_fields_step:
  "put (get r) r = r \<Longrightarrow>
   decrypt_fields C k ((name, get, put) # fs) r d =
     (case opened C k (get r) of
        None \<Rightarrow> (Some (field_error k (rg_Name r) name (get r)), r, d)
      | Some v \<Rightarrow> decrypt_fields C k fs (put v r) (d \<or> IsEncrypted (get r)))"
  by (cases "FormatOf (get r)")
    (auto simp: opened_def DecryptValue_def FormatOf_def IsEncrypted_def field_error_def split: sum.splits if_splits)

declare decrypt_fields.simps(2) [simp del]

lemma decrypt_all_fields:
  "fst (decrypt_fields C k (registry_fields r) r False) \<noteq> None \<and> open_registry C k r = None \<or>
   (\<exists>r'. decrypt_fields C k (registry_fields r) r False = (None, r', has_ciphertext r) \<and> open_registry C k r = Some r')"
proof -
  obtain name a proxy tls where r: "r = \<lparr>rg_Name = name, rg_Authentication = a, rg_Proxy = proxy, rg_TLS = tls\<rparr>" by (cases r)
  obtain u p tok where a: "a = \<lparr>ra_Username = u, ra_Password = p, ra_Token = tok\<rparr>" by (cases a)
  note defs = registry_fields_def auth_fields_def ca_field_def map_auth_def open_registry_def r a has_ciphertext_def
  show ?thesis
  proof (cases tls)
    case None
    show ?thesis
      by (simp add: None defs decrypt_fields_step split: option.split)
  next
    case (Some t)
    show ?thesis
      by (simp add: Some defs decrypt_fields_step split: option.split)
  qed
qed

lemma decrypt_registry_opened:
  "decrypt_registry L C k r = (None, r') \<longleftrightarrow>
     open_registry C k r = Some r' \<and>
     (has_ciphertext r \<longrightarrow> RegistryTLS_Validate L (rg_TLS r') (rg_Name r') = None)"
  using decrypt_all_fields [of C k r]
  by (auto simp: decrypt_registry_def split: prod.splits option.splits)

text \<open>C20. Opening the credentials of a configuration succeeds exactly when every encrypted field of every
  registry can be opened with the keyring and the TLS settings that come out are valid; then each
  registry is the one it was with those fields, and no others, in the clear. The check before a run
  answers no error in exactly these cases, and a value without a header needs no key.\<close>

theorem DecryptRegistryAuth_opens:
  "(DecryptRegistryAuth L C k rs = (None, rs') \<longleftrightarrow>
     list_all2 (\<lambda>r r'. open_registry C k r = Some r' \<and>
       (has_ciphertext r \<longrightarrow> RegistryTLS_Validate L (rg_TLS r') (rg_Name r') = None)) rs rs') \<and>
   (VerifyRegistryAuth L C k (Some rs) = None \<longleftrightarrow> (\<exists>out. DecryptRegistryAuth L C k rs = (None, out))) \<and>
   (\<not> list_ex has_ciphertext rs \<longrightarrow> DecryptRegistryAuth L C k rs = (None, rs))"
proof -
  have main: "DecryptRegistryAuth L C k rs = (None, rs') \<longleftrightarrow>
     list_all2 (\<lambda>r r'. open_registry C k r = Some r' \<and>
       (has_ciphertext r \<longrightarrow> RegistryTLS_Validate L (rg_TLS r') (rg_Name r') = None)) rs rs'" for rs rs'
  proof (induction rs arbitrary: rs')
    case (Cons r rs)
    have "DecryptRegistryAuth L C k (r # rs) = (None, rs') \<longleftrightarrow>
        (\<exists>q zs. decrypt_registry L C k r = (None, q) \<and> DecryptRegistryAuth L C k rs = (None, zs) \<and> rs' = q # zs)"
      by (auto split: prod.split option.split)
    then show ?case unfolding decrypt_registry_opened Cons.IH list_all2_Cons1 by blast
  qed auto
  have same: "open_registry C k r = Some r" if "\<not> has_ciphertext r" for r
    using that by (cases "rg_TLS r") (auto simp: open_registry_def opened_def has_ciphertext_def)
  have "\<not> list_ex has_ciphertext rs \<longrightarrow> DecryptRegistryAuth L C k rs = (None, rs)"
    unfolding main using same by (auto simp: list_ex_iff list_all2_same)
  moreover have "VerifyRegistryAuth L C k (Some rs) = None \<longleftrightarrow> (\<exists>out. DecryptRegistryAuth L C k rs = (None, out))"
    by (simp add: VerifyRegistryAuth_def) (metis fst_conv prod.collapse)
  ultimately show ?thesis using main by blast
qed

subsection \<open>Sample libraries\<close>

text \<open>Libraries that keep the laws: a packed text ends in a full stop.\<close>

definition pack :: "string \<Rightarrow> string" where
  "pack v = concat (map (\<lambda>c. [CHR ''x'', c]) v) @ ''.''"

fun unpack :: "string \<Rightarrow> string" where
  "unpack (x # c # s) = (if x = CHR ''x'' then c # unpack s else [])"
| "unpack _ = []"

lemma unpack_pack [simp]: "unpack (pack v @ s) = v"
proof (induction v)
  case Nil
  then show ?case by (cases s) (simp_all add: pack_def)
qed (simp add: pack_def)

lemma pack_chomp: "trim_right (\<lambda>c. c = nl) (s @ pack v) = s @ pack v"
  by (rule trim_right_fixed) (simp add: pack_def nl_def)

definition sample_crypto :: "(string, string) crypto" where
  "sample_crypto =
     \<lparr>cy_vault_encrypt = (\<lambda>seed v p. Some (VaultHeader @ pack p @ pack v)),
      cy_vault_decrypt = (\<lambda>c p.
        if has_prefix c (VaultHeader @ pack p) then Some (unpack (drop (length (VaultHeader @ pack p)) c)) else None),
      cy_age_encrypt = (\<lambda>seed rs v. Some (AgeHeader @ pack v @ concat (map (\<lambda>r. ''r'' @ pack r) rs))),
      cy_age_decrypt = (\<lambda>is c.
        if list_ex (\<lambda>i. str_contains c (''r'' @ pack i)) is then Some (unpack (drop (length AgeHeader) c)) else None)\<rparr>"

lemma header_encrypted: "IsVaultEncrypted (VaultHeader @ s @ pack v)"
proof -
  have "trim_space (VaultHeader @ s @ pack v) = VaultHeader @ s @ pack v"
    by (rule trim_space_fixed) (simp add: VaultHeader_def pack_def is_space_def byte_def)
  then show ?thesis by (simp add: IsVaultEncrypted_def has_prefix_def)
qed

lemma sample_vault_opens: "vault_opens sample_crypto"
  unfolding vault_opens_def
proof (intro allI impI)
  fix seed v p c assume "cy_vault_encrypt sample_crypto seed v p = Some c"
  then have c: "c = VaultHeader @ pack p @ pack v" by (simp add: sample_crypto_def)
  have "trim_right (\<lambda>c. c = nl) c = c" using pack_chomp [of "VaultHeader @ pack p" v] by (simp add: c)
  then show "IsVaultEncrypted c \<and> cy_vault_decrypt sample_crypto (trim_right (\<lambda>c. c = nl) c) p = Some v"
    using header_encrypted [of "pack p" v] unpack_pack [of v "[]"] by (simp add: c sample_crypto_def has_prefix_def)
qed

lemma sample_age_opens: "age_opens sample_crypto (=)"
  unfolding age_opens_def
proof (intro allI impI)
  fix seed rs v c and "is" :: "string list" assume "cy_age_encrypt sample_crypto seed rs v = Some c"
  then have c: "c = AgeHeader @ pack v @ concat (map (\<lambda>r. ''r'' @ pack r) rs)" by (simp add: sample_crypto_def)
  have last: "c \<noteq> [] \<and> last c = CHR ''.''"
    by (cases rs rule: rev_cases) (simp_all add: c pack_def AgeHeader_def)
  then have chomp: "trim_right (\<lambda>c. c = nl) c = c" by (intro trim_right_fixed) (simp add: nl_def)
  have "trim_space c = c"
    by (rule trim_space_fixed) (use last in \<open>simp add: c AgeHeader_def is_space_def byte_def\<close>)
  then have "IsAgeEncrypted c" by (simp add: IsAgeEncrypted_def has_prefix_def c)
  moreover have "str_contains c (''r'' @ pack i)" if "i \<in> set rs" for i
  proof -
    from that obtain ps qs where "rs = ps @ i # qs" by (meson split_list)
    then have "c = (AgeHeader @ pack v @ concat (map (\<lambda>r. ''r'' @ pack r) ps)) @ (''r'' @ pack i) @
        concat (map (\<lambda>r. ''r'' @ pack r) qs)"
      by (simp add: c)
    then show ?thesis unfolding str_contains_sublist sublist_def by blast
  qed
  ultimately show "IsAgeEncrypted c \<and> ((\<exists>i \<in> set is. \<exists>r \<in> set rs. i = r) \<longrightarrow>
      cy_age_decrypt sample_crypto is (trim_right (\<lambda>c. c = nl) c) = Some v)"
    unfolding chomp by (auto simp: sample_crypto_def list_ex_iff c)
qed

lemma EncryptValue_read_back_witness:
  "\<exists>c. EncryptValue sample_crypto 7 ''hunter2'' (Some sample_keyring) = Inr c \<and>
       DecryptValue sample_crypto (trim_right (\<lambda>c. c = nl) c) (Some (sample_keyring\<lparr>kr_identities := [''age1ann'']\<rparr>)) = Inr ''hunter2''"
proof -
  obtain c where c: "EncryptValue sample_crypto 7 ''hunter2'' (Some sample_keyring) = Inr c"
    by (simp add: EncryptValue_def EncryptFormat_def sample_keyring_def encryptAge_def sample_crypto_def)
  have "reads (=) (sample_keyring\<lparr>kr_identities := [''age1ann'']\<rparr>) sample_keyring"
    by (simp add: reads_def EncryptFormat_def sample_keyring_def)
  from EncryptValue_read_back [OF sample_vault_opens sample_age_opens c this] c show ?thesis by blast
qed

lemma DecryptRegistryAuth_opens_witness:
  "DecryptRegistryAuth sample_lib sample_crypto None [bare_registry ''a'' ''ann'' ''pw''] = (None, [bare_registry ''a'' ''ann'' ''pw'']) \<and>
   VerifyRegistryAuth sample_lib sample_crypto (Some (NewVaultKeyring ''old''))
     (Some [bare_registry ''a'' (VaultHeader @ pack ''old'' @ pack ''ann'') ''pw'']) = None"
proof -
  have none: "\<not> list_ex has_ciphertext [bare_registry ''a'' ''ann'' ''pw'']" by code_simp
  have "DecryptRegistryAuth sample_lib sample_crypto (Some (NewVaultKeyring ''old''))
     [bare_registry ''a'' (VaultHeader @ pack ''old'' @ pack ''ann'') ''pw''] = (None, [bare_registry ''a'' ''ann'' ''pw''])"
    by code_simp
  then show ?thesis using DecryptRegistryAuth_opens none by blast
qed

end
