(* ===== verification/Yaml_Anchors.thy ===== *)
theory Yaml_Anchors
  imports Cargo_Prelude Yaml_Splice
begin

section \<open>Resolving anchors and aliases\<close>

text \<open>
  \<open>internal/clustercfg/vaultanchor.go\<close>: the tree the YAML library parsed, with every anchored value
  replaced by the value and every alias by the value its anchor holds, and merge keys spelt out. The
  tree is that of the library's \<open>ast\<close> package as far as the code looks into it: \<open>YScalar\<close> is a string,
  number or boolean, \<open>YOther\<close> is any other
  node with the name of its type, \<open>YNil\<close> no node at all. The code rewrites nodes in place; a node is
  visited once, at its place in the tree, so that a value shared through an alias is not changed after
  it was recorded, and copies stand for shared nodes here. Entries of a mapping are a type of their own,
  so the code's check that resolving an entry gives an entry has no counterpart.
\<close>

datatype (key_toks: 'a) ykey = Key (key_token: 'a) (is_merge: bool)

datatype (toks: 'a) ynode =
    YNil
  | YLiteral 'a 'a
  | YScalar string 'a
  | YOther string 'a
  | YMap 'a bool "'a yentry list"
  | YPair "'a yentry"
  | YSeq 'a "'a ynode list"
  | YAnchor 'a "string option" "'a ynode"
  | YAlias 'a "string option"
and (entry_toks: 'a) yentry = Entry (entry_token: 'a) (entry_key: "'a ykey option") (entry_value: "'a ynode")

datatype anchor_error = NoAnchorName nat | NoSuchAnchor string nat | MergesNothing nat | MergesKind string nat

type_synonym anchors = "string \<rightharpoonup> token ynode"

fun node_kind :: "token ynode \<Rightarrow> string" where
  "node_kind (YLiteral _ _) = ''literal''"
| "node_kind (YScalar k _) = k"
| "node_kind (YOther k _) = k"
| "node_kind (YMap _ _ _) = ''mapping''"
| "node_kind (YPair _) = ''mappingvalue''"
| "node_kind (YSeq _ _) = ''sequence''"
| "node_kind (YAnchor _ _ _) = ''anchor''"
| "node_kind (YAlias _ _) = ''alias''"
| "node_kind YNil = ''''"

definition mappingKeyName :: "token yentry \<Rightarrow> string" where
  "mappingKeyName mv = (case entry_key mv of None \<Rightarrow> [] | Some k \<Rightarrow> tk_value (key_token k))"

fun merge_list :: "nat \<Rightarrow> token ynode list \<Rightarrow> anchor_error + token yentry list" where
  "merge_list line [] = Inr []"
| "merge_list line (n # ns) =
     (case n of
        YMap _ _ es \<Rightarrow> bind_res (merge_list line ns) (\<lambda>r. Inr (es @ r))
      | YPair e \<Rightarrow> bind_res (merge_list line ns) (\<lambda>r. Inr (e # r))
      | _ \<Rightarrow> Inl (MergesKind (node_kind n) line))"

definition mergeSources :: "token yentry \<Rightarrow> anchor_error + token yentry list" where
  "mergeSources mv =
     (let line = tk_line (entry_token mv) in
      case entry_value mv of
        YMap _ _ es \<Rightarrow> Inr es
      | YPair e \<Rightarrow> Inr [e]
      | YSeq _ ns \<Rightarrow> merge_list line ns
      | YNil \<Rightarrow> Inl (MergesNothing line)
      | n \<Rightarrow> Inl (MergesKind (node_kind n) line))"

definition merges :: "token yentry \<Rightarrow> bool" where
  "merges mv = (case entry_key mv of None \<Rightarrow> False | Some k \<Rightarrow> is_merge k)"

text \<open>The merged keys no earlier key has set.\<close>

fun add_merged :: "string set \<Rightarrow> token yentry list \<Rightarrow> token yentry list" where
  "add_merged named [] = []"
| "add_merged named (mv # mvs) =
     (let name = mappingKeyName mv in
      if name \<noteq> [] \<and> name \<in> named then add_merged named mvs
      else mv # add_merged (insert name named) mvs)"

definition spell_out :: "token yentry list \<Rightarrow> token yentry list \<Rightarrow> token yentry list \<Rightarrow> token yentry list" where
  "spell_out own merged ms = own @ add_merged (mappingKeyName ` set own) merged @ ms"

fun resolveAnchors :: "token ynode \<Rightarrow> anchors \<Rightarrow> anchor_error + (token ynode \<times> anchors)"
  and resolve_entry :: "token yentry \<Rightarrow> anchors \<Rightarrow> anchor_error + (token yentry \<times> anchors)"
  and resolve_entries :: "token yentry list \<Rightarrow> anchors \<Rightarrow>
    anchor_error + (token yentry list \<times> token yentry list \<times> token yentry list \<times> anchors)"
  and resolve_nodes :: "token ynode list \<Rightarrow> anchors \<Rightarrow> anchor_error + (token ynode list \<times> anchors)"
where
  "resolveAnchors (YAnchor t name n) A =
     bind_res (resolveAnchors n A) (\<lambda>(v, A1). Inr (v, case name of None \<Rightarrow> A1 | Some a \<Rightarrow> A1(a \<mapsto> v)))"
| "resolveAnchors (YAlias t name) A =
     (case name of
        None \<Rightarrow> Inl (NoAnchorName (tk_line t))
      | Some a \<Rightarrow> (case A a of None \<Rightarrow> Inl (NoSuchAnchor a (tk_line t)) | Some v \<Rightarrow> Inr (v, A)))"
| "resolveAnchors (YMap t flow es) A =
     bind_res (resolve_entries es A) (\<lambda>(own, merged, ms, A1). Inr (YMap t flow (spell_out own merged ms), A1))"
| "resolveAnchors (YPair e) A = bind_res (resolve_entry e A) (\<lambda>(e1, A1). Inr (YPair e1, A1))"
| "resolveAnchors (YSeq t ns) A = bind_res (resolve_nodes ns A) (\<lambda>(ns1, A1). Inr (YSeq t ns1, A1))"
| "resolveAnchors n A = Inr (n, A)"
| "resolve_entry (Entry t k n) A = bind_res (resolveAnchors n A) (\<lambda>(v, A1). Inr (Entry t k v, A1))"
| "resolve_entries [] A = Inr ([], [], [], A)"
| "resolve_entries (e # es) A =
     bind_res (resolve_entry e A) (\<lambda>(mv, A1).
       if \<not> merges mv then
         bind_res (resolve_entries es A1) (\<lambda>(own, merged, ms, A2). Inr (mv # own, merged, ms, A2))
       else bind_res (mergeSources mv) (\<lambda>sources.
         bind_res (resolve_entries es A1) (\<lambda>(own, merged, ms, A2). Inr (own, sources @ merged, mv # ms, A2))))"
| "resolve_nodes [] A = Inr ([], A)"
| "resolve_nodes (n # ns) A =
     bind_res (resolveAnchors n A) (\<lambda>(v, A1).
       bind_res (resolve_nodes ns A1) (\<lambda>(vs, A2). Inr (v # vs, A2)))"

text \<open>The documents of a file, one map of anchors for all of them; a document may have no body.\<close>

fun resolve_docs :: "token ynode option list \<Rightarrow> anchors \<Rightarrow> anchor_error + token ynode option list" where
  "resolve_docs [] A = Inr []"
| "resolve_docs (None # ds) A = bind_res (resolve_docs ds A) (\<lambda>r. Inr (None # r))"
| "resolve_docs (Some n # ds) A =
     bind_res (resolveAnchors n A) (\<lambda>(v, A1). bind_res (resolve_docs ds A1) (\<lambda>r. Inr (Some v # r)))"

datatype parse_error = NotYAML | Anchors anchor_error

definition parseYAML :: "(string \<Rightarrow> token ynode option list option) \<Rightarrow> string \<Rightarrow> parse_error + token ynode option list" where
  "parseYAML parse src =
     (case parse src of
        None \<Rightarrow> Inl NotYAML
      | Some docs \<Rightarrow> (case resolve_docs docs Map.empty of Inl e \<Rightarrow> Inl (Anchors e) | Inr r \<Rightarrow> Inr r))"

subsection \<open>No anchor is left\<close>

fun anchor_free :: "token ynode \<Rightarrow> bool" and entry_free :: "token yentry \<Rightarrow> bool" where
  "anchor_free (YAnchor _ _ _) = False"
| "anchor_free (YAlias _ _) = False"
| "anchor_free (YMap _ _ es) = list_all entry_free es"
| "anchor_free (YPair e) = entry_free e"
| "anchor_free (YSeq _ ns) = list_all anchor_free ns"
| "anchor_free _ = True"
| "entry_free (Entry _ _ n) = anchor_free n"

lemmas resolve_induct = resolveAnchors_resolve_entry_resolve_entries_resolve_nodes.induct

text \<open>\<open>clean T n\<close>: no anchor and no alias in \<open>n\<close>, and every token of it is one of \<open>T\<close>.\<close>

definition clean :: "token set \<Rightarrow> token ynode \<Rightarrow> bool" where
  "clean T n \<longleftrightarrow> anchor_free n \<and> toks n \<subseteq> T"

definition clean_entry :: "token set \<Rightarrow> token yentry \<Rightarrow> bool" where
  "clean_entry T e \<longleftrightarrow> entry_free e \<and> entry_toks e \<subseteq> T"

lemma key_toks_eq: "key_toks k = {key_token k}"
  by (cases k) simp

lemma clean_simps [simp]:
  "clean T (YMap t flow es) \<longleftrightarrow> t \<in> T \<and> list_all (clean_entry T) es"
  "clean T (YPair e) \<longleftrightarrow> clean_entry T e"
  "clean T (YSeq t ns) \<longleftrightarrow> t \<in> T \<and> list_all (clean T) ns"
  "\<not> clean T (YAnchor t name n)"
  "\<not> clean T (YAlias t name)"
  "clean T YNil" "clean T (YLiteral t u) \<longleftrightarrow> t \<in> T \<and> u \<in> T" "clean T (YScalar kd t) \<longleftrightarrow> t \<in> T" "clean T (YOther kd t) \<longleftrightarrow> t \<in> T"
  "clean_entry T (Entry t k n) \<longleftrightarrow> t \<in> T \<and> (\<forall>key. k = Some key \<longrightarrow> key_token key \<in> T) \<and> clean T n"
  by (auto simp: clean_def clean_entry_def list_all_iff key_toks_eq split: option.splits)

lemma mergeSources_clean:
  assumes "clean T (entry_value mv)" and "mergeSources mv = Inr es"
  shows "list_all (clean_entry T) es"
proof -
  have nodes: "list_all (clean T) ns \<Longrightarrow> merge_list l ns = Inr fs \<Longrightarrow> list_all (clean_entry T) fs" for l ns fs
    by (induction ns arbitrary: fs) (auto simp: bind_res_Inr split: ynode.splits)
  show ?thesis
    using assms by (auto simp: mergeSources_def Let_def split: ynode.splits dest: nodes)
qed

lemma add_merged_clean:
  "list_all (clean_entry T) es \<Longrightarrow> list_all (clean_entry T) (add_merged named es)"
  by (induction named es rule: add_merged.induct) (auto simp: Let_def)

lemma spell_out_clean:
  "list_all (clean_entry T) own \<Longrightarrow> list_all (clean_entry T) merged \<Longrightarrow> list_all (clean_entry T) ms \<Longrightarrow>
   list_all (clean_entry T) (spell_out own merged ms)"
  by (simp add: spell_out_def add_merged_clean)

definition clean_anchors :: "token set \<Rightarrow> anchors \<Rightarrow> bool" where
  "clean_anchors T A \<longleftrightarrow> (\<forall>a v. A a = Some v \<longrightarrow> clean T v)"

lemma clean_entry_value: "clean_entry T mv \<Longrightarrow> clean T (entry_value mv)"
  by (cases mv) simp

lemma resolve_clean:
  "\<lbrakk>resolveAnchors n A = Inr (v, A1); toks n \<subseteq> T; clean_anchors T A\<rbrakk> \<Longrightarrow> clean T v \<and> clean_anchors T A1"
  "\<lbrakk>resolve_entry e A = Inr (f, A1); entry_toks e \<subseteq> T; clean_anchors T A\<rbrakk> \<Longrightarrow> clean_entry T f \<and> clean_anchors T A1"
  "\<lbrakk>resolve_entries es A = Inr (own, merged, ms, A1); (\<Union>e\<in>set es. entry_toks e) \<subseteq> T; clean_anchors T A\<rbrakk> \<Longrightarrow>
     list_all (clean_entry T) own \<and> list_all (clean_entry T) merged \<and> list_all (clean_entry T) ms \<and> clean_anchors T A1"
  "\<lbrakk>resolve_nodes ns A = Inr (vs, A1); (\<Union>n\<in>set ns. toks n) \<subseteq> T; clean_anchors T A\<rbrakk> \<Longrightarrow>
     list_all (clean T) vs \<and> clean_anchors T A1"
proof (induction n A and e A and es A and ns A arbitrary: v A1 and f A1 and own merged ms A1 and vs A1 rule: resolve_induct)
  case (1 t name n A)
  obtain A2 where r: "resolveAnchors n A = Inr (v, A2)" and A1: "A1 = (case name of None \<Rightarrow> A2 | Some a \<Rightarrow> A2(a \<mapsto> v))"
    using "1.prems"(1) by (auto simp: bind_res_Inr)
  have "clean T v \<and> clean_anchors T A2" using "1.IH" [OF r] "1.prems" by simp
  then show ?case by (auto simp: A1 clean_anchors_def split: option.splits)
next
  case (2 t name A)
  then show ?case by (auto simp: clean_anchors_def split: option.splits)
next
  case (3 t flow es A)
  obtain own merged ms where r: "resolve_entries es A = Inr (own, merged, ms, A1)" and v: "v = YMap t flow (spell_out own merged ms)"
    using "3.prems"(1) by (auto simp: bind_res_Inr)
  show ?case using "3.IH" [OF r] "3.prems" by (simp add: v spell_out_clean)
next
  case (4 e A)
  then show ?case by (auto simp: bind_res_Inr)
next
  case (5 t ns A)
  then show ?case by (auto simp: bind_res_Inr)
next
  case (7 t k n A)
  then show ?case by (auto simp: bind_res_Inr key_toks_eq)
next
  case (9 e es A)
  obtain mv A2 where r: "resolve_entry e A = Inr (mv, A2)" using "9.prems"(1) by (auto simp: bind_res_Inr)
  have mv: "clean_entry T mv" "clean_anchors T A2" using "9.IH"(1) [OF r] "9.prems" by auto
  show ?case
  proof (cases "merges mv")
    case False
    then obtain own2 where rest: "resolve_entries es A2 = Inr (own2, merged, ms, A1)" and own: "own = mv # own2"
      using "9.prems"(1) by (auto simp: r bind_res_Inr)
    show ?thesis using "9.IH"(2) [OF False rest] "9.prems"(2) mv by (auto simp: own)
  next
    case True
    then obtain sources merged2 ms2 where so: "mergeSources mv = Inr sources"
        and rest: "resolve_entries es A2 = Inr (own, merged2, ms2, A1)" and ms: "merged = sources @ merged2" "ms = mv # ms2"
      using "9.prems"(1) by (auto simp: r bind_res_Inr)
    have "list_all (clean_entry T) sources" by (rule mergeSources_clean [OF clean_entry_value [OF mv(1)] so])
    then show ?thesis using "9.IH"(3) [OF _ rest] True "9.prems"(2) mv by (auto simp: ms)
  qed
next
  case (11 n ns A)
  obtain v A2 vs2 where r: "resolveAnchors n A = Inr (v, A2)" and rest: "resolve_nodes ns A2 = Inr (vs2, A1)" and vs: "vs = v # vs2"
    using "11.prems"(1) by (auto simp: bind_res_Inr)
  show ?case using "11.IH"(1) [OF r] "11.IH"(2) [OF rest] "11.prems"(2,3) by (auto simp: vs)
qed (auto simp: clean_anchors_def)

lemma resolve_docs_clean:
  "\<lbrakk>resolve_docs ds A = Inr rs; (\<Union>d\<in>set ds. case d of None \<Rightarrow> {} | Some n \<Rightarrow> toks n) \<subseteq> T; clean_anchors T A\<rbrakk> \<Longrightarrow>
   list_all (\<lambda>r. case r of None \<Rightarrow> True | Some n \<Rightarrow> clean T n) rs \<and> map (\<lambda>r. r = None) rs = map (\<lambda>d. d = None) ds"
proof (induction ds A arbitrary: rs rule: resolve_docs.induct)
  case (3 n ds A)
  obtain v A2 rs2 where r: "resolveAnchors n A = Inr (v, A2)" and rest: "resolve_docs ds A2 = Inr rs2" and rs: "rs = Some v # rs2"
    using "3.prems"(1) by (auto simp: bind_res_Inr)
  have "clean T v \<and> clean_anchors T A2" using resolve_clean(1) [OF r] "3.prems" by simp
  then show ?case using "3.IH" [OF rest] "3.prems"(2) r by (auto simp: rs)
qed (auto simp: bind_res_Inr)


subsection \<open>A tree without anchors is left as it is\<close>

fun plain :: "token ynode \<Rightarrow> bool" and plain_entry :: "token yentry \<Rightarrow> bool" where
  "plain (YAnchor _ _ _) = False"
| "plain (YAlias _ _) = False"
| "plain (YMap _ _ es) = list_all plain_entry es"
| "plain (YPair e) = plain_entry e"
| "plain (YSeq _ ns) = list_all plain ns"
| "plain _ = True"
| "plain_entry (Entry t k n) \<longleftrightarrow> \<not> merges (Entry t k n) \<and> plain n"

lemma resolve_plain:
  "plain n \<Longrightarrow> resolveAnchors n A = Inr (n, A)"
  "plain_entry e \<Longrightarrow> resolve_entry e A = Inr (e, A)"
  "list_all plain_entry es \<Longrightarrow> resolve_entries es A = Inr (es, [], [], A)"
  "list_all plain ns \<Longrightarrow> resolve_nodes ns A = Inr (ns, A)"
proof (induction n A and e A and es A and ns A rule: resolve_induct)
  case (9 e es A)
  then show ?case by (cases e) auto
qed (auto simp: spell_out_def)

lemma parseYAML_plain:
  assumes "parse src = Some ds" and "\<forall>d \<in> set ds. case d of None \<Rightarrow> True | Some n \<Rightarrow> plain n"
  shows "parseYAML parse src = Inr ds"
proof -
  have "\<forall>d \<in> set ds. case d of None \<Rightarrow> True | Some n \<Rightarrow> plain n \<Longrightarrow> resolve_docs ds A = Inr ds" for ds A
    by (induction ds A rule: resolve_docs.induct) (auto simp: resolve_plain)
  from this [OF assms(2)] show ?thesis by (simp add: parseYAML_def assms(1))
qed

subsection \<open>Precedence of merged keys\<close>

definition first_of :: "string \<Rightarrow> token yentry list \<Rightarrow> token yentry option" where
  "first_of k es = List.find (\<lambda>e. mappingKeyName e = k) es"

lemma first_of_simps [simp]:
  "first_of k [] = None"
  "first_of k (e # es) = (if mappingKeyName e = k then Some e else first_of k es)"
  by (simp_all add: first_of_def)

lemma first_of_append: "first_of k (es @ fs) = (case first_of k es of Some e \<Rightarrow> Some e | None \<Rightarrow> first_of k fs)"
  by (induction es) auto

lemma first_of_None: "first_of k es = None \<longleftrightarrow> k \<notin> mappingKeyName ` set es"
  by (induction es) auto

lemma first_of_add_merged:
  "k \<noteq> [] \<Longrightarrow> first_of k (add_merged named es) = (if k \<in> named then None else first_of k es)"
  by (induction named es rule: add_merged.induct) (auto simp: Let_def)

lemma add_merged_keys:
  "distinct (filter (\<lambda>k. k \<noteq> []) (map mappingKeyName (add_merged named es))) \<and>
   (\<forall>e \<in> set (add_merged named es). e \<in> set es \<and> (mappingKeyName e = [] \<or> mappingKeyName e \<notin> named))"
  by (induction named es rule: add_merged.induct) (auto simp: Let_def)

lemma resolve_entry_key: "resolve_entry e A = Inr (f, A1) \<Longrightarrow> entry_key f = entry_key e"
  by (cases e) (auto simp: bind_res_Inr)

lemma resolve_entries_own:
  "resolve_entries es A = Inr (own, merged, ms, A1) \<Longrightarrow>
   map entry_key own = map entry_key (filter (\<lambda>e. \<not> merges e) es) \<and>
   map entry_key ms = map entry_key (filter merges es) \<and>
   (\<exists>sources. list_all2 (\<lambda>m s. mergeSources m = Inr s) ms sources \<and> merged = concat sources)"
proof (induction es arbitrary: A own merged ms)
  case (Cons e es)
  obtain mv A2 where r: "resolve_entry e A = Inr (mv, A2)" using Cons.prems by (auto simp: bind_res_Inr)
  have key: "entry_key mv = entry_key e" "merges mv = merges e"
    using resolve_entry_key [OF r] by (simp_all add: merges_def)
  show ?case
  proof (cases "merges mv")
    case False
    then obtain own2 where "resolve_entries es A2 = Inr (own2, merged, ms, A1)" "own = mv # own2"
      using Cons.prems by (auto simp: r bind_res_Inr)
    then show ?thesis using Cons.IH [of A2 own2] False key by simp
  next
    case True
    then obtain sources merged2 ms2 where so: "mergeSources mv = Inr sources"
        and rest: "resolve_entries es A2 = Inr (own, merged2, ms2, A1)" and ms: "merged = sources @ merged2" "ms = mv # ms2"
      using Cons.prems by (auto simp: r bind_res_Inr)
    from Cons.IH [OF rest] obtain ss where ss: "list_all2 (\<lambda>m s. mergeSources m = Inr s) ms2 ss" "merged2 = concat ss"
        "map entry_key own = map entry_key (filter (\<lambda>e. \<not> merges e) es)" "map entry_key ms2 = map entry_key (filter merges es)"
      by blast
    have "list_all2 (\<lambda>m s. mergeSources m = Inr s) ms (sources # ss)" using ss(1) so by (simp add: ms)
    moreover have "merged = concat (sources # ss)" by (simp add: ms ss(2))
    ultimately show ?thesis using ss(3,4) True key by (auto simp: ms)
  qed
qed simp

lemma distinct_count_le: "distinct xs \<Longrightarrow> count_list xs k \<le> 1"
  by (induction xs) (auto simp: count_list_0_iff)

lemma count_list_filter_neq: "k \<noteq> [] \<Longrightarrow> count_list xs k = count_list (filter (\<lambda>k. k \<noteq> []) xs) k"
  by (induction xs) auto

text \<open>A mapping with merge keys resolves to one in which a key has the value YAML gives it: the first
  among the mapping's own entries, else the first in the merged mappings in the order they are named,
  else a merge key itself. The own keys are those written, and no merged key appears a second time.\<close>

theorem merge_precedence:
  assumes "resolveAnchors (YMap t flow es) A = Inr (n, A1)" and "k \<noteq> []"
  shows "\<exists>own ms sources. n = YMap t flow (spell_out own (concat sources) ms) \<and>
    map entry_key own = map entry_key (filter (\<lambda>e. \<not> merges e) es) \<and>
    map entry_key ms = map entry_key (filter merges es) \<and>
    list_all2 (\<lambda>m s. mergeSources m = Inr s) ms sources \<and>
    first_of k (spell_out own (concat sources) ms) =
      (case first_of k own of Some e \<Rightarrow> Some e
       | None \<Rightarrow> (case first_of k (concat sources) of Some e \<Rightarrow> Some e | None \<Rightarrow> first_of k ms)) \<and>
    count_list (map mappingKeyName (add_merged (mappingKeyName ` set own) (concat sources))) k \<le> 1"
proof -
  obtain own merged ms where r: "resolve_entries es A = Inr (own, merged, ms, A1)" and n: "n = YMap t flow (spell_out own merged ms)"
    using assms(1) by (auto simp: bind_res_Inr)
  from resolve_entries_own [OF r] obtain sources where so: "list_all2 (\<lambda>m s. mergeSources m = Inr s) ms sources" "merged = concat sources"
      "map entry_key own = map entry_key (filter (\<lambda>e. \<not> merges e) es)" "map entry_key ms = map entry_key (filter merges es)"
    by blast
  let ?add = "map mappingKeyName (add_merged (mappingKeyName ` set own) merged)"
  have "count_list ?add k = count_list (filter (\<lambda>k. k \<noteq> []) ?add) k"
    by (rule count_list_filter_neq [OF assms(2)])
  then have once: "count_list ?add k \<le> 1"
    using add_merged_keys [of "mappingKeyName ` set own" merged] distinct_count_le [of "filter (\<lambda>k. k \<noteq> []) ?add" k] by simp
  have "first_of k (spell_out own merged ms) =
      (case first_of k own of Some e \<Rightarrow> Some e
       | None \<Rightarrow> (case first_of k merged of Some e \<Rightarrow> Some e | None \<Rightarrow> first_of k ms))"
  proof (cases "first_of k own")
    case None
    then have "k \<notin> mappingKeyName ` set own" by (simp only: first_of_None simp_thms)
    then show ?thesis using None
      by (simp add: spell_out_def first_of_append first_of_add_merged [OF assms(2)])
  qed (simp add: spell_out_def first_of_append)
  then show ?thesis using n so once by blast
qed

text \<open>Two registries, the second of which takes its credentials from the first: \<open>a: &x {u: p}\<close>,
  \<open>b: {u: q, <<: *x}\<close>, \<open>c: *x\<close>.\<close>

definition tok_at :: "string \<Rightarrow> nat \<Rightarrow> nat \<Rightarrow> token" where
  "tok_at v line column = \<lparr>tk_line = line, tk_column = column, tk_offset = 0, tk_value = v, tk_origin = v\<rparr>"

definition entry_at :: "string \<Rightarrow> nat \<Rightarrow> nat \<Rightarrow> token ynode \<Rightarrow> token yentry" where
  "entry_at key line column n = Entry (tok_at '':'' line (column + 1)) (Some (Key (tok_at key line column) (key = ''<<''))) n"

definition shared_doc :: "token ynode" where
  "shared_doc = YMap (tok_at '':'' 1 2) False
     [entry_at ''a'' 1 1 (YAnchor (tok_at ''&'' 1 4) (Some ''x'')
        (YMap (tok_at ''{'' 1 7) True [entry_at ''u'' 1 8 (YScalar ''string'' (tok_at ''p'' 1 11))])),
      entry_at ''b'' 2 1 (YMap (tok_at ''{'' 2 4) True
        [entry_at ''u'' 2 5 (YScalar ''string'' (tok_at ''q'' 2 8)), entry_at ''<<'' 2 11 (YAlias (tok_at ''*'' 2 15) (Some ''x''))]),
      entry_at ''c'' 3 1 (YAlias (tok_at ''*'' 3 4) (Some ''x''))]"

definition shared_value :: "token ynode" where
  "shared_value = YMap (tok_at ''{'' 1 7) True [entry_at ''u'' 1 8 (YScalar ''string'' (tok_at ''p'' 1 11))]"

definition shared_resolved :: "token ynode" where
  "shared_resolved = YMap (tok_at '':'' 1 2) False
     [entry_at ''a'' 1 1 shared_value,
      entry_at ''b'' 2 1 (YMap (tok_at ''{'' 2 4) True
        [entry_at ''u'' 2 5 (YScalar ''string'' (tok_at ''q'' 2 8)), entry_at ''<<'' 2 11 shared_value]),
      entry_at ''c'' 3 1 shared_value]"

lemma shared_doc_resolves: "parseYAML (\<lambda>_. Some [Some shared_doc]) src = Inr [Some shared_resolved]"
  by (simp add: parseYAML_def shared_doc_def shared_resolved_def shared_value_def entry_at_def tok_at_def merges_def
      mergeSources_def spell_out_def mappingKeyName_def)


lemma merge_precedence_witness:
  "\<exists>n A1. resolveAnchors (YMap (tok_at ''{'' 2 4) True
      [entry_at ''<<'' 2 11 shared_value, entry_at ''u'' 2 5 (YScalar ''string'' (tok_at ''q'' 2 8))]) Map.empty = Inr (n, A1) \<and>
    (\<exists>own ms sources. n = YMap (tok_at ''{'' 2 4) True (spell_out own (concat sources) ms) \<and>
      map entry_key own = [Some (Key (tok_at ''u'' 2 5) False)])"
proof -
  let ?es = "[entry_at ''<<'' 2 11 shared_value, entry_at ''u'' 2 5 (YScalar ''string'' (tok_at ''q'' 2 8))]"
  have "\<exists>n A1. resolveAnchors (YMap (tok_at ''{'' 2 4) True ?es) Map.empty = Inr (n, A1)"
    by (simp add: shared_value_def entry_at_def merges_def mergeSources_def)
  then obtain n A1 where r: "resolveAnchors (YMap (tok_at ''{'' 2 4) True ?es) Map.empty = Inr (n, A1)" by blast
  have own: "map entry_key (filter (\<lambda>e. \<not> merges e) ?es) = [Some (Key (tok_at ''u'' 2 5) False)]"
    by (simp add: entry_at_def merges_def)
  have "''u'' \<noteq> []" by simp
  from merge_precedence [OF r this] obtain own ms sources where
    "n = YMap (tok_at ''{'' 2 4) True (spell_out own (concat sources) ms)" "map entry_key own = map entry_key (filter (\<lambda>e. \<not> merges e) ?es)"
    by blast
  then show ?thesis using r own by metis
qed

end
