(* ===== verification/Vault_Document.thy ===== *)
theory Vault_Document
  imports Vault_Keys Yaml_Anchors "HOL-Library.Multiset"
begin

section \<open>Encrypting the values of a document\<close>

text \<open>
  The operations of \<open>internal/clustercfg/vaultpath.go\<close>: a value is found by its path, encrypted,
  decrypted or moved to another key, spliced into the text (\<open>Yaml_Splice\<close>) and read back before the
  document is handed out; and the commands over all credentials of a configuration, with the record of
  recipients that \<open>vaultmeta.go\<close> keeps in the metadata. The YAML library is the parameter
  \<open>yaml_lib\<close>: paths, the parser, the lookup of a path, the lexer and the encoder. The parser's failure
  on a path is \<open>None\<close>, whether it is an error or the panic the code recovers from.
\<close>

datatype lexeme = Opens | Closes | OtherToken

datatype lookup = Found "token ynode" | NotFound | LookupFailed

record 'p yaml_lib =
  y_path :: "string \<Rightarrow> 'p option"
  y_show :: "'p \<Rightarrow> string"
  y_parse :: "string \<Rightarrow> token ynode option list option"
  y_filter :: "'p \<Rightarrow> token ynode option list \<Rightarrow> lookup"
  y_lex :: "string \<Rightarrow> (nat \<times> lexeme) list"
  y_marshal :: "string \<Rightarrow> string option"
  y_unmarshal :: "string \<Rightarrow> (string \<rightharpoonup> string) option"

datatype doc_error =
    InvalidPath string
  | NotReadBackPath string
  | Unparsed parse_error
  | NoValue string
  | NotScalar string string
  | AlreadyEncrypted string
  | NotEncryptedAt string
  | WrappedTwice string
  | ValueError vault_error
  | RenderFailed string render_error
  | SpliceFailed splice_error
  | RewriteUnreadable string
  | RewriteDiffers string
  | NoRegistries
  | NotAList string
  | OtherPassword string
  | OtherKey string format
  | NoMetadataBlock

definition map_err :: "('e \<Rightarrow> 'f) \<Rightarrow> 'e + 'a \<Rightarrow> 'f + 'a" where
  "map_err g r = (case r of Inl e \<Rightarrow> Inl (g e) | Inr a \<Rightarrow> Inr a)"

lemma map_err_Inr [simp]: "map_err g r = Inr a \<longleftrightarrow> r = Inr a"
  by (cases r) (simp_all add: map_err_def)

subsection \<open>Finding a value\<close>

definition parseYAMLPath :: "'p yaml_lib \<Rightarrow> string \<Rightarrow> doc_error + 'p" where
  "parseYAMLPath Y yamlPath =
     (let normalized =
        (if has_prefix yamlPath ''$'' then yamlPath
         else if has_prefix yamlPath ''.'' then ''$'' @ yamlPath
         else ''$.'' @ yamlPath) in
      case y_path Y normalized of None \<Rightarrow> Inl (InvalidPath yamlPath) | Some p \<Rightarrow> Inr p)"

definition CanonicalYAMLPath :: "'p yaml_lib \<Rightarrow> string \<Rightarrow> doc_error + string" where
  "CanonicalYAMLPath Y yamlPath =
     bind_res (parseYAMLPath Y yamlPath) (\<lambda>path.
       let canonical = y_show Y path in
       case parseYAMLPath Y canonical of
         Inl _ \<Rightarrow> Inl (NotReadBackPath yamlPath)
       | Inr round \<Rightarrow> if y_show Y round \<noteq> canonical then Inl (NotReadBackPath yamlPath) else Inr canonical)"

definition node_token :: "token ynode \<Rightarrow> token" where
  "node_token n =
     (case n of
        YLiteral t _ \<Rightarrow> t | YScalar _ t \<Rightarrow> t | YOther _ t \<Rightarrow> t | YMap t _ _ \<Rightarrow> t | YPair e \<Rightarrow> entry_token e
      | YSeq t _ \<Rightarrow> t | YAnchor t _ _ \<Rightarrow> t | YAlias t _ \<Rightarrow> t | YNil \<Rightarrow> undefined)"

definition is_literal :: "token ynode \<Rightarrow> bool" where
  "is_literal n = (case n of YLiteral _ _ \<Rightarrow> True | _ \<Rightarrow> False)"

definition scalarValue :: "token ynode \<Rightarrow> string \<Rightarrow> doc_error + string" where
  "scalarValue n path =
     (case n of
        YLiteral _ v \<Rightarrow> Inr (tk_value v)
      | YScalar _ t \<Rightarrow> Inr (tk_value t)
      | _ \<Rightarrow> Inl (NotScalar path (node_kind n)))"

definition parsed :: "'p yaml_lib \<Rightarrow> string \<Rightarrow> doc_error + token ynode option list" where
  "parsed Y src = map_err Unparsed (parseYAML (y_parse Y) src)"

definition scalarNodeAtPath :: "'p yaml_lib \<Rightarrow> string \<Rightarrow> string \<Rightarrow> doc_error + (token ynode \<times> string \<times> string)" where
  "scalarNodeAtPath Y src yamlPath =
     bind_res (parseYAMLPath Y yamlPath) (\<lambda>path.
     bind_res (parsed Y src) (\<lambda>file.
       case y_filter Y path file of
         Found node \<Rightarrow> bind_res (scalarValue node (y_show Y path)) (\<lambda>v. Inr (node, v, y_show Y path))
       | _ \<Rightarrow> Inl (NoValue (y_show Y path))))"

definition nodeAtPath :: "'p yaml_lib \<Rightarrow> string \<Rightarrow> string \<Rightarrow> doc_error + (token ynode \<times> (nat \<times> nat)) option" where
  "nodeAtPath Y src yamlPath =
     bind_res (parseYAMLPath Y yamlPath) (\<lambda>path.
     bind_res (parsed Y src) (\<lambda>file.
       case y_filter Y path file of
         NotFound \<Rightarrow> Inr None
       | LookupFailed \<Rightarrow> Inl (NoValue (y_show Y path))
       | Found node \<Rightarrow> Inr (Some (node, (tk_line (node_token node), tk_column (node_token node))))))"

definition scalarAtPath :: "'p yaml_lib \<Rightarrow> string \<Rightarrow> string \<Rightarrow> doc_error + string option" where
  "scalarAtPath Y src yamlPath =
     bind_res (nodeAtPath Y src yamlPath) (\<lambda>found.
       case found of
         None \<Rightarrow> Inr None
       | Some (node, _) \<Rightarrow> (case scalarValue node yamlPath of Inl _ \<Rightarrow> Inr None | Inr v \<Rightarrow> Inr (Some v)))"

subsection \<open>Rewriting a value\<close>

fun flow_depth :: "(nat \<times> lexeme) list \<Rightarrow> nat \<Rightarrow> int \<Rightarrow> int" where
  "flow_depth [] offset depth = depth"
| "flow_depth ((at, l) # ts) offset depth =
     (if at \<ge> offset then depth
      else flow_depth ts offset (case l of Opens \<Rightarrow> depth + 1 | Closes \<Rightarrow> depth - 1 | OtherToken \<Rightarrow> depth))"

definition inFlowCollection :: "'p yaml_lib \<Rightarrow> string \<Rightarrow> token ynode \<Rightarrow> bool" where
  "inFlowCollection Y src node \<longleftrightarrow> flow_depth (y_lex Y src) (tk_offset (node_token node)) 0 > 0"

definition splice_node :: "string \<Rightarrow> token ynode \<Rightarrow> string \<Rightarrow> string list \<Rightarrow> doc_error + string" where
  "splice_node src node head tail =
     map_err SpliceFailed (spliceScalar src (is_literal node) (node_token node) head tail)"

abbreviation chomp :: "string \<Rightarrow> string" where
  "chomp s \<equiv> trim_right (\<lambda>c. c = nl) s"

definition spliceCiphertext :: "'p yaml_lib \<Rightarrow> string \<Rightarrow> token ynode \<Rightarrow> string \<Rightarrow> doc_error + string" where
  "spliceCiphertext Y src node encrypted =
     (let stripped = chomp encrypted in
      if inFlowCollection Y src node then splice_node src node (quoteScalar stripped) []
      else splice_node src node ''|-'' (split_on nl stripped))"

definition verifiedRewrite :: "'p yaml_lib \<Rightarrow> string \<Rightarrow> string \<Rightarrow> string \<Rightarrow> doc_error + string" where
  "verifiedRewrite Y rewritten path want =
     (case scalarNodeAtPath Y rewritten path of
        Inl _ \<Rightarrow> Inl (RewriteUnreadable path)
      | Inr (_, got, _) \<Rightarrow> if got \<noteq> want then Inl (RewriteDiffers path) else Inr rewritten)"

definition spliceVerifiedCiphertext ::
  "'p yaml_lib \<Rightarrow> string \<Rightarrow> token ynode \<Rightarrow> string \<Rightarrow> string \<Rightarrow> doc_error + string"
where
  "spliceVerifiedCiphertext Y src node path encrypted =
     bind_res (spliceCiphertext Y src node encrypted) (\<lambda>rewritten. verifiedRewrite Y rewritten path (chomp encrypted))"

definition encryptAtPath ::
  "'p yaml_lib \<Rightarrow> ('i, 'r) crypto \<Rightarrow> nat \<Rightarrow> string \<Rightarrow> string \<Rightarrow> ('i, 'r) Keyring option \<Rightarrow> bool \<Rightarrow> doc_error + string"
where
  "encryptAtPath Y C seed src yamlPath k reencrypt =
     bind_res (scalarNodeAtPath Y src yamlPath) (\<lambda>(node, plain, path).
       if IsEncrypted plain \<and> \<not> reencrypt then Inl (AlreadyEncrypted path)
       else bind_res (map_err ValueError (EncryptValue C seed plain k)) (\<lambda>encrypted.
         spliceVerifiedCiphertext Y src node path encrypted))"

definition EncryptAtPath where
  "EncryptAtPath Y C seed src yamlPath k reencrypt =
     onLineFeeds src (\<lambda>src. encryptAtPath Y C seed src yamlPath k reencrypt)"

definition decryptAtPath ::
  "'p yaml_lib \<Rightarrow> ('i, 'r) crypto \<Rightarrow> string \<Rightarrow> string \<Rightarrow> ('i, 'r) Keyring option \<Rightarrow> doc_error + string"
where
  "decryptAtPath Y C src yamlPath k =
     bind_res (scalarNodeAtPath Y src yamlPath) (\<lambda>(node, encrypted, path).
       if \<not> IsEncrypted encrypted then Inl (NotEncryptedAt path)
       else bind_res (map_err ValueError (DecryptValue C encrypted k)) (\<lambda>plain.
         bind_res (map_err (RenderFailed path) (renderScalar (y_marshal Y) (y_unmarshal Y) plain (inFlowCollection Y src node)))
           (\<lambda>(head, tail). bind_res (splice_node src node head tail) (\<lambda>rewritten. verifiedRewrite Y rewritten path plain))))"

definition DecryptAtPath where
  "DecryptAtPath Y C src yamlPath k = onLineFeeds src (\<lambda>src. decryptAtPath Y C src yamlPath k)"

definition rekeyAtPath ::
  "'p yaml_lib \<Rightarrow> ('i, 'r) crypto \<Rightarrow> nat \<Rightarrow> string \<Rightarrow> string \<Rightarrow> ('i, 'r) Keyring option \<Rightarrow> ('i, 'r) Keyring option \<Rightarrow>
   doc_error + string"
where
  "rekeyAtPath Y C seed src yamlPath from to =
     bind_res (scalarNodeAtPath Y src yamlPath) (\<lambda>(node, encrypted, path).
       if \<not> IsEncrypted encrypted then Inl (NotEncryptedAt path)
       else bind_res (map_err ValueError (DecryptValue C encrypted from)) (\<lambda>plain.
         if IsEncrypted plain then Inl (WrappedTwice path)
         else bind_res (map_err ValueError (EncryptValue C seed plain to)) (\<lambda>rekeyed.
           spliceVerifiedCiphertext Y src node path rekeyed)))"

definition RekeyAtPath where
  "RekeyAtPath Y C seed src yamlPath from to = onLineFeeds src (\<lambda>src. rekeyAtPath Y C seed src yamlPath from to)"

subsection \<open>The credentials of a configuration\<close>

definition registriesPath :: string where "registriesPath = ''$.spec.config.registries''"

definition vaultedFields :: "string list" where
  "vaultedFields = [''auth.user'', ''auth.pass'', ''auth.token'', ''tls.ca'']"

definition credential_path :: "nat \<Rightarrow> string \<Rightarrow> string" where
  "credential_path i field = registriesPath @ ''['' @ show_nat i @ '']'' @ ''.'' @ field"

text \<open>The regular expression \<open>decryptablePath\<close>.\<close>

definition decryptablePath :: "string \<Rightarrow> bool" where
  "decryptablePath s =
     (let rest = drop (length registriesPath) s; digits = takeWhile is_digit (tl rest); tail = dropWhile is_digit (tl rest) in
      has_prefix s registriesPath \<and> rest \<noteq> [] \<and> hd rest = CHR ''['' \<and> digits \<noteq> [] \<and>
      has_prefix tail ''].'' \<and> drop 2 tail \<in> set vaultedFields)"

definition PathIsDecryptable :: "'p yaml_lib \<Rightarrow> string \<Rightarrow> bool" where
  "PathIsDecryptable Y yamlPath =
     (case parseYAMLPath Y yamlPath of Inl _ \<Rightarrow> False | Inr path \<Rightarrow> decryptablePath (y_show Y path))"

definition registryCount :: "'p yaml_lib \<Rightarrow> string \<Rightarrow> doc_error + nat" where
  "registryCount Y src =
     bind_res (parseYAMLPath Y registriesPath) (\<lambda>path.
     bind_res (parsed Y src) (\<lambda>file.
       case y_filter Y path file of
         Found node \<Rightarrow> (case node of YSeq _ ns \<Rightarrow> Inr (length ns) | n \<Rightarrow> Inl (NotAList (node_kind n)))
       | _ \<Rightarrow> Inl NoRegistries))"

definition candidate_paths :: "nat \<Rightarrow> string list" where
  "candidate_paths n = concat (map (\<lambda>i. map (credential_path i) vaultedFields) [0..<n])"

fun unnamed_paths :: "'p yaml_lib \<Rightarrow> string \<Rightarrow> (nat \<times> nat) set \<Rightarrow> string list \<Rightarrow> doc_error + string list" where
  "unnamed_paths Y src named [] = Inr []"
| "unnamed_paths Y src named (path # paths) =
     bind_res (nodeAtPath Y src path) (\<lambda>found.
       case found of
         None \<Rightarrow> bind_res (unnamed_paths Y src named paths) (\<lambda>ps. Inr (path # ps))
       | Some (_, origin) \<Rightarrow>
           if origin \<in> named then unnamed_paths Y src named paths
           else bind_res (unnamed_paths Y src (insert origin named) paths) (\<lambda>ps. Inr (path # ps)))"

definition credentialPaths :: "'p yaml_lib \<Rightarrow> string \<Rightarrow> doc_error + string list" where
  "credentialPaths Y src = bind_res (registryCount Y src) (\<lambda>n. unnamed_paths Y src {} (candidate_paths n))"

datatype reason = Uninteresting | AgeToAge | VaultToAge | AgeToVault

text \<open>What \<open>wanted\<close> answers: an error, or whether to rewrite and a reason not to. Each rewrite draws its own
  randomness.\<close>

fun rewrite_paths ::
  "'p yaml_lib \<Rightarrow> (string \<Rightarrow> string \<Rightarrow> doc_error + (bool \<times> reason)) \<Rightarrow> (nat \<Rightarrow> string \<Rightarrow> string \<Rightarrow> doc_error + string) \<Rightarrow>
   nat \<Rightarrow> string list \<Rightarrow> string \<Rightarrow> doc_error + (string \<times> string list \<times> (string \<times> reason) list)"
where
  "rewrite_paths Y wanted rewrite seed [] cur = Inr (cur, [], [])"
| "rewrite_paths Y wanted rewrite seed (path # paths) cur =
     bind_res (scalarAtPath Y cur path) (\<lambda>v.
       case v of
         None \<Rightarrow> rewrite_paths Y wanted rewrite seed paths cur
       | Some val \<Rightarrow>
           if val = [] then rewrite_paths Y wanted rewrite seed paths cur
           else bind_res (wanted path val) (\<lambda>(want, why).
             if \<not> want then
               bind_res (rewrite_paths Y wanted rewrite seed paths cur) (\<lambda>(out, changed, skipped).
                 Inr (out, changed, if why \<noteq> Uninteresting then (path, why) # skipped else skipped))
             else bind_res (rewrite seed cur path) (\<lambda>next.
               bind_res (rewrite_paths Y wanted rewrite (seed + 1) paths next) (\<lambda>(out, changed, skipped).
                 Inr (out, path # changed, skipped)))))"

definition rewriteConfig ::
  "'p yaml_lib \<Rightarrow> string \<Rightarrow> (string \<Rightarrow> string \<Rightarrow> doc_error + (bool \<times> reason)) \<Rightarrow>
   (nat \<Rightarrow> string \<Rightarrow> string \<Rightarrow> doc_error + string) \<Rightarrow> nat \<Rightarrow>
   doc_error + (string \<times> string list \<times> (string \<times> reason) list)"
where
  "rewriteConfig Y src0 wanted rewrite seed =
     (let crlf = isCRLFDocument src0; src = (if crlf then crlf_to_lf src0 else src0) in
      bind_res (credentialPaths Y src) (\<lambda>paths.
      bind_res (rewrite_paths Y wanted rewrite seed paths src) (\<lambda>(cur, changed, skipped).
        Inr (if crlf then lf_to_crlf cur else cur, changed, skipped))))"

definition skipReason :: "format \<Rightarrow> format \<Rightarrow> reason" where
  "skipReason existing writing =
     (if existing = FormatAge \<and> writing = FormatAge then AgeToAge
      else if existing = FormatVault \<and> writing = FormatAge then VaultToAge
      else AgeToVault)"

definition encrypt_wanted ::
  "('i, 'r) crypto \<Rightarrow> ('i, 'r) Keyring option \<Rightarrow> format \<Rightarrow> bool \<Rightarrow> string \<Rightarrow> string \<Rightarrow> doc_error + (bool \<times> reason)"
where
  "encrypt_wanted C k writing reencrypt path v =
     (case FormatOf v of
        None \<Rightarrow> Inr (True, Uninteresting)
      | Some existing \<Rightarrow>
          if reencrypt then Inr (True, Uninteresting)
          else if existing = FormatVault \<and> writing = FormatVault then
            (case DecryptValue C v k of Inl _ \<Rightarrow> Inl (OtherPassword path) | Inr _ \<Rightarrow> Inr (False, Uninteresting))
          else Inr (False, skipReason existing writing))"

definition rekey_wanted ::
  "('i, 'r) crypto \<Rightarrow> ('i, 'r) Keyring option \<Rightarrow> string \<Rightarrow> string \<Rightarrow> doc_error + (bool \<times> reason)"
where
  "rekey_wanted C from path v =
     (case FormatOf v of
        None \<Rightarrow> Inr (False, Uninteresting)
      | Some f \<Rightarrow>
          (case DecryptValue C v from of Inl _ \<Rightarrow> Inl (OtherKey path f) | Inr _ \<Rightarrow> Inr (True, Uninteresting)))"

subsection \<open>The record of recipients\<close>

definition metadataPath :: string where "metadataPath = ''$.metadata''"

definition encryptionKey :: string where "encryptionKey = ''encryption''"

definition ageRecipientsPath :: string where "ageRecipientsPath = ''$.metadata.encryption.age.recipients''"

definition ageModifiedPath :: string where "ageModifiedPath = ''$.metadata.encryption.age.lastModified''"

definition metadataValues :: "'p yaml_lib \<Rightarrow> string \<Rightarrow> doc_error + token yentry list" where
  "metadataValues Y src =
     bind_res (nodeAtPath Y src metadataPath) (\<lambda>found.
       case found of
         Some (YMap _ flow es, _) \<Rightarrow> if flow \<or> es = [] then Inl NoMetadataBlock else Inr es
       | _ \<Rightarrow> Inl NoMetadataBlock)"

definition mappingValueNamed :: "token yentry list \<Rightarrow> string \<Rightarrow> token yentry option" where
  "mappingValueNamed es name = List.find (\<lambda>e. mappingKeyName e = name) es"

definition key_line :: "token yentry \<Rightarrow> nat" where
  "key_line e = (case entry_key e of None \<Rightarrow> 0 | Some k \<Rightarrow> tk_line (key_token k))"

definition renderInlineScalar :: "'p yaml_lib \<Rightarrow> string \<Rightarrow> string" where
  "renderInlineScalar Y v =
     (case y_marshal Y v of
        None \<Rightarrow> quoteScalar v
      | Some encoded \<Rightarrow> if nl \<in> set (drop_newline encoded) then quoteScalar v else drop_newline encoded)"

definition record_lines :: "'p yaml_lib \<Rightarrow> nat \<Rightarrow> string list \<Rightarrow> string \<Rightarrow> string list" where
  "record_lines Y indent recipients stamp =
     (let pad = replicate indent sp; step = ''  '' in
      [pad @ encryptionKey @ '':'', pad @ step @ ''age:'', pad @ step @ step @ ''recipients:''] @
      map (\<lambda>r. pad @ step @ step @ step @ ''- '' @ renderInlineScalar Y r) recipients @
      [pad @ step @ step @ ''lastModified: '' @ quoteScalar stamp])"

definition renderRecipientRecord :: "'p yaml_lib \<Rightarrow> nat \<Rightarrow> string list \<Rightarrow> string \<Rightarrow> string \<Rightarrow> string" where
  "renderRecipientRecord Y indent recipients stamp eol = join eol (record_lines Y indent recipients stamp)"

definition writeRecipientRecordLF :: "'p yaml_lib \<Rightarrow> string list \<Rightarrow> string \<Rightarrow> string \<Rightarrow> doc_error + string" where
  "writeRecipientRecordLF Y recipients stamp t =
     bind_res (metadataValues Y t) (\<lambda>values.
       let ls = lineOffsets t in
       case mappingValueNamed values encryptionKey of
         Some existing \<Rightarrow>
           (let line = key_line existing in
            Inr (take (ls ! (line - 1)) t @
                 renderRecipientRecord Y (indentOf (line_content t ls line)) recipients stamp (lineEndingAt t ls line) @
                 drop (blockEndOffset t ls line) t))
       | None \<Rightarrow>
           (let lastLine = key_line (last values); firstLine = key_line (hd values);
                eol = lineEndingAt t ls lastLine; end1 = blockEndOffset t ls lastLine in
            Inr (take end1 t @ eol @
                 renderRecipientRecord Y (indentOf (line_content t ls firstLine)) recipients stamp eol @
                 drop end1 t)))"

definition writeRecipientRecord :: "'p yaml_lib \<Rightarrow> string list \<Rightarrow> string \<Rightarrow> string \<Rightarrow> doc_error + string" where
  "writeRecipientRecord Y recipients stamp src = onLineFeeds src (writeRecipientRecordLF Y recipients stamp)"

definition stripRecipientRecordLF :: "'p yaml_lib \<Rightarrow> string \<Rightarrow> doc_error + string" where
  "stripRecipientRecordLF Y t =
     (case metadataValues Y t of
        Inl e \<Rightarrow> if e = NoMetadataBlock then Inr t else Inl e
      | Inr values \<Rightarrow>
          (case mappingValueNamed values encryptionKey of
             None \<Rightarrow> Inr t
           | Some existing \<Rightarrow>
               (let ls = lineOffsets t; line = key_line existing; end1 = blockEndOffset t ls line;
                    end2 = (if end1 < length t \<and> t ! end1 = cr then end1 + 1 else end1);
                    end3 = (if end2 < length t \<and> t ! end2 = nl then end2 + 1 else end2) in
                Inr (take (ls ! (line - 1)) t @ drop end3 t))))"

definition stripRecipientRecord :: "'p yaml_lib \<Rightarrow> string \<Rightarrow> doc_error + string" where
  "stripRecipientRecord Y src = onLineFeeds src (stripRecipientRecordLF Y)"

definition recordRecipients :: "'p yaml_lib \<Rightarrow> string \<Rightarrow> string \<Rightarrow> ('i, 'r) Keyring option \<Rightarrow> string" where
  "recordRecipients Y stamp cur k =
     (if RecipientStrings k = [] then cur
      else (case writeRecipientRecord Y (RecipientStrings k) stamp cur of Inl _ \<Rightarrow> cur | Inr recorded \<Rightarrow> recorded))"

definition stripRecordWhenNoAge :: "'p yaml_lib \<Rightarrow> string \<Rightarrow> string" where
  "stripRecordWhenNoAge Y cur =
     (if str_contains cur AgeHeader then cur
      else (case stripRecipientRecord Y cur of Inl _ \<Rightarrow> cur | Inr stripped \<Rightarrow> stripped))"

definition RecordedRecipients :: "'p yaml_lib \<Rightarrow> string \<Rightarrow> doc_error + (string list \<times> string) option" where
  "RecordedRecipients Y src0 =
     (let src = (if isCRLFDocument src0 then crlf_to_lf src0 else src0) in
      bind_res (nodeAtPath Y src ageRecipientsPath) (\<lambda>found.
        case found of
          None \<Rightarrow> Inr None
        | Some (YSeq _ ns, _) \<Rightarrow>
            bind_res (map_res (\<lambda>n. scalarValue n ageRecipientsPath) ns) (\<lambda>recipients.
              Inr (Some (recipients,
                case nodeAtPath Y src ageModifiedPath of
                  Inr (Some (n, _)) \<Rightarrow> (case scalarValue n ageModifiedPath of Inl _ \<Rightarrow> [] | Inr v \<Rightarrow> v)
                | _ \<Rightarrow> [])))
        | Some (n, _) \<Rightarrow> Inl (NotAList (node_kind n))))"

text \<open>\<open>key\<close> reads an SSH public key and prints it without options and comment, \<open>None\<close> if it is none.\<close>

definition recipientKey :: "(string \<Rightarrow> string option) \<Rightarrow> string \<Rightarrow> string" where
  "recipientKey key recipient =
     (let trimmed = trim_space recipient in
      if trimmed = [] \<or> has_prefix trimmed ''age1'' then trimmed
      else (case key trimmed of None \<Rightarrow> trimmed | Some k \<Rightarrow> trim_space k))"

fun count_down :: "(string \<Rightarrow> string) \<Rightarrow> (string \<Rightarrow> int) \<Rightarrow> string list \<Rightarrow> bool" where
  "count_down key counts [] = True"
| "count_down key counts (r # rs) =
     (let counts' = counts(key r := counts (key r) - 1) in
      if counts' (key r) < 0 then False else count_down key counts' rs)"

definition SameRecipients :: "(string \<Rightarrow> string option) \<Rightarrow> string list \<Rightarrow> string list \<Rightarrow> bool" where
  "SameRecipients key a b =
     (if length a \<noteq> length b then False
      else count_down (recipientKey key)
        (foldl (\<lambda>counts r. counts(recipientKey key r := counts (recipientKey key r) + 1)) (\<lambda>_. 0) a) b)"

subsection \<open>The commands\<close>

definition EncryptConfig ::
  "'p yaml_lib \<Rightarrow> ('i, 'r) crypto \<Rightarrow> nat \<Rightarrow> string \<Rightarrow> string \<Rightarrow> ('i, 'r) Keyring option \<Rightarrow> bool \<Rightarrow>
   doc_error + (string \<times> string list \<times> (string \<times> reason) list)"
where
  "EncryptConfig Y C seed stamp src k reencrypt =
     bind_res (map_err ValueError (EncryptFormat k)) (\<lambda>writing.
     bind_res (rewriteConfig Y src (encrypt_wanted C k writing reencrypt)
         (\<lambda>seed cur path. EncryptAtPath Y C seed cur path k True) seed) (\<lambda>(cur, changed, skipped).
       Inr (if writing = FormatAge \<and> changed \<noteq> [] then recordRecipients Y stamp cur k else cur, changed, skipped)))"

definition DecryptConfig ::
  "'p yaml_lib \<Rightarrow> ('i, 'r) crypto \<Rightarrow> string \<Rightarrow> ('i, 'r) Keyring option \<Rightarrow>
   doc_error + (string \<times> string list \<times> (string \<times> reason) list)"
where
  "DecryptConfig Y C src k =
     bind_res (rewriteConfig Y src (\<lambda>path v. Inr (IsEncrypted v, Uninteresting))
         (\<lambda>seed cur path. DecryptAtPath Y C cur path k) 0) (\<lambda>(cur, changed, skipped).
       Inr (stripRecordWhenNoAge Y cur, changed, skipped))"

definition RekeyConfig ::
  "'p yaml_lib \<Rightarrow> ('i, 'r) crypto \<Rightarrow> nat \<Rightarrow> string \<Rightarrow> string \<Rightarrow> ('i, 'r) Keyring option \<Rightarrow> ('i, 'r) Keyring option \<Rightarrow>
   doc_error + (string \<times> string list \<times> (string \<times> reason) list)"
where
  "RekeyConfig Y C seed stamp src from to =
     bind_res (rewriteConfig Y src (rekey_wanted C from)
         (\<lambda>seed cur path. RekeyAtPath Y C seed cur path from to) seed) (\<lambda>(cur, changed, skipped).
       Inr (if changed = [] then cur
            else (case EncryptFormat to of
                    Inl _ \<Rightarrow> cur
                  | Inr FormatAge \<Rightarrow> recordRecipients Y stamp cur to
                  | Inr FormatVault \<Rightarrow> stripRecordWhenNoAge Y cur),
            changed, skipped))"

subsection \<open>One value: encrypted, decrypted, moved\<close>

definition value_at :: "'p yaml_lib \<Rightarrow> string \<Rightarrow> string \<Rightarrow> string option" where
  "value_at Y src path = (case scalarNodeAtPath Y src path of Inl _ \<Rightarrow> None | Inr (_, v, _) \<Rightarrow> Some v)"

text \<open>A path spelt the way the library prints it.\<close>

definition canonical :: "'p yaml_lib \<Rightarrow> string \<Rightarrow> bool" where
  "canonical Y path = (case parseYAMLPath Y path of Inl _ \<Rightarrow> False | Inr p \<Rightarrow> y_show Y p = path)"

lemma verifiedRewrite_Inr:
  "verifiedRewrite Y rewritten path want = Inr out \<longleftrightarrow> out = rewritten \<and> value_at Y rewritten path = Some want"
  by (auto simp: verifiedRewrite_def value_at_def split: sum.splits)

lemma lookup_Inr:
  "(case l of Found n \<Rightarrow> f n | NotFound \<Rightarrow> Inl e | LookupFailed \<Rightarrow> Inl e') = Inr r \<longleftrightarrow> (\<exists>n. l = Found n \<and> f n = Inr r)"
  by (cases l) simp_all

lemma scalarNodeAtPath_Inr:
  "scalarNodeAtPath Y src path = Inr (node, v, shown) \<longleftrightarrow>
     (\<exists>p file. parseYAMLPath Y path = Inr p \<and> parsed Y src = Inr file \<and> y_filter Y p file = Found node \<and>
        scalarValue node shown = Inr v \<and> shown = y_show Y p)"
  by (auto simp: scalarNodeAtPath_def bind_res_Inr lookup_Inr)

lemma scalarNodeAtPath_canonical:
  "scalarNodeAtPath Y src path = Inr (node, v, shown) \<Longrightarrow> canonical Y path \<Longrightarrow> shown = path"
  by (auto simp: scalarNodeAtPath_Inr canonical_def)

lemma value_at_node: "scalarNodeAtPath Y src path = Inr (node, v, shown) \<Longrightarrow> value_at Y src path = Some v"
  by (simp add: value_at_def)

definition spliced :: "string \<Rightarrow> token ynode \<Rightarrow> string \<Rightarrow> bool" where
  "spliced src node dst \<longleftrightarrow> (\<exists>head tail. spliceScalar src (is_literal node) (node_token node) head tail = Inr dst)"

lemma spliceCiphertext_spliced: "spliceCiphertext Y src node c = Inr dst \<Longrightarrow> spliced src node dst"
  by (auto simp: spliceCiphertext_def splice_node_def spliced_def Let_def split: if_splits)

lemma encryptAtPath_Inr:
  assumes "encryptAtPath Y C seed src path k re = Inr dst" and "canonical Y path"
  obtains node plain c where "scalarNodeAtPath Y src path = Inr (node, plain, path)" "re \<or> \<not> IsEncrypted plain"
    "EncryptValue C seed plain k = Inr c" "spliced src node dst" "value_at Y dst path = Some (chomp c)"
  using assms
  by (fastforce simp: encryptAtPath_def bind_res_Inr spliceVerifiedCiphertext_def verifiedRewrite_Inr
      dest: scalarNodeAtPath_canonical spliceCiphertext_spliced split: if_splits)

lemma decryptAtPath_Inr:
  assumes "decryptAtPath Y C src path k = Inr dst" and "canonical Y path"
  obtains node v plain where "scalarNodeAtPath Y src path = Inr (node, v, path)" "IsEncrypted v"
    "DecryptValue C v k = Inr plain" "spliced src node dst" "value_at Y dst path = Some plain"
  using assms
  by (fastforce simp: decryptAtPath_def bind_res_Inr splice_node_def spliced_def verifiedRewrite_Inr
      dest: scalarNodeAtPath_canonical split: if_splits)

lemma rekeyAtPath_Inr:
  assumes "rekeyAtPath Y C seed src path from to = Inr dst" and "canonical Y path"
  obtains node v plain c where "scalarNodeAtPath Y src path = Inr (node, v, path)" "IsEncrypted v"
    "DecryptValue C v from = Inr plain" "\<not> IsEncrypted plain" "EncryptValue C seed plain to = Inr c"
    "spliced src node dst" "value_at Y dst path = Some (chomp c)"
  using assms
  by (fastforce simp: rekeyAtPath_def bind_res_Inr spliceVerifiedCiphertext_def verifiedRewrite_Inr
      dest: scalarNodeAtPath_canonical spliceCiphertext_spliced split: if_splits)

text \<open>C4. Encrypting a value and decrypting it with a keyring that reads what was written gives the value
  back: the document in between holds at the path a ciphertext with the header of the format the keyring
  chose, which opens to the old value, and both documents differ from the one before by a splice at the
  value.\<close>

theorem encrypt_then_decrypt:
  assumes "vault_opens C" and "age_opens C fits" and "reads fits to from" and "canonical Y path"
    and "encryptAtPath Y C seed src path (Some from) re = Inr mid"
    and "decryptAtPath Y C mid path (Some to) = Inr dst"
  shows "value_at Y dst path = value_at Y src path \<and>
    (\<exists>node1 node2 plain c. value_at Y src path = Some plain \<and> value_at Y mid path = Some c \<and>
       EncryptFormat (Some from) = Inr (the (FormatOf c)) \<and> IsEncrypted c \<and>
       DecryptValue C c (Some to) = Inr plain \<and> spliced src node1 mid \<and> spliced mid node2 dst)"
proof -
  from encryptAtPath_Inr [OF assms(5,4)] obtain node1 plain c0 where
    e: "scalarNodeAtPath Y src path = Inr (node1, plain, path)" "EncryptValue C seed plain (Some from) = Inr c0"
      "spliced src node1 mid" "value_at Y mid path = Some (chomp c0)"
    by metis
  from EncryptValue_read_back [OF assms(1,2) e(2) assms(3)]
  have c: "EncryptFormat (Some from) = Inr (the (FormatOf (chomp c0)))" "IsEncrypted (chomp c0)"
      "DecryptValue C (chomp c0) (Some to) = Inr plain"
    using FormatOf_None [of c0] FormatOf_None [of "chomp c0"] by auto
  from decryptAtPath_Inr [OF assms(6,4)] obtain node2 v plain2 where
    d: "scalarNodeAtPath Y mid path = Inr (node2, v, path)" "DecryptValue C v (Some to) = Inr plain2"
      "spliced mid node2 dst" "value_at Y dst path = Some plain2"
    by metis
  have "v = chomp c0" using value_at_node [OF d(1)] e(4) by simp
  then have "plain2 = plain" using d(2) c(3) by simp
  then show ?thesis using e(3,4) c d(3,4) value_at_node [OF e(1)] by auto
qed

text \<open>C15. Moving a value to another key keeps the plaintext and never puts it in the clear: what the old keyring reads from the document before, any keyring that reads the new format reads
  from the document after, where the value is ciphertext; a value wrapped twice is refused.\<close>

theorem rekeyAtPath_moves:
  assumes "vault_opens C" and "age_opens C fits" and "reads fits later to" and "canonical Y path"
    and "rekeyAtPath Y C seed src path (Some from) (Some to) = Inr dst"
  shows "\<exists>node old new plain. value_at Y src path = Some old \<and> value_at Y dst path = Some new \<and>
    DecryptValue C old (Some from) = Inr plain \<and> DecryptValue C new (Some later) = Inr plain \<and>
    \<not> IsEncrypted plain \<and> IsEncrypted new \<and> EncryptFormat (Some to) = Inr (the (FormatOf new)) \<and> spliced src node dst"
proof -
  from rekeyAtPath_Inr [OF assms(5,4)] obtain node v plain c where
    r: "scalarNodeAtPath Y src path = Inr (node, v, path)" "DecryptValue C v (Some from) = Inr plain" "\<not> IsEncrypted plain"
      "EncryptValue C seed plain (Some to) = Inr c" "spliced src node dst" "value_at Y dst path = Some (chomp c)"
    by metis
  from EncryptValue_read_back [OF assms(1,2) r(4) assms(3)]
  have "EncryptFormat (Some to) = Inr (the (FormatOf (chomp c)))" "IsEncrypted (chomp c)"
      "DecryptValue C (chomp c) (Some later) = Inr plain"
    using FormatOf_None [of c] FormatOf_None [of "chomp c"] by auto
  then show ?thesis using r value_at_node [OF r(1)] by metis
qed

subsection \<open>Paths\<close>

lemma CanonicalYAMLPath_Inr:
  "CanonicalYAMLPath Y p = Inr c \<longleftrightarrow>
     (\<exists>P Q. parseYAMLPath Y p = Inr P \<and> c = y_show Y P \<and> parseYAMLPath Y c = Inr Q \<and> y_show Y Q = c)"
proof (cases "parseYAMLPath Y p")
  case (Inr P)
  then show ?thesis by (cases "parseYAMLPath Y (y_show Y P)") (auto simp: CanonicalYAMLPath_def Let_def)
qed (simp add: CanonicalYAMLPath_def)

text \<open>The canonical spelling of a path is its own canonical spelling, and the three ways of writing a path,
  with the root, with a leading dot and bare, have the same one, or all have none.\<close>

theorem CanonicalYAMLPath_spellings:
  assumes "CanonicalYAMLPath Y p = Inr c"
  shows "CanonicalYAMLPath Y c = Inr c \<and> canonical Y c \<and>
    (\<not> has_prefix p ''$'' \<and> \<not> has_prefix p ''.'' \<longrightarrow>
       CanonicalYAMLPath Y (''.'' @ p) = Inr c \<and> CanonicalYAMLPath Y (''$.'' @ p) = Inr c)"
proof -
  from assms obtain P Q where P: "parseYAMLPath Y p = Inr P" "c = y_show Y P" and Q: "parseYAMLPath Y c = Inr Q" "y_show Y Q = c"
    by (auto simp: CanonicalYAMLPath_Inr)
  have "parseYAMLPath Y q = Inr P"
    if "\<not> has_prefix p ''$''" "\<not> has_prefix p ''.''" "q = ''.'' @ p \<or> q = ''$.'' @ p" for q
    using that P(1) by (auto simp: parseYAMLPath_def has_prefix_def split: option.splits)
  then show ?thesis using P(2) Q by (auto simp: CanonicalYAMLPath_Inr canonical_def)
qed

lemma show_nat_digits: "show_nat n \<noteq> [] \<and> (\<forall>c \<in> set (show_nat n). is_digit c)"
proof (induction n rule: show_nat.induct)
  case (1 n)
  have d: "is_digit (char_of (48 + m))" if "m < 10" for m :: nat
    using that by (simp add: is_digit_def byte_def)
  show ?case
  proof (cases "n < 10")
    case True
    then show ?thesis using d by (simp add: show_nat.simps [of n])
  next
    case False
    then show ?thesis using 1 d [of "n mod 10"] by (auto simp: show_nat.simps [of n])
  qed
qed

lemma decryptablePath_iff:
  "decryptablePath s \<longleftrightarrow>
     (\<exists>ds field. s = registriesPath @ ''['' @ ds @ '']'' @ ''.'' @ field \<and> ds \<noteq> [] \<and> (\<forall>c \<in> set ds. is_digit c) \<and>
        field \<in> set vaultedFields)"
proof
  assume d: "decryptablePath s"
  define rest where "rest = drop (length registriesPath) s"
  define ds where "ds = takeWhile is_digit (tl rest)"
  define tail where "tail = dropWhile is_digit (tl rest)"
  have h: "has_prefix s registriesPath" "rest \<noteq> []" "hd rest = CHR ''[''" "ds \<noteq> []" "has_prefix tail ''].''" "drop 2 tail \<in> set vaultedFields"
    using d by (simp_all add: decryptablePath_def Let_def rest_def ds_def tail_def)
  have "s = registriesPath @ rest" using h(1) by (auto simp: has_prefix_def prefix_def rest_def)
  moreover have "rest = ''['' @ ds @ tail" using h(2,3) by (cases rest) (simp_all add: ds_def tail_def)
  moreover have "tail = '']'' @ ''.'' @ drop 2 tail" using h(5) by (auto simp: has_prefix_def prefix_def)
  ultimately have s: "s = registriesPath @ ''['' @ ds @ '']'' @ ''.'' @ drop 2 tail" by simp
  show "\<exists>ds field. s = registriesPath @ ''['' @ ds @ '']'' @ ''.'' @ field \<and> ds \<noteq> [] \<and> (\<forall>c \<in> set ds. is_digit c) \<and>
        field \<in> set vaultedFields"
    by (rule exI [of _ ds], rule exI [of _ "drop 2 tail"]) (use s h(4,6) in \<open>auto simp: ds_def dest: set_takeWhileD\<close>)
next
  assume "\<exists>ds field. s = registriesPath @ ''['' @ ds @ '']'' @ ''.'' @ field \<and> ds \<noteq> [] \<and> (\<forall>c \<in> set ds. is_digit c) \<and>
        field \<in> set vaultedFields"
  then obtain ds field where s: "s = registriesPath @ ''['' @ ds @ '']'' @ ''.'' @ field" and ds: "ds \<noteq> []" "\<forall>c \<in> set ds. is_digit c"
      and f: "field \<in> set vaultedFields" by blast
  have "takeWhile is_digit (ds @ '']'' @ ''.'' @ field) = ds" "dropWhile is_digit (ds @ '']'' @ ''.'' @ field) = '']'' @ ''.'' @ field"
    using ds(2) by (auto simp: is_digit_def byte_def takeWhile_append dropWhile_append)
  then show "decryptablePath s" using ds(1) f by (simp add: decryptablePath_def s has_prefix_def)
qed


definition origin_of :: "'p yaml_lib \<Rightarrow> string \<Rightarrow> string \<Rightarrow> (nat \<times> nat) option" where
  "origin_of Y src path = (case nodeAtPath Y src path of Inr (Some (_, origin)) \<Rightarrow> Some origin | _ \<Rightarrow> None)"

lemma unnamed_paths_Inr:
  "unnamed_paths Y src named ps = Inr qs \<Longrightarrow>
     subseq qs ps \<and> distinct (List.map_filter (origin_of Y src) qs) \<and>
     (\<forall>q \<in> set qs. \<forall>l. origin_of Y src q = Some l \<longrightarrow> l \<notin> named) \<and>
     (\<forall>p \<in> set ps. p \<in> set qs \<or> (\<exists>l. origin_of Y src p = Some l \<and> (l \<in> named \<or> Some l \<in> origin_of Y src ` set qs)))"
proof (induction Y src named ps arbitrary: qs rule: unnamed_paths.induct)
  case (2 Y src named p ps)
  obtain found where f: "nodeAtPath Y src p = Inr found" using "2.prems" by (auto simp: bind_res_Inr)
  show ?case
  proof (cases found)
    case None
    then obtain rs where rs: "unnamed_paths Y src named ps = Inr rs" "qs = p # rs"
      using "2.prems" f by (auto simp: bind_res_Inr)
    have "origin_of Y src p = None" using f None by (simp add: origin_of_def)
    then show ?thesis using "2.IH"(1) [OF rs(1)] by (auto simp: rs(2) List.map_filter_simps)
  next
    case (Some nl)
    obtain n l where nl: "nl = (n, l)" by (cases nl)
    have l: "origin_of Y src p = Some l" using f Some nl by (simp add: origin_of_def)
    show ?thesis
    proof (cases "l \<in> named")
      case True
      then have "unnamed_paths Y src named ps = Inr qs" using "2.prems" f Some nl by simp
      from "2.IH"(2) [OF True this] show ?thesis using l True by (auto intro: subseq_Cons' simp del: split_paired_All split_paired_Ex)
    next
      case False
      then obtain rs where rs: "unnamed_paths Y src (insert l named) ps = Inr rs" "qs = p # rs"
        using "2.prems" f Some nl by (auto simp: bind_res_Inr)
      from "2.IH"(3) [OF False rs(1)] show ?thesis using l False
        by (auto simp: rs(2) List.map_filter_simps List.map_filter_def simp del: split_paired_All split_paired_Ex)
    qed
  qed
qed simp

lemma candidate_path: "p \<in> set (candidate_paths n) \<Longrightarrow> decryptablePath p"
  using show_nat_digits
  by (auto simp: candidate_paths_def credential_path_def decryptablePath_iff)

text \<open>C27. The paths the commands over a whole file walk, the paths a user is told will be decrypted, and the
  fields an apply decrypts are the same: a path is decryptable exactly when it is a registry, by a decimal
  index, and one of the fields; every path walked is one; and the fields are those of
  \<open>DecryptRegistryAuth\<close>. No value is walked twice, and none is left out: a path that is not walked names
  a value that a path before it names.\<close>

theorem credential_paths_in_step:
  assumes "credentialPaths Y src = Inr qs"
  shows "vaultedFields = map fst (auth_fields @ [ca_field]) \<and>
    (\<forall>s. decryptablePath s \<longleftrightarrow>
       (\<exists>ds field. s = registriesPath @ ''['' @ ds @ '']'' @ ''.'' @ field \<and> ds \<noteq> [] \<and> (\<forall>c \<in> set ds. is_digit c) \<and>
          field \<in> set vaultedFields)) \<and>
    (\<forall>q \<in> set qs. decryptablePath q) \<and> distinct (List.map_filter (origin_of Y src) qs) \<and>
    (\<exists>n. registryCount Y src = Inr n \<and>
       (\<forall>i < n. \<forall>field \<in> set vaultedFields. credential_path i field \<in> set qs \<or>
          (\<exists>q \<in> set qs. origin_of Y src q \<noteq> None \<and> origin_of Y src q = origin_of Y src (credential_path i field))))"
proof -
  obtain n where n: "registryCount Y src = Inr n" "unnamed_paths Y src {} (candidate_paths n) = Inr qs"
    using assms by (auto simp: credentialPaths_def bind_res_Inr)
  from unnamed_paths_Inr [OF n(2)] have u: "subseq qs (candidate_paths n)" "distinct (List.map_filter (origin_of Y src) qs)"
      "\<forall>p \<in> set (candidate_paths n). p \<in> set qs \<or> (\<exists>l. origin_of Y src p = Some l \<and> Some l \<in> origin_of Y src ` set qs)"
    by auto
  have "set qs \<subseteq> set (candidate_paths n)" using u(1) by (auto elim: list_emb_set)
  then have dec: "\<forall>q \<in> set qs. decryptablePath q" using candidate_path by blast
  have "credential_path i field \<in> set (candidate_paths n)" if "i < n" "field \<in> set vaultedFields" for i field
    using that by (auto simp: candidate_paths_def)
  with u(3) have all: "\<forall>i < n. \<forall>field \<in> set vaultedFields. credential_path i field \<in> set qs \<or>
      (\<exists>q \<in> set qs. origin_of Y src q \<noteq> None \<and> origin_of Y src q = origin_of Y src (credential_path i field))"
    by (metis imageE option.distinct(1))
  have "vaultedFields = map fst (auth_fields @ [ca_field])"
    by (simp add: vaultedFields_def auth_fields_def ca_field_def)
  with dec u(2) n(1) all show ?thesis using decryptablePath_iff by blast
qed

subsection \<open>The same recipients\<close>

lemma count_down_mset:
  "(\<And>x. counts x = int (count M x)) \<Longrightarrow> count_down key counts rs \<longleftrightarrow> mset (map key rs) \<subseteq># M"
proof (induction key counts rs arbitrary: M rule: count_down.induct)
  case (2 key counts r rs)
  let ?c = "counts(key r := counts (key r) - 1)"
  show ?case
  proof (cases "key r \<in># M")
    case False
    then have "count M (key r) = 0" by (simp add: count_eq_zero_iff)
    then show ?thesis using "2.prems" [of "key r"] False by (simp add: insert_subset_eq_iff)
  next
    case True
    then obtain N where M: "M = add_mset (key r) N" by (metis insert_DiffM)
    have c: "?c x = int (count N x)" for x using "2.prems" by (simp add: M)
    then have "\<not> ?c (key r) < 0" by (metis of_nat_less_0_iff)
    with "2.IH" [OF refl this c] show ?thesis by (simp add: M Let_def del: fun_upd_apply)
  qed
qed simp

text \<open>Two lists of recipients are the same exactly when they name the same keys equally often: neither the
  order nor, for SSH keys, options and comments play a part.\<close>

theorem SameRecipients_iff:
  "SameRecipients key a b \<longleftrightarrow> mset (map (recipientKey key) a) = mset (map (recipientKey key) b)"
proof -
  have "foldl (\<lambda>counts r. counts(recipientKey key r := counts (recipientKey key r) + 1)) c a x =
      c x + int (count (mset (map (recipientKey key) a)) x)" for c x
    by (induction a arbitrary: c) auto
  then have "count_down (recipientKey key)
      (foldl (\<lambda>counts r. counts(recipientKey key r := counts (recipientKey key r) + 1)) (\<lambda>_. 0) a) b \<longleftrightarrow>
      mset (map (recipientKey key) b) \<subseteq># mset (map (recipientKey key) a)"
    by (intro count_down_mset) simp
  then have "SameRecipients key a b \<longleftrightarrow> length a = length b \<and> mset (map (recipientKey key) b) \<subseteq># mset (map (recipientKey key) a)"
    by (simp add: SameRecipients_def)
  moreover have "mset ys \<subseteq># mset xs \<and> length xs = length ys \<Longrightarrow> mset xs = mset ys" for xs ys :: "string list"
    by (metis mset_subset_size size_mset subset_mset.le_imp_less_or_eq less_irrefl)
  ultimately show ?thesis
    by (metis length_map mset_eq_length subset_mset.order_refl)
qed

subsection \<open>The walk over all credentials\<close>

lemma credential_path_inject:
  assumes "credential_path i f = credential_path j g"
  shows "i = j \<and> f = g"
proof -
  have stop: "\<not> is_digit (CHR '']'')" by (simp add: is_digit_def byte_def)
  have split: "takeWhile is_digit (show_nat k @ CHR '']'' # r) = show_nat k \<and> dropWhile is_digit (show_nat k @ CHR '']'' # r) = CHR '']'' # r" for k r
    using show_nat_digits [of k] stop by (simp add: takeWhile_append dropWhile_append)
  have "show_nat i @ CHR '']'' # ''.'' @ f = show_nat j @ CHR '']'' # ''.'' @ g"
    using assms by (simp add: credential_path_def)
  then have "show_nat i = show_nat j \<and> CHR '']'' # ''.'' @ f = CHR '']'' # ''.'' @ g" using split by metis
  then show ?thesis using show_nat_inject by simp
qed

lemma distinct_candidates: "distinct (candidate_paths n)"
proof -
  have "distinct (map (credential_path i) vaultedFields)" for i
    by (auto simp: distinct_map vaultedFields_def inj_on_def dest: credential_path_inject)
  note one = this
  have step: "candidate_paths (Suc n) = candidate_paths n @ map (credential_path n) vaultedFields" for n
    by (simp add: candidate_paths_def)
  have new: "credential_path n f \<notin> set (candidate_paths n)" for n f
    by (auto simp: candidate_paths_def dest: credential_path_inject)
  show ?thesis
  proof (induction n)
    case (Suc n)
    then show ?case using one [of n] new [of n] unfolding step by auto
  qed (simp add: candidate_paths_def)
qed

text \<open>What one rewrite is relied on for: its own value comes out good, and the values at the other paths stay.\<close>

definition rewrites_well ::
  "'p yaml_lib \<Rightarrow> (string \<Rightarrow> bool) \<Rightarrow> (nat \<Rightarrow> string \<Rightarrow> string \<Rightarrow> doc_error + string) \<Rightarrow> string list \<Rightarrow> bool"
where
  "rewrites_well Y good rewrite paths \<longleftrightarrow>
     (\<forall>seed src p dst. p \<in> set paths \<longrightarrow> rewrite seed src p = Inr dst \<longrightarrow>
        (\<exists>v. scalarAtPath Y dst p = Inr (Some v) \<and> good v) \<and>
        (\<forall>q \<in> set paths. q \<noteq> p \<longrightarrow> scalarAtPath Y dst q = scalarAtPath Y src q))"

definition settled :: "'p yaml_lib \<Rightarrow> (string \<Rightarrow> bool) \<Rightarrow> string \<Rightarrow> string \<Rightarrow> bool" where
  "settled Y good src path \<longleftrightarrow>
     (case scalarAtPath Y src path of Inl _ \<Rightarrow> False | Inr None \<Rightarrow> True | Inr (Some v) \<Rightarrow> v = [] \<or> good v)"

lemma rewrite_paths_keep:
  assumes "rewrites_well Y good rewrite all" and "set ps \<subseteq> set all" and "q \<in> set all" and "q \<notin> set ps"
    and "rewrite_paths Y wanted rewrite seed ps src = Inr (out, changed, skipped)"
  shows "scalarAtPath Y out q = scalarAtPath Y src q"
  using assms(2,4,5)
proof (induction ps arbitrary: seed src changed skipped)
  case (Cons p ps)
  obtain found where f: "scalarAtPath Y src p = Inr found" using Cons.prems(3) by (auto simp: bind_res_Inr)
  have pq: "p \<in> set all" "q \<noteq> p" using Cons.prems by auto
  show ?case
  proof (cases "found = None \<or> found = Some []")
    case True
    then show ?thesis using Cons.prems Cons.IH f by auto
  next
    case False
    then obtain v where v: "found = Some v" "v \<noteq> []" by auto
    obtain want why where w: "wanted p v = Inr (want, why)" using Cons.prems(3) f v by (auto simp: bind_res_Inr)
    show ?thesis
    proof (cases want)
      case True
      then obtain mid ch sk where "rewrite seed src p = Inr mid" "rewrite_paths Y wanted rewrite (seed + 1) ps mid = Inr (out, ch, sk)"
        using Cons.prems(3) f v w by (auto simp: bind_res_Inr)
      then have "scalarAtPath Y out q = scalarAtPath Y mid q" "scalarAtPath Y mid q = scalarAtPath Y src q"
        using Cons.IH Cons.prems(1,2) assms(1,3) pq unfolding rewrites_well_def by auto
      then show ?thesis by simp
    next
      case no: False
      then obtain ch sk where "rewrite_paths Y wanted rewrite seed ps src = Inr (out, ch, sk)"
        using Cons.prems(3) f v w by (auto simp: bind_res_Inr)
      then show ?thesis using Cons.IH Cons.prems(1,2) by auto
    qed
  qed
qed simp

lemma rewrite_paths_settles:
  assumes "rewrites_well Y good rewrite all" and "set ps \<subseteq> set all" and "distinct ps"
    and wanted: "\<And>p v why. wanted p v = Inr (False, why) \<Longrightarrow> good v"
    and "rewrite_paths Y wanted rewrite seed ps src = Inr (out, changed, skipped)"
  shows "(\<forall>p \<in> set ps. settled Y good out p) \<and> subseq changed ps \<and> subseq (map fst skipped) ps"
  using assms(2,3,5)
proof (induction ps arbitrary: seed src changed skipped)
  case (Cons p ps)
  obtain found where f: "scalarAtPath Y src p = Inr found" using Cons.prems(3) by (auto simp: bind_res_Inr)
  have sub: "set ps \<subseteq> set all" "distinct ps" "p \<in> set all" "p \<notin> set ps" using Cons.prems by auto
  note keep = rewrite_paths_keep [OF assms(1) sub(1) sub(3,4)]
  show ?case
  proof (cases "found = None \<or> found = Some []")
    case True
    then have r: "rewrite_paths Y wanted rewrite seed ps src = Inr (out, changed, skipped)" using Cons.prems f by auto
    have "settled Y good out p" using keep [OF r] f True by (auto simp: settled_def)
    then show ?thesis using Cons.IH [OF sub(1,2) r] by (auto intro: subseq_Cons')
  next
    case False
    then obtain v where v: "found = Some v" "v \<noteq> []" by auto
    obtain want why where w: "wanted p v = Inr (want, why)" using Cons.prems(3) f v by (auto simp: bind_res_Inr)
    show ?thesis
    proof (cases want)
      case True
      then obtain mid ch where m: "rewrite seed src p = Inr mid" and r: "rewrite_paths Y wanted rewrite (seed + 1) ps mid = Inr (out, ch, skipped)"
          and ch: "changed = p # ch"
        using Cons.prems(3) f v w by (auto simp: bind_res_Inr)
      obtain u where "scalarAtPath Y mid p = Inr (Some u)" "good u"
        using assms(1) sub(3) m unfolding rewrites_well_def by blast
      then have "settled Y good out p" using keep [OF r] by (simp add: settled_def)
      then show ?thesis using Cons.IH [OF sub(1,2) r] by (auto simp: ch intro: subseq_Cons')
    next
      case no: False
      then obtain sk where r: "rewrite_paths Y wanted rewrite seed ps src = Inr (out, changed, sk)"
          and sk: "skipped = (if why \<noteq> Uninteresting then (p, why) # sk else sk)"
        using Cons.prems(3) f v w by (auto simp: bind_res_Inr)
      have "good v" using wanted w no by simp
      then have "settled Y good out p" using keep [OF r] f v by (simp add: settled_def)
      then show ?thesis using Cons.IH [OF sub(1,2) r] by (auto simp: sk intro: subseq_Cons')
    qed
  qed
qed simp

lemma rewriteConfig_Inr:
  assumes "rewriteConfig Y src wanted rewrite seed = Inr (out, changed, skipped)"
  obtains paths where "credentialPaths Y (if isCRLFDocument src then crlf_to_lf src else src) = Inr paths" "distinct paths"
    "\<exists>cur. rewrite_paths Y wanted rewrite seed paths (if isCRLFDocument src then crlf_to_lf src else src) = Inr (cur, changed, skipped) \<and>
       out = (if isCRLFDocument src then lf_to_crlf cur else cur)"
proof -
  let ?src = "if isCRLFDocument src then crlf_to_lf src else src"
  obtain paths cur where p: "credentialPaths Y ?src = Inr paths"
      and r: "rewrite_paths Y wanted rewrite seed paths ?src = Inr (cur, changed, skipped)"
      and o: "out = (if isCRLFDocument src then lf_to_crlf cur else cur)"
    using assms by (auto simp: rewriteConfig_def Let_def bind_res_Inr)
  obtain n where "unnamed_paths Y ?src {} (candidate_paths n) = Inr paths"
    using p by (auto simp: credentialPaths_def bind_res_Inr)
  then have "subseq paths (candidate_paths n)" using unnamed_paths_Inr by blast
  then have "distinct paths" using distinct_candidates by (auto simp: subseq_conv_nths distinct_nthsI)
  with p r o that show thesis by blast
qed

text \<open>Both kinds of line break are read alike.\<close>

definition reads_alike :: "'p yaml_lib \<Rightarrow> bool" where
  "reads_alike Y \<longleftrightarrow> (\<forall>src p. scalarAtPath Y (lf_to_crlf src) p = scalarAtPath Y src p)"

lemma value_at_scalar: "value_at Y src p = Some v \<Longrightarrow> scalarAtPath Y src p = Inr (Some v)"
proof -
  assume "value_at Y src p = Some v"
  then obtain node shown where "scalarNodeAtPath Y src p = Inr (node, v, shown)"
    by (auto simp: value_at_def split: sum.splits)
  then obtain q docs where q: "parseYAMLPath Y p = Inr q" "parsed Y src = Inr docs" "y_filter Y q docs = Found node"
      "scalarValue node shown = Inr v"
    by (auto simp: scalarNodeAtPath_Inr)
  then have "scalarValue node p = Inr v" by (auto simp: scalarValue_def split: ynode.splits)
  then show "scalarAtPath Y src p = Inr (Some v)" using q by (simp add: scalarAtPath_def nodeAtPath_def)
qed

lemma EncryptValue_header:
  assumes "vault_opens C" and "age_opens C fits" and "EncryptValue C seed v k = Inr c"
  shows "IsEncrypted c"
proof -
  obtain f where f: "EncryptFormat k = Inr f" using assms(3) by (auto simp: EncryptValue_def bind_res_Inr)
  show ?thesis
  proof (cases f)
    case FormatAge
    then have "cy_age_encrypt C seed (kr_recipients (the k)) v = Some c"
      using assms(3) f by (auto simp: EncryptValue_def encryptAge_def split: if_splits option.splits)
    then show ?thesis using assms(2) unfolding age_opens_def IsEncrypted_def by blast
  next
    case FormatVault
    then have "cy_vault_encrypt C seed v (kr_vaultPassword (the k)) = Some c"
      using assms(3) f by (auto simp: EncryptValue_def split: option.splits)
    then show ?thesis using assms(1) unfolding vault_opens_def IsEncrypted_def by blast
  qed
qed

lemma EncryptAtPath_reads_back:
  assumes "vault_opens C" and "age_opens C fits" and "reads_alike Y" and "canonical Y p"
    and "EncryptAtPath Y C seed src p k re = Inr dst"
  shows "\<exists>v. scalarAtPath Y dst p = Inr (Some v) \<and> IsEncrypted v"
proof -
  let ?src = "if isCRLFDocument src then crlf_to_lf src else src"
  obtain mid where e: "encryptAtPath Y C seed ?src p k re = Inr mid" and dst: "dst = mid \<or> dst = lf_to_crlf mid"
    using assms(5) by (auto simp: EncryptAtPath_def onLineFeeds_def bind_res_Inr split: if_splits)
  from encryptAtPath_Inr [OF e assms(4)] obtain plain c where
    c: "EncryptValue C seed plain k = Inr c" "value_at Y mid p = Some (chomp c)" by metis
  have "IsEncrypted (chomp c)"
    using EncryptValue_header [OF assms(1,2) c(1)] FormatOf_None [of c] FormatOf_None [of "chomp c"] FormatOf_chomp [of c] by metis
  moreover have "scalarAtPath Y dst p = Inr (Some (chomp c))"
    using value_at_scalar [OF c(2)] dst assms(3) by (auto simp: reads_alike_def)
  ultimately show ?thesis by blast
qed

text \<open>The values at the other paths stay.\<close>

definition keeps_others :: "'p yaml_lib \<Rightarrow> (nat \<Rightarrow> string \<Rightarrow> string \<Rightarrow> doc_error + string) \<Rightarrow> string list \<Rightarrow> bool" where
  "keeps_others Y rewrite paths \<longleftrightarrow>
     (\<forall>seed src p dst. p \<in> set paths \<longrightarrow> rewrite seed src p = Inr dst \<longrightarrow>
        (\<forall>q \<in> set paths. q \<noteq> p \<longrightarrow> scalarAtPath Y dst q = scalarAtPath Y src q))"


text \<open>A value there is nothing to encrypt about: ciphertext, and readable with the password if both are
  Ansible Vault.\<close>

definition done_with :: "('i, 'r) crypto \<Rightarrow> ('i, 'r) Keyring option \<Rightarrow> format \<Rightarrow> string \<Rightarrow> bool" where
  "done_with C k writing v \<longleftrightarrow>
     (case FormatOf v of
        None \<Rightarrow> False
      | Some f \<Rightarrow> f = FormatVault \<and> writing = FormatVault \<longrightarrow> (case DecryptValue C v k of Inl _ \<Rightarrow> False | Inr _ \<Rightarrow> True))"

lemma encrypt_wanted_done:
  "done_with C k writing v \<Longrightarrow>
   encrypt_wanted C k writing False path v =
     Inr (False, if FormatOf v = Some FormatVault \<and> writing = FormatVault then Uninteresting
                 else skipReason (the (FormatOf v)) writing)"
  by (cases "FormatOf v") (auto simp: done_with_def encrypt_wanted_def simp del: FormatOf_None split: sum.splits if_splits)

text \<open>C26. Encrypting a file that is encrypted already changes nothing: the document comes back byte for byte,
  with its line ends and without a new record, nothing is reported as changed, and what is reported as
  skipped is the values in the other format or under unknown recipients.\<close>

theorem EncryptConfig_again:
  assumes "EncryptFormat k = Inr writing"
    and "credentialPaths Y (if isCRLFDocument src then crlf_to_lf src else src) = Inr paths"
    and "\<forall>p \<in> set paths. settled Y (done_with C k writing) (if isCRLFDocument src then crlf_to_lf src else src) p"
  shows "\<exists>skipped. EncryptConfig Y C seed stamp src k False = Inr (src, [], skipped) \<and>
    (\<forall>(p, why) \<in> set skipped. \<exists>v. scalarAtPath Y (if isCRLFDocument src then crlf_to_lf src else src) p = Inr (Some v) \<and>
       \<not> (FormatOf v = Some FormatVault \<and> writing = FormatVault) \<and> why = skipReason (the (FormatOf v)) writing)"
proof -
  let ?src = "if isCRLFDocument src then crlf_to_lf src else src"
  let ?rw = "\<lambda>seed cur path. EncryptAtPath Y C seed cur path k True"
  have "\<forall>p \<in> set ps. settled Y (done_with C k writing) ?src p \<Longrightarrow>
      \<exists>skipped. rewrite_paths Y (encrypt_wanted C k writing False) ?rw seed ps ?src = Inr (?src, [], skipped) \<and>
        (\<forall>(p, why) \<in> set skipped. \<exists>v. scalarAtPath Y ?src p = Inr (Some v) \<and>
           \<not> (FormatOf v = Some FormatVault \<and> writing = FormatVault) \<and> why = skipReason (the (FormatOf v)) writing)" for ps
  proof (induction ps)
    case (Cons p ps)
    from Cons obtain sk where r: "rewrite_paths Y (encrypt_wanted C k writing False) ?rw seed ps ?src = Inr (?src, [], sk)"
        and sk: "\<forall>(p, why) \<in> set sk. \<exists>v. scalarAtPath Y ?src p = Inr (Some v) \<and>
           \<not> (FormatOf v = Some FormatVault \<and> writing = FormatVault) \<and> why = skipReason (the (FormatOf v)) writing"
      by auto
    have s: "settled Y (done_with C k writing) ?src p" using Cons.prems by simp
    show ?case
    proof (cases "\<exists>v. scalarAtPath Y ?src p = Inr (Some v) \<and> v \<noteq> []")
      case False
      then have "rewrite_paths Y (encrypt_wanted C k writing False) ?rw seed (p # ps) ?src = Inr (?src, [], sk)"
        using s r by (auto simp: settled_def split: sum.splits option.splits)
      then show ?thesis using sk by blast
    next
      case True
      then obtain v where v: "scalarAtPath Y ?src p = Inr (Some v)" "v \<noteq> []" by blast
      then have "done_with C k writing v" using s by (simp add: settled_def)
      note w = encrypt_wanted_done [OF this]
      let ?why = "if FormatOf v = Some FormatVault \<and> writing = FormatVault then Uninteresting else skipReason (the (FormatOf v)) writing"
      have "rewrite_paths Y (encrypt_wanted C k writing False) ?rw seed (p # ps) ?src =
          Inr (?src, [], if ?why \<noteq> Uninteresting then (p, ?why) # sk else sk)"
        using v r by (simp add: w)
      moreover have "skipReason f g \<noteq> Uninteresting" for f g by (simp add: skipReason_def)
      ultimately show ?thesis using sk v(1) by (intro exI [of _ "if ?why \<noteq> Uninteresting then (p, ?why) # sk else sk"]) auto
    qed
  qed simp
  from this [OF assms(3)] obtain skipped where
      r: "rewrite_paths Y (encrypt_wanted C k writing False) ?rw seed paths ?src = Inr (?src, [], skipped)"
    and sk: "\<forall>(p, why) \<in> set skipped. \<exists>v. scalarAtPath Y ?src p = Inr (Some v) \<and>
           \<not> (FormatOf v = Some FormatVault \<and> writing = FormatVault) \<and> why = skipReason (the (FormatOf v)) writing"
    by blast
  have restored: "(if isCRLFDocument src then lf_to_crlf ?src else ?src) = src"
    using crlf_inverse [of src] by (simp add: isCRLFDocument_def)
  have "rewriteConfig Y src (encrypt_wanted C k writing False) ?rw seed = Inr (src, [], skipped)"
    using assms(2) r restored by (simp add: rewriteConfig_def Let_def)
  then have "EncryptConfig Y C seed stamp src k False = Inr (src, [], skipped)"
    by (simp add: EncryptConfig_def assms(1) map_err_def)
  then show ?thesis using sk by blast
qed

subsection \<open>A small library\<close>

text \<open>A YAML library that knows one registry with one password: a document is \<open>v: \<close> and a plain value or a
  block whose lines are indented by two.\<close>

definition toy_token :: "nat \<Rightarrow> string \<Rightarrow> token" where
  "toy_token column v = \<lparr>tk_line = 1, tk_column = column, tk_offset = 3, tk_value = v, tk_origin = v\<rparr>"

definition toy_parse :: "string \<Rightarrow> token ynode option list" where
  "toy_parse src0 =
     (let src = filter (\<lambda>c. c \<noteq> cr) src0; first = takeWhile (\<lambda>c. c \<noteq> nl) (drop 3 src) in
      if has_prefix first ''|-'' then
        [Some (YLiteral (toy_token 4 ''|-'')
           (toy_token 4 (join [nl] (map (drop 2) (filter (\<lambda>l. l \<noteq> []) (tl (split_on nl src)))))))]
      else [Some (YScalar ''string'' (toy_token 4 first))])"

definition toy_path :: string where "toy_path = credential_path 0 ''auth.pass''"

definition toy_yaml :: "string yaml_lib" where
  "toy_yaml =
     \<lparr>y_path = Some, y_show = (\<lambda>p. p), y_parse = (\<lambda>src. Some (toy_parse src)),
      y_filter = (\<lambda>p docs. if p = registriesPath then Found (YSeq (toy_token 1 []) [YNil])
                           else if p = toy_path then Found (the (hd docs)) else NotFound),
      y_lex = (\<lambda>_. []), y_marshal = (\<lambda>v. Some (v @ [nl])),
      y_unmarshal = (\<lambda>s. Some [''v'' \<mapsto> drop 3 (butlast s)])\<rparr>"

definition toy_keyring :: "(string, string) Keyring" where
  "toy_keyring = NewVaultKeyring ''p''"

definition toy_src :: string where "toy_src = ''v: h'' @ [nl]"

definition toy_mid :: string where
  "toy_mid = ''v: |-'' @ [nl] @ ''  $ANSIBLE_VAULTxp.xh.'' @ [nl]"

lemma toy_encrypt: "encryptAtPath toy_yaml sample_crypto 1 toy_src toy_path (Some toy_keyring) False = Inr toy_mid"
  by code_simp

lemma toy_decrypt: "decryptAtPath toy_yaml sample_crypto toy_mid toy_path (Some toy_keyring) = Inr toy_src"
  by code_simp

lemma toy_canonical: "p = toy_path \<or> p = registriesPath \<or> p \<in> set (candidate_paths 1) \<Longrightarrow> canonical toy_yaml p"
  by (auto simp: canonical_def parseYAMLPath_def toy_yaml_def toy_path_def candidate_paths_def credential_path_def registriesPath_def has_prefix_def)

lemma toy_reads: "reads (=) toy_keyring toy_keyring"
  by (simp add: reads_def EncryptFormat_def toy_keyring_def NewVaultKeyring_def)

lemma encrypt_then_decrypt_witness:
  "value_at toy_yaml toy_src toy_path = Some ''h'' \<and>
   (\<exists>c. value_at toy_yaml toy_mid toy_path = Some c \<and> IsEncrypted c \<and> DecryptValue sample_crypto c (Some toy_keyring) = Inr ''h'')"
proof -
  have v: "value_at toy_yaml toy_src toy_path = Some ''h''" by code_simp
  show ?thesis
    using encrypt_then_decrypt [OF sample_vault_opens sample_age_opens toy_reads toy_canonical [OF disjI1 [OF refl]] toy_encrypt toy_decrypt] v
    by auto
qed

lemma rekeyAtPath_moves_witness:
  "\<exists>dst new. rekeyAtPath toy_yaml sample_crypto 2 toy_mid toy_path (Some toy_keyring) (Some (NewVaultKeyring ''q'')) = Inr dst \<and>
     value_at toy_yaml dst toy_path = Some new \<and> DecryptValue sample_crypto new (Some (NewVaultKeyring ''q'')) = Inr ''h''"
proof -
  let ?new = "NewVaultKeyring ''q'' :: (string, string) Keyring"
  have r: "reads (=) ?new ?new" by (simp add: reads_def EncryptFormat_def NewVaultKeyring_def)
  have "(case rekeyAtPath toy_yaml sample_crypto 2 toy_mid toy_path (Some toy_keyring) (Some ?new) of Inl _ \<Rightarrow> False | Inr _ \<Rightarrow> True)"
    by code_simp
  then obtain dst where k: "rekeyAtPath toy_yaml sample_crypto 2 toy_mid toy_path (Some toy_keyring) (Some ?new) = Inr dst"
    by (auto split: sum.splits)
  obtain c where c: "value_at toy_yaml toy_mid toy_path = Some c" "DecryptValue sample_crypto c (Some toy_keyring) = Inr ''h''"
    using encrypt_then_decrypt_witness by blast
  from rekeyAtPath_moves [OF sample_vault_opens sample_age_opens r toy_canonical [OF disjI1 [OF refl]] k] c k show ?thesis by auto
qed

lemma CanonicalYAMLPath_spellings_witness:
  "CanonicalYAMLPath toy_yaml ''spec.x'' = Inr ''$.spec.x'' \<and> CanonicalYAMLPath toy_yaml ''.spec.x'' = Inr ''$.spec.x'' \<and>
   CanonicalYAMLPath toy_yaml ''$.spec.x'' = Inr ''$.spec.x''"
proof -
  have c: "CanonicalYAMLPath toy_yaml ''spec.x'' = Inr ''$.spec.x''" by code_simp
  have "\<not> has_prefix ''spec.x'' ''$''" "\<not> has_prefix ''spec.x'' ''.''" by code_simp+
  with CanonicalYAMLPath_spellings [OF c] c show ?thesis by simp
qed

lemma toy_parsed: "parsed toy_yaml src = Inr (toy_parse src)"
  by (simp add: parsed_def map_err_def parseYAML_def toy_yaml_def toy_parse_def Let_def)

lemma toy_parseYAMLPath: "has_prefix p ''$'' \<Longrightarrow> parseYAMLPath toy_yaml p = Inr p"
  by (simp add: parseYAMLPath_def toy_yaml_def)

lemma toy_path_root: "p \<in> set (candidate_paths n) \<or> p = registriesPath \<Longrightarrow> has_prefix p ''$''"
  by (auto simp: candidate_paths_def credential_path_def registriesPath_def has_prefix_def)

lemma toy_not_registries: "credential_path i f \<noteq> registriesPath"
  by (simp add: credential_path_def)

lemma toy_found: "p \<in> set (candidate_paths n) \<Longrightarrow>
  y_filter toy_yaml p (toy_parse src) = (if p = toy_path then Found (the (hd (toy_parse src))) else NotFound)"
  using toy_not_registries by (auto simp: toy_yaml_def candidate_paths_def)

lemma toy_paths: "credentialPaths toy_yaml toy_src = Inr (candidate_paths 1)"
  by code_simp

lemma toy_reads_alike: "reads_alike toy_yaml"
proof -
  have "filter (\<lambda>c. c \<noteq> cr) (lf_to_crlf s) = filter (\<lambda>c. c \<noteq> cr) s" for s
    by (induction s) (auto simp: lf_to_crlf_Cons lf_to_crlf_def)
  then have "toy_parse (lf_to_crlf s) = toy_parse s" for s by (simp add: toy_parse_def)
  then show ?thesis by (simp add: reads_alike_def scalarAtPath_def nodeAtPath_def toy_parsed)
qed

lemma toy_keeps_others:
  "keeps_others toy_yaml (\<lambda>seed cur path. EncryptAtPath toy_yaml C seed cur path k True) (candidate_paths 1)"
  unfolding keeps_others_def
proof (intro allI impI ballI)
  fix seed src p dst q
  assume p: "p \<in> set (candidate_paths 1)" and e: "EncryptAtPath toy_yaml C seed src p k True = Inr dst"
    and q: "q \<in> set (candidate_paths 1)" and ne: "q \<noteq> p"
  have "p = toy_path"
  proof (rule ccontr)
    assume "p \<noteq> toy_path"
    then have "scalarNodeAtPath toy_yaml s p = Inl (NoValue (y_show toy_yaml p))" for s
      using toy_found [OF p] toy_parseYAMLPath [of p] toy_path_root [of p 1] p by (simp add: scalarNodeAtPath_def toy_parsed)
    then show False using e by (auto simp: EncryptAtPath_def onLineFeeds_def encryptAtPath_def split: if_splits)
  qed
  then have "q \<noteq> toy_path" using ne by simp
  then have "scalarAtPath toy_yaml s q = Inr None" for s
    using toy_found [OF q] toy_parseYAMLPath [of q] toy_path_root [of q 1] q by (simp add: scalarAtPath_def nodeAtPath_def toy_parsed)
  then show "scalarAtPath toy_yaml dst q = scalarAtPath toy_yaml src q" by simp
qed

lemma toy_not_crlf: "\<not> isCRLFDocument toy_src" "\<not> isCRLFDocument toy_mid"
  by code_simp+

lemma credential_paths_in_step_witness:
  "credentialPaths toy_yaml toy_src = Inr (candidate_paths 1) \<and> list_all decryptablePath (candidate_paths 1)"
  unfolding list_all_iff using credential_paths_in_step [OF toy_paths] toy_paths by blast


lemma EncryptConfig_again_witness:
  "\<exists>skipped. EncryptConfig toy_yaml sample_crypto 1 ''now'' toy_mid (Some toy_keyring) False = Inr (toy_mid, [], skipped)"
proof -
  have f: "EncryptFormat (Some toy_keyring) = Inr FormatVault" by code_simp
  have paths: "credentialPaths toy_yaml (if isCRLFDocument toy_mid then crlf_to_lf toy_mid else toy_mid) = Inr (candidate_paths 1)"
    unfolding if_not_P [OF toy_not_crlf(2)] by code_simp
  have "list_all (settled toy_yaml (done_with sample_crypto (Some toy_keyring) FormatVault) toy_mid) (candidate_paths 1)"
    by code_simp
  then have "\<forall>p \<in> set (candidate_paths 1). settled toy_yaml (done_with sample_crypto (Some toy_keyring) FormatVault)
      (if isCRLFDocument toy_mid then crlf_to_lf toy_mid else toy_mid) p"
    unfolding if_not_P [OF toy_not_crlf(2)] by (simp add: list_all_iff)
  from EncryptConfig_again [OF f paths this] show ?thesis by blast
qed

end
