(* ===== verification/Firewall_Plan.thy ===== *)
theory Firewall_Plan
  imports Remote_Files
begin

section \<open>Firewall plans and the choice of a backend\<close>

text \<open>
  Models \<open>pkg/firewall/firewall.go\<close>: the plan of a node, the registered backends and the
  selection of the one that is configured on a host, with the \<open>Detect\<close> and \<open>Installed\<close> tests of
  the three backends. The machine a backend acts on is a parameter: the file system of
  \<open>Remote_Files\<close>, whether a command exists and a service runs, the output of a command that only
  reads, a command run with privileges and the restart of a service. The theories
  \<open>Firewall_Nftables\<close>, \<open>Firewall_Ufw\<close> and \<open>Firewall_Firewalld\<close> model the backends.
\<close>

subsection \<open>Machines\<close>

record 's machine =
  mc_fs :: "'s remote"
  mc_preferred :: "string option"
  mc_command :: "'s \<Rightarrow> string \<Rightarrow> bool"
  mc_running :: "'s \<Rightarrow> string \<Rightarrow> bool"
  mc_output :: "'s \<Rightarrow> string \<Rightarrow> string option"
  mc_exec :: "string \<Rightarrow> 's \<Rightarrow> string option \<times> 's"
  mc_restart :: "string \<Rightarrow> 's \<Rightarrow> string option \<times> 's"

text \<open>\<open>mc_preferred\<close> is what the host's configurer answers to \<open>PreferredFirewall\<close>, \<open>None\<close> when no
  configurer is resolved. \<open>mc_exec\<close> and \<open>mc_restart\<close> return the error of the call.\<close>

datatype apply_error =
    RuleError fw_error
  | FileError fs_error
  | CommandError string string
  | ServiceError string string
  | RulesetRejected string

definition file_step :: "('s \<Rightarrow> fs_error option \<times> 's) \<Rightarrow> 's \<Rightarrow> apply_error option \<times> 's" where
  "file_step f s = (case f s of (e, s') \<Rightarrow> (map_option FileError e, s'))"

definition exec_step :: "'s machine \<Rightarrow> string \<Rightarrow> 's \<Rightarrow> apply_error option \<times> 's" where
  "exec_step M command s = (case mc_exec M command s of (e, s') \<Rightarrow> (map_option (CommandError command) e, s'))"

definition restart_step :: "'s machine \<Rightarrow> string \<Rightarrow> 's \<Rightarrow> apply_error option \<times> 's" where
  "restart_step M service s = (case mc_restart M service s of (e, s') \<Rightarrow> (map_option (ServiceError service) e, s'))"

abbreviation write_step :: "'s machine \<Rightarrow> string \<Rightarrow> string \<Rightarrow> string \<Rightarrow> 's \<Rightarrow> apply_error option \<times> 's" where
  "write_step M p c m \<equiv> file_step (Host_WriteFile (mc_fs M) p c m)"

lemma step_pairs:
  "file_step f s = (e, s') \<longleftrightarrow> (\<exists>x. f s = (x, s') \<and> e = map_option FileError x)"
  "exec_step M c s = (e, s') \<longleftrightarrow> (\<exists>x. mc_exec M c s = (x, s') \<and> e = map_option (CommandError c) x)"
  "restart_step M c s = (e, s') \<longleftrightarrow> (\<exists>x. mc_restart M c s = (x, s') \<and> e = map_option (ServiceError c) x)"
  by (auto simp: file_step_def exec_step_def restart_step_def split: prod.splits)

lemma frame_steps [frames]:
  "frame v f \<Longrightarrow> frame v (file_step f)"
  "frame v (mc_exec M c) \<Longrightarrow> frame v (exec_step M c)"
  "frame v (mc_restart M c) \<Longrightarrow> frame v (restart_step M c)"
  by (auto simp: frame_def file_step_def exec_step_def restart_step_def split: prod.splits)
    (metis snd_conv)+

text \<open>A file system whose state is one part of a larger state: the rest stays as it is.\<close>

definition lift_op :: "('s \<Rightarrow> 'r \<times> 's) \<Rightarrow> 's \<times> 'x \<Rightarrow> 'r \<times> 's \<times> 'x" where
  "lift_op f st = (case st of (s, x) \<Rightarrow> (case f s of (r, s') \<Rightarrow> (r, (s', x))))"

definition lift_remote :: "'s remote \<Rightarrow> ('s \<times> 'x) remote" where
  "lift_remote R =
     \<lparr>r_exists = (\<lambda>st. r_exists R (fst st)), r_read = (\<lambda>st. r_read R (fst st)),
      r_stat = (\<lambda>st. r_stat R (fst st)), r_find = (\<lambda>st. r_find R (fst st)),
      r_readdir = (\<lambda>st. r_readdir R (fst st)), r_sha256 = (\<lambda>st. r_sha256 R (fst st)),
      r_write = (\<lambda>p c m. lift_op (r_write R p c m)), r_remove = (\<lambda>p. lift_op (r_remove R p)),
      r_mkdir = (\<lambda>p m. lift_op (r_mkdir R p m)), r_chmod = (\<lambda>p m. lift_op (r_chmod R p m)),
      r_chown = (\<lambda>p w. lift_op (r_chown R p w)), r_touch = (\<lambda>p. lift_op (r_touch R p)),
      r_upload = (\<lambda>p c m. lift_op (r_upload R p c m)), r_create = (\<lambda>p c m. lift_op (r_create R p c m)),
      r_rename = (\<lambda>p q. lift_op (r_rename R p q))\<rparr>"

lemma lift_op_pair: "lift_op f (s, x) = (r, st) \<longleftrightarrow> (\<exists>s'. f s = (r, s') \<and> st = (s', x))"
  by (auto simp: lift_op_def split: prod.splits)

lemma lift_simps:
  "r_exists (lift_remote R) st = r_exists R (fst st)" "r_read (lift_remote R) st = r_read R (fst st)"
  "r_stat (lift_remote R) st = r_stat R (fst st)"
  "r_write (lift_remote R) p c m = lift_op (r_write R p c m)" "r_remove (lift_remote R) p = lift_op (r_remove R p)"
  "r_mkdir (lift_remote R) p m = lift_op (r_mkdir R p m)" "r_chmod (lift_remote R) p m = lift_op (r_chmod R p m)"
  "r_chown (lift_remote R) p w = lift_op (r_chown R p w)" "r_touch (lift_remote R) p = lift_op (r_touch R p)"
  "r_upload (lift_remote R) p c m = lift_op (r_upload R p c m)"
  "r_create (lift_remote R) p c m = lift_op (r_create R p c m)"
  "r_rename (lift_remote R) p q = lift_op (r_rename R p q)"
  by (simp_all add: lift_remote_def)

lemma lift_remote_fs:
  assumes a: "remote_fs R files"
  shows "remote_fs (lift_remote R) (\<lambda>st. files (fst st))"
proof -
  note laws = a [THEN remote_fs.exists_files] a [THEN remote_fs.read_files] a [THEN remote_fs.stat_files]
    a [THEN remote_fs.write_ok] a [THEN remote_fs.write_other] a [THEN remote_fs.remove_ok]
    a [THEN remote_fs.remove_gone] a [THEN remote_fs.remove_failed] a [THEN remote_fs.mkdir_files]
    a [THEN remote_fs.chown_files] a [THEN remote_fs.chmod_other] a [THEN remote_fs.chmod_content]
    a [THEN remote_fs.chmod_ok] a [THEN remote_fs.touch_other] a [THEN remote_fs.upload_ok]
    a [THEN remote_fs.upload_other] a [THEN remote_fs.create_ok] a [THEN remote_fs.create_other]
    a [THEN remote_fs.rename_ok] a [THEN remote_fs.rename_other] a [THEN remote_fs.touch_same]
  show ?thesis
    by (rule remote_fs.intro; clarsimp simp: lift_simps lift_op_pair simp del: fun_upd_apply;
        (rule laws; assumption | fastforce simp: laws(1) simp del: fun_upd_apply dest: laws(2-)))
qed

lemma frame_lift [frames]: "frame snd (lift_op f)"
  by (simp add: frame_def lift_op_def split: prod.splits)

text \<open>\<open>strings.Index\<close>: where a string first occurs.\<close>

fun str_index :: "string \<Rightarrow> string \<Rightarrow> nat option" where
  "str_index [] p = (if p = [] then Some 0 else None)"
| "str_index (c # s) p = (if prefix p (c # s) then Some 0 else map_option Suc (str_index s p))"

lemma str_index_prefix: "str_index s (c # q) = Some i \<Longrightarrow> \<exists>b. s = take i s @ c # b"
proof (induction s arbitrary: i)
  case (Cons x s)
  show ?case
  proof (cases "prefix (c # q) (x # s)")
    case True
    with Cons.prems show ?thesis by auto
  next
    case False
    with Cons.prems obtain j where "str_index s (c # q) = Some j" "i = Suc j" by auto
    with Cons.IH show ?thesis by auto
  qed
qed simp

subsection \<open>Plans\<close>

record Plan =
  pl_NodeAddresses :: "string list"
  pl_ClusterCIDRs :: "string list"
  pl_Ports :: "HostPort list"
  pl_Rules :: "fw_rule list"
  pl_Policies :: "(string \<times> FirewallPolicyConfig) list"

definition Plan_IsEmpty :: "Plan \<Rightarrow> bool" where
  "Plan_IsEmpty p \<longleftrightarrow>
     length (pl_NodeAddresses p) = 0 \<and> length (pl_ClusterCIDRs p) = 0 \<and> length (pl_Ports p) = 0 \<and>
     length (pl_Rules p) = 0 \<and> length (pl_Policies p) = 0"

subsection \<open>Backends\<close>

datatype Backend = Firewalld | UFW | Nftables

definition FirewalldService :: string where "FirewalldService = ''firewalld''"
definition UFWService :: string where "UFWService = ''ufw''"
definition NftablesService :: string where "NftablesService = ''nftables''"

fun Backend_Name :: "Backend \<Rightarrow> string" where
  "Backend_Name Firewalld = FirewalldService"
| "Backend_Name UFW = UFWService"
| "Backend_Name Nftables = NftablesService"

definition Backends :: "Backend list" where
  "Backends = [Firewalld, UFW, Nftables]"

record 'b Selection =
  sel_Backend :: "'b option"
  sel_Skipped :: "'b option"

text \<open>The two loops of \<open>selectBackend\<close>; the first ends at the preferred backend, with a selection
  or with the \<open>break\<close>.\<close>

fun select_preferred ::
  "('b \<Rightarrow> string) \<Rightarrow> 'b list \<Rightarrow> string \<Rightarrow> ('b \<Rightarrow> bool) \<Rightarrow> ('b \<Rightarrow> bool) \<Rightarrow> 'b Selection option"
where
  "select_preferred name [] preferred detect installed = None"
| "select_preferred name (b # bs) preferred detect installed =
     (if preferred = [] \<or> name b \<noteq> preferred then select_preferred name bs preferred detect installed
      else if detect b then Some \<lparr>sel_Backend = Some b, sel_Skipped = None\<rparr>
      else if installed b then Some \<lparr>sel_Backend = None, sel_Skipped = Some b\<rparr>
      else None)"

fun select_detected :: "'b list \<Rightarrow> ('b \<Rightarrow> bool) \<Rightarrow> 'b Selection" where
  "select_detected [] detect = \<lparr>sel_Backend = None, sel_Skipped = None\<rparr>"
| "select_detected (b # bs) detect =
     (if detect b then \<lparr>sel_Backend = Some b, sel_Skipped = None\<rparr> else select_detected bs detect)"

definition selectBackend ::
  "('b \<Rightarrow> string) \<Rightarrow> 'b list \<Rightarrow> string \<Rightarrow> ('b \<Rightarrow> bool) \<Rightarrow> ('b \<Rightarrow> bool) \<Rightarrow> 'b Selection"
where
  "selectBackend name available preferred detect installed =
     (case select_preferred name available preferred detect installed of
        Some sel \<Rightarrow> sel
      | None \<Rightarrow> select_detected available detect)"

subsection \<open>Detection on a machine\<close>

definition nftConfPaths :: "string list" where
  "nftConfPaths = [''/etc/nftables.conf'', ''/etc/sysconfig/nftables.conf'']"

fun first_existing :: "'s remote \<Rightarrow> 's \<Rightarrow> string list \<Rightarrow> string" where
  "first_existing R s [] = []"
| "first_existing R s (p # ps) = (if r_exists R s p then p else first_existing R s ps)"

definition nftConfPath :: "'s machine \<Rightarrow> 's \<Rightarrow> string" where
  "nftConfPath M s = first_existing (mc_fs M) s nftConfPaths"

definition Firewalld_Detect :: "'s machine \<Rightarrow> 's \<Rightarrow> bool" where
  "Firewalld_Detect M s \<longleftrightarrow> (if mc_preferred M = None then False else mc_running M s FirewalldService)"

definition Firewalld_Installed :: "'s machine \<Rightarrow> 's \<Rightarrow> bool" where
  "Firewalld_Installed M s \<longleftrightarrow> (if mc_preferred M = None then False else mc_command M s ''firewall-cmd'')"

definition UFW_Detect :: "'s machine \<Rightarrow> 's \<Rightarrow> bool" where
  "UFW_Detect M s \<longleftrightarrow>
     (if mc_preferred M = None \<or> \<not> mc_command M s UFWService then False
      else (case mc_output M s ''ufw status'' of
              None \<Rightarrow> False
            | Some out \<Rightarrow> str_contains (to_lower out) ''status: active''))"

definition UFW_Installed :: "'s machine \<Rightarrow> 's \<Rightarrow> bool" where
  "UFW_Installed M s \<longleftrightarrow> (if mc_preferred M = None then False else mc_command M s UFWService)"

definition Nftables_Detect :: "'s machine \<Rightarrow> 's \<Rightarrow> bool" where
  "Nftables_Detect M s \<longleftrightarrow>
     (if mc_preferred M = None \<or> \<not> mc_command M s ''nft'' then False
      else if mc_running M s NftablesService then True
      else nftConfPath M s \<noteq> [])"

definition Nftables_Installed :: "'s machine \<Rightarrow> 's \<Rightarrow> bool" where
  "Nftables_Installed M s \<longleftrightarrow> (if mc_preferred M = None then False else mc_command M s ''nft'')"

fun Backend_Detect :: "'s machine \<Rightarrow> 's \<Rightarrow> Backend \<Rightarrow> bool" where
  "Backend_Detect M s Firewalld = Firewalld_Detect M s"
| "Backend_Detect M s UFW = UFW_Detect M s"
| "Backend_Detect M s Nftables = Nftables_Detect M s"

fun Backend_Installed :: "'s machine \<Rightarrow> 's \<Rightarrow> Backend \<Rightarrow> bool" where
  "Backend_Installed M s Firewalld = Firewalld_Installed M s"
| "Backend_Installed M s UFW = UFW_Installed M s"
| "Backend_Installed M s Nftables = Nftables_Installed M s"

definition preferredFirewall :: "'s machine \<Rightarrow> string" where
  "preferredFirewall M = (case mc_preferred M of None \<Rightarrow> [] | Some p \<Rightarrow> p)"

definition Select :: "'s machine \<Rightarrow> 's \<Rightarrow> Backend Selection" where
  "Select M s =
     selectBackend Backend_Name Backends (preferredFirewall M) (Backend_Detect M s) (Backend_Installed M s)"

subsection \<open>What is selected\<close>

lemma Backend_Name_inject: "Backend_Name b = Backend_Name c \<longleftrightarrow> b = c"
  by (cases b; cases c) (simp_all add: FirewalldService_def UFWService_def NftablesService_def)

lemma in_Backends: "b \<in> set Backends"
  by (cases b) (simp_all add: Backends_def)

lemma select_preferred_spec:
  "inj_on name (set bs) \<Longrightarrow> b \<in> set bs \<Longrightarrow> name b = preferred \<Longrightarrow> preferred \<noteq> [] \<Longrightarrow>
   select_preferred name bs preferred detect installed =
     (if detect b then Some \<lparr>sel_Backend = Some b, sel_Skipped = None\<rparr>
      else if installed b then Some \<lparr>sel_Backend = None, sel_Skipped = Some b\<rparr> else None)"
  by (induction bs) (auto simp: inj_on_def)

lemma select_preferred_None:
  "preferred = [] \<or> preferred \<notin> name ` set bs \<Longrightarrow>
   select_preferred name bs preferred detect installed = None"
  by (induction bs) auto

lemma select_detected_eq:
  "select_detected bs detect = \<lparr>sel_Backend = List.find detect bs, sel_Skipped = None\<rparr>"
  by (induction bs) auto

text \<open>A host is configured through at most one backend and only one whose firewall runs. When
  the firewall its OS ships is installed but not running, the host is left alone, whatever else
  runs on it; when it is absent, or the OS ships none, the first running one of the order
  firewalld, ufw, nftables is taken, and nothing is selected only if none runs.\<close>

theorem Select_spec:
  "Select M s =
     (let running = List.find (Backend_Detect M s) Backends in
      case List.find (\<lambda>b. Backend_Name b = preferredFirewall M) Backends of
        None \<Rightarrow> \<lparr>sel_Backend = running, sel_Skipped = None\<rparr>
      | Some b \<Rightarrow>
          if Backend_Installed M s b \<and> \<not> Backend_Detect M s b
          then \<lparr>sel_Backend = None, sel_Skipped = Some b\<rparr>
          else \<lparr>sel_Backend = (if Backend_Detect M s b then Some b else running), sel_Skipped = None\<rparr>)"
proof (cases "List.find (\<lambda>b. Backend_Name b = preferredFirewall M) Backends")
  case None
  then have "preferredFirewall M \<notin> Backend_Name ` set Backends" by (auto simp: find_None_iff)
  then show ?thesis
    by (simp add: None Select_def selectBackend_def select_preferred_None select_detected_eq)
next
  case (Some b)
  then have b: "Backend_Name b = preferredFirewall M" by (auto simp: find_Some_iff)
  then have "preferredFirewall M \<noteq> []"
    by (cases b) (simp_all add: FirewalldService_def UFWService_def NftablesService_def flip: b)
  then have "select_preferred Backend_Name Backends (preferredFirewall M) (Backend_Detect M s) (Backend_Installed M s) =
     (if Backend_Detect M s b then Some \<lparr>sel_Backend = Some b, sel_Skipped = None\<rparr>
      else if Backend_Installed M s b then Some \<lparr>sel_Backend = None, sel_Skipped = Some b\<rparr> else None)"
    using b by (intro select_preferred_spec) (auto simp: inj_on_def Backend_Name_inject in_Backends)
  with Some show ?thesis by (simp add: Select_def selectBackend_def select_detected_eq Let_def)
qed

end
