(* ===== verification/Firewall_Nftables.thy ===== *)
theory Firewall_Nftables
  imports Firewall_Plan
begin

section \<open>The nftables backend\<close>

text \<open>
  Models \<open>pkg/firewall/nftables.go\<close>: the ruleset a plan is rendered to and the steps that check,
  load and persist it. What the \<open>nft\<close> command does with a ruleset is a parameter, with its
  documented behaviour as the laws of the locale \<open>nft_host\<close>: a check changes nothing, a load is one
  transaction, and neither writes a file.
\<close>

subsection \<open>Rendering\<close>

abbreviation "tab \<equiv> CHR 0x09"
abbreviation "newline \<equiv> CHR 0x0A"

definition nftTable :: string where "nftTable = ''cargoship''"
definition nftFamily :: string where "nftFamily = ''inet''"
definition nftRulesetDir :: string where "nftRulesetDir = ''/etc/cargoship''"
definition nftRulesetPath :: string where "nftRulesetPath = nftRulesetDir @ ''/nftables.nft''"
definition nftComment :: string where "nftComment = ''cargoship''"
definition nftClusterSetV4 :: string where "nftClusterSetV4 = ''cluster_v4''"
definition nftClusterSetV6 :: string where "nftClusterSetV6 = ''cluster_v6''"

definition nftInclude :: string where
  "nftInclude = ''include '' @ go_quote nftRulesetPath"

definition nftVerdict :: "string \<Rightarrow> apply_error + string" where
  "nftVerdict action =
     (if action = FirewallActionAllow then Inr ''accept''
      else if action = FirewallActionDeny then Inr ''drop''
      else if action = FirewallActionReject then Inr ''reject''
      else Inl (RuleError (UnknownAction [] action)))"

definition nftAddrFamily :: "string \<Rightarrow> string" where
  "nftAddrFamily addr = (if str_contains addr '':'' then ''ip6'' else ''ip'')"

text \<open>The address an entry parses to: \<open>ParseIP\<close>, else the address part of \<open>ParseCIDR\<close>.\<close>

definition family_of :: "string \<Rightarrow> ip option" where
  "family_of addr = (case ParseIP addr of None \<Rightarrow> ParseCIDR addr | Some a \<Rightarrow> Some a)"

fun split_families :: "string list \<times> string list \<Rightarrow> string list \<Rightarrow> string list \<times> string list" where
  "split_families (v4, v6) [] = (v4, v6)"
| "split_families (v4, v6) (addr # addrs) =
     (if addr = [] then split_families (v4, v6) addrs
      else (case family_of addr of
              None \<Rightarrow> split_families (v4, v6) addrs
            | Some a \<Rightarrow>
                if is_v4 a then split_families (v4 @ [addr], v6) addrs
                else split_families (v4, v6 @ [addr]) addrs))"

definition NftSplitFamilies :: "string list \<Rightarrow> string list \<times> string list" where
  "NftSplitFamilies addrs = split_families ([], []) addrs"

definition nftPortProtocol :: "HostPort \<Rightarrow> string" where
  "nftPortProtocol p =
     (let proto = to_lower (trim_space (hp_protocol p)) in if proto \<noteq> [] then proto else ''tcp'')"

definition nftSortedProtocols :: "HostPort list \<Rightarrow> string list" where
  "nftSortedProtocols ports = sort_strings (remdups (map nftPortProtocol ports))"

definition nftPortSet :: "string \<Rightarrow> string" where
  "nftPortSet proto = ''ports_'' @ proto"

definition nftPortRange :: "string \<Rightarrow> string" where
  "nftPortRange port = trim_space port"

definition nftPortsFor :: "HostPort list \<Rightarrow> string \<Rightarrow> string list" where
  "nftPortsFor ports proto =
     map (\<lambda>p. nftPortRange (hp_port p)) (filter (\<lambda>p. nftPortProtocol p = proto) ports)"

text \<open>A rule: the base chain it belongs in and its text.\<close>

definition nft_hook :: "fw_rule \<Rightarrow> string \<times> string list" where
  "nft_hook r =
     (let d = NormalizedDirection r in
      if d = FirewallDirectionForward
      then (''forward'', [''iifname '' @ go_quote (fr_ingress r), ''oifname '' @ go_quote (fr_egress r)])
      else if d = FirewallDirectionOut then (''output'', [])
      else (''input'', []))"

definition nft_matches :: "fw_rule \<Rightarrow> string list" where
  "nft_matches r =
     (if fr_source r \<noteq> [] then [nftAddrFamily (fr_source r) @ '' saddr '' @ fr_source r] else []) @
     (if fr_destination r \<noteq> [] then [nftAddrFamily (fr_destination r) @ '' daddr '' @ fr_destination r] else []) @
     (let proto = NormalizedProtocol r in
      if proto \<noteq> [] \<and> fr_port r \<noteq> [] then [proto @ '' dport '' @ nftPortRange (fr_port r)]
      else if proto \<noteq> [] then [''meta l4proto '' @ proto] else [])"

definition nftRule :: "fw_rule \<Rightarrow> apply_error + string \<times> string" where
  "nftRule r =
     bind_res (nftVerdict (NormalizedAction r)) (\<lambda>verdict.
       case nft_hook r of (chain, parts) \<Rightarrow>
         Inr (chain, join '' '' (parts @ nft_matches r @
           [verdict, ''comment '' @ go_quote (nftComment @ '':'' @ FirewallRule_Key r)])))"

type_synonym nft_chains = "string \<Rightarrow> string list"

definition add_line :: "nft_chains \<Rightarrow> string \<Rightarrow> string \<Rightarrow> nft_chains" where
  "add_line chs chain line = chs(chain := chs chain @ [line])"

definition trusted_lines :: "Plan \<Rightarrow> string list" where
  "trusted_lines p =
     (case NftSplitFamilies (pl_NodeAddresses p @ pl_ClusterCIDRs p) of (v4, v6) \<Rightarrow>
        (if length v4 > 0
         then [''ip saddr @'' @ nftClusterSetV4 @ '' accept comment '' @ go_quote (nftComment @ '':cluster'')] else []) @
        (if length v6 > 0
         then [''ip6 saddr @'' @ nftClusterSetV6 @ '' accept comment '' @ go_quote (nftComment @ '':cluster'')] else []))"

definition port_lines :: "Plan \<Rightarrow> string list" where
  "port_lines p =
     map (\<lambda>proto. proto @ '' dport @'' @ nftPortSet proto @ '' accept comment '' @ go_quote (nftComment @ '':ports''))
       (nftSortedProtocols (pl_Ports p))"

fun rule_lines :: "nft_chains \<Rightarrow> fw_rule list \<Rightarrow> apply_error + nft_chains" where
  "rule_lines chs [] = Inr chs"
| "rule_lines chs (r # rules) =
     bind_res (nftRule r) (\<lambda>(chain, line). rule_lines (add_line chs chain line) rules)"

definition nftChainRules :: "Plan \<Rightarrow> apply_error + nft_chains" where
  "nftChainRules p =
     rule_lines (foldl (\<lambda>chs. add_line chs ''input'') (\<lambda>_. []) (trusted_lines p @ port_lines p)) (pl_Rules p)"

definition nft_set :: "string \<Rightarrow> string \<Rightarrow> string list \<Rightarrow> string" where
  "nft_set name kind entries =
     tab # ''set '' @ name @ '' {'' @ newline # tab # tab # ''type '' @ kind @
     newline # tab # tab # ''flags interval'' @
     newline # tab # tab # ''elements = { '' @ join '', '' entries @ '' }'' @ newline # tab # ''}'' @ [newline]"

definition nftSets :: "Plan \<Rightarrow> string" where
  "nftSets p =
     (case NftSplitFamilies (pl_NodeAddresses p @ pl_ClusterCIDRs p) of (v4, v6) \<Rightarrow>
        (if length v4 = 0 then [] else nft_set nftClusterSetV4 ''ipv4_addr'' v4) @
        (if length v6 = 0 then [] else nft_set nftClusterSetV6 ''ipv6_addr'' v6)) @
     concat (map (\<lambda>proto. nft_set (nftPortSet proto) ''inet_service'' (nftPortsFor (pl_Ports p) proto))
       (nftSortedProtocols (pl_Ports p)))"

definition nft_chain :: "nft_chains \<Rightarrow> string \<Rightarrow> string" where
  "nft_chain chs chain =
     tab # ''chain '' @ chain @ '' {'' @
     newline # tab # tab # ''type filter hook '' @ chain @ '' priority filter; policy accept;'' @ newline #
     concat (map (\<lambda>rule. tab # tab # rule @ [newline]) (chs chain)) @ tab # ''}'' @ [newline]"

definition nftRuleset :: "Plan \<Rightarrow> apply_error + string" where
  "nftRuleset p =
     (let head = ''#!/usr/sbin/nft -f'' @ newline #
                 ''# Managed by cargoship. Edits are replaced on the next apply.'' @ newline #
                 ''add table '' @ nftFamily @ '' '' @ nftTable @ newline #
                 ''delete table '' @ nftFamily @ '' '' @ nftTable @ [newline]
      in if Plan_IsEmpty p then Inr head
         else bind_res (nftChainRules p) (\<lambda>chs.
           Inr (head @ ''table '' @ nftFamily @ '' '' @ nftTable @ '' {'' @ newline # nftSets p @
                concat (map (nft_chain chs) [''input'', ''forward'', ''output'']) @ ''}'' @ [newline])))"

subsection \<open>Applying\<close>

definition Nftables_persist :: "'s machine \<Rightarrow> 's \<Rightarrow> apply_error option \<times> 's" where
  "Nftables_persist M s =
     (let conf = nftConfPath M s in
      if conf = [] then (None, s)
      else (case r_read (mc_fs M) s conf of
              None \<Rightarrow> (Some (FileError (ErrFS conf)), s)
            | Some content \<Rightarrow>
                if str_contains content nftInclude then (None, s)
                else write_step M conf
                       ((if \<not> has_suffix content [newline] then content @ [newline] else content) @
                        nftInclude @ [newline]) ''0600'' s))"

definition nft_check :: "'s machine \<Rightarrow> 's \<Rightarrow> apply_error option \<times> 's" where
  "nft_check M s =
     (case mc_exec M (''nft -c -f '' @ nftRulesetPath) s of
        (None, s') \<Rightarrow> (None, s')
      | (Some e, s') \<Rightarrow> (Some (RulesetRejected e), s'))"

definition Nftables_Apply :: "'s machine \<Rightarrow> Plan \<Rightarrow> 's \<Rightarrow> apply_error option \<times> 's" where
  "Nftables_Apply M p s =
     (case nftRuleset p of
        Inl e \<Rightarrow> (Some e, s)
      | Inr ruleset \<Rightarrow>
          and_then (file_step (r_mkdir (mc_fs M) nftRulesetDir 493))
            (and_then (write_step M nftRulesetPath ruleset ''0600'')
              (and_then (nft_check M)
                (and_then (exec_step M (''nft -f '' @ nftRulesetPath))
                  (Nftables_persist M)))) s)"

subsection \<open>The families of addresses\<close>

lemma split_families_filter:
  "split_families (v4, v6) addrs =
     (v4 @ filter (\<lambda>a. a \<noteq> [] \<and> (case family_of a of None \<Rightarrow> False | Some i \<Rightarrow> is_v4 i)) addrs,
      v6 @ filter (\<lambda>a. a \<noteq> [] \<and> (case family_of a of None \<Rightarrow> False | Some i \<Rightarrow> \<not> is_v4 i)) addrs)"
  by (induction "(v4, v6)" addrs arbitrary: v4 v6 rule: split_families.induct)
    (auto split: option.splits)

subsection \<open>The chains\<close>

text \<open>The line of a rule whose action is known.\<close>

definition rule_text :: "fw_rule \<Rightarrow> string" where
  "rule_text r = (case nftRule r of Inr (_, line) \<Rightarrow> line | Inl _ \<Rightarrow> [])"

definition known_action :: "fw_rule \<Rightarrow> bool" where
  "known_action r \<longleftrightarrow> NormalizedAction r \<in> {FirewallActionAllow, FirewallActionDeny, FirewallActionReject}"

lemma nftRule_known: "known_action r \<Longrightarrow> nftRule r = Inr (fst (nft_hook r), rule_text r)"
  by (auto simp: known_action_def nftRule_def rule_text_def nftVerdict_def split: prod.splits)

lemma nftRule_unknown: "\<not> known_action r \<Longrightarrow> nftRule r = Inl (RuleError (UnknownAction [] (NormalizedAction r)))"
  by (auto simp: known_action_def nftRule_def nftVerdict_def)

lemma foldl_add_line:
  "foldl (\<lambda>chs. add_line chs c) ch ls = ch(c := ch c @ ls)"
  by (induction ls arbitrary: ch) (auto simp: add_line_def)

lemma rule_lines_eq:
  "rule_lines ch rules =
     (case List.find (\<lambda>r. \<not> known_action r) rules of
        Some r \<Rightarrow> Inl (RuleError (UnknownAction [] (NormalizedAction r)))
      | None \<Rightarrow> Inr (\<lambda>c. ch c @ map rule_text (filter (\<lambda>r. fst (nft_hook r) = c) rules)))"
proof (induction ch rules rule: rule_lines.induct)
  case (2 ch r rules)
  show ?case
  proof (cases "known_action r")
    case True
    from 2 [of "fst (nft_hook r)" "rule_text r"] True show ?thesis
      by (simp add: nftRule_known add_line_def del: fun_upd_apply split: option.splits) (auto intro!: ext)
  qed (simp add: nftRule_unknown)
qed simp

text \<open>The rules of a node keep the order of the inventory within the direction each is for, and
  nothing of the inventory comes before the trust of the cluster and the exposed ports: the input
  chain is these, then the inbound rules; the forward and the output chain are the rules of that
  direction and nothing else. A single rule with an unknown action, the first one, ends the
  rendering, so no ruleset is ever loaded in part.\<close>

theorem nftChainRules_order:
  "nftChainRules p =
     (case List.find (\<lambda>r. \<not> known_action r) (pl_Rules p) of
        Some r \<Rightarrow> Inl (RuleError (UnknownAction [] (NormalizedAction r)))
      | None \<Rightarrow> Inr (\<lambda>chain.
          (if chain = ''input'' then trusted_lines p @ port_lines p else []) @
          map rule_text (filter (\<lambda>r.
            (if NormalizedDirection r = ''forward'' then ''forward''
             else if NormalizedDirection r = ''out'' then ''output'' else ''input'') = chain) (pl_Rules p))))"
proof -
  have "fst (nft_hook r) = (if NormalizedDirection r = ''forward'' then ''forward''
     else if NormalizedDirection r = ''out'' then ''output'' else ''input'')" for r
    by (simp add: nft_hook_def Let_def)
  then show ?thesis
    by (auto simp: nftChainRules_def rule_lines_eq foldl_add_line split: option.splits)
qed

subsection \<open>What a run leaves on a node\<close>

text \<open>
  A host with \<open>nft\<close>: \<open>live s\<close> is the ruleset last loaded with \<open>nft -f\<close>, \<open>accepts\<close> whether \<open>nft\<close> takes
  a ruleset. The laws are those of the manual page: \<open>-c\<close> only checks, \<open>-f\<close> loads a file whole or
  not at all.
\<close>

locale nft_host = remote_fs R files for R :: "'s remote" and files +
  fixes M :: "'s machine" and live :: "'s \<Rightarrow> string option" and accepts :: "string \<Rightarrow> bool"
  assumes machine_fs: "mc_fs M = R"
    and write_live: "frame live (r_write R p c m)"
    and mkdir_live: "frame live (r_mkdir R p m)"
    and check_same: "mc_exec M (''nft -c -f '' @ p) s = (e, s') \<Longrightarrow> files s' = files s \<and> live s' = live s"
    and check_ok: "mc_exec M (''nft -c -f '' @ p) s = (None, s') \<Longrightarrow> \<exists>c m. files s p = Some (c, m) \<and> accepts c"
    and load_ok: "mc_exec M (''nft -f '' @ p) s = (None, s') \<Longrightarrow>
      files s' = files s \<and> (\<exists>c m. files s p = Some (c, m) \<and> live s' = Some c)"
    and load_failed: "mc_exec M (''nft -f '' @ p) s = (Some err, s') \<Longrightarrow> files s' = files s \<and> live s' = live s"
begin

lemma live_WriteFile: "frame live (write_step M p c m)"
  unfolding machine_fs by (intro frames) (auto simp: frame_def Host_WriteFile_def write_live [unfolded frame_def] split: option.splits)

lemma write_step_ok:
  assumes "write_step M p c ''0600'' s = (None, s')"
  shows "files s' = (files s)(p \<mapsto> (c, 384)) \<and> live s' = live s"
proof -
  from assms have w: "Host_WriteFile R p c ''0600'' s = (None, s')"
    by (simp add: step_pairs machine_fs)
  moreover have "parseFileMode ''0600'' = Some 384" by code_simp
  moreover have "live s' = live s" using frame_D [OF live_WriteFile assms] .
  ultimately show ?thesis using Host_WriteFile_ok [OF w] by (simp add: perm_bits_def)
qed

lemma conf_path: "nftConfPath M s = (if files s ''/etc/nftables.conf'' \<noteq> None then ''/etc/nftables.conf''
    else if files s ''/etc/sysconfig/nftables.conf'' \<noteq> None then ''/etc/sysconfig/nftables.conf'' else [])"
  by (simp add: nftConfPath_def nftConfPaths_def machine_fs exists_files)

lemma persist_ok:
  assumes "Nftables_persist M s = (None, s')"
  shows "live s' = live s \<and>
    (if nftConfPath M s = [] then files s' = files s
     else \<exists>old m new m'. files s (nftConfPath M s) = Some (old, m) \<and>
       files s' = (files s)(nftConfPath M s \<mapsto> (new, m')) \<and> prefix old new \<and> sublist nftInclude new)"
proof (cases "nftConfPath M s = []")
  case True
  with assms show ?thesis by (simp add: Nftables_persist_def)
next
  case False
  define conf where "conf = nftConfPath M s"
  from False assms obtain old where old: "r_read R s conf = Some old"
    by (auto simp: Nftables_persist_def machine_fs conf_def Let_def split: option.splits)
  then obtain m where m: "files s conf = Some (old, m)" using read_files by blast
  show ?thesis
  proof (cases "str_contains old nftInclude")
    case True
    with False assms old have "s' = s"
      by (simp add: Nftables_persist_def machine_fs flip: conf_def)
    with True m False show ?thesis
      by (auto simp: go_string fun_upd_idem_iff simp flip: conf_def intro!: exI [of _ old] exI [of _ m])
  next
    case nope: False
    define new where "new = (if \<not> has_suffix old [newline] then old @ [newline] else old) @ nftInclude @ [newline]"
    have "write_step M conf new ''0600'' s = (None, s')"
      using False assms old nope by (simp add: Nftables_persist_def machine_fs new_def flip: conf_def)
    from write_step_ok [OF this] have "files s' = (files s)(conf \<mapsto> (new, 384))" "live s' = live s" by auto
    moreover have "prefix old new" "sublist nftInclude new" by (auto simp: new_def sublist_appendI)
    ultimately show ?thesis using False m by (auto simp flip: conf_def)
  qed
qed

lemma rendered_file:
  assumes "nftRuleset p = Inr rs"
    and "and_then (file_step (r_mkdir R nftRulesetDir 493)) (write_step M nftRulesetPath rs ''0600'') s = (None, s1)"
  shows "files s1 = (files s)(nftRulesetPath \<mapsto> (rs, 384)) \<and> live s1 = live s"
proof -
  obtain s0 where m: "file_step (r_mkdir R nftRulesetDir 493) s = (None, s0)"
      and w: "write_step M nftRulesetPath rs ''0600'' s0 = (None, s1)"
    using assms(2) by (auto simp: and_then_pair)
  have "files s0 = files s" using m mkdir_files by (auto simp: step_pairs)
  moreover have "live s0 = live s" using frame_D [OF frame_steps(1) [OF mkdir_live] m] .
  ultimately show ?thesis using write_step_ok [OF w] by simp
qed

lemma and_then_assoc: "and_then f (and_then g h) s = and_then (and_then f g) h s"
  by (simp add: and_then_def split: prod.splits option.splits)

lemma Apply_steps:
  "Nftables_Apply M p s = (case nftRuleset p of Inl e \<Rightarrow> (Some e, s) | Inr rs \<Rightarrow>
     and_then (and_then (file_step (r_mkdir R nftRulesetDir 493)) (write_step M nftRulesetPath rs ''0600''))
       (and_then (nft_check M) (and_then (exec_step M (''nft -f '' @ nftRulesetPath)) (Nftables_persist M))) s)"
  by (simp add: Nftables_Apply_def machine_fs and_then_assoc split: sum.splits)

lemma Apply_ok:
  assumes "Nftables_Apply M p s = (None, s')"
  shows "\<exists>rs. nftRuleset p = Inr rs \<and> accepts rs \<and> live s' = Some rs \<and>
    files s' nftRulesetPath = Some (rs, 384) \<and>
    (\<forall>q. q \<noteq> nftRulesetPath \<longrightarrow> q \<noteq> nftConfPath M s \<longrightarrow> files s' q = files s q) \<and>
    (nftConfPath M s = [] \<or>
      (\<exists>old m new m'. files s (nftConfPath M s) = Some (old, m) \<and> files s' (nftConfPath M s) = Some (new, m') \<and>
         prefix old new \<and> sublist nftInclude new))"
proof -
  from assms obtain rs where rs: "nftRuleset p = Inr rs"
    by (auto simp: Nftables_Apply_def split: sum.splits)
  with assms obtain s1 s2 s3 where w: "and_then (file_step (r_mkdir R nftRulesetDir 493))
        (write_step M nftRulesetPath rs ''0600'') s = (None, s1)"
      and c: "nft_check M s1 = (None, s2)" and l: "exec_step M (''nft -f '' @ nftRulesetPath) s2 = (None, s3)"
      and p: "Nftables_persist M s3 = (None, s')"
    by (auto simp: Apply_steps and_then_pair)
  from c have c': "mc_exec M (''nft -c -f '' @ nftRulesetPath) s1 = (None, s2)"
    by (auto simp: nft_check_def split: prod.splits option.splits)
  have f1: "files s1 = (files s)(nftRulesetPath \<mapsto> (rs, 384))" using rendered_file [OF rs w] by simp
  have f3: "files s3 = files s1" "live s3 = Some rs"
    using load_ok [of nftRulesetPath s2 s3] l check_same [OF c'] f1 by (auto simp: step_pairs)
  have conf: "nftConfPath M s3 = nftConfPath M s" "nftConfPath M s \<noteq> nftRulesetPath"
    by (simp_all add: conf_path f3 f1 nftRulesetPath_def nftRulesetDir_def)
  have "accepts rs" using check_ok [OF c'] f1 by auto
  with rs persist_ok [OF p] f1 f3 conf show ?thesis by (cases "nftConfPath M s = []") auto
qed

lemma not_rejected:
  "Some (RulesetRejected e) \<noteq> map_option FileError x" "Some (RulesetRejected e) \<noteq> map_option (CommandError c) y"
  by (cases x; simp) (cases y; simp)

lemma Apply_rejected:
  assumes "Nftables_Apply M p s = (Some (RulesetRejected e), s')"
  shows "\<exists>rs. nftRuleset p = Inr rs \<and> live s' = live s \<and> files s' = (files s)(nftRulesetPath \<mapsto> (rs, 384))"
proof -
  from assms obtain rs where rs: "nftRuleset p = Inr rs"
    by (auto simp: Nftables_Apply_def nftRuleset_def nftChainRules_def rule_lines_eq Let_def bind_res_def
        split: sum.splits if_splits option.splits)
  obtain s1 where w: "and_then (file_step (r_mkdir R nftRulesetDir 493))
        (write_step M nftRulesetPath rs ''0600'') s = (None, s1)" and c: "nft_check M s1 = (Some (RulesetRejected e), s')"
    using assms rs by (auto simp: Apply_steps and_then_pair step_pairs not_rejected Nftables_persist_def Let_def
        split: if_splits option.splits)
  from c obtain x where "mc_exec M (''nft -c -f '' @ nftRulesetPath) s1 = (Some x, s')"
    by (auto simp: nft_check_def split: prod.splits option.splits)
  from check_same [OF this] rendered_file [OF rs w] rs show ?thesis by auto
qed

end

text \<open>C33. When an apply succeeds the node runs the ruleset the plan renders to, and it was checked
  before it was loaded; the same text is at cargoship's own path, the boot-time file, when there is
  one, holds what it held before with an include of that path in it, and no other file has changed.\<close>

theorem Nftables_Apply_loads_plan:
  assumes "nft_host R files M live accepts" and "Nftables_Apply M p s = (None, s')"
  shows "\<exists>rs. nftRuleset p = Inr rs \<and> accepts rs \<and> live s' = Some rs \<and>
    files s' nftRulesetPath = Some (rs, 384) \<and>
    (\<forall>q. q \<noteq> nftRulesetPath \<longrightarrow> q \<noteq> nftConfPath M s \<longrightarrow> files s' q = files s q) \<and>
    (nftConfPath M s = [] \<or>
      (\<exists>old m new m'. files s (nftConfPath M s) = Some (old, m) \<and> files s' (nftConfPath M s) = Some (new, m') \<and>
         prefix old new \<and> sublist nftInclude new))"
  using nft_host.Apply_ok [OF assms] .

text \<open>A ruleset that \<open>nft\<close> rejects is not loaded, but it is not taken back either: it stays at
  the path that the boot-time file of an earlier run includes, in place of the accepted one.\<close>

theorem rejected_ruleset_stays:
  assumes "nft_host R files M live accepts" and "Nftables_Apply M p s = (Some (RulesetRejected e), s')"
  shows "\<exists>rs. nftRuleset p = Inr rs \<and> live s' = live s \<and> files s' = (files s)(nftRulesetPath \<mapsto> (rs, 384))"
  using nft_host.Apply_rejected [OF assms] .

subsection \<open>A node with nftables\<close>

text \<open>A disk and the ruleset last loaded. \<open>ok\<close> decides which rulesets \<open>nft\<close> accepts.\<close>

definition nft_exec :: "(string \<Rightarrow> bool) \<Rightarrow> string \<Rightarrow> disk \<times> string option \<Rightarrow> string option \<times> disk \<times> string option" where
  "nft_exec ok command st =
     (case st of (d, l) \<Rightarrow>
        if prefix ''nft -c -f '' command then
          (case d (drop 10 command) of
             None \<Rightarrow> (Some ''no such file'', st)
           | Some (c, _) \<Rightarrow> (if ok c then None else Some ''syntax error'', st))
        else if prefix ''nft -f '' command then
          (case d (drop 7 command) of
             None \<Rightarrow> (Some ''no such file'', st)
           | Some (c, _) \<Rightarrow> if ok c then (None, (d, Some c)) else (Some ''syntax error'', st))
        else (Some ''command not found'', st))"

definition nft_node :: "(string \<Rightarrow> bool) \<Rightarrow> (disk \<times> string option) machine" where
  "nft_node ok =
     \<lparr>mc_fs = lift_remote (disk_remote (\<lambda>_. False) (\<lambda>_. False) (\<lambda>_. False) (\<lambda>_. [])),
      mc_preferred = Some [], mc_command = (\<lambda>_ c. c = ''nft''), mc_running = (\<lambda>_ _. False),
      mc_output = (\<lambda>_ _. None), mc_exec = nft_exec ok, mc_restart = (\<lambda>_ s. (None, s))\<rparr>"

interpretation nft: nft_host
  "lift_remote (disk_remote (\<lambda>_. False) (\<lambda>_. False) (\<lambda>_. False) (\<lambda>_. []))" "\<lambda>st. disk_files (fst st)"
  "nft_node ok" snd ok
proof (intro nft_host.intro nft_host_axioms.intro lift_remote_fs disk.remote_fs_axioms)
qed (auto simp: nft_node_def nft_exec_def lift_simps frame_lift disk_files_def
    split: option.splits if_splits prod.splits)

definition one_rule :: Plan where
  "one_rule = \<lparr>pl_NodeAddresses = [''10.0.0.1''], pl_ClusterCIDRs = [], pl_Ports = [],
     pl_Rules = [empty_rule\<lparr>fr_name := ''web'', fr_action := ''allow'', fr_port := ''80'', fr_protocol := ''tcp''\<rparr>],
     pl_Policies = []\<rparr>"

definition boot_disk :: disk where
  "boot_disk = [''/etc/nftables.conf'' \<mapsto> (''flush ruleset'', 420)]"

lemma Nftables_Apply_loads_plan_witness:
  "case Nftables_Apply (nft_node (\<lambda>_. True)) one_rule (boot_disk, None) of (e, d, l) \<Rightarrow>
     e = None \<and> nftRuleset one_rule = Inr (the l) \<and> disk_files d nftRulesetPath = Some (the l, 384)"
proof -
  let ?run = "Nftables_Apply (nft_node (\<lambda>_. True)) one_rule (boot_disk, None)"
  have "fst ?run = None" by code_simp
  then obtain d l where run: "?run = (None, (d, l))" by (metis prod.exhaust_sel)
  from Nftables_Apply_loads_plan [OF nft.nft_host_axioms run] show ?thesis
    by (auto simp: run)
qed

lemma rejected_ruleset_stays_witness:
  "case Nftables_Apply (nft_node (\<lambda>_. False)) one_rule (boot_disk, None) of (e, d, l) \<Rightarrow>
     e = Some (RulesetRejected ''syntax error'') \<and> l = None \<and> disk_files d nftRulesetPath \<noteq> None"
proof -
  let ?run = "Nftables_Apply (nft_node (\<lambda>_. False)) one_rule (boot_disk, None)"
  have "fst ?run = Some (RulesetRejected ''syntax error'')" by code_simp
  then obtain d l where run: "?run = (Some (RulesetRejected ''syntax error''), (d, l))" by (metis prod.exhaust_sel)
  from rejected_ruleset_stays [OF nft.nft_host_axioms run] show ?thesis by (auto simp: run)
qed

subsection \<open>Addresses that validation accepts and nftables does not\<close>

text \<open>The address \<open>any\<close> passes the validation of a rule, in any case of its letters, and is
  copied into the match as it stands, where \<open>nft\<close> expects an address: one such rule and the whole
  ruleset of the node is refused. An IPv4-mapped address is put into the IPv4 set of the cluster in
  its IPv6 spelling, while a rule with the same address gets the IPv6 keyword.\<close>

theorem any_address_reaches_nft:
  "FirewallRule_Validate (empty_rule\<lparr>fr_action := ''allow'', fr_source := ''any''\<rparr>) = None \<and>
   nftRule (empty_rule\<lparr>fr_action := ''allow'', fr_source := ''any''\<rparr>) =
     Inr (''input'', ''ip saddr any accept comment '' @ go_quote ''cargoship:in-allow-any'') \<and>
   NftSplitFamilies [''::ffff:10.0.0.1''] = ([''::ffff:10.0.0.1''], []) \<and>
   nftAddrFamily ''::ffff:10.0.0.1'' = ''ip6''"
  by (intro conjI; code_simp)

end
