(* ===== verification/Firewall_Ufw.thy ===== *)
theory Firewall_Ufw
  imports Firewall_Plan
begin

section \<open>The ufw backend\<close>

text \<open>
  Models \<open>pkg/firewall/ufw.go\<close>: the application profile, the rules a plan is rendered to, the record
  of the rules of the last run and the reconciliation of the two. What the \<open>ufw\<close> command does to the
  rules of a host is a parameter with the laws of the locale \<open>ufw_host\<close>: a rule is appended unless it
  is there, a deletion takes the rule that reads the same, a failed command changes no rule.
\<close>

abbreviation "line_feed \<equiv> CHR 0x0A"

definition ufwProfilePath :: string where "ufwProfilePath = ''/etc/ufw/applications.d/cargoship''"
definition ufwProfileName :: string where "ufwProfileName = ''cargoship-ports''"
definition ufwStateDir :: string where "ufwStateDir = ''/var/lib/cargoship''"
definition ufwStatePath :: string where "ufwStatePath = ufwStateDir @ ''/ufw.rules''"
definition ufwComment :: string where "ufwComment = ''cargoship''"

subsection \<open>Rendering\<close>

definition ufwAddress :: "string \<Rightarrow> string" where
  "ufwAddress addr = (if addr = [] then ''any'' else addr)"

definition ufwPortRange :: "string \<Rightarrow> string" where
  "ufwPortRange port = map (\<lambda>c. if c = CHR ''-'' then CHR '':'' else c) port"

definition ufw_port_spec :: "HostPort \<Rightarrow> string" where
  "ufw_port_spec p =
     (let proto = to_lower (hp_protocol p) in
      ufwPortRange (hp_port p) @ ''/'' @ (if proto = [] then ''tcp'' else proto))"

definition ufwProfile :: "HostPort list \<Rightarrow> string" where
  "ufwProfile ports =
     ''['' @ ufwProfileName @ '']'' @ line_feed #
     ''title=Cargoship exposed ports'' @ line_feed #
     ''description=Ports cargoship opens on this node for the cluster'' @ line_feed #
     ''ports='' @ join ''|'' (map ufw_port_spec ports) @ [line_feed]"

definition ufw_comment :: "string \<Rightarrow> string" where
  "ufw_comment what = ''comment '' @ CHR 0x27 # ufwComment @ '':'' @ what @ [CHR 0x27]"

definition ufw_direction :: "fw_rule \<Rightarrow> string list" where
  "ufw_direction r =
     (let action = NormalizedAction r in
      if NormalizedDirection r = FirewallDirectionForward
      then [''route'', action, ''in'', ''on'', fr_ingress r, ''out'', ''on'', fr_egress r]
      else if NormalizedDirection r = FirewallDirectionOut then [action, ''out'']
      else [action, ''in''])"

definition ufw_matches :: "fw_rule \<Rightarrow> string list" where
  "ufw_matches r =
     [''from'', ufwAddress (fr_source r), ''to'', ufwAddress (fr_destination r)] @
     (if fr_port r \<noteq> [] then [''port'', ufwPortRange (fr_port r)] else []) @
     (if NormalizedProtocol r \<noteq> [] then [''proto'', NormalizedProtocol r] else [])"

definition ufwRule :: "fw_rule \<Rightarrow> apply_error + string" where
  "ufwRule r =
     (if NormalizedAction r \<notin> {FirewallActionAllow, FirewallActionDeny, FirewallActionReject}
      then Inl (RuleError (UnknownAction (FirewallRule_Key r) (fr_action r)))
      else Inr (join '' '' (ufw_direction r @ ufw_matches r @ [ufw_comment (FirewallRule_Key r)])))"

definition ufwRules :: "Plan \<Rightarrow> apply_error + string list" where
  "ufwRules p =
     bind_res (map_res ufwRule (pl_Rules p)) (\<lambda>lines.
       Inr ((if length (pl_Ports p) > 0 then [''allow '' @ ufwProfileName @ '' '' @ ufw_comment ''ports''] else []) @
            map (\<lambda>addr. ''allow from '' @ addr @ '' '' @ ufw_comment ''cluster'')
              (filter (\<lambda>a. a \<noteq> []) (pl_NodeAddresses p @ pl_ClusterCIDRs p)) @
            lines))"

definition comment_mark :: string where
  "comment_mark = '' comment '' @ [CHR 0x27]"

definition stripComment :: "string \<Rightarrow> string" where
  "stripComment rule = (case str_index rule comment_mark of Some idx \<Rightarrow> take idx rule | None \<Rightarrow> rule)"

subsection \<open>Applying\<close>

definition UFW_applyProfile :: "'s machine \<Rightarrow> Plan \<Rightarrow> 's \<Rightarrow> apply_error option \<times> 's" where
  "UFW_applyProfile M p s =
     (if length (pl_Ports p) = 0 then
        (if r_exists (mc_fs M) s ufwProfilePath then file_step (r_remove (mc_fs M) ufwProfilePath) s
         else (None, s))
      else and_then (write_step M ufwProfilePath (ufwProfile (pl_Ports p)) ''0644'')
             (exec_step M (''ufw app update '' @ ufwProfileName)) s)"

definition state_lines :: "string \<Rightarrow> string list" where
  "state_lines content = filter (\<lambda>l. l \<noteq> []) (map trim_space (split_on line_feed content))"

definition UFW_readState :: "'s machine \<Rightarrow> 's \<Rightarrow> string list" where
  "UFW_readState M s =
     (if \<not> r_exists (mc_fs M) s ufwStatePath then []
      else (case r_read (mc_fs M) s ufwStatePath of None \<Rightarrow> [] | Some content \<Rightarrow> state_lines content))"

definition UFW_writeState :: "'s machine \<Rightarrow> string list \<Rightarrow> 's \<Rightarrow> apply_error option \<times> 's" where
  "UFW_writeState M rules =
     and_then (file_step (r_mkdir (mc_fs M) ufwStateDir 493))
       (write_step M ufwStatePath (join [line_feed] rules @ [line_feed]) ''0600'')"

definition UFW_deleteRule :: "'s machine \<Rightarrow> string \<Rightarrow> 's \<Rightarrow> 's" where
  "UFW_deleteRule M rule s = snd (mc_exec M (''ufw --force delete '' @ stripComment rule) s)"

fun ufw_delete_stale :: "'s machine \<Rightarrow> string list \<Rightarrow> string list \<Rightarrow> 's \<Rightarrow> 's" where
  "ufw_delete_stale M desired [] s = s"
| "ufw_delete_stale M desired (rule # previous) s =
     (if rule \<in> set desired then ufw_delete_stale M desired previous s
      else ufw_delete_stale M desired previous (UFW_deleteRule M rule s))"

fun ufw_apply_rules :: "'s machine \<Rightarrow> string list \<Rightarrow> 's \<Rightarrow> apply_error option \<times> 's" where
  "ufw_apply_rules M [] s = (None, s)"
| "ufw_apply_rules M (rule # rules) s =
     and_then (exec_step M (''ufw '' @ rule)) (ufw_apply_rules M rules) s"

definition UFW_Apply :: "'s machine \<Rightarrow> Plan \<Rightarrow> 's \<Rightarrow> apply_error option \<times> 's" where
  "UFW_Apply M p =
     and_then (UFW_applyProfile M p) (\<lambda>s.
       case ufwRules p of
         Inl e \<Rightarrow> (Some e, s)
       | Inr desired \<Rightarrow>
           and_then (ufw_apply_rules M desired)
             (and_then (UFW_writeState M desired) (exec_step M ''ufw --force reload''))
             (ufw_delete_stale M desired (UFW_readState M s) s))"

subsection \<open>The record of the last run\<close>

definition one_line :: "string \<Rightarrow> bool" where
  "one_line l \<longleftrightarrow> line_feed \<notin> set l \<and> l \<noteq> [] \<and> \<not> is_space (hd l) \<and> \<not> is_space (last l)"

text \<open>What is recorded is what is read back.\<close>

lemma state_lines_written:
  assumes "list_all one_line rules"
  shows "state_lines (join [line_feed] rules @ [line_feed]) = rules"
proof (cases "rules = []")
  case True
  then show ?thesis by (simp add: state_lines_def)
next
  case False
  have nonl: "\<forall>w \<in> set (rules @ [[]]). line_feed \<notin> set w"
    using assms by (auto simp: list_all_iff one_line_def)
  have "join [line_feed] rules @ [line_feed] = join [line_feed] (rules @ [[]])"
    using False by (induction "[line_feed]" rules rule: join.induct) auto
  then have "split_on line_feed (join [line_feed] rules @ [line_feed]) = rules @ [[]]"
    using split_on_join [OF nonl] by simp
  moreover have "map trim_space rules = rules"
    using assms by (intro map_idI) (auto simp: list_all_iff one_line_def intro!: trim_space_fixed)
  ultimately show ?thesis
    using assms by (auto simp: state_lines_def list_all_iff one_line_def filter_id_conv)
qed

subsection \<open>Rules and their comments\<close>

text \<open>The first word of a rule; the words that begin a rule of ufw.\<close>

definition first_word :: "string \<Rightarrow> string" where
  "first_word r = takeWhile (\<lambda>c. c \<noteq> CHR 0x20) r"

definition is_rule :: "string \<Rightarrow> bool" where
  "is_rule r \<longleftrightarrow> first_word r \<in> {''allow'', ''deny'', ''reject'', ''route''}"

lemma first_word_tail: "first_word (a @ CHR 0x20 # b) = first_word a"
  by (induction a) (auto simp: first_word_def)

lemma first_word_strip [simp]: "first_word (stripComment r) = first_word r"
proof (cases "str_index r comment_mark")
  case (Some i)
  then obtain b where "r = take i r @ CHR 0x20 # b"
    using str_index_prefix [of r "CHR 0x20" "tl comment_mark" i] by (auto simp: comment_mark_def)
  then have "first_word r = first_word (take i r)" by (metis first_word_tail)
  with Some show ?thesis by (simp add: stripComment_def)
qed (simp add: stripComment_def)

lemma is_rule_strip [simp]: "is_rule (stripComment r) = is_rule r"
  by (simp add: is_rule_def)

lemma first_word_append: "CHR 0x20 \<notin> set w \<Longrightarrow> first_word (w @ CHR 0x20 # v) = w"
  by (induction w) (auto simp: first_word_def)

lemma join_two: "ws \<noteq> [] \<Longrightarrow> join sep (w # ws) = w @ sep @ join sep ws"
  by (cases ws) auto

lemma last_join: "ws \<noteq> [] \<Longrightarrow> last ws \<noteq> [] \<Longrightarrow> join sep ws \<noteq> [] \<and> last (join sep ws) = last (last ws)"
  by (induction sep ws rule: join.induct) auto

lemma ufwRule_is_rule:
  assumes "ufwRule r = Inr l"
  shows "is_rule l" and "\<not> is_space (hd l) \<and> l \<noteq> [] \<and> \<not> is_space (last l)"
proof -
  let ?a = "NormalizedAction r"
  from assms have a: "?a = ''allow'' \<or> ?a = ''deny'' \<or> ?a = ''reject''"
      and j: "l = join '' '' (ufw_direction r @ ufw_matches r @ [ufw_comment (FirewallRule_Key r)])"
    by (auto simp: ufwRule_def split: if_splits)
  obtain w ws where w: "w \<in> {''route'', ?a}" and d: "ufw_direction r = w # ws"
    by (cases "NormalizedDirection r = ''forward''"; cases "NormalizedDirection r = ''out''")
      (simp_all add: ufw_direction_def)
  define rest where "rest = ws @ ufw_matches r"
  have l: "l = join '' '' (w # rest @ [ufw_comment (FirewallRule_Key r)])"
    by (simp add: j d rest_def)
  have jl: "l = w @ CHR 0x20 # join '' '' (rest @ [ufw_comment (FirewallRule_Key r)])"
    unfolding l by (subst join_two) auto
  from w a have "first_word l = w" unfolding jl by (intro first_word_append) auto
  with w a show "is_rule l" by (auto simp: is_rule_def)
  have "last l = CHR 0x27"
    unfolding l using last_join [of "w # rest @ [ufw_comment (FirewallRule_Key r)]"] by (simp add: ufw_comment_def)
  moreover have "hd l \<in> set ''adr''" "l \<noteq> []" using w a unfolding jl by auto
  ultimately show "\<not> is_space (hd l) \<and> l \<noteq> [] \<and> \<not> is_space (last l)"
    by (auto simp: is_space_def byte_def)
qed

lemma ufwRules_are_rules:
  assumes "ufwRules p = Inr desired" and "l \<in> set desired"
  shows "is_rule l" and "l \<noteq> [] \<and> \<not> is_space (hd l) \<and> \<not> is_space (last l)"
proof -
  from assms(1) obtain ls where ls: "map_res ufwRule (pl_Rules p) = Inr ls"
    and d: "desired = (if length (pl_Ports p) > 0 then [''allow '' @ ufwProfileName @ '' '' @ ufw_comment ''ports''] else []) @
            map (\<lambda>addr. ''allow from '' @ addr @ '' '' @ ufw_comment ''cluster'')
              (filter (\<lambda>a. a \<noteq> []) (pl_NodeAddresses p @ pl_ClusterCIDRs p)) @ ls"
    by (auto simp: ufwRules_def bind_res_Inr)
  have r: "is_rule l \<and> l \<noteq> [] \<and> \<not> is_space (hd l) \<and> \<not> is_space (last l)" if "l \<in> set ls" for l
    using that ls ufwRule_is_rule by (auto simp: map_res_Inr list_all2_conv_all_nth in_set_conv_nth)
  from assms(2) have "l \<in> set ls \<or> l = ''allow '' @ (ufwProfileName @ '' '') @ ufw_comment ''ports'' \<or>
      (\<exists>addr. l = ''allow '' @ (''from '' @ addr @ '' '') @ ufw_comment ''cluster'')"
    unfolding d by (auto split: if_splits)
  then consider "l \<in> set ls" | x y where "l = ''allow '' @ x @ ufw_comment y" by blast
  then have "is_rule l \<and> l \<noteq> [] \<and> \<not> is_space (hd l) \<and> \<not> is_space (last l)"
  proof cases
    case 2
    then show ?thesis by (simp add: is_rule_def first_word_def ufw_comment_def is_space_def byte_def)
  qed (rule r)
  then show "is_rule l" "l \<noteq> [] \<and> \<not> is_space (hd l) \<and> \<not> is_space (last l)" by auto
qed

subsection \<open>What a run leaves on a node\<close>

text \<open>\<open>ufw\<close> appends a rule unless one that reads the same is there.\<close>

definition append_new :: "string list \<Rightarrow> string \<Rightarrow> string list" where
  "append_new rs b = (if b \<in> set rs then rs else rs @ [b])"

lemma append_new_known: "set bs \<subseteq> set rs \<Longrightarrow> foldl append_new rs bs = rs"
  by (induction bs arbitrary: rs) (auto simp: append_new_def)

lemma set_append_new: "set (foldl append_new rs bs) = set rs \<union> set bs"
  by (induction bs arbitrary: rs) (auto simp: append_new_def)

lemma append_new_prefix: "prefix rs (foldl append_new rs bs)"
proof (induction bs arbitrary: rs)
  case (Cons b bs)
  have "prefix rs (append_new rs b)" by (simp add: append_new_def)
  with Cons show ?case by (metis foldl_Cons prefix_order.trans)
qed simp

text \<open>A host with ufw: \<open>active s\<close> lists its rules, without comments, in the order they are tried.\<close>

locale ufw_host = remote_fs R files for R :: "'s remote" and files +
  fixes M :: "'s machine" and active :: "'s \<Rightarrow> string list"
  assumes machine_fs: "mc_fs M = R"
    and read_ok: "files s ufwStatePath = Some (c, m) \<Longrightarrow> r_read R s ufwStatePath = Some c"
    and write_active: "frame active (r_write R p c m)"
    and remove_active: "frame active (r_remove R p)"
    and mkdir_active: "frame active (r_mkdir R p m)"
    and exec_files: "p = ufwStatePath \<Longrightarrow> frame (\<lambda>s. files s p) (mc_exec M c)"
    and add_ok: "is_rule r \<Longrightarrow> mc_exec M (''ufw '' @ r) s = (None, s') \<Longrightarrow>
      active s' = append_new (active s) (stripComment r)"
    and add_failed: "is_rule r \<Longrightarrow> mc_exec M (''ufw '' @ r) s = (Some err, s') \<Longrightarrow> active s' = active s"
    and delete_ok: "is_rule b \<Longrightarrow> mc_exec M (''ufw --force delete '' @ b) s = (None, s') \<Longrightarrow>
      active s' = filter (\<lambda>r. r \<noteq> b) (active s)"
    and delete_failed: "is_rule b \<Longrightarrow> mc_exec M (''ufw --force delete '' @ b) s = (Some err, s') \<Longrightarrow> active s' = active s"
    and update_active: "frame active (mc_exec M (''ufw app update '' @ n))"
    and reload_active: "frame active (mc_exec M ''ufw --force reload'')"
begin

lemma write_frames:
  "frame active (write_step M p c m)"
  "q \<noteq> p \<Longrightarrow> frame (\<lambda>s. files s q) (write_step M p c m)"
  unfolding machine_fs
  by (intro frames; auto simp: frame_def Host_WriteFile_def write_active [unfolded frame_def] split: option.splits)
    (intro frames)

lemma profile_frames:
  "frame active (UFW_applyProfile M p)"
  "frame (\<lambda>s. files s ufwStatePath) (UFW_applyProfile M p)"
proof -
  have "frame active (\<lambda>s. if r_exists (mc_fs M) s ufwProfilePath
      then file_step (r_remove (mc_fs M) ufwProfilePath) s else (None, s))"
    unfolding machine_fs by (intro frames remove_active)
  moreover have "frame active (and_then (write_step M ufwProfilePath (ufwProfile (pl_Ports p)) ''0644'')
             (exec_step M (''ufw app update '' @ ufwProfileName)))"
    by (intro frames write_frames update_active)
  ultimately show "frame active (UFW_applyProfile M p)"
    by (simp add: frame_def UFW_applyProfile_def)
  have d: "ufwStatePath \<noteq> ufwProfilePath" by (simp add: ufwStatePath_def ufwStateDir_def ufwProfilePath_def)
  have "frame (\<lambda>s. files s ufwStatePath) (\<lambda>s. if r_exists (mc_fs M) s ufwProfilePath
      then file_step (r_remove (mc_fs M) ufwProfilePath) s else (None, s))"
    unfolding machine_fs by (intro frames d)
  moreover have "frame (\<lambda>s. files s ufwStatePath) (and_then (write_step M ufwProfilePath (ufwProfile (pl_Ports p)) ''0644'')
             (exec_step M (''ufw app update '' @ ufwProfileName)))"
    by (intro frames write_frames d exec_files refl)
  ultimately show "frame (\<lambda>s. files s ufwStatePath) (UFW_applyProfile M p)"
    by (simp add: frame_def UFW_applyProfile_def)
qed

lemma deleteRule_active:
  assumes "is_rule r"
  shows "active (UFW_deleteRule M r s) = active s \<or>
    active (UFW_deleteRule M r s) = filter (\<lambda>b. b \<noteq> stripComment r) (active s)"
proof (cases "mc_exec M (''ufw --force delete '' @ stripComment r) s")
  case (Pair e s1)
  with assms delete_ok [of "stripComment r" s s1] delete_failed [of "stripComment r" s _ s1] show ?thesis
    by (cases e) (auto simp: UFW_deleteRule_def)
qed

text \<open>Of the stale rules some are deleted, those whose deletion did not fail.\<close>

lemma delete_stale_active:
  assumes "list_all is_rule previous"
  shows "\<exists>gone. gone \<subseteq> stripComment ` (set previous - set desired) \<and>
    active (ufw_delete_stale M desired previous s) = filter (\<lambda>b. b \<notin> gone) (active s)"
  using assms
proof (induction previous arbitrary: s)
  case (Cons r rs)
  show ?case
  proof (cases "r \<in> set desired")
    case True
    with Cons.IH [of s] Cons.prems show ?thesis by (simp add: insert_Diff_if)
  next
    case False
    from Cons.IH [of "UFW_deleteRule M r s"] Cons.prems obtain gone where g: "gone \<subseteq> stripComment ` (set rs - set desired)"
      "active (ufw_delete_stale M desired rs (UFW_deleteRule M r s)) = filter (\<lambda>b. b \<notin> gone) (active (UFW_deleteRule M r s))"
      by auto
    have "is_rule r" using Cons.prems by simp
    then consider "active (UFW_deleteRule M r s) = active s"
      | "active (UFW_deleteRule M r s) = filter (\<lambda>b. b \<noteq> stripComment r) (active s)"
      using deleteRule_active by blast
    then show ?thesis
    proof cases
      case 1
      with g False show ?thesis by (intro exI [of _ gone]) (simp add: insert_Diff_if subset_insertI2)
    next
      case 2
      with g False show ?thesis
        by (intro exI [of _ "insert (stripComment r) gone"])
          (simp add: insert_Diff_if subset_insertI2 insert_mono conj_commute)
    qed
  qed
qed (intro exI [of _ "{}"], simp)

lemma delete_stale_nothing: "set previous \<subseteq> set desired \<Longrightarrow> ufw_delete_stale M desired previous s = s"
  by (induction previous) auto

lemma apply_rules_active:
  "ufw_apply_rules M rules s = (None, s') \<Longrightarrow> list_all is_rule rules \<Longrightarrow>
     active s' = foldl append_new (active s) (map stripComment rules)"
proof (induction rules arbitrary: s)
  case (Cons r rs)
  then obtain s1 where "mc_exec M (''ufw '' @ r) s = (None, s1)" "ufw_apply_rules M rs s1 = (None, s')"
    by (auto simp: and_then_pair step_pairs)
  with Cons add_ok [of r s s1] show ?case by simp
qed simp

lemma frame_writeState: "frame active (UFW_writeState M rules)"
  unfolding UFW_writeState_def machine_fs
  by (intro frames mkdir_active write_frames(1) [unfolded machine_fs])

lemma writeState_read:
  assumes "UFW_writeState M rules s = (None, s1)" and "list_all one_line rules"
    and "files s2 ufwStatePath = files s1 ufwStatePath"
  shows "UFW_readState M s2 = rules"
proof -
  from assms(1) obtain s0 where "Host_WriteFile R ufwStatePath (join [line_feed] rules @ [line_feed]) ''0600'' s0 = (None, s1)"
    by (auto simp: UFW_writeState_def machine_fs and_then_pair step_pairs)
  then obtain m where "files s1 ufwStatePath = Some (join [line_feed] rules @ [line_feed], m)"
    using Host_WriteFile_ok by fastforce
  with assms(2,3) show ?thesis
    by (simp add: UFW_readState_def machine_fs exists_files read_ok state_lines_written)
qed

lemma readState_cong: "files s ufwStatePath = files s' ufwStatePath \<Longrightarrow> UFW_readState M s = UFW_readState M s'"
  using read_ok [of s] read_ok [of s']
  by (cases "files s' ufwStatePath") (auto simp: UFW_readState_def machine_fs exists_files)

lemma Apply_ok:
  assumes ok: "UFW_Apply M p s = (None, s')" and desired: "ufwRules p = Inr desired"
    and lines: "list_all (\<lambda>l. line_feed \<notin> set l) desired" and prev: "list_all is_rule (UFW_readState M s)"
  shows "UFW_readState M s' = desired \<and>
    (\<exists>gone. gone \<subseteq> stripComment ` (set (UFW_readState M s) - set desired) \<and>
       active s' = foldl append_new (filter (\<lambda>b. b \<notin> gone) (active s)) (map stripComment desired)) \<and>
    (set (UFW_readState M s) \<subseteq> set desired \<longrightarrow> active s' = foldl append_new (active s) (map stripComment desired))"
proof -
  from ok desired obtain s1 s2 s3 where p: "UFW_applyProfile M p s = (None, s1)"
      and a: "ufw_apply_rules M desired (ufw_delete_stale M desired (UFW_readState M s1) s1) = (None, s2)"
      and w: "UFW_writeState M desired s2 = (None, s3)" and r: "exec_step M ''ufw --force reload'' s3 = (None, s')"
    by (auto simp: UFW_Apply_def and_then_pair split: sum.splits)
  have one: "list_all one_line desired"
    using lines ufwRules_are_rules [OF desired] by (auto simp: list_all_iff one_line_def)
  have rules: "list_all is_rule desired" using ufwRules_are_rules [OF desired] by (auto simp: list_all_iff)
  have prev1: "UFW_readState M s1 = UFW_readState M s"
    using frame_D [OF profile_frames(2) p] by (rule readState_cong)
  have s1: "active s1 = active s" using frame_D [OF profile_frames(1) p] .
  have s': "active s' = active s2"
    using frame_D [OF frame_writeState w] frame_D [OF frame_steps(2) [OF reload_active] r] by simp
  have "files s' ufwStatePath = files s3 ufwStatePath"
    using frame_D [OF frame_steps(2) [OF exec_files [OF refl]] r] .
  then have "UFW_readState M s' = desired" by (rule writeState_read [OF w one])
  moreover obtain gone where "gone \<subseteq> stripComment ` (set (UFW_readState M s) - set desired)"
      "active (ufw_delete_stale M desired (UFW_readState M s1) s1) = filter (\<lambda>b. b \<notin> gone) (active s)"
    using delete_stale_active [of "UFW_readState M s1" desired s1] prev prev1 s1 by auto
  moreover note apply_rules_active [OF a rules] s' s1 prev1 delete_stale_nothing [of "UFW_readState M s1" desired s1]
  ultimately show ?thesis by auto
qed

end

subsection \<open>Reconciliation\<close>


text \<open>The order of the rules of a plan is the order in which they are first applied, not the
  order they are brought to: when the rules of a node are put in another order, a run that succeeds
  leaves the firewall as it was, though ufw acts on the first rule that matches. In particular a
  second run of the same plan changes nothing.\<close>

theorem UFW_reordering_is_lost:
  assumes "ufw_host R files M active"
    and "UFW_Apply M p s = (None, s1)" and "ufwRules p = Inr rs" and "list_all is_rule (UFW_readState M s)"
    and "UFW_Apply M p' s1 = (None, s2)" and "ufwRules p' = Inr rs'" and "mset rs' = mset rs"
    and "list_all (\<lambda>l. line_feed \<notin> set l) rs"
  shows "active s2 = active s1"
proof -
  have eq: "set rs' = set rs" using assms(7) by (metis set_mset_mset)
  from ufw_host.Apply_ok [OF assms(1,2,3,8,4)] obtain kept where s1: "UFW_readState M s1 = rs"
      "active s1 = foldl append_new kept (map stripComment rs)" by blast
  have "list_all is_rule (UFW_readState M s1)"
    using ufwRules_are_rules [OF assms(3)] s1 by (auto simp: list_all_iff)
  moreover have "list_all (\<lambda>l. line_feed \<notin> set l) rs'" using assms(8) eq by (simp add: list_all_iff)
  ultimately have "active s2 = foldl append_new (active s1) (map stripComment rs')"
    using ufw_host.Apply_ok [OF assms(1,5,6)] s1 eq by blast
  moreover have "set (map stripComment rs') \<subseteq> set (active s1)" by (simp add: s1 eq set_append_new)
  ultimately show ?thesis by (simp add: append_new_known)
qed

text \<open>A rule that is active after a run and is not one of the run's rules is deleted by no later
  run. That keeps the operator's rules safe, and it keeps a stale rule of cargoship for good when its
  deletion failed once: the record no longer has it.\<close>

theorem UFW_survivors_stay:
  assumes "ufw_host R files M active"
    and "UFW_Apply M p s = (None, s1)" and "ufwRules p = Inr rs" and "list_all is_rule (UFW_readState M s)"
    and "list_all (\<lambda>l. line_feed \<notin> set l) rs"
    and "UFW_Apply M p' s1 = (None, s2)" and "ufwRules p' = Inr rs'" and "list_all (\<lambda>l. line_feed \<notin> set l) rs'"
    and "b \<in> set (active s1)" and "b \<notin> stripComment ` set rs"
  shows "b \<in> set (active s2)"
proof -
  from ufw_host.Apply_ok [OF assms(1,2,3,5,4)] have s1: "UFW_readState M s1 = rs" by blast
  then have "list_all is_rule (UFW_readState M s1)"
    using ufwRules_are_rules [OF assms(3)] by (auto simp: list_all_iff)
  from ufw_host.Apply_ok [OF assms(1,6,7,8) this] obtain gone where "gone \<subseteq> stripComment ` (set rs - set rs')"
      "active s2 = foldl append_new (filter (\<lambda>b. b \<notin> gone) (active s1)) (map stripComment rs')"
    using s1 by blast
  with assms(9,10) show ?thesis by (auto simp: set_append_new)
qed

subsection \<open>A node with ufw\<close>

text \<open>A disk and the active rules; the deletion of a rule \<open>stuck\<close> holds of fails.\<close>

definition ufw_exec :: "(string \<Rightarrow> bool) \<Rightarrow> string \<Rightarrow> disk \<times> string list \<Rightarrow> string option \<times> disk \<times> string list" where
  "ufw_exec stuck command st =
     (case st of (d, rs) \<Rightarrow>
        if prefix ''ufw --force delete '' command then
          (if stuck (drop 19 command) then (Some ''could not delete'', st)
           else (None, (d, filter (\<lambda>r. r \<noteq> drop 19 command) rs)))
        else if prefix ''ufw '' command \<and> is_rule (drop 4 command)
        then (None, (d, append_new rs (stripComment (drop 4 command))))
        else (None, st))"

definition ufw_node :: "(string \<Rightarrow> bool) \<Rightarrow> (disk \<times> string list) machine" where
  "ufw_node stuck =
     \<lparr>mc_fs = lift_remote (disk_remote (\<lambda>_. False) (\<lambda>_. False) (\<lambda>_. False) (\<lambda>_. [])),
      mc_preferred = Some UFWService, mc_command = (\<lambda>_ c. c = UFWService), mc_running = (\<lambda>_ _. False),
      mc_output = (\<lambda>_ _. Some ''Status: active''), mc_exec = ufw_exec stuck, mc_restart = (\<lambda>_ s. (None, s))\<rparr>"

lemma rule_not_option: "is_rule r \<Longrightarrow> \<not> prefix ''--force delete '' r"
  by (auto simp: prefix_def is_rule_def first_word_def)

lemma ufw_exec_simps:
  "is_rule r \<Longrightarrow> ufw_exec stuck (''ufw '' @ r) st = (None, (fst st, append_new (snd st) (stripComment r)))"
  "ufw_exec stuck (''ufw --force delete '' @ b) st =
     (if stuck b then (Some ''could not delete'', st) else (None, (fst st, filter (\<lambda>r. r \<noteq> b) (snd st))))"
  "ufw_exec stuck (''ufw app update '' @ n) st = (None, st)"
  "ufw_exec stuck ''ufw --force reload'' st = (None, st)"
  "fst (snd (ufw_exec stuck c st)) = fst st"
  by (auto simp: ufw_exec_def rule_not_option is_rule_def first_word_def split: prod.splits)

interpretation ufw: ufw_host
  "lift_remote (disk_remote (\<lambda>_. False) (\<lambda>_. False) (\<lambda>_. False) (\<lambda>_. []))" "\<lambda>st. disk_files (fst st)"
  "ufw_node stuck" snd
proof (intro ufw_host.intro ufw_host_axioms.intro lift_remote_fs disk.remote_fs_axioms)
qed (auto simp: ufw_node_def ufw_exec_simps [simplified] lift_simps frame_lift disk_files_def disk_remote_def
    frame_def [where f = "ufw_exec stuck _"] split: if_splits)

definition rules_plan :: "fw_rule list \<Rightarrow> Plan" where
  "rules_plan rs = \<lparr>pl_NodeAddresses = [], pl_ClusterCIDRs = [], pl_Ports = [], pl_Rules = rs, pl_Policies = []\<rparr>"

definition rule_a :: fw_rule where
  "rule_a = empty_rule\<lparr>fr_name := ''a'', fr_action := ''allow'', fr_source := ''10.0.0.0/8''\<rparr>"

definition rule_b :: fw_rule where
  "rule_b = empty_rule\<lparr>fr_name := ''b'', fr_action := ''deny'', fr_source := ''10.1.0.0/16''\<rparr>"

abbreviation "bare_node \<equiv> (Map.empty, [''allow in from any to any port 22'']) :: disk \<times> string list"

lemma ufw_node_rules:
  "ufwRules (rules_plan [rule_a, rule_b]) =
     Inr [''allow in from 10.0.0.0/8 to any '' @ ufw_comment ''a'', ''deny in from 10.1.0.0/16 to any '' @ ufw_comment ''b'']"
  "ufwRules (rules_plan [rule_b, rule_a]) =
     Inr [''deny in from 10.1.0.0/16 to any '' @ ufw_comment ''b'', ''allow in from 10.0.0.0/8 to any '' @ ufw_comment ''a'']"
  "ufwRules (rules_plan []) = Inr []"
  by (code_simp, code_simp, code_simp)

definition ufw_run :: "(string \<Rightarrow> bool) \<Rightarrow> fw_rule list list \<Rightarrow> apply_error option \<times> disk \<times> string list" where
  "ufw_run stuck rss = foldl (\<lambda>st rs. UFW_Apply (ufw_node stuck) (rules_plan rs) (snd st)) (None, bare_node) rss"

lemma two_rules_one_line:
  "list_all (\<lambda>l. line_feed \<notin> set l) [''allow in from 10.0.0.0/8 to any '' @ ufw_comment ''a'', ''deny in from 10.1.0.0/16 to any '' @ ufw_comment ''b'']"
  by code_simp


lemma UFW_reordering_is_lost_witness:
  "fst (ufw_run (\<lambda>_. False) [[rule_a, rule_b], [rule_b, rule_a]]) = None \<and>
   snd (snd (ufw_run (\<lambda>_. False) [[rule_a, rule_b], [rule_b, rule_a]])) =
     snd (snd (ufw_run (\<lambda>_. False) [[rule_a, rule_b]]))"
proof -
  let ?M = "ufw_node (\<lambda>_. False)"
  let ?run = "UFW_Apply ?M (rules_plan [rule_a, rule_b]) bare_node"
  let ?again = "UFW_Apply ?M (rules_plan [rule_b, rule_a]) (snd ?run)"
  have "fst ?run = None" "fst ?again = None" by (code_simp, code_simp)
  then obtain s1 s2 where run: "?run = (None, s1)" "UFW_Apply ?M (rules_plan [rule_b, rule_a]) s1 = (None, s2)"
    by (metis prod.exhaust_sel snd_conv)
  have "list_all is_rule (UFW_readState ?M bare_node)" by code_simp
  from UFW_reordering_is_lost [OF ufw.ufw_host_axioms run(1) ufw_node_rules(1) this run(2) ufw_node_rules(2)
      _ two_rules_one_line] run show ?thesis
    by (simp add: ufw_run_def)
qed

lemma UFW_survivors_stay_witness:
  "fst (ufw_run (\<lambda>_. True) [[rule_a, rule_b], [], []]) = None \<and>
   ''allow in from 10.0.0.0/8 to any'' \<in> set (snd (snd (ufw_run (\<lambda>_. True) [[rule_a, rule_b], [], []])))"
proof -
  let ?M = "ufw_node (\<lambda>_. True)"
  let ?s = "snd (ufw_run (\<lambda>_. True) [[rule_a, rule_b]])"
  let ?run = "UFW_Apply ?M (rules_plan []) ?s"
  let ?again = "UFW_Apply ?M (rules_plan []) (snd ?run)"
  have "fst ?run = None" "fst ?again = None" "''allow in from 10.0.0.0/8 to any'' \<in> set (snd (snd ?run))"
    by (code_simp, code_simp, code_simp)
  then obtain s1 s2 where run: "?run = (None, s1)" "UFW_Apply ?M (rules_plan []) s1 = (None, s2)"
      "''allow in from 10.0.0.0/8 to any'' \<in> set (snd s1)"
    by (metis prod.exhaust_sel snd_conv)
  have "list_all is_rule (UFW_readState ?M ?s)" by code_simp
  from UFW_survivors_stay [OF ufw.ufw_host_axioms run(1) ufw_node_rules(3) this _ run(2) ufw_node_rules(3) _ run(3)] run
  show ?thesis by (simp add: ufw_run_def)
qed

end
