(* ===== verification/Firewall_Firewalld.thy ===== *)
theory Firewall_Firewalld
  imports Firewall_Plan
begin

section \<open>The firewalld backend\<close>

text \<open>
  Models \<open>pkg/firewall/firewalld.go\<close>: the ipset, service and policy files a plan is written to, the
  \<open>firewall-cmd\<close> calls for the trust of the cluster, the exposed ports and the rules. The files are
  what \<open>xml.MarshalIndent\<close> renders the structs of the source to, with its escaping; bytes above 127
  are taken as they are.
\<close>

abbreviation "eol \<equiv> CHR 0x0A"

definition firewalldNodeIPSet :: string where "firewalldNodeIPSet = ''k8s-nodes''"
definition firewalldClusterIPSet :: string where "firewalldClusterIPSet = ''k8s-subnets''"
definition firewalldPortService :: string where "firewalldPortService = ''distro-exposed-ports''"
definition firewalldPolicyShort :: string where "firewalldPolicyShort = ''Cargoship Policy''"
definition firewalldRulePrefix :: string where "firewalldRulePrefix = ''cargoship-''"

subsection \<open>XML\<close>

definition xml_char :: "char \<Rightarrow> string" where
  "xml_char c =
     (let b = byte c in
      if b = 34 then ''&#34;''
      else if b = 39 then ''&#39;''
      else if b = 38 then ''&amp;''
      else if b = 60 then ''&lt;''
      else if b = 62 then ''&gt;''
      else if b = 9 then ''&#x9;''
      else if b = 10 then ''&#xA;''
      else if b = 13 then ''&#xD;''
      else if b < 32 then [CHR 0xEF, CHR 0xBF, CHR 0xBD]
      else [c])"

definition xml_escape :: "string \<Rightarrow> string" where
  "xml_escape s = concat (map xml_char s)"

definition xml_attr :: "string \<Rightarrow> string \<Rightarrow> string" where
  "xml_attr name v = '' '' @ name @ ''='' @ CHR 0x22 # xml_escape v @ [CHR 0x22]"

definition xml_open :: "string \<Rightarrow> (string \<times> string) list \<Rightarrow> string" where
  "xml_open tag attrs = ''<'' @ tag @ concat (map (\<lambda>(n, v). xml_attr n v) attrs) @ ''>''"

definition xml_close :: "string \<Rightarrow> string" where
  "xml_close tag = ''</'' @ tag @ ''>''"

text \<open>A child on a line of its own: an element with text, or an element with attributes only, which
  \<open>MarshalIndent\<close> writes as a pair of tags.\<close>

definition xml_text :: "string \<Rightarrow> string \<Rightarrow> string" where
  "xml_text tag v = ''  '' @ xml_open tag [] @ xml_escape v @ xml_close tag"

definition xml_empty :: "string \<Rightarrow> (string \<times> string) list \<Rightarrow> string" where
  "xml_empty tag attrs = ''  '' @ xml_open tag attrs @ xml_close tag"

definition ipset_xml :: "string \<Rightarrow> string \<Rightarrow> string \<Rightarrow> string list \<Rightarrow> string" where
  "ipset_xml kind short long entries =
     join [eol] ([xml_open ''ipset'' [(''type'', kind)], xml_text ''short'' short, xml_text ''description'' long] @
       map (xml_text ''entry'') entries @ [xml_close ''ipset''])"

definition port_attrs :: "HostPort \<Rightarrow> (string \<times> string) list" where
  "port_attrs p = [(''protocol'', hp_protocol p), (''port'', hp_port p)]"

definition service_xml :: "string \<Rightarrow> HostPort list \<Rightarrow> string" where
  "service_xml short ports =
     join [eol] ([xml_open ''service'' [], xml_text ''short'' short] @
       map (\<lambda>p. xml_empty ''port'' (port_attrs p)) ports @ [xml_close ''service''])"

text \<open>The lines of a policy; \<open>element\<close> renders an element with attributes only.\<close>

definition policy_lines ::
  "(string \<Rightarrow> (string \<times> string) list \<Rightarrow> string) \<Rightarrow> FirewallPolicyConfig \<Rightarrow> string list"
where
  "policy_lines element pol =
     [xml_open ''policy'' (if fp_target pol = [] then [] else [(''target'', fp_target pol)])] @
     (if fp_short pol = [] then [] else [xml_text ''short'' (fp_short pol)]) @
     [element ''ingress-zone'' [(''name'', fp_ingress pol)], element ''egress-zone'' [(''name'', fp_egress pol)]] @
     map (\<lambda>p. element ''port'' (port_attrs p)) (fp_ports pol) @
     [xml_close ''policy'']"

definition policy_xml :: "FirewallPolicyConfig \<Rightarrow> string" where
  "policy_xml pol = join [eol] (policy_lines xml_empty pol)"

text \<open>\<open>selfClosing\<close>, the regular expression \<open>></.+>\<close>, on a line: its leftmost match runs to the last
  \<open>>\<close> of the line, and there is at most one.\<close>

definition self_close_line :: "string \<Rightarrow> string" where
  "self_close_line line =
     (case str_index line ''></'' of
        None \<Rightarrow> line
      | Some i \<Rightarrow>
          (let rest = drop (i + 3) line in
           if CHR ''>'' \<in> set (tl rest)
           then take i line @ ''/>'' @ rev (takeWhile (\<lambda>c. c \<noteq> CHR ''>'') (rev rest))
           else line))"

definition selfClosing :: "string \<Rightarrow> string" where
  "selfClosing s = join [eol] (map self_close_line (split_on eol s))"

subsection \<open>Rules\<close>

definition firewalldTarget :: "string \<Rightarrow> apply_error + string" where
  "firewalldTarget action =
     (if action = FirewallActionAllow then Inr ''ACCEPT''
      else if action = FirewallActionDeny then Inr ''DROP''
      else if action = FirewallActionReject then Inr ''REJECT''
      else Inl (RuleError (UnknownAction [] action)))"

definition firewalldFamily :: "fw_rule \<Rightarrow> string" where
  "firewalldFamily r =
     (if str_contains (fr_source r) '':'' \<or> str_contains (fr_destination r) '':'' then ''ipv6'' else ''ipv4'')"

definition firewalldPolicy :: "fw_rule \<Rightarrow> apply_error + FirewallPolicyConfig" where
  "firewalldPolicy r =
     bind_res (firewalldTarget (NormalizedAction r)) (\<lambda>target.
       Inr \<lparr>fp_short = firewalldPolicyShort, fp_target = target, fp_ingress = fr_ingress r, fp_egress = fr_egress r,
            fp_ports = (if fr_port r \<noteq> [] then [\<lparr>hp_protocol = NormalizedProtocol r, hp_port = fr_port r\<rparr>] else [])\<rparr>)"

definition rich_rule :: "fw_rule \<Rightarrow> string \<Rightarrow> string" where
  "rich_rule r target =
     join '' '' ([''rule family='' @ go_quote (firewalldFamily r)] @
       (if fr_source r \<noteq> [] then [''source address='' @ go_quote (fr_source r)] else []) @
       (if fr_destination r \<noteq> [] then [''destination address='' @ go_quote (fr_destination r)] else []) @
       (if fr_port r \<noteq> []
        then [''port port='' @ go_quote (fr_port r) @ '' protocol='' @ go_quote (NormalizedProtocol r)]
        else if NormalizedProtocol r \<noteq> [] then [''protocol value='' @ go_quote (NormalizedProtocol r)] else []) @
       [to_lower target])"

definition firewalldZoneCmd :: "fw_rule \<Rightarrow> apply_error + string" where
  "firewalldZoneCmd r =
     bind_res (firewalldTarget (NormalizedAction r)) (\<lambda>target.
       if fr_source r = [] \<and> fr_destination r = [] \<and> NormalizedDirection r = FirewallDirectionIn then
         (if fr_port r = [] then Inl (RuleError (FirewalldNeedsMatch (FirewallRule_Key r)))
          else if target \<noteq> ''ACCEPT'' then Inl (RuleError (FirewalldOnlyAllows (FirewallRule_Key r)))
          else Inr (''firewall-cmd --permanent --zone=public --add-port='' @ fr_port r @ ''/'' @ NormalizedProtocol r))
       else Inr (''firewall-cmd --permanent --zone=public --add-rich-rule='' @
                 CHR 0x27 # rich_rule r target @ [CHR 0x27]))"

subsection \<open>Applying\<close>

definition ipset_path :: "string \<Rightarrow> string" where
  "ipset_path name = ''/etc/firewalld/ipsets/'' @ name @ ''.xml''"

definition service_path :: string where
  "service_path = ''/etc/firewalld/services/'' @ firewalldPortService @ ''.xml''"

definition policy_path :: "string \<Rightarrow> string" where
  "policy_path name = ''/etc/firewalld/policies/'' @ name @ ''.xml''"

definition trust_set :: "'s machine \<Rightarrow> string \<Rightarrow> string \<Rightarrow> string \<Rightarrow> string \<Rightarrow> string list \<Rightarrow> 's \<Rightarrow> apply_error option \<times> 's" where
  "trust_set M name kind short long entries s =
     (if length entries = 0 then (None, s)
      else and_then (write_step M (ipset_path name) (ipset_xml kind short long entries @ [eol]) ''0600'')
             (exec_step M (''firewall-cmd --permanent --zone=trusted --add-source=ipset:'' @ name)) s)"

definition Firewalld_applyClusterTrust :: "'s machine \<Rightarrow> Plan \<Rightarrow> 's \<Rightarrow> apply_error option \<times> 's" where
  "Firewalld_applyClusterTrust M p =
     and_then (trust_set M firewalldNodeIPSet ''hash:ip'' ''k8nodes'' ''IPset for all k8 nodes'' (pl_NodeAddresses p))
       (trust_set M firewalldClusterIPSet ''hash:net'' ''k8subnets'' ''IPset for all k8 service and pod CIDRs''
          (pl_ClusterCIDRs p))"

definition Firewalld_applyPorts :: "'s machine \<Rightarrow> Plan \<Rightarrow> 's \<Rightarrow> apply_error option \<times> 's" where
  "Firewalld_applyPorts M p s =
     (if length (pl_Ports p) = 0 then (None, s)
      else and_then (write_step M service_path (service_xml firewalldPortService (pl_Ports p) @ [eol]) ''0600'')
             (exec_step M (''firewall-cmd --permanent --zone=public --add-service='' @ firewalldPortService)) s)"

definition writePolicy :: "'s machine \<Rightarrow> string \<Rightarrow> FirewallPolicyConfig \<Rightarrow> 's \<Rightarrow> apply_error option \<times> 's" where
  "writePolicy M name pol = write_step M (policy_path name) (selfClosing (policy_xml pol) @ [eol]) ''0600''"

definition sortedKeys :: "(string \<times> 'v) list \<Rightarrow> string list" where
  "sortedKeys m = sort_strings (remdups (map fst m))"

fun apply_policies :: "'s machine \<Rightarrow> (string \<times> FirewallPolicyConfig) list \<Rightarrow> string list \<Rightarrow> 's \<Rightarrow> apply_error option \<times> 's" where
  "apply_policies M policies [] s = (None, s)"
| "apply_policies M policies (name # names) s =
     and_then (writePolicy M name ((the (map_of policies name))\<lparr>fp_short := firewalldPolicyShort\<rparr>))
       (apply_policies M policies names) s"

definition Firewalld_applyPolicies :: "'s machine \<Rightarrow> Plan \<Rightarrow> 's \<Rightarrow> apply_error option \<times> 's" where
  "Firewalld_applyPolicies M p = apply_policies M (pl_Policies p) (sortedKeys (pl_Policies p))"

definition firewalld_rule :: "'s machine \<Rightarrow> fw_rule \<Rightarrow> 's \<Rightarrow> apply_error option \<times> 's" where
  "firewalld_rule M r s =
     (if NormalizedDirection r = FirewallDirectionForward then
        (case firewalldPolicy r of
           Inl e \<Rightarrow> (Some e, s)
         | Inr pol \<Rightarrow> writePolicy M (firewalldRulePrefix @ FirewallRule_Key r) pol s)
      else
        (case firewalldZoneCmd r of
           Inl e \<Rightarrow> (Some e, s)
         | Inr command \<Rightarrow> exec_step M command s))"

fun Firewalld_applyRules :: "'s machine \<Rightarrow> fw_rule list \<Rightarrow> 's \<Rightarrow> apply_error option \<times> 's" where
  "Firewalld_applyRules M [] s = (None, s)"
| "Firewalld_applyRules M (r # rules) s = and_then (firewalld_rule M r) (Firewalld_applyRules M rules) s"

definition Firewalld_Apply :: "'s machine \<Rightarrow> Plan \<Rightarrow> 's \<Rightarrow> apply_error option \<times> 's" where
  "Firewalld_Apply M p =
     and_then (Firewalld_applyClusterTrust M p)
       (and_then (Firewalld_applyPorts M p)
         (and_then (Firewalld_applyPolicies M p)
           (and_then (Firewalld_applyRules M (pl_Rules p))
             (restart_step M FirewalldService))))"

subsection \<open>The self-closing form\<close>

lemma xml_char_safe: "c \<in> set (xml_char d) \<Longrightarrow> c \<noteq> CHR ''<'' \<and> c \<noteq> CHR ''>'' \<and> c \<noteq> eol"
  by (auto simp: xml_char_def Let_def byte_def split: if_splits)

lemma xml_escape_safe: "c \<in> set (xml_escape s) \<Longrightarrow> c \<noteq> CHR ''<'' \<and> c \<noteq> CHR ''>'' \<and> c \<noteq> eol"
  using xml_char_safe by (auto simp: xml_escape_def)

lemma xml_escape_Nil: "xml_escape s = [] \<longleftrightarrow> s = []"
  by (cases s) (auto simp: xml_escape_def xml_char_def Let_def)

definition plain_tag :: "string \<Rightarrow> bool" where
  "plain_tag t \<longleftrightarrow> t \<noteq> [] \<and> CHR ''<'' \<notin> set t \<and> CHR ''>'' \<notin> set t \<and> eol \<notin> set t"

lemma attrs_safe:
  "list_all (\<lambda>(n, _). plain_tag n) attrs \<Longrightarrow> c \<in> set (concat (map (\<lambda>(n, v). xml_attr n v) attrs)) \<Longrightarrow>
     c \<noteq> CHR ''<'' \<and> c \<noteq> CHR ''>'' \<and> c \<noteq> eol"
  using xml_escape_safe by (fastforce simp: xml_attr_def plain_tag_def list_all_iff)

lemma str_index_skip:
  "CHR ''>'' \<notin> set a \<Longrightarrow> str_index (a @ s) (CHR ''>'' # p) = map_option (\<lambda>i. length a + i) (str_index s (CHR ''>'' # p))"
proof (induction a)
  case Nil
  then show ?case by (cases "str_index s (CHR ''>'' # p)") auto
next
  case (Cons c a)
  then show ?case by (cases "str_index s (CHR ''>'' # p)") auto
qed

definition self_closed :: "string \<Rightarrow> (string \<times> string) list \<Rightarrow> string" where
  "self_closed tag attrs = ''  <'' @ tag @ concat (map (\<lambda>(n, v). xml_attr n v) attrs) @ ''/>''"

lemma self_close_empty:
  assumes "plain_tag tag" and "list_all (\<lambda>(n, _). plain_tag n) attrs"
  shows "self_close_line (xml_empty tag attrs) = self_closed tag attrs"
proof -
  define a where "a = ''  <'' @ tag @ concat (map (\<lambda>(n, v). xml_attr n v) attrs)"
  have "CHR ''>'' \<notin> set a" using assms attrs_safe [OF assms(2)] by (auto simp: a_def plain_tag_def)
  moreover have x: "xml_empty tag attrs = a @ ''></'' @ tag @ ''>''"
    by (simp add: xml_empty_def xml_open_def xml_close_def a_def)
  ultimately have "str_index (a @ ''></'' @ tag @ ''>'') ''></'' = Some (length a)"
    by (simp add: str_index_skip)
  moreover have "CHR ''>'' \<in> set (tl (tag @ ''>''))" using assms(1) by (cases tag) (auto simp: plain_tag_def)
  ultimately have "self_close_line (a @ ''></'' @ tag @ ''>'') = a @ ''/>''" by (simp add: self_close_line_def)
  then show ?thesis by (simp only: x) (simp add: self_closed_def a_def)
qed

lemma self_close_text:
  assumes "plain_tag tag" and "v \<noteq> []"
  shows "self_close_line (xml_text tag v) = xml_text tag v"
proof -
  obtain c w where e: "xml_escape v = c # w" using assms(2) xml_escape_Nil by (cases "xml_escape v") auto
  have "\<forall>d \<in> set (c # w). d \<noteq> CHR ''<'' \<and> d \<noteq> CHR ''>''" using xml_escape_safe [of _ v] unfolding e by blast
  then have c: "c \<noteq> CHR ''<''" "CHR ''>'' \<notin> set (c # w @ ''</'' @ tag)"
    using assms(1) by (auto simp: plain_tag_def)
  have a: "CHR ''>'' \<notin> set (''  <'' @ tag)" using assms(1) by (simp add: plain_tag_def)
  have "str_index ((c # w @ ''</'' @ tag) @ ''>'') ''></'' = None"
    by (subst str_index_skip [OF c(2)]) simp
  then have "str_index (''>'' @ (c # w @ ''</'' @ tag) @ ''>'') ''></'' = None" using c(1) by simp
  then have "str_index ((''  <'' @ tag) @ ''>'' @ (c # w @ ''</'' @ tag) @ ''>'') ''></'' = None"
    by (subst str_index_skip [OF a]) simp
  then show ?thesis by (simp add: self_close_line_def xml_text_def xml_open_def xml_close_def e)
qed

lemma self_close_tag:
  assumes "CHR ''>'' \<notin> set a"
  shows "self_close_line (a @ ''>'') = a @ ''>''"
  using str_index_skip [OF assms, of "''>''" "''</''"] by (simp add: self_close_line_def)

lemma open_tag:
  assumes "plain_tag tag" and "list_all (\<lambda>(n, _). plain_tag n) attrs"
  shows "self_close_line (xml_open tag attrs) = xml_open tag attrs" and "eol \<notin> set (xml_open tag attrs)"
proof -
  define a where "a = ''<'' @ tag @ concat (map (\<lambda>(n, v). xml_attr n v) attrs)"
  have "CHR ''>'' \<notin> set a" "eol \<notin> set a"
    using assms(1) attrs_safe [OF assms(2)] by (auto simp: a_def plain_tag_def)
  moreover have "xml_open tag attrs = a @ ''>''" by (simp add: xml_open_def a_def)
  ultimately show "self_close_line (xml_open tag attrs) = xml_open tag attrs" "eol \<notin> set (xml_open tag attrs)"
    using self_close_tag [of a] by simp_all
qed

lemma no_eol:
  assumes "plain_tag tag"
  shows "list_all (\<lambda>(n, _). plain_tag n) attrs \<Longrightarrow> eol \<notin> set (xml_empty tag attrs)"
    and "eol \<notin> set (xml_text tag v)"
  using assms attrs_safe [of attrs eol] xml_escape_safe [of eol v]
  by (auto simp: xml_empty_def xml_text_def xml_open_def xml_close_def plain_tag_def)

text \<open>A policy file as firewalld writes it: the elements without content are closed in place.\<close>

definition policy_file :: "FirewallPolicyConfig \<Rightarrow> string" where
  "policy_file pol = join [eol] (policy_lines self_closed pol)"

lemma selfClosing_lines:
  assumes "\<forall>l \<in> set ls. eol \<notin> set l" and "ls \<noteq> []"
  shows "selfClosing (join [eol] ls) = join [eol] (map self_close_line ls)"
  using split_on_join [OF assms] by (simp add: selfClosing_def)

text \<open>The regular expression that closes empty elements does it to every zone and port element of a
  policy file and to nothing else, whatever the names, ports and descriptions are: it is greedy, but
  the escaping leaves no bracket in a value and the elements are on lines of their own.\<close>

theorem selfClosing_policy: "selfClosing (policy_xml pol) = policy_file pol"
proof -
  have tags: "plain_tag ''ingress-zone''" "plain_tag ''egress-zone''" "plain_tag ''port''" "plain_tag ''short''"
    "plain_tag ''name''" "plain_tag ''protocol''" "plain_tag ''target''"
    by (simp_all add: plain_tag_def)
  let ?attrs = "if fp_target pol = [] then [] else [(''target'', fp_target pol)]"
  have "plain_tag ''policy''" "list_all (\<lambda>(n, _). plain_tag n) ?attrs" by (simp_all add: plain_tag_def)
  note open_line = open_tag [OF this]
  have close: "self_close_line (xml_close ''policy'') = xml_close ''policy''" "eol \<notin> set (xml_close ''policy'')"
    using self_close_tag [of "''</policy''"] by (simp_all add: xml_close_def)
  have attrs: "list_all (\<lambda>(n, _). plain_tag n) [(''name'', v)]" "list_all (\<lambda>(n, _). plain_tag n) (port_attrs p)" for v p
    by (simp_all add: tags port_attrs_def)
  define first where "first = xml_open ''policy'' ?attrs"
  have lines: "policy_lines el pol = first # (if fp_short pol = [] then [] else [xml_text ''short'' (fp_short pol)]) @
      el ''ingress-zone'' [(''name'', fp_ingress pol)] # el ''egress-zone'' [(''name'', fp_egress pol)] #
      map (\<lambda>p. el ''port'' (port_attrs p)) (fp_ports pol) @ [xml_close ''policy'']" for el
    by (simp add: policy_lines_def first_def)
  note first = open_line [folded first_def]
  have "\<forall>l \<in> set (policy_lines xml_empty pol). eol \<notin> set l"
    unfolding lines using first(2) close(2) no_eol(1) [OF tags(1) attrs(1)] no_eol(1) [OF tags(2) attrs(1)]
      no_eol(1) [OF tags(3) attrs(2)] no_eol(2) [OF tags(4)] by simp
  moreover have "map self_close_line (policy_lines xml_empty pol) = policy_lines self_closed pol"
    unfolding lines
    by (simp add: first(1) close(1) self_close_text [OF tags(4)] self_close_empty [OF tags(1) attrs(1)]
        self_close_empty [OF tags(2) attrs(1)] self_close_empty [OF tags(3) attrs(2)] comp_def)
  moreover have "policy_lines xml_empty pol \<noteq> []" by (simp add: policy_lines_def)
  ultimately show ?thesis using selfClosing_lines by (simp add: policy_xml_def policy_file_def)
qed

subsection \<open>What the backend makes of a rule\<close>

text \<open>An outbound rule that matches on an address becomes the very rich rule of the public zone an
  inbound one would become, and rich rules of a zone match incoming traffic; a forward rule becomes
  a policy in which neither its addresses nor, without a port, its protocol occur, so that it acts
  on all traffic between its zones.\<close>

theorem firewalld_loses_direction_and_addresses:
  "(source @ dest \<noteq> [] \<longrightarrow>
     firewalldZoneCmd (r\<lparr>fr_direction := ''out'', fr_source := source, fr_destination := dest\<rparr>) =
     firewalldZoneCmd (r\<lparr>fr_direction := ''in'', fr_source := source, fr_destination := dest\<rparr>)) \<and>
   firewalldPolicy (r\<lparr>fr_source := source, fr_destination := dest\<rparr>) = firewalldPolicy r \<and>
   firewalldPolicy (r\<lparr>fr_port := [], fr_protocol := proto\<rparr>) = firewalldPolicy (r\<lparr>fr_port := []\<rparr>)"
  by (auto simp: firewalldZoneCmd_def firewalldPolicy_def NormalizedAction_def NormalizedDirection_def
      NormalizedProtocol_def rich_rule_def firewalldFamily_def to_lower_def Let_def)

definition outbound :: fw_rule where
  "outbound = empty_rule\<lparr>fr_action := ''deny'', fr_direction := ''out''\<rparr>"

lemma firewalld_loses_direction_and_addresses_witness:
  "firewalldZoneCmd (outbound\<lparr>fr_destination := ''10.0.0.9''\<rparr>) =
   firewalldZoneCmd (outbound\<lparr>fr_direction := ''in'', fr_destination := ''10.0.0.9''\<rparr>)"
  using firewalld_loses_direction_and_addresses [of "[]" "''10.0.0.9''" outbound]
  by (simp add: outbound_def empty_rule_def)

subsection \<open>What a run leaves on a node\<close>

text \<open>The files a plan is written to, and the commands the backend runs.\<close>

definition firewalld_paths :: "Plan \<Rightarrow> string list" where
  "firewalld_paths p =
     [ipset_path firewalldNodeIPSet, ipset_path firewalldClusterIPSet, service_path] @
     map (policy_path \<circ> fst) (pl_Policies p) @
     map (\<lambda>r. policy_path (firewalldRulePrefix @ FirewallRule_Key r)) (pl_Rules p)"

definition is_add :: "string \<Rightarrow> bool" where
  "is_add c \<longleftrightarrow> prefix ''firewall-cmd --permanent --zone=trusted --add-'' c \<or>
     prefix ''firewall-cmd --permanent --zone=public --add-'' c"

definition grows :: "('s \<Rightarrow> 'a set) \<Rightarrow> ('s \<Rightarrow> 'r \<times> 's) \<Rightarrow> bool" where
  "grows v f \<longleftrightarrow> (\<forall>s. v s \<subseteq> v (snd (f s)))"

lemma grows_and_then: "grows v f \<Longrightarrow> grows v g \<Longrightarrow> grows v (and_then f g)"
  by (simp add: grows_def and_then_def split: prod.splits option.splits) (metis order_trans snd_conv)

lemma frame_grows: "frame v f \<Longrightarrow> grows v f"
  by (simp add: grows_def frame_def)

lemma grows_exec: "grows v (mc_exec M c) \<Longrightarrow> grows v (exec_step M c)"
  by (auto simp: grows_def exec_step_def split: prod.splits) (metis subsetD snd_conv)

text \<open>A host with firewalld: \<open>settings s\<close> are the permanent settings of its zones. A command that adds
  a setting takes none away and writes zone files only.\<close>

locale firewalld_host = remote_fs R files for R :: "'s remote" and files +
  fixes M :: "'s machine" and settings :: "'s \<Rightarrow> string set"
  assumes machine_fs: "mc_fs M = R"
    and write_settings: "frame settings (r_write R p c m)"
    and add_files: "is_add c \<Longrightarrow> \<not> prefix ''/etc/firewalld/zones/'' q \<Longrightarrow> frame (\<lambda>s. files s q) (mc_exec M c)"
    and add_settings: "is_add c \<Longrightarrow> grows settings (mc_exec M c)"
    and restart_same: "frame (\<lambda>s. files s q) (mc_restart M FirewalldService)" "frame settings (mc_restart M FirewalldService)"
begin

lemma write_frames:
  "frame settings (write_step M p c m)"
  "q \<noteq> p \<Longrightarrow> frame (\<lambda>s. files s q) (write_step M p c m)"
  unfolding machine_fs
  by (intro frames; auto simp: frame_def Host_WriteFile_def write_settings [unfolded frame_def] split: option.splits)
    (intro frames)

lemmas write_grows = frame_grows [OF write_frames(1)]

lemma fixed_adds:
  "is_add (''firewall-cmd --permanent --zone=trusted --add-source=ipset:'' @ name)"
  "is_add (''firewall-cmd --permanent --zone=public --add-service='' @ name)"
  by (simp_all add: is_add_def)

lemma zone_cmd_adds: "firewalldZoneCmd r = Inr c \<Longrightarrow> is_add c"
  by (auto simp: firewalldZoneCmd_def bind_res_Inr is_add_def split: if_splits)

lemma trust_set_keeps:
  "grows settings (trust_set M name kind short long entries)"
  "\<not> prefix ''/etc/firewalld/zones/'' q \<Longrightarrow> q \<noteq> ipset_path name \<Longrightarrow> frame (\<lambda>s. files s q) (trust_set M name kind short long entries)"
proof -
  let ?f = "and_then (write_step M (ipset_path name) (ipset_xml kind short long entries @ [eol]) ''0600'')
             (exec_step M (''firewall-cmd --permanent --zone=trusted --add-source=ipset:'' @ name))"
  have "grows settings ?f" by (intro grows_and_then write_grows grows_exec add_settings fixed_adds)
  then show "grows settings (trust_set M name kind short long entries)" by (simp add: grows_def trust_set_def)
  assume "\<not> prefix ''/etc/firewalld/zones/'' q" "q \<noteq> ipset_path name"
  then have "frame (\<lambda>s. files s q) ?f" by (intro frame_and_then write_frames frame_steps add_files fixed_adds)
  then show "frame (\<lambda>s. files s q) (trust_set M name kind short long entries)" by (simp add: frame_def trust_set_def)
qed

lemma ports_keep:
  "grows settings (Firewalld_applyPorts M p)"
  "\<not> prefix ''/etc/firewalld/zones/'' q \<Longrightarrow> q \<noteq> service_path \<Longrightarrow> frame (\<lambda>s. files s q) (Firewalld_applyPorts M p)"
proof -
  let ?f = "and_then (write_step M service_path (service_xml firewalldPortService (pl_Ports p) @ [eol]) ''0600'')
             (exec_step M (''firewall-cmd --permanent --zone=public --add-service='' @ firewalldPortService))"
  have "grows settings ?f" by (intro grows_and_then write_grows grows_exec add_settings fixed_adds)
  then show "grows settings (Firewalld_applyPorts M p)" by (simp add: grows_def Firewalld_applyPorts_def)
  assume "\<not> prefix ''/etc/firewalld/zones/'' q" "q \<noteq> service_path"
  then have "frame (\<lambda>s. files s q) ?f" by (intro frame_and_then write_frames frame_steps add_files fixed_adds)
  then show "frame (\<lambda>s. files s q) (Firewalld_applyPorts M p)" by (simp add: frame_def Firewalld_applyPorts_def)
qed

lemma policies_keep:
  "grows settings (apply_policies M ps names)"
  "q \<notin> policy_path ` set names \<Longrightarrow> frame (\<lambda>s. files s q) (apply_policies M ps names)"
proof (induction names)
  case Nil
  { case 1 then show ?case by (simp add: grows_def) }
  { case 2 then show ?case by (simp add: frame_def) }
next
  case (Cons n names)
  have eq: "apply_policies M ps (n # names) =
      and_then (writePolicy M n ((the (map_of ps n))\<lparr>fp_short := firewalldPolicyShort\<rparr>)) (apply_policies M ps names)"
    by (rule ext) simp
  { case 1 show ?case unfolding eq writePolicy_def by (intro grows_and_then write_grows Cons.IH) }
  { case 2 then show ?case unfolding eq writePolicy_def by (intro frame_and_then write_frames Cons.IH) auto }
qed

lemma rule_keeps:
  "grows settings (firewalld_rule M r)"
  "\<not> prefix ''/etc/firewalld/zones/'' q \<Longrightarrow> q \<noteq> policy_path (firewalldRulePrefix @ FirewallRule_Key r) \<Longrightarrow>
     frame (\<lambda>s. files s q) (firewalld_rule M r)"
  using write_grows write_frames(2) [of q] grows_exec [OF add_settings [OF zone_cmd_adds]]
    frame_steps(2) [OF add_files [OF zone_cmd_adds]]
  by (auto simp: firewalld_rule_def [abs_def] writePolicy_def grows_def frame_def split: sum.splits)

lemma rules_keep:
  "grows settings (Firewalld_applyRules M rules)"
  "\<not> prefix ''/etc/firewalld/zones/'' q \<Longrightarrow> q \<notin> (\<lambda>r. policy_path (firewalldRulePrefix @ FirewallRule_Key r)) ` set rules \<Longrightarrow>
     frame (\<lambda>s. files s q) (Firewalld_applyRules M rules)"
proof (induction rules)
  case Nil
  { case 1 then show ?case by (simp add: grows_def) }
  { case 2 then show ?case by (simp add: frame_def) }
next
  case (Cons r rules)
  have eq: "Firewalld_applyRules M (r # rules) = and_then (firewalld_rule M r) (Firewalld_applyRules M rules)"
    by (rule ext) simp
  { case 1 show ?case unfolding eq by (intro grows_and_then rule_keeps Cons.IH) }
  { case 2 then show ?case unfolding eq by (intro frame_and_then rule_keeps Cons.IH) auto }
qed

lemma Apply_keeps:
  "grows settings (Firewalld_Apply M p)"
  "\<not> prefix ''/etc/firewalld/zones/'' q \<Longrightarrow> q \<notin> set (firewalld_paths p) \<Longrightarrow> frame (\<lambda>s. files s q) (Firewalld_Apply M p)"
proof -
  have r: "frame settings (restart_step M FirewalldService)" "frame (\<lambda>s. files s q) (restart_step M FirewalldService)"
    by (intro frame_steps restart_same)+
  show "grows settings (Firewalld_Apply M p)"
    unfolding Firewalld_Apply_def Firewalld_applyClusterTrust_def Firewalld_applyPolicies_def
    by (intro grows_and_then trust_set_keeps ports_keep policies_keep rules_keep frame_grows r)
  assume q: "\<not> prefix ''/etc/firewalld/zones/'' q" "q \<notin> set (firewalld_paths p)"
  then show "frame (\<lambda>s. files s q) (Firewalld_Apply M p)"
    unfolding Firewalld_Apply_def Firewalld_applyClusterTrust_def Firewalld_applyPolicies_def
    by (intro frame_and_then trust_set_keeps ports_keep policies_keep rules_keep r)
      (auto simp: firewalld_paths_def sortedKeys_def)
qed

end

text \<open>The backend takes nothing back: whatever a run does and however it ends, the permanent
  settings of the zones still hold everything they held, and every file that is not one of the
  plan's own is as it was, so the rules and policies of an earlier run stay in force after they were
  dropped from the configuration.\<close>

theorem Firewalld_takes_nothing_back:
  assumes "firewalld_host R files M settings" and "Firewalld_Apply M p s = (e, s')"
    and "\<not> prefix ''/etc/firewalld/zones/'' q" and "q \<notin> set (firewalld_paths p)"
  shows "settings s \<subseteq> settings s' \<and> files s' q = files s q"
proof
  have "settings s \<subseteq> settings (snd (Firewalld_Apply M p s))"
    using firewalld_host.Apply_keeps(1) [OF assms(1), of p] unfolding grows_def by blast
  with assms(2) show "settings s \<subseteq> settings s'" by simp
  show "files s' q = files s q"
    using firewalld_host.Apply_keeps(2) [OF assms(1,3,4)] assms(2) by (rule frame_D)
qed

text \<open>A disk and the list of the commands run, each one a setting.\<close>

definition firewalld_node :: "(disk \<times> string list) machine" where
  "firewalld_node =
     \<lparr>mc_fs = lift_remote (disk_remote (\<lambda>_. False) (\<lambda>_. False) (\<lambda>_. False) (\<lambda>_. [])),
      mc_preferred = Some FirewalldService, mc_command = (\<lambda>_ c. c = ''firewall-cmd''), mc_running = (\<lambda>_ _. True),
      mc_output = (\<lambda>_ _. None), mc_exec = (\<lambda>c (d, cs). (None, (d, cs @ [c]))), mc_restart = (\<lambda>_ s. (None, s))\<rparr>"

interpretation firewalld: firewalld_host
  "lift_remote (disk_remote (\<lambda>_. False) (\<lambda>_. False) (\<lambda>_. False) (\<lambda>_. []))" "\<lambda>st. disk_files (fst st)"
  firewalld_node "\<lambda>st. set (snd st)"
proof (intro firewalld_host.intro firewalld_host_axioms.intro lift_remote_fs disk.remote_fs_axioms)
qed (auto simp: firewalld_node_def lift_simps frame_def grows_def lift_op_def split: prod.splits)

definition old_policy :: string where
  "old_policy = ''/etc/firewalld/policies/cargoship-old.xml''"

lemma Firewalld_takes_nothing_back_witness:
  "case Firewalld_Apply firewalld_node \<lparr>pl_NodeAddresses = [''10.0.0.1''], pl_ClusterCIDRs = [], pl_Ports = [],
       pl_Rules = [], pl_Policies = []\<rparr> ([old_policy \<mapsto> (''<policy/>'', 384)], [''add the old rule'']) of
     (e, d, cs) \<Rightarrow> e = None \<and> ''add the old rule'' \<in> set cs \<and> disk_files d old_policy = Some (''<policy/>'', 384)"
proof -
  let ?p = "\<lparr>pl_NodeAddresses = [''10.0.0.1''], pl_ClusterCIDRs = [], pl_Ports = [], pl_Rules = [], pl_Policies = []\<rparr>"
  let ?s = "([old_policy \<mapsto> (''<policy/>'', 384)], [''add the old rule'']) :: disk \<times> string list"
  have "fst (Firewalld_Apply firewalld_node ?p ?s) = None" by code_simp
  then obtain d cs where run: "Firewalld_Apply firewalld_node ?p ?s = (None, (d, cs))" by (metis prod.exhaust_sel)
  have "\<not> prefix ''/etc/firewalld/zones/'' old_policy" "old_policy \<notin> set (firewalld_paths ?p)"
    by (code_simp, code_simp)
  from Firewalld_takes_nothing_back [OF firewalld.firewalld_host_axioms run this] show ?thesis
    by (simp add: run) (simp add: disk_files_def perm_bits_def)
qed

end
