(* ===== verification/Firewall_Phase.thy ===== *)
theory Firewall_Phase
  imports Firewall_Nftables Firewall_Ufw Firewall_Firewalld
begin

section \<open>The phase that configures the firewalls\<close>

text \<open>
  Models \<open>pkg/phase/26_configure_firewall.go\<close>: the choice of the hosts and their backends in
  \<open>Prepare\<close> and the plan each host is given. \<open>mach h\<close> is the machine of the host \<open>h\<close>; the pod and
  service CIDRs come from the distro and are a parameter. One attempt of \<open>Run\<close> is modelled, not the
  thirty seconds for which it is tried again.
\<close>

definition Backend_Apply :: "'s machine \<Rightarrow> Backend \<Rightarrow> Plan \<Rightarrow> 's \<Rightarrow> apply_error option \<times> 's" where
  "Backend_Apply M b = (case b of Firewalld \<Rightarrow> Firewalld_Apply M | UFW \<Rightarrow> UFW_Apply M | Nftables \<Rightarrow> Nftables_Apply M)"

record ConfigureFirewall =
  cf_Enabled :: bool
  cf_hosts :: Hosts
  cf_backends :: "string \<rightharpoonup> Backend"
  cf_ipaddress :: "string list"

text \<open>The filter of \<open>Prepare\<close>, which fills the map of backends on the way, and the loop over the
  private addresses.\<close>

fun select_hosts ::
  "(Host \<Rightarrow> 's machine) \<Rightarrow> 's \<Rightarrow> Hosts \<times> (string \<rightharpoonup> Backend) \<Rightarrow> Hosts \<Rightarrow> Hosts \<times> (string \<rightharpoonup> Backend)"
where
  "select_hosts mach s (result, backends) [] = (result, backends)"
| "select_hosts mach s (result, backends) (h # hosts) =
     (case sel_Backend (Select (mach h) s) of
        None \<Rightarrow> select_hosts mach s (result, backends) hosts
      | Some b \<Rightarrow> select_hosts mach s (result @ [h], backends(Host_String h \<mapsto> b)) hosts)"

definition ConfigureFirewall_Prepare ::
  "(Host \<Rightarrow> 's machine) \<Rightarrow> Hosts \<Rightarrow> 's \<Rightarrow> ConfigureFirewall \<Rightarrow> ConfigureFirewall"
where
  "ConfigureFirewall_Prepare mach config_hosts s p =
     (case select_hosts mach s ([], Map.empty) config_hosts of (hosts, backends) \<Rightarrow>
        p\<lparr>cf_hosts := hosts, cf_backends := backends,
          cf_ipaddress := cf_ipaddress p @ filter (\<lambda>a. a \<noteq> []) (map h_PrivateAddress config_hosts)\<rparr>)"

definition ConfigureFirewall_ShouldRun :: "ConfigureFirewall \<Rightarrow> bool" where
  "ConfigureFirewall_ShouldRun p \<longleftrightarrow> cf_Enabled p \<and> length (cf_hosts p) > 0"

definition host_plan :: "ConfigureFirewall \<Rightarrow> string list \<Rightarrow> Host \<Rightarrow> Plan" where
  "host_plan p cidrs h =
     \<lparr>pl_NodeAddresses = cf_ipaddress p, pl_ClusterCIDRs = cidrs, pl_Ports = hcf_ports (h_Host h),
      pl_Rules = fc_rules (hcf_firewall (h_Host h)), pl_Policies = hcf_policy (h_Host h)\<rparr>"

definition configureFirewall ::
  "(apply_error \<Rightarrow> string) \<Rightarrow> (Host \<Rightarrow> 's machine) \<Rightarrow> string list \<Rightarrow> ConfigureFirewall \<Rightarrow> 's host_fun"
where
  "configureFirewall msg mach cidrs p h s =
     (case cf_backends p (Host_String h) of
        None \<Rightarrow> (None, s)
      | Some backend \<Rightarrow>
          if Plan_IsEmpty (host_plan p cidrs h) then (None, s)
          else (case Backend_Apply (mach h) backend (host_plan p cidrs h) s of
                  (None, s') \<Rightarrow> (None, s')
                | (Some e, s') \<Rightarrow>
                    (Some (Host_String h @ '': failed to configure '' @ Backend_Name backend @ '': '' @ msg e), s')))"

definition parallelDo ::
  "('s \<Rightarrow> string option) \<Rightarrow> (Hosts \<Rightarrow> Hosts) \<Rightarrow> int \<Rightarrow> Hosts \<Rightarrow> 's host_fun list \<Rightarrow> 's \<Rightarrow> (each_error option \<times> 's) option"
where
  "parallelDo ctx_err sched concurrency hosts fs s =
     (if concurrency = 0 then Some (ParallelEach ctx_err sched fs hosts s)
      else BatchedParallelEach ctx_err sched concurrency fs hosts s)"

definition ConfigureFirewall_attempt ::
  "('s \<Rightarrow> string option) \<Rightarrow> (Hosts \<Rightarrow> Hosts) \<Rightarrow> int \<Rightarrow> (apply_error \<Rightarrow> string) \<Rightarrow> (Host \<Rightarrow> 's machine) \<Rightarrow> string list \<Rightarrow>
   ConfigureFirewall \<Rightarrow> 's \<Rightarrow> (each_error option \<times> 's) option"
where
  "ConfigureFirewall_attempt ctx_err sched concurrency msg mach cidrs p =
     parallelDo ctx_err sched concurrency (cf_hosts p) [configureFirewall msg mach cidrs p]"

subsection \<open>Which hosts are configured, and how\<close>

lemma select_hosts_eq:
  "fst (select_hosts mach s (rs, bs) hosts) = rs @ filter (\<lambda>h. sel_Backend (Select (mach h) s) \<noteq> None) hosts"
  by (induction mach s "(rs, bs)" hosts arbitrary: rs bs rule: select_hosts.induct) (auto split: option.splits)

lemma select_hosts_other:
  "n \<notin> Host_String ` set hosts \<Longrightarrow> snd (select_hosts mach s (rs, bs) hosts) n = bs n"
  by (induction mach s "(rs, bs)" hosts arbitrary: rs bs rule: select_hosts.induct) (auto split: option.splits)

lemma select_hosts_backend:
  "distinct (map Host_String hosts) \<Longrightarrow> h \<in> set hosts \<Longrightarrow> bs (Host_String h) = None \<Longrightarrow>
     snd (select_hosts mach s (rs, bs) hosts) (Host_String h) = sel_Backend (Select (mach h) s)"
proof (induction hosts arbitrary: rs bs)
  case (Cons g hosts)
  show ?case
  proof (cases "h = g")
    case True
    with Cons.prems have "Host_String h \<notin> Host_String ` set hosts" by auto
    from select_hosts_other [OF this, of mach s] Cons.prems(3) True show ?thesis by (auto split: option.splits)
  next
    case False
    with Cons.prems have "Host_String g \<noteq> Host_String h" by auto
    with Cons False show ?thesis by (auto split: option.splits)
  qed
qed simp

text \<open>With hosts that print differently, \<open>Prepare\<close> takes exactly the hosts for which a backend is
  selected, and each of them is configured by its own: a host that has none, or whose preferred
  firewall is stopped, is left as it is. Every configured host trusts the private addresses of all
  hosts, also of those without a firewall. A host whose plan is empty is left as it is too, so the
  rules of an earlier run stay when the last rule is dropped.\<close>

theorem Prepare_gives_each_host_its_backend:
  assumes "distinct (map Host_String hosts)" and "h \<in> set hosts"
    and "cf = ConfigureFirewall_Prepare mach hosts s p" and "cf_ipaddress p = []"
    and "plan = \<lparr>pl_NodeAddresses = filter (\<lambda>a. a \<noteq> []) (map h_PrivateAddress hosts), pl_ClusterCIDRs = cidrs,
       pl_Ports = hcf_ports (h_Host h), pl_Rules = fc_rules (hcf_firewall (h_Host h)), pl_Policies = hcf_policy (h_Host h)\<rparr>"
  shows "cf_hosts cf = filter (\<lambda>h. sel_Backend (Select (mach h) s) \<noteq> None) hosts \<and>
    snd (configureFirewall msg mach cidrs cf h t) =
      (case sel_Backend (Select (mach h) s) of
         None \<Rightarrow> t
       | Some b \<Rightarrow> if Plan_IsEmpty plan then t else snd (Backend_Apply (mach h) b plan t))"
proof -
  obtain hs bs where sel: "select_hosts mach s ([], Map.empty) hosts = (hs, bs)" by fastforce
  have hs: "hs = filter (\<lambda>h. sel_Backend (Select (mach h) s) \<noteq> None) hosts"
    using select_hosts_eq [of mach s "[]" Map.empty hosts] sel by simp
  have bs: "bs (Host_String h) = sel_Backend (Select (mach h) s)"
    using select_hosts_backend [OF assms(1,2), of Map.empty mach s "[]"] sel by simp
  have "host_plan cf cidrs h = plan" using assms(3-5) sel by (simp add: ConfigureFirewall_Prepare_def host_plan_def)
  with assms(3) sel hs bs show ?thesis
    by (auto simp: ConfigureFirewall_Prepare_def configureFirewall_def split: option.splits prod.splits)
qed

definition web_host :: Host where
  "web_host = (sample_host ''web'' RoleWorker [])\<lparr>h_PrivateAddress := ''10.0.0.1''\<rparr>"

definition idle_phase :: ConfigureFirewall where
  "idle_phase = \<lparr>cf_Enabled = True, cf_hosts = [], cf_backends = Map.empty, cf_ipaddress = []\<rparr>"

lemma Prepare_gives_each_host_its_backend_witness:
  "cf_hosts (ConfigureFirewall_Prepare (\<lambda>_. firewalld_node) [web_host] (Map.empty, []) idle_phase) = [web_host] \<and>
   snd (configureFirewall (\<lambda>_. []) (\<lambda>_. firewalld_node) []
     (ConfigureFirewall_Prepare (\<lambda>_. firewalld_node) [web_host] (Map.empty, []) idle_phase) web_host (Map.empty, [])) =
   snd (Firewalld_Apply firewalld_node \<lparr>pl_NodeAddresses = [''10.0.0.1''], pl_ClusterCIDRs = [], pl_Ports = [],
       pl_Rules = [], pl_Policies = []\<rparr> (Map.empty, []))"
proof -
  let ?plan = "\<lparr>pl_NodeAddresses = filter (\<lambda>a. a \<noteq> []) (map h_PrivateAddress [web_host]), pl_ClusterCIDRs = [],
       pl_Ports = hcf_ports (h_Host web_host), pl_Rules = fc_rules (hcf_firewall (h_Host web_host)),
       pl_Policies = hcf_policy (h_Host web_host)\<rparr>"
  have sel: "Select firewalld_node (Map.empty, []) = \<lparr>sel_Backend = Some Firewalld, sel_Skipped = None\<rparr>"
    by code_simp
  have plan: "?plan = \<lparr>pl_NodeAddresses = [''10.0.0.1''], pl_ClusterCIDRs = [], pl_Ports = [], pl_Rules = [], pl_Policies = []\<rparr>"
    by (simp add: web_host_def sample_host_def)
  have "distinct (map Host_String [web_host])" "web_host \<in> set [web_host]" "cf_ipaddress idle_phase = []"
    by (simp_all add: idle_phase_def)
  from Prepare_gives_each_host_its_backend [OF this(1,2) refl this(3) refl, of "\<lambda>_. firewalld_node" "(Map.empty, [])" "\<lambda>_. []" "[]" "(Map.empty, [])"]
  show ?thesis unfolding plan by (simp add: sel Plan_IsEmpty_def Backend_Apply_def)
qed

end
