(* ===== verification/Run_Receipt.thy ===== *)
theory Run_Receipt
  imports Cluster_Host Phase_Manager
begin

section \<open>The receipt of a run\<close>

text \<open>
  Models \<open>internal/receipt\<close> and the expansion of receipt paths in \<open>cmd/receipt.go\<close>: the record that
  is built from the result of a run, the command line without the values of credential flags, the
  copy that is safe to share, and the file the record is written to. Instants and durations are
  nanoseconds. The release of a host's operating system, the operator, the management host and the
  platform are parameters, and so is the JSON text.
\<close>

subsection \<open>Receipts\<close>

record Invocation =
  iv_Command :: string
  iv_Args :: "string list"
  iv_Version :: string
  iv_Commit :: string
  iv_Operator :: string
  iv_Host :: string
  iv_Platform :: string
  iv_DryRun :: bool
  iv_StartedAt :: nat
  iv_FinishedAt :: nat
  iv_Duration :: string

record Package =
  pk_Path :: string
  pk_Name :: string
  pk_Version :: string
  pk_SHA256 :: string
  pk_Digest :: string
  pk_Architecture :: string
  pk_Engine :: string
  pk_Signed :: bool
  pk_Verification :: string

record Cluster =
  cl_Name :: string
  cl_LoadBalancer :: string
  cl_ConfigPath :: string
  cl_HostCount :: nat

text \<open>What one phase did to one host is the record of the phase manager; the package copies it field
  by field.\<close>

record ReceiptPhase =
  rp_Title :: string
  rp_Explanation :: string
  rp_Disposition :: string
  rp_DryRun :: string
  rp_Declared :: bool
  rp_Changed :: bool
  rp_HostsDeclared :: bool
  rp_Hosts :: "HostChange list"
  rp_Duration :: string

record ReceiptHost =
  rh_Address :: string
  rh_Hostname :: string
  rh_Role :: string
  rh_Profile :: string
  rh_Arch :: string
  rh_OS :: string
  rh_OSVersion :: string
  rh_PrivateAddress :: string
  rh_PrivateInterface :: string
  rh_EngineVersion :: string
  rh_Changed :: bool
  rh_PhasesNamed :: nat
  rh_PhasesReporting :: nat

record Outcome =
  oc_Succeeded :: bool
  oc_Error :: string
  oc_Changed :: bool
  oc_ChangedSignal :: string
  oc_ChangedUndeclared :: "string list"
  oc_HostsUndeclared :: "string list"
  oc_Warnings :: "Warning list"

record Receipt =
  rc_SchemaVersion :: string
  rc_Redacted :: bool
  rc_Invocation :: Invocation
  rc_Package :: "Package option"
  rc_Cluster :: Cluster
  rc_Phases :: "ReceiptPhase list"
  rc_Hosts :: "ReceiptHost list"
  rc_Outcome :: Outcome

definition SchemaVersion :: string where "SchemaVersion = ''1.1''"
definition DispositionRan :: string where "DispositionRan = ''ran''"
definition DispositionPlanned :: string where "DispositionPlanned = ''planned''"
definition DispositionSkipped :: string where "DispositionSkipped = ''skipped''"

subsection \<open>Durations\<close>

text \<open>\<open>time.Duration.Round\<close> and \<open>String\<close> for durations that are not negative: half a unit is rounded
  up; a fraction is printed without trailing zeros. The micro sign is its two bytes of UTF-8.\<close>

definition round_to :: "nat \<Rightarrow> nat \<Rightarrow> nat" where
  "round_to m d = (if d mod m + d mod m < m then d - d mod m else d + (m - d mod m))"

definition pad_digits :: "nat \<Rightarrow> nat \<Rightarrow> string" where
  "pad_digits k n = replicate (k - length (show_nat n)) (CHR ''0'') @ show_nat n"

definition show_frac :: "nat \<Rightarrow> nat \<Rightarrow> string" where
  "show_frac k v =
     show_nat (v div 10 ^ k) @
     (let ds = rev (dropWhile (\<lambda>c. c = CHR ''0'') (rev (pad_digits k (v mod 10 ^ k)))) in
      if ds = [] then [] else CHR ''.'' # ds)"

definition Duration_String :: "nat \<Rightarrow> string" where
  "Duration_String d =
     (if d = 0 then ''0s''
      else if d < 1000 then show_nat d @ ''ns''
      else if d < 1000000 then show_frac 3 d @ [CHR 0xC2, CHR 0xB5, CHR ''s'']
      else if d < 1000000000 then show_frac 6 d @ ''ms''
      else (let secs = d div 1000000000; mins = secs div 60 in
            (if mins = 0 then []
             else (if mins div 60 = 0 then [] else show_nat (mins div 60) @ ''h'') @ show_nat (mins mod 60) @ ''m'') @
            show_frac 9 (d mod 60000000000) @ ''s''))"

definition durationOf :: "nat \<Rightarrow> string" where
  "durationOf d =
     (if d = 0 then []
      else if d < 1000000000 then Duration_String (round_to 1000 d)
      else Duration_String (round_to 1000000 d))"

subsection \<open>Building\<close>

text \<open>A command line without its secrets; \<open>redactNext\<close> says that the next argument is a value.\<close>

definition redactedValue :: string where "redactedValue = ''<redacted>''"

definition credentialFlags :: "string list" where
  "credentialFlags =
     [''registry-password'', ''registry-pull-password'', ''registry-push-password'', ''registry-secret'',
      ''git-pull-password'', ''git-push-password'', ''password'', ''token'']"

definition credential_flag :: "string \<Rightarrow> bool" where
  "credential_flag name \<longleftrightarrow>
     has_prefix name ''-'' \<and> trim_left (\<lambda>c. c = CHR ''-'') name \<in> set credentialFlags"

fun redact_loop :: "bool \<Rightarrow> string list \<Rightarrow> string list" where
  "redact_loop redactNext [] = []"
| "redact_loop redactNext (arg # argv) =
     (if redactNext then redactedValue # redact_loop False argv
      else (case cut CHR ''='' arg of (name, _, joined) \<Rightarrow>
        if \<not> credential_flag name then arg # redact_loop False argv
        else if joined then (name @ ''='' @ redactedValue) # redact_loop False argv
        else arg # redact_loop True argv))"

definition redactArgs :: "string list \<Rightarrow> string list" where
  "redactArgs argv = (if length argv = 0 then [] else redact_loop False argv)"

fun dryRunOf :: "DryRunBehavior \<Rightarrow> string" where
  "dryRunOf DryRunReadOnly = ''read-only''"
| "dryRunOf DryRunOwnPath = ''own-path''"
| "dryRunOf DryRunSkip = ''skip''"

definition hostChangesOf :: "HostChange list \<Rightarrow> HostChange list" where
  "hostChangesOf changes =
     map (\<lambda>h. \<lparr>hc_host = hc_host h, hc_changed = hc_changed h,
            hc_details = map (\<lambda>d. \<lparr>hd_path = hd_path d, hd_reason = hd_reason d, hd_diff = hd_diff d\<rparr>) (hc_details h)\<rparr>)
       changes"

definition receipt_phase :: "string \<Rightarrow> PhaseResult \<Rightarrow> ReceiptPhase" where
  "receipt_phase disposition p =
     \<lparr>rp_Title = pr_title p, rp_Explanation = pr_explanation p, rp_Disposition = disposition,
      rp_DryRun = dryRunOf (pr_dry_run p), rp_Declared = pr_declared p, rp_Changed = pr_changed p,
      rp_HostsDeclared = pr_hosts_declared p, rp_Hosts = hostChangesOf (pr_hosts p), rp_Duration = durationOf (pr_duration p)\<rparr>"

definition phasesOf :: "RunResult \<Rightarrow> ReceiptPhase list" where
  "phasesOf r =
     concat (map (\<lambda>(disposition, results). map (receipt_phase disposition) results)
       [(DispositionRan, rr_ran r), (DispositionPlanned, rr_planned r), (DispositionSkipped, rr_skipped r)])"

text \<open>\<open>release h\<close> is the detected release of a host's operating system, if it was detected.\<close>

definition host_record :: "(Host \<Rightarrow> (string \<times> string) option) \<Rightarrow> (string \<rightharpoonup> HostSummary) \<Rightarrow> Host \<Rightarrow> ReceiptHost" where
  "host_record release summaries h =
     (let address = ConfiguredAddress h;
          base = \<lparr>rh_Address = address, rh_Hostname = hm_Hostname (h_Metadata h), rh_Role = h_Role h,
            rh_Profile = h_Profile h, rh_Arch = hm_Arch (h_Metadata h), rh_OS = [], rh_OSVersion = [],
            rh_PrivateAddress = h_PrivateAddress h, rh_PrivateInterface = h_PrivateInterface h,
            rh_EngineVersion = hm_DistroVersion (h_Metadata h), rh_Changed = False, rh_PhasesNamed = 0, rh_PhasesReporting = 0\<rparr>;
          rec = (case release h of None \<Rightarrow> base | Some (i, v) \<Rightarrow> base\<lparr>rh_OS := i, rh_OSVersion := v\<rparr>)
      in case summaries address of
           None \<Rightarrow> rec
         | Some s \<Rightarrow> rec\<lparr>rh_Changed := hs_changed s, rh_PhasesNamed := hs_named s, rh_PhasesReporting := hs_reporting s\<rparr>)"

definition hostsOf :: "(Host \<Rightarrow> (string \<times> string) option) \<Rightarrow> Hosts \<Rightarrow> RunResult \<Rightarrow> ReceiptHost list" where
  "hostsOf release hosts result =
     map (host_record release (foldl (\<lambda>m s. m(hs_host s \<mapsto> s)) Map.empty (HostSummaries result))) hosts"

record Options =
  op_Command :: string
  op_Args :: "string list"
  op_Version :: string
  op_Commit :: string
  op_ConfigPath :: string
  op_Package :: "Package option"
  op_StartedAt :: nat
  op_DryRun :: bool
  op_Observed :: bool
  op_Err :: "string option"

definition outcomeOf :: "RunResult \<Rightarrow> Options \<Rightarrow> Outcome" where
  "outcomeOf result opts =
     (let o1 = \<lparr>oc_Succeeded = (op_Err opts = None), oc_Error = (case op_Err opts of None \<Rightarrow> [] | Some e \<Rightarrow> e),
            oc_Changed = RunResult_Changed result, oc_ChangedSignal = Signal result,
            oc_ChangedUndeclared = (if \<not> Complete result then Undeclared result else []),
            oc_HostsUndeclared = HostsUndeclared result,
            oc_Warnings = map (\<lambda>w. \<lparr>w_phase = w_phase w, w_host = w_host w, w_path = w_path w, w_reason = w_reason w\<rparr>)
              (rr_warnings result)\<rparr>;
          o2 = (if \<not> op_Observed opts
                then o1\<lparr>oc_Changed := False, oc_ChangedSignal := SignalUnknown, oc_ChangedUndeclared := [], oc_HostsUndeclared := []\<rparr>
                else o1)
      in if op_DryRun opts \<and> op_Observed opts then o2\<lparr>oc_Changed := Outstanding result\<rparr> else o2)"

record run_config =
  rg_Name :: string
  rg_LoadBalancer :: string
  rg_Hosts :: Hosts

record surroundings =
  su_operator :: string
  su_host :: string
  su_platform :: string
  su_now :: nat

definition Build ::
  "surroundings \<Rightarrow> (Host \<Rightarrow> (string \<times> string) option) \<Rightarrow> run_config option \<Rightarrow> RunResult \<Rightarrow> Options \<Rightarrow> Receipt"
where
  "Build su release cfg result opts =
     \<lparr>rc_SchemaVersion = SchemaVersion, rc_Redacted = False,
      rc_Invocation = \<lparr>iv_Command = op_Command opts, iv_Args = redactArgs (op_Args opts), iv_Version = op_Version opts,
        iv_Commit = op_Commit opts, iv_Operator = su_operator su, iv_Host = su_host su, iv_Platform = su_platform su,
        iv_DryRun = op_DryRun opts, iv_StartedAt = op_StartedAt opts, iv_FinishedAt = su_now su,
        iv_Duration = durationOf (su_now su - op_StartedAt opts)\<rparr>,
      rc_Package = op_Package opts,
      rc_Cluster = (case cfg of
          None \<Rightarrow> \<lparr>cl_Name = [], cl_LoadBalancer = [], cl_ConfigPath = [], cl_HostCount = 0\<rparr>
        | Some c \<Rightarrow> \<lparr>cl_Name = rg_Name c, cl_LoadBalancer = rg_LoadBalancer c, cl_ConfigPath = op_ConfigPath opts,
            cl_HostCount = length (rg_Hosts c)\<rparr>),
      rc_Phases = phasesOf result,
      rc_Hosts = (case cfg of None \<Rightarrow> [] | Some c \<Rightarrow> hostsOf release (rg_Hosts c) result),
      rc_Outcome = outcomeOf result opts\<rparr>"

subsection \<open>The table of hosts\<close>

text \<open>The rows that \<open>cmd/receipt_table.go\<close> prints, without colours.\<close>

definition anyHostReported :: "Receipt \<Rightarrow> bool" where
  "anyHostReported r \<longleftrightarrow> list_ex (\<lambda>h. rh_PhasesReporting h > 0) (rc_Hosts r)"

definition changedCell :: "ReceiptHost \<Rightarrow> string" where
  "changedCell h =
     (if rh_PhasesReporting h = 0 \<or> rh_PhasesNamed h = 0 then ''-'' else if rh_Changed h then ''yes'' else ''no'')"

definition phasesCell :: "ReceiptHost \<Rightarrow> string" where
  "phasesCell h =
     (if rh_PhasesReporting h = 0 then ''-'' else show_nat (rh_PhasesNamed h) @ ''/'' @ show_nat (rh_PhasesReporting h))"

definition host_rows :: "Receipt \<Rightarrow> string list list" where
  "host_rows r =
     (if length (rc_Hosts r) = 0 \<or> \<not> anyHostReported r then []
      else map (\<lambda>h. [rh_Address h, rh_Role h, changedCell h, phasesCell h]) (rc_Hosts r))"

lemma summary_of_named:
  assumes "distinct (map hs_host ss)"
  shows "foldl (\<lambda>m s. m(hs_host s \<mapsto> s)) m ss k =
    (case find (\<lambda>s. hs_host s = k) ss of None \<Rightarrow> m k | Some s \<Rightarrow> Some s)"
  using assms
proof (induction ss arbitrary: m)
  case (Cons a ss)
  have "find (\<lambda>s. hs_host s = k) ss = None" if "hs_host a = k"
    using Cons.prems that by (auto simp: find_None_iff image_iff)
  with Cons show ?case by (auto split: option.splits)
qed simp

lemma find_rolled_up:
  "find (\<lambda>s. hs_host s = k) (map (roll_up n hs) ks) = (if k \<in> set ks then Some (roll_up n hs k) else None)"
  by (induction ks) (auto simp: roll_up_def)

lemma summary_of_host:
  "foldl (\<lambda>m s. m(hs_host s \<mapsto> s)) Map.empty (HostSummaries result) k =
   (if k \<in> hc_host ` set (all_changes result)
    then Some (roll_up (length (filter pr_hosts_declared (groups result))) (all_changes result) k) else None)"
proof -
  have "distinct (map hs_host (HostSummaries result))"
    by (simp add: summaries_rolled_up comp_def roll_up_def)
  then show ?thesis
    by (simp add: summary_of_named summaries_rolled_up find_rolled_up del: set_map)
       (auto simp: find_rolled_up)
qed

text \<open>The receipt lists every host of the configuration, in its order, whether or not a phase
  reached it: with the number of times a phase named it and whether one of those said it changed.
  The number of phases that report per host stands beside it only if one of them named the host:
  for one that no phase reached it is zero, and the table shows no fraction.\<close>

theorem Build_lists_hosts:
  "map (\<lambda>h. (rh_Address h, rh_Changed h, rh_PhasesNamed h, rh_PhasesReporting h))
     (rc_Hosts (Build su release (Some c) result opts)) =
   map (\<lambda>h. let k = ConfiguredAddress h;
                named = filter (\<lambda>c. hc_host c = k) (all_changes result)
            in (k, list_ex hc_changed named, length named,
                if named = [] then 0 else length (filter pr_hosts_declared (groups result))))
     (rg_Hosts c)"
proof -
  have entry: "(rh_Address r, rh_Changed r, rh_PhasesNamed r, rh_PhasesReporting r) =
      (case m (ConfiguredAddress h) of None \<Rightarrow> (ConfiguredAddress h, False, 0, 0)
       | Some s \<Rightarrow> (ConfiguredAddress h, hs_changed s, hs_named s, hs_reporting s))"
    if "r = host_record release m h" for r m h
    using that by (simp add: host_record_def Let_def split: option.split)
  show ?thesis
    by (auto simp: Build_def hostsOf_def entry [OF refl] summary_of_host Let_def roll_up_def
        filter_empty_conv list_ex_iff image_iff)
qed

subsection \<open>Redaction\<close>

definition hostAlias :: "nat \<Rightarrow> string" where
  "hostAlias i = ''host-'' @ pad_digits 2 (i + 1)"

definition assign :: "(string \<rightharpoonup> string) \<times> nat \<Rightarrow> string \<Rightarrow> (string \<rightharpoonup> string) \<times> nat" where
  "assign st address =
     (case st of (aliases, next) \<Rightarrow>
        if address = [] then st
        else if aliases address \<noteq> None then st
        else (aliases(address \<mapsto> hostAlias next), next + 1))"

definition mentioned :: "Receipt \<Rightarrow> string list" where
  "mentioned r =
     map rh_Address (rc_Hosts r) @ concat (map (\<lambda>p. map hc_host (rp_Hosts p)) (rc_Phases r)) @
     map w_host (oc_Warnings (rc_Outcome r))"

definition hostAliases :: "Receipt \<Rightarrow> string \<rightharpoonup> string" where
  "hostAliases r = fst (foldl assign (Map.empty, 0) (mentioned r))"

definition outcomeWithoutWarnings :: "Outcome \<Rightarrow> Outcome" where
  "outcomeWithoutWarnings o1 = o1\<lparr>oc_Warnings := []\<rparr>"

text \<open>A lookup in a Go map gives the empty string for what is not in it.\<close>

definition alias_of :: "(string \<rightharpoonup> string) \<Rightarrow> string \<Rightarrow> string" where
  "alias_of aliases a = (case aliases a of None \<Rightarrow> [] | Some b \<Rightarrow> b)"

definition redact_host :: "(string \<Rightarrow> string) \<Rightarrow> ReceiptHost \<Rightarrow> ReceiptHost" where
  "redact_host al h =
     \<lparr>rh_Address = al (rh_Address h), rh_Hostname = [], rh_Role = rh_Role h, rh_Profile = rh_Profile h,
      rh_Arch = rh_Arch h, rh_OS = rh_OS h, rh_OSVersion = rh_OSVersion h, rh_PrivateAddress = [],
      rh_PrivateInterface = [], rh_EngineVersion = rh_EngineVersion h, rh_Changed = rh_Changed h,
      rh_PhasesNamed = rh_PhasesNamed h, rh_PhasesReporting = rh_PhasesReporting h\<rparr>"

definition redact_change :: "(string \<Rightarrow> string) \<Rightarrow> HostChange \<Rightarrow> HostChange" where
  "redact_change al h =
     \<lparr>hc_host = al (hc_host h), hc_changed = hc_changed h,
      hc_details = map (\<lambda>d. \<lparr>hd_path = hd_path d, hd_reason = hd_reason d, hd_diff = []\<rparr>) (hc_details h)\<rparr>"

definition redact_phase :: "(string \<Rightarrow> string) \<Rightarrow> ReceiptPhase \<Rightarrow> ReceiptPhase" where
  "redact_phase al p =
     \<lparr>rp_Title = rp_Title p, rp_Explanation = rp_Explanation p, rp_Disposition = rp_Disposition p,
      rp_DryRun = rp_DryRun p, rp_Declared = rp_Declared p, rp_Changed = rp_Changed p,
      rp_HostsDeclared = rp_HostsDeclared p, rp_Hosts = map (redact_change al) (rp_Hosts p), rp_Duration = rp_Duration p\<rparr>"

definition redact_warning :: "(string \<Rightarrow> string) \<Rightarrow> Warning \<Rightarrow> Warning" where
  "redact_warning al w = \<lparr>w_phase = w_phase w, w_host = al (w_host w), w_path = w_path w, w_reason = w_reason w\<rparr>"

definition Redact :: "Receipt \<Rightarrow> Receipt" where
  "Redact r =
     (let al = alias_of (hostAliases r) in
      \<lparr>rc_SchemaVersion = rc_SchemaVersion r, rc_Redacted = True,
       rc_Invocation = (rc_Invocation r)\<lparr>iv_Args := [], iv_Operator := [], iv_Host := []\<rparr>,
       rc_Package = map_option (\<lambda>p. p\<lparr>pk_Path := []\<rparr>) (rc_Package r),
       rc_Cluster = \<lparr>cl_Name = [], cl_LoadBalancer = [], cl_ConfigPath = [], cl_HostCount = cl_HostCount (rc_Cluster r)\<rparr>,
       rc_Phases = map (redact_phase al) (rc_Phases r),
       rc_Hosts = map (redact_host al) (rc_Hosts r),
       rc_Outcome = (outcomeWithoutWarnings (rc_Outcome r))
         \<lparr>oc_Warnings := map (redact_warning al) (oc_Warnings (rc_Outcome r))\<rparr>\<rparr>)"

subsection \<open>Writing\<close>

text \<open>
  The file at the receipt's path, with its content and mode, and how the calls on it turn out:
  \<open>wo_write\<close> is the number of bytes a write that fails gets to. The result of \<open>Write\<close> is its error and
  the states the file goes through, the last one being what it leaves.
\<close>

type_synonym local_file = "(string \<times> nat) option"

datatype write_error = DirectoryFailed | EncodeFailed | CreateFailed | PermissionsFailed | WriteFailed | CloseFailed

record write_outcomes =
  wo_mkdir :: bool
  wo_encode :: "string option"
  wo_open :: bool
  wo_chmod :: bool
  wo_write :: "nat option"
  wo_close :: bool

definition fileMode :: nat where "fileMode = 384"

definition truncated :: "local_file \<Rightarrow> local_file" where
  "truncated f = Some ([], case f of None \<Rightarrow> fileMode | Some (_, m) \<Rightarrow> m)"

definition writeReceipt :: "write_outcomes \<Rightarrow> string \<Rightarrow> local_file \<Rightarrow> write_error option \<times> local_file list" where
  "writeReceipt wo b f =
     (if \<not> wo_chmod wo then (Some PermissionsFailed, [f])
      else (let g = map_option (\<lambda>(c, _). (c, fileMode)) f in
        case wo_write wo of
          Some n \<Rightarrow> (Some WriteFailed, [f, g, map_option (\<lambda>(c, m). (c @ take n b, m)) g])
        | None \<Rightarrow> (None, [f, g, map_option (\<lambda>(c, m). (c @ b, m)) g])))"

definition Receipt_Write :: "write_outcomes \<Rightarrow> string \<Rightarrow> local_file \<Rightarrow> write_error option \<times> local_file list" where
  "Receipt_Write wo dir f =
     (if dir \<noteq> [] \<and> dir \<noteq> ''.'' \<and> \<not> wo_mkdir wo then (Some DirectoryFailed, [f])
      else (case wo_encode wo of
        None \<Rightarrow> (Some EncodeFailed, [f])
      | Some b \<Rightarrow>
          if \<not> wo_open wo then (Some CreateFailed, [f])
          else (case writeReceipt wo (b @ [CHR 0x0A]) (truncated f) of
                  (e, fs) \<Rightarrow> (if \<not> wo_close wo \<and> e = None then Some CloseFailed else e, f # fs))))"

text \<open>At no moment is any part of a receipt in a file that others may read, whatever mode the file
  had before and whichever call fails; and when the write succeeds the file holds the whole document
  and nothing of an earlier one, with mode 0600.\<close>

theorem Receipt_Write_private:
  "list_all (\<lambda>g. g = f \<or> (case g of None \<Rightarrow> True | Some (c, m) \<Rightarrow> c = [] \<or> m = fileMode)) (snd (Receipt_Write wo dir f)) \<and>
   (fst (Receipt_Write wo dir f) \<noteq> None \<or>
    map_option (\<lambda>b. (b @ [CHR 0x0A], fileMode)) (wo_encode wo) = last (snd (Receipt_Write wo dir f)))"
  by (auto simp: Receipt_Write_def writeReceipt_def truncated_def Let_def split: option.splits)

subsection \<open>The path of a receipt\<close>

definition brace :: "char \<Rightarrow> bool" where
  "brace c \<longleftrightarrow> c = CHR 0x7B \<or> c = CHR 0x7D"

text \<open>The replacement of every match of \<open>receiptPathPlaceholder\<close>, from the left: an opening brace, no
  braces, a closing brace. The second component lists the matches that are not known.\<close>

function expand_loop :: "(string \<Rightarrow> string option) \<Rightarrow> string \<Rightarrow> string \<times> string list" where
  "expand_loop f [] = ([], [])"
| "expand_loop f (c # s) =
     (let name = takeWhile (\<lambda>d. \<not> brace d) s; rest = dropWhile (\<lambda>d. \<not> brace d) s in
      if c = CHR 0x7B \<and> rest \<noteq> [] \<and> hd rest = CHR 0x7D then
        (case expand_loop f (tl rest) of (out, unknown) \<Rightarrow>
           let match = CHR 0x7B # name @ [CHR 0x7D] in
           (case f match of
              Some v \<Rightarrow> (v @ out, unknown)
            | None \<Rightarrow> (match @ out, match # unknown)))
      else (case expand_loop f s of (out, unknown) \<Rightarrow> (c # out, unknown)))"
  by pat_completeness auto
termination
  by (relation "measure (\<lambda>(f, s). length s)") (auto intro: le_less_trans [OF diff_le_self] le_imp_less_Suc length_dropWhile_le)

definition receipt_value :: "string \<Rightarrow> string \<Rightarrow> string \<Rightarrow> string option" where
  "receipt_value command stamp match =
     (if match = CHR 0x7B # ''command'' @ [CHR 0x7D] then Some command
      else if match = CHR 0x7B # ''timestamp'' @ [CHR 0x7D] then Some stamp else None)"

definition expandReceiptPath :: "string \<Rightarrow> string \<Rightarrow> string \<Rightarrow> string list + string" where
  "expandReceiptPath path command stamp =
     (if path = [] then Inr []
      else (case expand_loop (receipt_value command stamp) path of (expanded, unknown) \<Rightarrow>
        if length unknown > 0 then Inl unknown else Inr expanded))"

text \<open>A path as its writer means it: text without braces, and placeholders.\<close>

datatype piece = Lit string | Hole string

fun piece_text :: "piece \<Rightarrow> string" where
  "piece_text (Lit t) = t"
| "piece_text (Hole n) = CHR 0x7B # n @ [CHR 0x7D]"

fun plain_piece :: "piece \<Rightarrow> bool" where
  "plain_piece (Lit t) = list_all (\<lambda>c. \<not> brace c) t"
| "plain_piece (Hole n) = list_all (\<lambda>c. \<not> brace c) n"

fun piece_value :: "string \<Rightarrow> string \<Rightarrow> piece \<Rightarrow> string option" where
  "piece_value command stamp (Lit t) = Some t"
| "piece_value command stamp (Hole n) =
     (if n = ''command'' then Some command else if n = ''timestamp'' then Some stamp else None)"

lemma expand_literal:
  "list_all (\<lambda>c. \<not> brace c) t \<Longrightarrow>
     expand_loop f (t @ s) = (t @ fst (expand_loop f s), snd (expand_loop f s))"
  by (induction t) (auto simp: brace_def Let_def split: prod.splits)

lemma expand_hole:
  assumes "list_all (\<lambda>c. \<not> brace c) n"
  shows "expand_loop f ((CHR 0x7B # n @ [CHR 0x7D]) @ s) =
    (case f (CHR 0x7B # n @ [CHR 0x7D]) of
       Some v \<Rightarrow> (v @ fst (expand_loop f s), snd (expand_loop f s))
     | None \<Rightarrow> ((CHR 0x7B # n @ [CHR 0x7D]) @ fst (expand_loop f s), (CHR 0x7B # n @ [CHR 0x7D]) # snd (expand_loop f s)))"
proof -
  have "takeWhile (\<lambda>d. \<not> brace d) (n @ CHR 0x7D # s) = n" "dropWhile (\<lambda>d. \<not> brace d) (n @ CHR 0x7D # s) = CHR 0x7D # s"
    using assms by (induction n) (auto simp: brace_def)
  then show ?thesis by (auto simp: Let_def split: prod.splits option.splits)
qed

declare expand_loop.simps(2) [simp del]

lemma receipt_value_hole:
  "receipt_value command stamp (CHR 0x7B # n @ [CHR 0x7D]) = piece_value command stamp (Hole n)"
  by (simp add: receipt_value_def)

lemma expand_pieces:
  "list_all plain_piece ps \<Longrightarrow>
   snd (expand_loop (receipt_value command stamp) (concat (map piece_text ps))) =
     map piece_text (filter (\<lambda>p. piece_value command stamp p = None) ps) \<and>
   (list_all (\<lambda>p. piece_value command stamp p \<noteq> None) ps \<longrightarrow>
    fst (expand_loop (receipt_value command stamp) (concat (map piece_text ps))) =
      concat (map (\<lambda>p. the (piece_value command stamp p)) ps))"
proof (induction ps)
  case (Cons p ps)
  show ?case
  proof (cases p)
    case (Lit t)
    with Cons show ?thesis by (simp add: expand_literal)
  next
    case (Hole n)
    with Cons.prems have "list_all (\<lambda>c. \<not> brace c) n" by simp
    note hole = expand_hole [OF this, of "receipt_value command stamp"]
    from Cons Hole show ?thesis
      by (simp add: hole [simplified] receipt_value_hole [simplified] split: option.splits)
  qed
qed simp

text \<open>A receipt path is expanded when every placeholder in it is one of the two that are known, and
  then every one of them is; otherwise the run is refused with all that are not known, in the order
  they stand in the path.\<close>

theorem expandReceiptPath_pieces:
  assumes "list_all plain_piece ps"
  shows "expandReceiptPath (concat (map piece_text ps)) command stamp =
    (case filter (\<lambda>p. piece_value command stamp p = None) ps of
       [] \<Rightarrow> Inr (concat (map (\<lambda>p. the (piece_value command stamp p)) ps))
     | unknown \<Rightarrow> Inl (map piece_text unknown))"
proof (cases "concat (map piece_text ps) = []")
  case True
  have "piece_text p = [] \<Longrightarrow> p = Lit []" for p by (cases p) auto
  with True have "\<forall>p \<in> set ps. p = Lit []" by auto
  then have "filter (\<lambda>p. piece_value command stamp p = None) ps = []"
    "concat (map (\<lambda>p. the (piece_value command stamp p)) ps) = []"
    by (auto simp: filter_empty_conv)
  with True show ?thesis by (simp add: expandReceiptPath_def)
next
  case False
  have known: "list_all (\<lambda>p. piece_value command stamp p \<noteq> None) ps"
    if "filter (\<lambda>p. piece_value command stamp p = None) ps = []"
    using that by (auto simp: filter_empty_conv list_all_iff)
  from expand_pieces [OF assms, of command stamp] False known show ?thesis
    by (auto simp: expandReceiptPath_def split: prod.splits list.splits)
qed

lemma expandReceiptPath_pieces_witness:
  "expandReceiptPath (concat (map piece_text [Lit ''log/'', Hole ''command'', Lit ''.json''])) ''apply'' ''now'' = Inr ''log/apply.json''"
  using expandReceiptPath_pieces [of "[Lit ''log/'', Hole ''command'', Lit ''.json'']" "''apply''" "''now''"]
  by (simp add: brace_def)

subsection \<open>What a shared receipt gives away\<close>

text \<open>A receipt under other addresses, without what the redaction is to hide: the arguments, the
  operator, the management host, the path of the package, the names of the cluster and of the
  hosts, their private addresses and interfaces, and the diffs.\<close>

definition disguise_host :: "(string \<Rightarrow> string) \<Rightarrow> ReceiptHost \<Rightarrow> ReceiptHost" where
  "disguise_host f h =
     h\<lparr>rh_Address := f (rh_Address h), rh_Hostname := [], rh_PrivateAddress := [], rh_PrivateInterface := []\<rparr>"

definition disguise_change :: "(string \<Rightarrow> string) \<Rightarrow> HostChange \<Rightarrow> HostChange" where
  "disguise_change f h = h\<lparr>hc_host := f (hc_host h), hc_details := map (\<lambda>d. d\<lparr>hd_diff := []\<rparr>) (hc_details h)\<rparr>"

definition disguise :: "(string \<Rightarrow> string) \<Rightarrow> Receipt \<Rightarrow> Receipt" where
  "disguise f r =
     r\<lparr>rc_Redacted := True,
       rc_Invocation := (rc_Invocation r)\<lparr>iv_Args := [], iv_Operator := [], iv_Host := []\<rparr>,
       rc_Package := map_option (\<lambda>p. p\<lparr>pk_Path := []\<rparr>) (rc_Package r),
       rc_Cluster := (rc_Cluster r)\<lparr>cl_Name := [], cl_LoadBalancer := [], cl_ConfigPath := []\<rparr>,
       rc_Phases := map (\<lambda>p. p\<lparr>rp_Hosts := map (disguise_change f) (rp_Hosts p)\<rparr>) (rc_Phases r),
       rc_Hosts := map (disguise_host f) (rc_Hosts r),
       rc_Outcome := (rc_Outcome r)\<lparr>oc_Warnings := map (\<lambda>w. w\<lparr>w_host := f (w_host w)\<rparr>) (oc_Warnings (rc_Outcome r))\<rparr>\<rparr>"

lemma mentioned_disguise: "mentioned (disguise f r) = map f (mentioned r)"
  by (simp add: mentioned_def disguise_def disguise_host_def disguise_change_def comp_def map_concat)

text \<open>Aliases follow the positions of the addresses and nothing else.\<close>

lemma assign_renamed:
  assumes "inj_on f (insert [] A)" and "f [] = []" and "set as \<subseteq> A"
    and "\<forall>a \<in> A. m' (f a) = m a"
  shows "\<forall>a \<in> A. fst (foldl assign (m', n) (map f as)) (f a) = fst (foldl assign (m, n) as) a"
  using assms(3,4)
proof (induction as arbitrary: m m' n)
  case (Cons x xs)
  have fx: "f a = f x \<longleftrightarrow> a = x" if "a \<in> A" for a
    using assms(1) that Cons.prems(1) by (auto dest: inj_onD)
  have nil: "f x = [] \<longleftrightarrow> x = []"
    using assms(1,2) Cons.prems(1) by (metis inj_onD insertCI insert_subset list.simps(15))
  have x: "m' (f x) = m x" using Cons.prems by simp
  define step where "step = assign (m, n) x"
  define step' where "step' = assign (m', n) (f x)"
  have "snd step' = snd step" "\<forall>a \<in> A. fst step' (f a) = fst step a"
    using Cons.prems(2) fx nil x by (auto simp: step_def step'_def assign_def)
  then obtain k k' j where "step = (k, j)" "step' = (k', j)" "\<forall>a \<in> A. k' (f a) = k a"
    by (metis prod.collapse)
  moreover have "set xs \<subseteq> A" using Cons.prems(1) by simp
  ultimately show ?case using Cons.IH [of k' k j] by (simp add: step_def step'_def)
qed simp

lemma aliases_renamed:
  assumes "inj_on f (insert [] (set (mentioned r)))" and "f [] = []" and "a \<in> set (mentioned r)"
  shows "alias_of (hostAliases (disguise f r)) (f a) = alias_of (hostAliases r) a"
  using assign_renamed [OF assms(1,2) subset_refl, of Map.empty Map.empty 0] assms(3)
  by (simp add: hostAliases_def mentioned_disguise alias_of_def)

lemma redact_disguised:
  "al (f (rh_Address h)) = al' (rh_Address h) \<Longrightarrow> redact_host al (disguise_host f h) = redact_host al' h"
  "al (f (hc_host c)) = al' (hc_host c) \<Longrightarrow> redact_change al (disguise_change f c) = redact_change al' c"
  "al (f (w_host w)) = al' (w_host w) \<Longrightarrow> redact_warning al (w\<lparr>w_host := f (w_host w)\<rparr>) = redact_warning al' w"
  by (simp_all add: redact_host_def redact_change_def redact_warning_def disguise_host_def disguise_change_def)

lemma Redact_disguise:
  assumes "inj_on f (insert [] (set (mentioned r)))" and "f [] = []"
  shows "Redact (disguise f r) = Redact r"
proof -
  let ?al = "alias_of (hostAliases (disguise f r))" and ?al' = "alias_of (hostAliases r)"
  note al = aliases_renamed [OF assms]
  have "map (redact_host ?al) (map (disguise_host f) (rc_Hosts r)) = map (redact_host ?al') (rc_Hosts r)"
    by (simp, intro redact_disguised(1) ballI al) (simp add: mentioned_def)
  moreover have "map (redact_phase ?al) (map (\<lambda>p. p\<lparr>rp_Hosts := map (disguise_change f) (rp_Hosts p)\<rparr>) (rc_Phases r)) =
      map (redact_phase ?al') (rc_Phases r)"
    by (auto simp: redact_phase_def intro!: redact_disguised(2) al) (auto simp: mentioned_def)
  moreover have "map (redact_warning ?al) (map (\<lambda>w. w\<lparr>w_host := f (w_host w)\<rparr>) (oc_Warnings (rc_Outcome r))) =
      map (redact_warning ?al') (oc_Warnings (rc_Outcome r))"
    by (simp, intro redact_disguised(3) ballI al) (simp add: mentioned_def)
  ultimately show ?thesis
    by (simp add: Redact_def disguise_def Let_def outcomeWithoutWarnings_def option.map_comp comp_def
        del: map_map)
qed

text \<open>C19. A redacted receipt says nothing about what is hidden: two receipts that are the same up to
  the names of the hosts and the hidden fields have the same redacted form, whatever the addresses
  and the hidden fields are, as long as different hosts have different addresses in both.\<close>

theorem Redact_hides:
  assumes "inj_on f (insert [] (set (mentioned r)))" and "f [] = []" and "disguise id r' = disguise f r"
  shows "Redact r' = Redact r"
proof -
  have "Redact r' = Redact (disguise id r')" by (rule Redact_disguise [symmetric]) simp_all
  also have "\<dots> = Redact r" using assms Redact_disguise by simp
  finally show ?thesis .
qed

lemma pad_digits_inject: "pad_digits k n = pad_digits k m \<longleftrightarrow> n = m"
proof -
  have "foldl (\<lambda>n c. 10 * n + digit_val c) 0 (replicate j (CHR ''0'')) = 0" for j
    by (induction j) (simp_all add: digit_val_def byte_def)
  then have "foldl (\<lambda>n c. 10 * n + digit_val c) 0 (pad_digits k n) = n" for n
    by (simp add: pad_digits_def show_nat_value)
  then show ?thesis by metis
qed

lemma assign_inv:
  assumes "\<forall>a i. m a = Some i \<longrightarrow> (\<exists>k < n. i = hostAlias k)" and "inj_on m (dom m)" and "m [] = None"
  shows "case foldl assign (m, n) as of (m', n') \<Rightarrow>
    inj_on m' (dom m') \<and> m' [] = None \<and> dom m' = dom m \<union> (set as - {[]})"
  using assms
proof (induction as arbitrary: m n)
  case (Cons x xs)
  show ?case
  proof (cases "x = [] \<or> m x \<noteq> None")
    case True
    then have "assign (m, n) x = (m, n)" by (auto simp: assign_def)
    with Cons.IH [OF Cons.prems] True show ?thesis by (auto split: prod.splits)
  next
    case False
    let ?m = "m(x \<mapsto> hostAlias n)"
    have step: "assign (m, n) x = (?m, n + 1)" using False by (simp add: assign_def)
    have names: "hostAlias i = hostAlias j \<longleftrightarrow> i = j" for i j
      by (simp add: hostAlias_def pad_digits_inject)
    have fresh: "m a \<noteq> Some (hostAlias n)" for a
      using Cons.prems(1) names by (metis less_irrefl)
    have inj: "inj_on ?m (dom ?m)"
      using Cons.prems(2) fresh fresh [symmetric] unfolding inj_on_def by simp
    have below: "\<forall>a i. ?m a = Some i \<longrightarrow> (\<exists>k < n + 1. i = hostAlias k)"
      using Cons.prems(1) by (auto, meson less_SucI)
    have nil: "?m [] = None" using Cons.prems(3) False by auto
    define mm where "mm = ?m"
    obtain m' n' where fold: "foldl assign (mm, n + 1) xs = (m', n')" by fastforce
    have dom: "dom mm = insert x (dom m)" by (auto simp: mm_def)
    from Cons.IH [OF below inj nil]
    have "inj_on m' (dom m')" "m' [] = None" "dom m' = insert x (dom m) \<union> (set xs - {[]})"
      unfolding mm_def [symmetric] fold dom prod.case by (blast, blast, blast)
    moreover have "insert x (dom m) \<union> (set xs - {[]}) = dom m \<union> (set (x # xs) - {[]})" using False by auto
    ultimately have "inj_on m' (dom m') \<and> m' [] = None \<and> dom m' = dom m \<union> (set (x # xs) - {[]})" by (intro conjI) (assumption+, rule trans)
    moreover have "foldl assign (m, n) (x # xs) = (m', n')"
      using fold by (simp add: step mm_def [symmetric] del: fun_upd_apply)
    ultimately show ?thesis by - (erule ssubst, unfold prod.case)
  qed
qed simp

text \<open>The aliases keep hosts apart: every address a receipt mentions has one, and two that are
  mentioned have the same alias only if they are the same.\<close>

theorem hostAliases_distinct:
  "inj_on (hostAliases r) (set (mentioned r) - {[]}) \<and> dom (hostAliases r) = set (mentioned r) - {[]}"
  using assign_inv [of Map.empty 0 "mentioned r"]
  by (auto simp: hostAliases_def split: prod.splits)

text \<open>The text of the error of a step over a list of hosts, as \<open>ParallelEach\<close> builds it.\<close>

fun each_error_text :: "each_error \<Rightarrow> string" where
  "each_error_text (ContextError c) = ''error from context: '' @ c"
| "each_error_text (HostError e) = e"
| "each_error_text (FailedOn n es) =
     ''failed on '' @ show_nat n @ '' hosts:'' @ [CHR 0x0A] @ '' - '' @ join ([CHR 0x0A] @ '' - '') es"

lemma run_goroutine_keeps:
  "foldl (run_goroutine ctx_err f) (es, s) hs = (es', s') \<Longrightarrow> set es \<subseteq> set es'"
  by (induction hs arbitrary: es s) (fastforce simp: run_goroutine_def split: option.splits prod.splits)+

lemma failed_host_listed:
  assumes "foldl (run_goroutine ctx_err f) (es, s) hs = (es', s')" and "h \<in> set hs"
    and "\<And>t. ctx_err t = None" and "\<And>t. fst (f h t) = Some e"
  shows "Host_String h @ '': '' @ e \<in> set es'"
  using assms(1,2)
proof (induction hs arbitrary: es s)
  case (Cons g hs)
  obtain es1 s1 where step: "run_goroutine ctx_err f (es, s) g = (es1, s1)" by fastforce
  show ?case
  proof (cases "g = h")
    case True
    with step assms(3,4) have "Host_String h @ '': '' @ e \<in> set es1"
      by (auto simp: run_goroutine_def split: prod.splits option.splits) (metis fst_conv option.sel option.distinct(1))+
    with run_goroutine_keeps Cons.prems(1) step show ?thesis by fastforce
  next
    case False
    with Cons step show ?thesis by simp
  qed
qed simp

lemma join_member:
  assumes "x \<in> set xs" shows "\<exists>p q. join sep xs = p @ x @ q"
  using assms
proof (induction xs rule: join.induct)
  case (3 sep x1 y ys)
  then show ?case by simp (metis append.assoc append_Nil)
qed (auto intro: exI [of _ "[]"])

text \<open>The error of the run is carried over as it stands. The error of a step over the hosts names
  each host that failed, so the receipt of a run that failed on a host gives its name away, although
  the host is \<open>host-01\<close> everywhere else in it.\<close>

theorem redacted_error_names_the_host:
  assumes "ParallelEach ctx_err sched [f] hosts s = (Some e, s')" and "h \<in> set (sched hosts)"
    and "\<And>t. ctx_err t = None" and "\<And>t. fst (f h t) = Some m" and "op_Err opts = Some (each_error_text e)"
  shows "\<exists>p q. oc_Error (rc_Outcome (Redact (Build su release cfg result opts))) = p @ (Host_String h @ '': '' @ m) @ q"
proof -
  obtain es s1 where run: "foldl (run_goroutine ctx_err f) ([], s) (sched hosts) = (es, s1)" by fastforce
  from failed_host_listed [OF this assms(2,3,4)] have listed: "Host_String h @ '': '' @ m \<in> set es" .
  with assms(1) run have e: "e = FailedOn (length es) es"
    by (auto simp: ParallelEach_def split: if_splits)
  have error: "oc_Error (rc_Outcome (Redact (Build su release cfg result opts))) = each_error_text e"
    using assms(5) by (simp add: Redact_def Build_def outcomeOf_def outcomeWithoutWarnings_def Let_def)
  obtain p q where "join ([CHR 0x0A] @ '' - '') es = p @ (Host_String h @ '': '' @ m) @ q"
    using join_member [OF listed] by blast
  then show ?thesis unfolding error e each_error_text.simps by (metis append.assoc)
qed

definition sample_options :: "string option \<Rightarrow> Options" where
  "sample_options e =
     \<lparr>op_Command = ''apply'', op_Args = [], op_Version = [], op_Commit = [], op_ConfigPath = ''prod.yaml'',
      op_Package = None, op_StartedAt = 0, op_DryRun = False, op_Observed = True, op_Err = e\<rparr>"

definition sample_receipt :: "string \<Rightarrow> string \<Rightarrow> string option \<Rightarrow> Receipt" where
  "sample_receipt operator address e =
     Build \<lparr>su_operator = operator, su_host = ''bastion'', su_platform = ''linux/amd64'', su_now = 7\<rparr> (\<lambda>_. None)
       (Some \<lparr>rg_Name = ''prod'', rg_LoadBalancer = [], rg_Hosts = [sample_host address RoleController []]\<rparr>)
       (sample_result False) (sample_options e)"

lemma redacted_error_names_the_host_witness:
  "\<exists>p q. oc_Error (rc_Outcome (Redact (sample_receipt ''alice'' ''a'' (Some (each_error_text (FailedOn 1 [''a: disk full'']))))))
     = p @ (Host_String (sample_host ''a'' RoleController []) @ '': '' @ ''disk full'') @ q"
  unfolding sample_receipt_def
  by (rule redacted_error_names_the_host [of "\<lambda>_. None" id "\<lambda>h s. (Some ''disk full'', s)"
        "[sample_host ''a'' RoleController []]" "0::nat" "FailedOn 1 [''a: disk full'']" 0])
    (simp_all add: ParallelEach_def run_goroutine_def Host_String_def sample_host_def sample_options_def)

lemma Redact_hides_witness:
  "Redact (sample_receipt ''bob'' ''10.0.0.9'' None) = Redact (sample_receipt ''alice'' ''10.0.0.1'' None)"
proof (rule Redact_hides [of "\<lambda>a. if a = ''10.0.0.1'' then ''10.0.0.9'' else a"])
  have "mentioned (sample_receipt ''alice'' ''10.0.0.1'' None) = [''10.0.0.1'']" by code_simp
  then show "inj_on (\<lambda>a. if a = ''10.0.0.1'' then ''10.0.0.9'' else a)
      (insert [] (set (mentioned (sample_receipt ''alice'' ''10.0.0.1'' None))))"
    by (simp add: inj_on_def)
  show "disguise id (sample_receipt ''bob'' ''10.0.0.9'' None) =
      disguise (\<lambda>a. if a = ''10.0.0.1'' then ''10.0.0.9'' else a) (sample_receipt ''alice'' ''10.0.0.1'' None)"
    by code_simp
qed simp

subsection \<open>The command line\<close>

text \<open>Two command lines that agree in everything but the values of credential flags.\<close>

fun same_but_secrets :: "bool \<Rightarrow> string list \<Rightarrow> string list \<Rightarrow> bool" where
  "same_but_secrets value [] bs \<longleftrightarrow> bs = []"
| "same_but_secrets value (a # as) [] \<longleftrightarrow> False"
| "same_but_secrets value (a # as) (b # bs) \<longleftrightarrow>
     (if value then same_but_secrets False as bs
      else (case (cut CHR ''='' a, cut CHR ''='' b) of ((name, _, joined), (name', _, joined')) \<Rightarrow>
        if credential_flag name then name' = name \<and> joined' = joined \<and> same_but_secrets (\<not> joined) as bs
        else b = a \<and> same_but_secrets False as bs))"

text \<open>The recorded command line depends on no value of a credential flag, in either spelling, and
  has as many words as the one given.\<close>

theorem redactArgs_hides_secrets:
  assumes "same_but_secrets False as bs"
  shows "redactArgs bs = redactArgs as \<and> length (redactArgs as) = length as"
proof -
  have "redact_loop v bs = redact_loop v as" if "same_but_secrets v as bs" for v
    using that
  proof (induction v as bs rule: same_but_secrets.induct)
    case (3 v a as b bs)
    obtain n x j where a: "cut CHR ''='' a = (n, x, j)" by (metis prod.exhaust)
    obtain n' x' j' where b: "cut CHR ''='' b = (n', x', j')" by (metis prod.exhaust)
    show ?case
    proof (cases "v \<or> \<not> credential_flag n")
      case True
      with 3 a b show ?thesis by (cases v) (auto split: prod.splits)
    next
      case False
      have eq: "b = a" if "\<not> j" "n' = n" "j' = j"
        using that a b cut_not_found by (metis (full_types))
      from False 3 a b show ?thesis using eq by (cases j) auto
    qed
  qed auto
  moreover have "length (redact_loop v as) = length as" for v as
    by (induction v as rule: redact_loop.induct) (auto split: prod.splits)
  moreover have "length as = length bs" if "same_but_secrets v as bs" for v
    using that by (induction v as bs rule: same_but_secrets.induct) (auto split: prod.splits if_splits)
  ultimately show ?thesis using assms by (simp add: redactArgs_def)
qed

lemma redactArgs_hides_secrets_witness:
  "redactArgs [''apply'', ''--token'', ''hunter2'', ''--password=x''] =
     redactArgs [''apply'', ''--token'', ''other'', ''--password=y''] \<and>
   length (redactArgs [''apply'', ''--token'', ''other'', ''--password=y'']) =
     length [''apply'', ''--token'', ''other'', ''--password=y'']"
  by (rule redactArgs_hides_secrets) code_simp

end
