(* ===== verification/Engine_Values.thy ===== *)
theory Engine_Values
  imports Value_Paths
begin

section \<open>Engine sections and the charts of a distribution\<close>

text \<open>
  The engine section of a distribution is a \<open>dig.Mapping\<close>: this theory models the functions of that
  type the program uses, the reading of chart manifests and of the images they need
  (\<open>api/colonel-byte.dev/v1alpha1/distro/chart.go\<close>) and the look-up of the generated schema of an
  engine's configuration (\<open>pkg/engineconfig/gen/lookup.go\<close>). Values are those of \<open>Value_Paths\<close>; a
  slice of strings and a slice of anything are both a \<open>VList\<close>.
\<close>

subsection \<open>Mappings\<close>

text \<open>A mapping read along a list of keys. \<open>DigMapping\<close> puts an empty mapping where there is none, which
  nothing sees here, because it is only called on a copy: the result is the mapping it returns.\<close>

definition DigString :: "vmap \<Rightarrow> string \<Rightarrow> string \<Rightarrow> string" where
  "DigString m k1 k2 =
     (case mget m k1 of VMap MDig n \<Rightarrow> (case mget n k2 of VStr s \<Rightarrow> s | _ \<Rightarrow> []) | _ \<Rightarrow> [])"

definition DigMapping :: "vmap \<Rightarrow> string \<Rightarrow> vmap" where
  "DigMapping m k = (case mget m k of VMap MDig n \<Rightarrow> n | _ \<Rightarrow> [])"

fun cleanUpValue :: "vval \<Rightarrow> vval" where
  "cleanUpValue (VList xs) = VList (map cleanUpValue xs)"
| "cleanUpValue (VMap MString m) = VMap MDig (map (\<lambda>(k, x). (k, cleanUpValue x)) m)"
| "cleanUpValue (VMap MAny m) = VMap MDig (build_map [] (map (\<lambda>(k, x). (k, cleanUpValue x)) m))"
| "cleanUpValue v = v"

text \<open>\<open>deepCopy\<close>: a nil under a key of a map is not carried over, because \<open>reflect\<close>'s \<open>SetMapIndex\<close> of no
  value deletes the key; a nil in a slice makes \<open>Set\<close> panic, which is \<open>None\<close>.\<close>

fun deepCopy :: "vval \<Rightarrow> vval option" and copy_items :: "vval list \<Rightarrow> vval list option" and copy_entries :: "vmap \<Rightarrow> vmap option" where
  "deepCopy (VList xs) = map_option (\<lambda>ys. VList (map cleanUpValue ys)) (copy_items xs)"
| "deepCopy (VMap k m) =
     map_option (\<lambda>n. if k = MString then cleanUpValue (VMap MString n) else VMap k n) (copy_entries m)"
| "deepCopy v = Some v"
| "copy_items [] = Some []"
| "copy_items (x # xs) =
     (if x = VNil then None
      else (case (deepCopy x, copy_items xs) of (Some y, Some ys) \<Rightarrow> Some (y # ys) | _ \<Rightarrow> None))"
| "copy_entries [] = Some []"
| "copy_entries ((k, x) # m) =
     (case (deepCopy x, copy_entries m) of
        (Some y, Some n) \<Rightarrow> Some (if y = VNil then n else (k, y) # n) | _ \<Rightarrow> None)"

text \<open>The entries of the mapping itself are assigned, so there a nil stays.\<close>

fun Dup :: "vmap \<Rightarrow> vmap option" where
  "Dup [] = Some []"
| "Dup ((k, x) # m) = (case (deepCopy x, Dup m) of (Some y, Some n) \<Rightarrow> Some ((k, y) # n) | _ \<Rightarrow> None)"

text \<open>No nil is an item of a list, at any depth.\<close>

fun no_nil_items :: "vval \<Rightarrow> bool" where
  "no_nil_items (VList xs) \<longleftrightarrow> list_all (\<lambda>x. x \<noteq> VNil \<and> no_nil_items x) xs"
| "no_nil_items (VMap k m) \<longleftrightarrow> list_all (\<lambda>(_, x). no_nil_items x) m"
| "no_nil_items v \<longleftrightarrow> True"

lemma deepCopy_total:
  "deepCopy v \<noteq> None \<longleftrightarrow> no_nil_items v"
  "copy_items xs \<noteq> None \<longleftrightarrow> list_all (\<lambda>x. x \<noteq> VNil \<and> no_nil_items x) xs"
  "copy_entries m \<noteq> None \<longleftrightarrow> list_all (\<lambda>(_, x). no_nil_items x) m"
  by (induction v and xs and m rule: deepCopy_copy_items_copy_entries.induct) (auto split: option.splits)

lemma Dup_total: "Dup m \<noteq> None \<longleftrightarrow> list_all (\<lambda>(_, x). no_nil_items x) m"
proof -
  have "no_nil_items v \<longleftrightarrow> (\<exists>w. deepCopy v = Some w)" for v using deepCopy_total(1) [of v] by auto
  then show ?thesis by (induction m rule: Dup.induct) (auto split: option.splits)
qed

lemma Dup_keys: "Dup m = Some n \<Longrightarrow> map fst n = map fst m"
  by (induction m arbitrary: n rule: Dup.induct) (auto split: option.splits)

lemma map_of_Dup:
  "Dup m = Some n \<Longrightarrow> map_of n k = (case map_of m k of None \<Rightarrow> None | Some x \<Rightarrow> deepCopy x)"
  by (induction m arbitrary: n rule: Dup.induct) (auto split: option.splits)

lemma deepCopy_nil [simp]: "deepCopy v = Some VNil \<longleftrightarrow> v = VNil"
  by (cases v; cases "\<exists>m. v = VMap MString m") (auto split: if_splits)

lemma map_of_copy_entries:
  "distinct (map fst m) \<Longrightarrow> copy_entries m = Some n \<Longrightarrow>
   map_of n k = (case map_of m k of None \<Rightarrow> None | Some x \<Rightarrow> if x = VNil then None else deepCopy x) \<and>
   set (map fst n) \<subseteq> set (map fst m)"
proof (induction m arbitrary: n rule: list.induct)
  case (Cons p m)
  obtain k' x where p: "p = (k', x)" by (cases p)
  from Cons.prems p obtain y n' where y: "deepCopy x = Some y" and n': "copy_entries m = Some n'"
    and n: "n = (if y = VNil then n' else (k', y) # n')"
    by (auto split: option.splits)
  from Cons.IH [OF _ n'] Cons.prems p have "map_of n' k = (case map_of m k of None \<Rightarrow> None | Some x \<Rightarrow> if x = VNil then None else deepCopy x)"
    "set (map fst n') \<subseteq> set (map fst m)" by auto
  moreover have "y = VNil \<longleftrightarrow> x = VNil" using y deepCopy_nil [of x] by auto
  moreover have "map_of m k' = None" using Cons.prems(1) p by (simp add: map_of_eq_None_iff)
  ultimately show ?case using n y p by auto
qed simp

text \<open>The engine section is copied before it is used. The copy exists only if no list in it has a nil
  item, at any depth: otherwise the command panics. In a section of the copy every entry is the copy of
  the entry it was, but an entry that is null is not there at all: a chart's value that is set to null,
  which is how Helm unsets a default, does not reach the chart.\<close>

theorem Dup_drops_nulls:
  assumes "Dup m = Some n" and "map_of m sec = Some (VMap MDig s)" and "distinct (map fst s)"
  shows "list_all (\<lambda>(_, x). no_nil_items x) m \<and>
    map_of (DigMapping n sec) k = (case map_of s k of None \<Rightarrow> None | Some x \<Rightarrow> if x = VNil then None else deepCopy x)"
proof -
  from map_of_Dup [OF assms(1), of sec] assms(2) have copied: "map_of n sec = deepCopy (VMap MDig s)" by simp
  have "map_of n sec \<noteq> None"
    using assms(1,2) Dup_keys by (metis map_of_eq_None_iff option.distinct(1) set_map)
  then obtain t where t: "copy_entries s = Some t" "map_of n sec = Some (VMap MDig t)"
    using copied by auto
  from map_of_copy_entries [OF assms(3) t(1)] t(2) assms(1) Dup_total [of m] show ?thesis
    by (simp add: DigMapping_def mget_def)
qed

lemma Dup_drops_nulls_witness:
  "(case Dup [(''config'', VMap MDig [(''disable'', VNil), (''cni'', VStr ''cilium'')])] of
      None \<Rightarrow> False | Some n \<Rightarrow> map_of (DigMapping n ''config'') ''disable'' = None) \<and>
   Dup [(''config'', VMap MDig [(''tls-san'', VList [VNil])])] = None"
proof
  let ?s = "[(''disable'', VNil), (''cni'', VStr ''cilium'')]"
  have dup: "Dup [(''config'', VMap MDig ?s)] = Some [(''config'', VMap MDig [(''cni'', VStr ''cilium'')])]" by code_simp
  from Dup_drops_nulls [OF dup, of "''config''" ?s "''disable''"]
  show "case Dup [(''config'', VMap MDig ?s)] of
      None \<Rightarrow> False | Some n \<Rightarrow> map_of (DigMapping n ''config'') ''disable'' = None"
    by (simp add: dup)
qed code_simp

subsection \<open>Chart manifests\<close>

record ChartManifest =
  cm_Enabled :: bool
  cm_Images :: "string list"
  cm_Values :: vval

definition asMapping :: "vval \<Rightarrow> vmap option" where
  "asMapping v =
     (case v of
        VMap MDig m \<Rightarrow> Some m
      | VMap MString m \<Rightarrow> Some m
      | VMap MAny m \<Rightarrow> Some (build_map [] m)
      | _ \<Rightarrow> None)"

text \<open>\<open>strconv.ParseBool\<close>.\<close>

definition ParseBool :: "string \<Rightarrow> bool option" where
  "ParseBool s =
     (if s \<in> {''1'', ''t'', ''T'', ''true'', ''TRUE'', ''True''} then Some True
      else if s \<in> {''0'', ''f'', ''F'', ''false'', ''FALSE'', ''False''} then Some False
      else None)"

definition chartEnabled :: "vval \<Rightarrow> bool" where
  "chartEnabled v =
     (case v of
        VBool b \<Rightarrow> b
      | VStr s \<Rightarrow> (case ParseBool s of None \<Rightarrow> True | Some enabled \<Rightarrow> enabled)
      | _ \<Rightarrow> True)"

text \<open>\<open>print\<close> is \<open>fmt.Sprint\<close> of a value that is not a string.\<close>

definition stringList :: "(vval \<Rightarrow> string) \<Rightarrow> vval \<Rightarrow> string list" where
  "stringList print v =
     (case v of VList items \<Rightarrow> map (\<lambda>item. case item of VStr s \<Rightarrow> s | _ \<Rightarrow> print item) items | _ \<Rightarrow> [])"

definition chartManifest :: "(vval \<Rightarrow> string) \<Rightarrow> vval \<Rightarrow> ChartManifest" where
  "chartManifest print entry =
     (case asMapping entry of
        None \<Rightarrow> \<lparr>cm_Enabled = True, cm_Images = [], cm_Values = entry\<rparr>
      | Some m \<Rightarrow>
          (case map_of m ''values'' of
             None \<Rightarrow> \<lparr>cm_Enabled = True, cm_Images = [], cm_Values = VMap MString m\<rparr>
           | Some raw \<Rightarrow>
               \<lparr>cm_Enabled = chartEnabled (mget m ''enabled''),
                cm_Images = stringList print (mget m ''images''), cm_Values = raw\<rparr>))"

definition EngineManifest :: string where "EngineManifest = ''manifest''"

definition ChartManifests :: "(vval \<Rightarrow> string) \<Rightarrow> vmap \<Rightarrow> (string \<times> ChartManifest) list" where
  "ChartManifests print engine =
     (case asMapping (mget engine EngineManifest) of
        None \<Rightarrow> []
      | Some entries \<Rightarrow> map (\<lambda>(chart, entry). (chart, chartManifest print entry)) entries)"

subsection \<open>Images\<close>

text \<open>\<open>helpers.Unique\<close>: what was already seen is left out.\<close>

fun unique_loop :: "string set \<Rightarrow> string list \<Rightarrow> string list" where
  "unique_loop seen [] = []"
| "unique_loop seen (s # xs) =
     (if s \<in> seen then unique_loop seen xs else s # unique_loop (insert s seen) xs)"

definition Unique :: "string list \<Rightarrow> string list" where "Unique xs = unique_loop {} xs"

record Distro_Config =
  dc_Engine :: vmap
  dc_Images :: "string list"

definition config_images :: "(vval \<Rightarrow> string) \<Rightarrow> bool \<Rightarrow> Distro_Config \<Rightarrow> string list" where
  "config_images print enabledOnly c =
     (let manifests = ChartManifests print (dc_Engine c) in
      if manifests = [] then dc_Images c
      else Unique (dc_Images c @
        concat (map (\<lambda>chart. case map_of manifests chart of
                       None \<Rightarrow> []
                     | Some m \<Rightarrow> if enabledOnly \<and> \<not> cm_Enabled m then [] else cm_Images m)
                 (sort_strings (map fst manifests)))))"

definition AllImages :: "(vval \<Rightarrow> string) \<Rightarrow> Distro_Config \<Rightarrow> string list" where
  "AllImages print c = config_images print False c"

definition EnabledImages :: "(vval \<Rightarrow> string) \<Rightarrow> Distro_Config \<Rightarrow> string list" where
  "EnabledImages print c = config_images print True c"

lemma set_unique_loop: "set (unique_loop A xs) = set xs - A" "distinct (unique_loop A xs)"
  by (induction A xs rule: unique_loop.induct) auto

lemma Unique_set [simp]: "set (Unique xs) = set xs" "distinct (Unique xs)"
  by (simp_all add: Unique_def set_unique_loop)

text \<open>What a host is sent is among what the package carries, and of the images the package declares
  for itself nothing is missing on a host: whatever charts are enabled, they are all sent. An image
  is carried exactly if the package or one of its charts names it, and sent exactly if the package
  or an enabled chart names it. With any chart in the package no image is listed twice.\<close>

theorem images_of_charts:
  assumes "distinct (map fst (ChartManifests print (dc_Engine c)))"
  shows "set (EnabledImages print c) \<subseteq> set (AllImages print c) \<and>
    set (AllImages print c) = set (dc_Images c) \<union> (\<Union>(_, m) \<in> set (ChartManifests print (dc_Engine c)). set (cm_Images m)) \<and>
    set (EnabledImages print c) = set (dc_Images c) \<union>
      (\<Union>(_, m) \<in> set (filter (\<lambda>(_, m). cm_Enabled m) (ChartManifests print (dc_Engine c))). set (cm_Images m)) \<and>
    (ChartManifests print (dc_Engine c) = [] \<or> distinct (AllImages print c) \<and> distinct (EnabledImages print c))"
proof -
  let ?ms = "ChartManifests print (dc_Engine c)"
  have images: "set (config_images print e c) = set (dc_Images c) \<union>
      (\<Union>(_, m) \<in> set (filter (\<lambda>(_, m). \<not> e \<or> cm_Enabled m) ?ms). set (cm_Images m))" for e
  proof -
    have "(\<Union>chart \<in> fst ` set ?ms. set (case map_of ?ms chart of None \<Rightarrow> []
            | Some m \<Rightarrow> if e \<and> \<not> cm_Enabled m then [] else cm_Images m)) =
        (\<Union>(_, m) \<in> set (filter (\<lambda>(_, m). \<not> e \<or> cm_Enabled m) ?ms). set (cm_Images m))"
      using assms by (force split: if_splits option.splits)
    then show ?thesis by (auto simp: config_images_def Let_def)
  qed
  show ?thesis
    using images [of True] images [of False]
    by (auto simp: AllImages_def EnabledImages_def config_images_def Let_def)
qed

definition sample_charts :: Distro_Config where
  "sample_charts =
     \<lparr>dc_Engine = [(''manifest'', VMap MDig
        [(''cilium'', VMap MDig [(''values'', VMap MDig []), (''images'', VList [VStr ''cilium:1'', VStr ''pause:3''])]),
         (''csi'', VMap MDig [(''values'', VStr ''a: b''), (''enabled'', VStr ''false''), (''images'', VList [VStr ''csi:2''])]),
         (''dns'', VStr ''replicas: 2'')])],
      dc_Images = [''pause:3'']\<rparr>"

lemma images_of_charts_witness:
  "set (EnabledImages (\<lambda>_. []) sample_charts) \<subseteq> set (AllImages (\<lambda>_. []) sample_charts) \<and>
   AllImages (\<lambda>_. []) sample_charts = [''pause:3'', ''cilium:1'', ''csi:2''] \<and>
   EnabledImages (\<lambda>_. []) sample_charts = [''pause:3'', ''cilium:1'']"
proof (intro conjI)
  have "distinct (map fst (ChartManifests (\<lambda>_. []) (dc_Engine sample_charts)))" by code_simp
  from images_of_charts [OF this]
  show "set (EnabledImages (\<lambda>_. []) sample_charts) \<subseteq> set (AllImages (\<lambda>_. []) sample_charts)" by blast
  show "AllImages (\<lambda>_. []) sample_charts = [''pause:3'', ''cilium:1'', ''csi:2'']"
    "EnabledImages (\<lambda>_. []) sample_charts = [''pause:3'', ''cilium:1'']" by code_simp+
qed

subsection \<open>The generated schemas\<close>

text \<open>The first position at which a match succeeds.\<close>

fun leftmost :: "(string \<Rightarrow> 'a option) \<Rightarrow> string \<Rightarrow> 'a option" where
  "leftmost f [] = f []"
| "leftmost f (c # s) = (case f (c # s) of Some r \<Rightarrow> Some r | None \<Rightarrow> leftmost f s)"

definition digits :: "string \<Rightarrow> (string \<times> string) option" where
  "digits s = (if s \<noteq> [] \<and> is_digit (hd s) then Some (takeWhile is_digit s, dropWhile is_digit s) else None)"

definition minorVersionPattern :: "string \<Rightarrow> (string \<times> string) option" where
  "minorVersionPattern s =
     (case digits s of
        None \<Rightarrow> None
      | Some (major, rest) \<Rightarrow>
          if rest \<noteq> [] \<and> hd rest = CHR ''.''
          then map_option (\<lambda>(minor, _). (major, minor)) (digits (tl rest)) else None)"

definition minorPackageName :: "string \<Rightarrow> string option" where
  "minorPackageName version =
     map_option (\<lambda>(major, minor). ''v'' @ major @ ''_'' @ minor) (leftmost minorVersionPattern version)"

text \<open>An entry of the generated registry, with the keys that \<open>Keys\<close> reads off its two structs.\<close>

record Entry =
  en_Server :: "string set"
  en_Agent :: "string set"
  en_Addons :: "string list"

type_synonym 'e schemas = "string \<rightharpoonup> (string \<rightharpoonup> 'e)"

type_synonym schema_registry = "Entry schemas"

definition Lookup :: "'e schemas \<Rightarrow> string \<Rightarrow> string \<Rightarrow> 'e option" where
  "Lookup Registry distroID version =
     (case minorPackageName version of
        None \<Rightarrow> None
      | Some pkg \<Rightarrow> (case Registry distroID of None \<Rightarrow> None | Some versions \<Rightarrow> versions pkg))"

definition disableValues :: "vval \<Rightarrow> string list" where
  "disableValues disable =
     (case disable of
        VStr s \<Rightarrow> [s]
      | VList items \<Rightarrow> List.map_filter (\<lambda>el. case el of VStr s \<Rightarrow> Some s | _ \<Rightarrow> None) items
      | _ \<Rightarrow> [])"

definition UnknownAddons :: "vval \<Rightarrow> string list \<Rightarrow> string list" where
  "UnknownAddons disable addons =
     (if length addons = 0 then []
      else remdups_adj (sort_strings (filter (\<lambda>v. v \<notin> set addons) (disableValues disable))))"

lemma takeWhile_digits: "list_all is_digit ds \<Longrightarrow> takeWhile is_digit (ds @ CHR ''.'' # s) = ds \<and>
    dropWhile is_digit (ds @ CHR ''.'' # s) = CHR ''.'' # s"
  by (induction ds) (auto simp: is_digit_def byte_def)

lemma leftmost_skip:
  "list_all (\<lambda>c. \<not> is_digit c) p \<Longrightarrow> leftmost minorVersionPattern (p @ s) = leftmost minorVersionPattern s"
  by (induction p) (auto simp: minorVersionPattern_def digits_def)

text \<open>Every patch release and every spelling of a version finds the schema of its minor release: what
  stands before the first number and after the second is of no consequence.\<close>

theorem minorPackageName_of_version:
  assumes "list_all (\<lambda>c. \<not> is_digit c) p" and "list_all is_digit major" and "major \<noteq> []"
    and "list_all is_digit minor" and "minor \<noteq> []" and "s = [] \<or> \<not> is_digit (hd s)"
  shows "minorPackageName (p @ major @ ''.'' @ minor @ s) = Some (''v'' @ major @ ''_'' @ minor)"
proof -
  have minor: "digits (minor @ s) = Some (minor, s)"
  proof -
    have "takeWhile is_digit (minor @ s) = minor" "dropWhile is_digit (minor @ s) = s"
      using assms(4,6) by (induction minor) (auto simp: takeWhile_eq_Nil_iff dropWhile_eq_self_iff)
    then show ?thesis using assms(4,5) by (cases minor) (auto simp: digits_def)
  qed
  have "digits (major @ CHR ''.'' # minor @ s) = Some (major, CHR ''.'' # minor @ s)"
    using takeWhile_digits [OF assms(2), of "minor @ s"] assms(2,3) by (cases major) (auto simp: digits_def)
  with minor have "minorVersionPattern (major @ CHR ''.'' # minor @ s) = Some (major, minor)"
    by (simp add: minorVersionPattern_def)
  then have "leftmost minorVersionPattern (major @ CHR ''.'' # minor @ s) = Some (major, minor)"
    using assms(3) by (cases major) simp_all
  then show ?thesis using leftmost_skip [OF assms(1)] by (simp add: minorPackageName_def)
qed

lemma minorPackageName_of_version_witness:
  "minorPackageName (''v'' @ ''1'' @ ''.'' @ ''35'' @ ''.3+k3s1'') = Some (''v'' @ ''1'' @ ''_'' @ ''35'')"
  by (rule minorPackageName_of_version) (simp_all add: is_digit_def byte_def)

end
