(* ===== verification/Engine_Registries.thy ===== *)
theory Engine_Registries
  imports Cluster_Registries Config_Sync Engine_Values
begin

section \<open>Registries as the engine reads them\<close>

text \<open>
  The registries of a cluster as \<open>types/distrocfg/rancher_common.go\<close> renders them for rke2 and k3s:
  the mirrors and configs of \<open>registries.yaml\<close>, the credentials of an entry, the certificate files,
  and the quoting of keys of \<open>distro_common.go\<close>. A map that is built by assignments is an
  association list updated in the order of the assignments.
\<close>

subsection \<open>Base64\<close>

definition base64_alphabet :: string where
  "base64_alphabet = ''ABCDEFGHIJKLMNOPQRSTUVWXYZabcdefghijklmnopqrstuvwxyz0123456789+/''"

definition sextet :: "nat \<Rightarrow> char" where "sextet n = base64_alphabet ! n"

text \<open>\<open>base64.StdEncoding.EncodeToString\<close>.\<close>

fun base64 :: "string \<Rightarrow> string" where
  "base64 [] = []"
| "base64 [a] = [sextet (byte a div 4), sextet (byte a mod 4 * 16), CHR ''='', CHR ''='']"
| "base64 [a, b] =
     [sextet (byte a div 4), sextet (byte a mod 4 * 16 + byte b div 16), sextet (byte b mod 16 * 4), CHR ''='']"
| "base64 (a # b # c # s) =
     sextet (byte a div 4) # sextet (byte a mod 4 * 16 + byte b div 16) #
     sextet (byte b mod 16 * 4 + byte c div 64) # sextet (byte c mod 64) # base64 s"

definition sextet_value :: "char \<Rightarrow> nat" where
  "sextet_value c = length (takeWhile (\<lambda>d. d \<noteq> c) base64_alphabet)"

text \<open>What is read back from it.\<close>

fun unbase64 :: "string \<Rightarrow> string" where
  "unbase64 (w # x # y # z # s) =
     (let w = sextet_value w; x = sextet_value x in
      char_of (w * 4 + x div 16) #
      (if y = CHR ''='' then []
       else char_of (x mod 16 * 16 + sextet_value y div 4) #
         (if z = CHR ''='' then [] else char_of (sextet_value y mod 4 * 64 + sextet_value z) # unbase64 s)))"
| "unbase64 s = []"

lemma sextets:
  "list_all (\<lambda>n. sextet_value (sextet n) = n \<and> sextet n \<noteq> CHR ''='') [0..<64]"
  by code_simp

lemma sextet_back [simp]: "n < 64 \<Longrightarrow> sextet_value (sextet n) = n" "n < 64 \<Longrightarrow> sextet n \<noteq> CHR ''=''"
  using sextets by (auto simp: list_all_iff)

lemma byte_bound [simp]: "byte c < 256"
  by (simp add: byte_def)

lemma sextet_bounds [simp]:
  "byte a div 4 < 64" "byte a mod 4 * 16 < 64" "byte a mod 4 * 16 + byte b div 16 < 64"
  "byte b mod 16 * 4 < 64" "byte b mod 16 * 4 + byte c div 64 < 64" "byte c mod 64 < 64"
  using byte_bound [of a] byte_bound [of b] byte_bound [of c] by (simp_all add: less_mult_imp_div_less, linarith+)

lemma octets [simp]:
  "byte b div 16 div 16 = 0" "byte b div 16 mod 16 = byte b div 16"
  "byte c div 64 div 4 = 0" "byte c div 64 mod 4 = byte c div 64"
proof -
  have "byte b div 16 < 16" "byte c div 64 < 4" by (simp_all add: less_mult_imp_div_less)
  then show "byte b div 16 div 16 = 0" "byte b div 16 mod 16 = byte b div 16"
    "byte c div 64 div 4 = 0" "byte c div 64 mod 4 = byte c div 64" by (simp_all only: div_less mod_less)
qed

lemma char_of_byte [simp]: "char_of (byte c) = c"
  by (simp add: byte_def)

lemma unbase64_base64 [simp]: "unbase64 (base64 s) = s"
  by (induction s rule: base64.induct) (simp_all add: Let_def)

lemma base64_inject [simp]: "base64 s = base64 t \<longleftrightarrow> s = t"
  by (metis unbase64_base64)

subsection \<open>Credentials and TLS\<close>

definition registryAuth :: "RegistryAuth \<Rightarrow> vmap" where
  "registryAuth a =
     (if ra_Token a \<noteq> [] then [(''identity_token'', VStr (ra_Token a))]
      else if ra_Username a \<noteq> [] \<and> ra_Password a \<noteq> [] then
        [(''auth'', VStr (base64 (ra_Username a @ '':'' @ ra_Password a)))]
      else (if ra_Username a \<noteq> [] then [(''username'', VStr (ra_Username a))] else []) @
           (if ra_Password a \<noteq> [] then [(''password'', VStr (ra_Password a))] else []))"

definition registryTLSDir :: string where "registryTLSDir = ''/etc/cargoship/tls''"

text \<open>The length of the first rune: the shortest valid sequence, or one byte that is none.\<close>

definition rune_len :: "string \<Rightarrow> nat" where
  "rune_len s =
     (case List.find (\<lambda>k. k \<le> length s \<and> valid_utf8 (take k s)) [1, 2, 3, 4] of Some k \<Rightarrow> k | None \<Rightarrow> 1)"

definition plain_file_char :: "char \<Rightarrow> bool" where
  "plain_file_char c \<longleftrightarrow> is_alpha c \<or> is_digit c \<or> c = CHR ''.'' \<or> c = CHR ''_'' \<or> c = CHR ''-''"

fun sanitizeRegistryFilename :: "string \<Rightarrow> string" where
  "sanitizeRegistryFilename [] = []"
| "sanitizeRegistryFilename (c # s) =
     (if plain_file_char c then c # sanitizeRegistryFilename s
      else CHR ''_'' # sanitizeRegistryFilename (drop (rune_len (c # s) - 1) s))"

definition registryCAPath :: "string \<Rightarrow> string" where
  "registryCAPath host = path_Join registryTLSDir (sanitizeRegistryFilename host @ ''.crt'')"

definition registryTLS :: "RegistryTLS option \<Rightarrow> string \<Rightarrow> vmap" where
  "registryTLS t host =
     (case t of
        None \<Rightarrow> []
      | Some t \<Rightarrow>
          (if rt_CA t \<noteq> [] then [(''ca_file'', VStr (registryCAPath host))]
           else if rt_CAFile t \<noteq> [] then [(''ca_file'', VStr (rt_CAFile t))] else []) @
          (if rt_CertFile t \<noteq> [] then [(''cert_file'', VStr (rt_CertFile t))] else []) @
          (if rt_KeyFile t \<noteq> [] then [(''key_file'', VStr (rt_KeyFile t))] else []) @
          (if rt_InsecureSkipVerify t then [(''insecure_skip_verify'', VBool True)] else []))"

definition inlineCA :: "Registries \<Rightarrow> string" where
  "inlineCA reg = (case rg_TLS reg of None \<Rightarrow> [] | Some t \<Rightarrow> rt_CA t)"

fun ca_files_loop :: "registry_lib \<Rightarrow> (string \<times> string) list \<Rightarrow> Registries list \<Rightarrow> (string \<times> string) list" where
  "ca_files_loop L files [] = files"
| "ca_files_loop L files (reg # regs) =
     (if inlineCA reg = [] then ca_files_loop L files regs
      else ca_files_loop L (AList.update (registryCAPath (ConfigHost L reg)) (inlineCA reg) files) regs)"

definition registryCAFiles :: "registry_lib \<Rightarrow> Registries list \<Rightarrow> (string \<times> string) list" where
  "registryCAFiles L registries = ca_files_loop L [] registries"

subsection \<open>Mirrors and configs\<close>

definition registry_rewrite :: "Registries \<Rightarrow> (string \<times> string) list" where
  "registry_rewrite reg = (case rg_Proxy reg of None \<Rightarrow> [] | Some p \<Rightarrow> rp_Rewrite p)"

definition registry_mirror :: "Registries \<Rightarrow> vmap" where
  "registry_mirror reg =
     (''endpoint'', VList [VStr (MirrorEndpoint reg)]) #
     (if length (registry_rewrite reg) > 0
      then [(''rewrite'', VMap MString (map (\<lambda>(k, v). (k, VStr v)) (registry_rewrite reg)))] else [])"

definition registry_entry :: "registry_lib \<Rightarrow> Registries \<Rightarrow> vmap" where
  "registry_entry L reg =
     (let auth = registryAuth (rg_Authentication reg); tls = registryTLS (rg_TLS reg) (ConfigHost L reg) in
      (if length auth > 0 then [(''auth'', VMap MDig auth)] else []) @
      (if length tls > 0 then [(''tls'', VMap MDig tls)] else []))"

fun registries_loop :: "registry_lib \<Rightarrow> vmap \<Rightarrow> vmap \<Rightarrow> Registries list \<Rightarrow> vmap \<times> vmap" where
  "registries_loop L mirrors configs [] = (mirrors, configs)"
| "registries_loop L mirrors configs (reg # regs) =
     (let mirrors' = (if MirrorEndpoint reg \<noteq> [] then AList.update (rg_Name reg) (VMap MDig (registry_mirror reg)) mirrors
                      else mirrors);
          entry = registry_entry L reg;
          configs' = (if length entry > 0 then AList.update (ConfigHost L reg) (VMap MDig entry) configs else configs)
      in registries_loop L mirrors' configs' regs)"

definition buildRegistriesConfig :: "registry_lib \<Rightarrow> Registries list \<Rightarrow> vmap" where
  "buildRegistriesConfig L registries =
     (case registries_loop L [] [] registries of (mirrors, configs) \<Rightarrow>
        (if length mirrors > 0 then [(''mirrors'', VMap MDig mirrors)] else []) @
        (if length configs > 0 then [(''configs'', VMap MDig configs)] else []))"

subsection \<open>Paths of certificates\<close>

lemma rune_len_pos: "rune_len (c # s) \<ge> 1"
  by (auto simp: rune_len_def split: option.splits)

lemma sanitized_plain: "list_all plain_file_char (sanitizeRegistryFilename s)"
  by (induction s rule: sanitizeRegistryFilename.induct) (auto simp: plain_file_char_def)

lemma sanitized_fixed: "list_all plain_file_char s \<Longrightarrow> sanitizeRegistryFilename s = s"
  by (induction s) auto

lemma plain_no_slash: "list_all plain_file_char s \<Longrightarrow> slash \<notin> set s"
  by (auto simp: list_all_iff plain_file_char_def is_alpha_def is_digit_def slash_def byte_def)

lemma registryCAPath_eq: "registryCAPath host = registryTLSDir @ ''/'' @ sanitizeRegistryFilename host @ ''.crt''"
proof -
  let ?w = "sanitizeRegistryFilename host @ ''.crt''"
  have w: "CHR ''/'' \<notin> set ?w" using plain_no_slash [OF sanitized_plain [of host]] by (simp add: slash_def)
  have no_dots: "?w \<noteq> ''.''" "?w \<noteq> ''..''" "?w \<noteq> []"
    by (auto dest: arg_cong [where f = length])
  have split: "split_on (CHR ''/'') (''/etc/cargoship/tls/'' @ ?w) = [[], ''etc'', ''cargoship'', ''tls'', ?w]"
    using split_on_word [OF w] by (simp add: split_on_append_sep)
  have "registryCAPath host = path_Clean (''/etc/cargoship/tls/'' @ ?w)"
    by (simp add: registryCAPath_def registryTLSDir_def path_Joins_def slash_def)
  also have "\<dots> = ''/etc/cargoship/tls/'' @ ?w"
    using no_dots split by (simp add: path_Clean_def slash_def)
  finally show ?thesis by (simp add: registryTLSDir_def)
qed

text \<open>Whatever a registry is called, its certificate is written to a file directly in cargoship's own
  directory, whose name has no character but letters, digits, dots, dashes and underscores; a name that
  has no other character stands in it unchanged. Different hosts can share a file, though: a colon and
  an underscore are told apart nowhere.\<close>

theorem registryCAPath_contained:
  "registryCAPath host = registryTLSDir @ ''/'' @ sanitizeRegistryFilename host @ ''.crt'' \<and>
   list_all plain_file_char (sanitizeRegistryFilename host) \<and>
   sanitizeRegistryFilename (sanitizeRegistryFilename host) = sanitizeRegistryFilename host \<and>
   registryCAPath ''mirror:5000'' = registryCAPath ''mirror_5000''"
proof -
  have "registryCAPath ''mirror:5000'' = registryCAPath ''mirror_5000''" by code_simp
  with registryCAPath_eq sanitized_plain sanitized_fixed [OF sanitized_plain] show ?thesis by simp
qed

lemma map_of_ca_files_loop:
  "map_of (ca_files_loop L files rs) p =
     (case List.find (\<lambda>r. inlineCA r \<noteq> [] \<and> registryCAPath (ConfigHost L r) = p) (rev rs) of
        Some r \<Rightarrow> Some (inlineCA r) | None \<Rightarrow> map_of files p)"
proof (induction L files rs rule: ca_files_loop.induct)
  case (2 L files reg regs)
  have find_append: "List.find P (xs @ [x]) = (case List.find P xs of Some y \<Rightarrow> Some y | None \<Rightarrow> if P x then Some x else None)"
    for P and xs :: "Registries list" and x
    by (induction xs) auto
  show ?case using 2 by (auto simp: find_append update_conv' split: option.splits)
qed simp

definition ca_registry :: "string \<Rightarrow> string \<Rightarrow> Registries" where
  "ca_registry name ca =
     \<lparr>rg_Name = name, rg_Authentication = \<lparr>ra_Username = [], ra_Password = [], ra_Token = []\<rparr>, rg_Proxy = None,
      rg_TLS = Some \<lparr>rt_CA = ca, rt_CAFile = [], rt_CertFile = [], rt_KeyFile = [], rt_InsecureSkipVerify = False\<rparr>\<rparr>"

definition ca_lib :: registry_lib where
  "ca_lib = sample_lib\<lparr>rl_pem := \<lambda>_. Some ''CERTIFICATE''\<rparr>"

text \<open>Of the registries whose certificates go to one file, the last one's certificate is in it, and the
  others' are nowhere, although the settings of each of them name the file. Accepted registries can be
  such: their hosts are told apart by the check and not by the name of the file.\<close>

theorem certificates_share_a_file:
  "map_of (registryCAFiles L rs) p =
     (case List.find (\<lambda>r. inlineCA r \<noteq> [] \<and> registryCAPath (ConfigHost L r) = p) (rev rs) of
        Some r \<Rightarrow> Some (inlineCA r) | None \<Rightarrow> None) \<and>
   ValidateRegistries ca_lib [ca_registry ''mirror:5000'' ''A'', ca_registry ''mirror_5000'' ''B''] = None \<and>
   registryCAFiles ca_lib [ca_registry ''mirror:5000'' ''A'', ca_registry ''mirror_5000'' ''B''] =
     [(registryCAPath ''mirror:5000'', ''B'')]"
proof (intro conjI)
  show "map_of (registryCAFiles L rs) p =
     (case List.find (\<lambda>r. inlineCA r \<noteq> [] \<and> registryCAPath (ConfigHost L r) = p) (rev rs) of
        Some r \<Rightarrow> Some (inlineCA r) | None \<Rightarrow> None)"
    by (simp add: registryCAFiles_def map_of_ca_files_loop split: option.split)
qed code_simp+

subsection \<open>Nothing accepted is lost\<close>

lemma registries_loop_mirrors:
  "distinct (map rg_Name rs) \<Longrightarrow> r \<in> set rs \<Longrightarrow> MirrorEndpoint r \<noteq> [] \<Longrightarrow>
   map_of (fst (registries_loop L ms cs rs)) (rg_Name r) = Some (VMap MDig (registry_mirror r))"
proof (induction L ms cs rs rule: registries_loop.induct)
  case (2 L ms cs reg regs)
  have keep: "k \<notin> rg_Name ` set rs \<Longrightarrow> map_of (fst (registries_loop L ms cs rs)) k = map_of ms k" for k rs ms cs
    by (induction L ms cs rs rule: registries_loop.induct) (auto simp: Let_def update_conv')
  show ?case
  proof (cases "r = reg")
    case True
    with 2 show ?thesis by (simp add: Let_def keep update_conv')
  next
    case False
    with 2 show ?thesis by (simp add: Let_def)
  qed
qed simp

lemma registries_loop_configs:
  "map_of (snd (registries_loop L ms cs rs)) host =
     (case List.find (\<lambda>r. registry_entry L r \<noteq> [] \<and> ConfigHost L r = host) (rev rs) of
        Some r \<Rightarrow> Some (VMap MDig (registry_entry L r)) | None \<Rightarrow> map_of cs host)"
proof (induction L ms cs rs rule: registries_loop.induct)
  case (2 L ms cs reg regs)
  have find_append: "List.find P (xs @ [x]) = (case List.find P xs of Some y \<Rightarrow> Some y | None \<Rightarrow> if P x then Some x else None)"
    for P and xs :: "Registries list" and x
    by (induction xs) auto
  show ?case using 2 by (auto simp: Let_def find_append update_conv' split: option.splits)
qed simp

lemma find_member: "List.find P xs = Some q \<Longrightarrow> q \<in> set xs \<and> P q"
  by (induction xs) (auto split: if_splits)

lemma registry_entry_cong:
  "rg_TLS a = rg_TLS b \<Longrightarrow> rg_Authentication a = rg_Authentication b \<Longrightarrow> ConfigHost L a = ConfigHost L b \<Longrightarrow>
   registry_entry L a = registry_entry L b"
  by (simp add: registry_entry_def)

definition registry_section :: "vmap \<Rightarrow> string \<Rightarrow> string \<Rightarrow> vval option" where
  "registry_section file section key = map_of (DigMapping file section) key"

lemma registry_sections:
  "registry_section (buildRegistriesConfig L rs) ''mirrors'' k = map_of (fst (registries_loop L [] [] rs)) k"
  "registry_section (buildRegistriesConfig L rs) ''configs'' k = map_of (snd (registries_loop L [] [] rs)) k"
  by (auto simp: registry_section_def buildRegistriesConfig_def DigMapping_def mget_def split: prod.splits)

text \<open>C18. Of registries that passed validation, none is lost in \<open>registries.yaml\<close>: every mirror stands under
  its registry's name, and the settings of an entry with credentials in the clear or with a token stand
  under its host, exactly as the entry has them.\<close>

theorem accepted_registries_rendered:
  assumes "ValidateRegistries L rs = None" and "r \<in> set rs"
  shows "(MirrorEndpoint r = [] \<or>
      registry_section (buildRegistriesConfig L rs) ''mirrors'' (rg_Name r) = Some (VMap MDig (registry_mirror r))) \<and>
    (sealed (rg_Authentication r) \<and> ra_Token (rg_Authentication r) = [] \<or>
      registry_section (buildRegistriesConfig L rs) ''configs'' (ConfigHost L r) = Some (VMap MDig (registry_entry L r)))"
proof -
  have mirror: "registry_section (buildRegistriesConfig L rs) ''mirrors'' (rg_Name r) = Some (VMap MDig (registry_mirror r))"
    if "MirrorEndpoint r \<noteq> []"
    using assms that by (auto simp: registry_sections ValidateRegistries_iff intro!: registries_loop_mirrors)
  have config: "registry_section (buildRegistriesConfig L rs) ''configs'' (ConfigHost L r) = Some (VMap MDig (registry_entry L r))"
    if clear: "\<not> (sealed (rg_Authentication r) \<and> ra_Token (rg_Authentication r) = [])"
  proof -
    let ?P = "\<lambda>q. registry_entry L q \<noteq> [] \<and> ConfigHost L q = ConfigHost L r"
    have "registry_entry L r \<noteq> []"
      using clear by (auto simp: registry_entry_def registryAuth_def sealed_def Let_def)
    then obtain q where q: "List.find ?P (rev rs) = Some q"
      using assms(2) by (cases "List.find ?P (rev rs)") (auto simp: find_None_iff)
    have mem: "q \<in> set rs" "ConfigHost L q = ConfigHost L r"
      using find_member [OF q] by simp_all
    with hosts_share_settings [OF assms(1) assms(2) mem(1) mem(2) [symmetric]] clear
    have "registry_entry L q = registry_entry L r" by (auto intro: registry_entry_cong)
    with q show ?thesis by (simp add: registry_sections registries_loop_configs)
  qed
  from mirror config show ?thesis by blast
qed

lemma accepted_registries_rendered_witness:
  "registry_section (buildRegistriesConfig sample_lib [bare_registry ''a'' ''u'' ''p'']) ''configs'' ''mirror''
     = Some (VMap MDig [(''auth'', VMap MDig [(''auth'', VStr ''dTpw'')])])"
proof -
  let ?r = "bare_registry ''a'' ''u'' ''p''"
  have "ValidateRegistries sample_lib [?r] = None" by code_simp
  from accepted_registries_rendered [OF this, of ?r]
  have "sealed (rg_Authentication ?r) \<and> ra_Token (rg_Authentication ?r) = [] \<or>
      registry_section (buildRegistriesConfig sample_lib [?r]) ''configs'' (ConfigHost sample_lib ?r)
        = Some (VMap MDig (registry_entry sample_lib ?r))" by simp
  moreover have "\<not> sealed (rg_Authentication ?r)" "ConfigHost sample_lib ?r = ''mirror''"
    "registry_entry sample_lib ?r = [(''auth'', VMap MDig [(''auth'', VStr ''dTpw'')])]" by code_simp+
  ultimately show ?thesis by simp
qed

subsection \<open>Credentials\<close>

text \<open>Credentials are written in exactly one spelling, and what the engine reads back is what was
  configured: a token alone is a token, a pair is the base64 text of user and password, and two pairs
  are written alike only if they are the same, as long as no user name has a colon in it.\<close>

theorem registryAuth_spellings:
  "(ra_Token a \<noteq> [] \<longleftrightarrow> map_of (registryAuth a) ''identity_token'' \<noteq> None) \<and>
   (map_of (registryAuth a) ''auth'' = None \<or>
      length (registryAuth a) = 1 \<and>
      map_option (\<lambda>v. case v of VStr t \<Rightarrow> unbase64 t | _ \<Rightarrow> []) (map_of (registryAuth a) ''auth'') =
        Some (ra_Username a @ '':'' @ ra_Password a)) \<and>
   (CHR '':'' \<in> set (ra_Username a) \<or> CHR '':'' \<in> set (ra_Username b) \<or> registryAuth a \<noteq> registryAuth b \<or>
      (if ra_Token a = [] then a = b else ra_Token a = ra_Token b))"
proof -
  have pair: "u = u' \<and> p = p'" if "u @ CHR '':'' # p = u' @ CHR '':'' # p'" "CHR '':'' \<notin> set u" "CHR '':'' \<notin> set u'"
    for u u' p p' :: string
    using that by (induction u arbitrary: u') (case_tac u', auto)+
  have "registryAuth a = registryAuth b \<Longrightarrow> CHR '':'' \<notin> set (ra_Username a) \<Longrightarrow> CHR '':'' \<notin> set (ra_Username b) \<Longrightarrow>
      (if ra_Token a = [] then a = b else ra_Token a = ra_Token b)"
    by (cases a; cases b) (auto simp: registryAuth_def dest: pair split: if_splits)
  then have inj: "CHR '':'' \<in> set (ra_Username a) \<or> CHR '':'' \<in> set (ra_Username b) \<or> registryAuth a \<noteq> registryAuth b \<or>
      (if ra_Token a = [] then a = b else ra_Token a = ra_Token b)" by blast
  show ?thesis by (intro conjI inj) (simp_all add: registryAuth_def)
qed

subsection \<open>Quoted keys\<close>

text \<open>The nodes of the YAML library, as far as the quoting looks at them.\<close>

datatype yaml_kind = DocumentNode | MappingNode | SequenceNode | ScalarNode | AliasNode

datatype yaml_node = Node (nd_Kind: yaml_kind) (nd_Value: string) (nd_DoubleQuoted: bool) (nd_Content: "yaml_node list")

fun quote_node :: "yaml_node \<Rightarrow> yaml_node" where
  "quote_node (Node k v q c) = Node k v True c"

text \<open>\<open>quoteKeys\<close>: every other child, from the first.\<close>

fun quote_keys :: "yaml_node list \<Rightarrow> yaml_node list" where
  "quote_keys [] = []"
| "quote_keys [k] = [quote_node k]"
| "quote_keys (k # v # c) = quote_node k # v # quote_keys c"

fun quote_content :: "yaml_node \<Rightarrow> yaml_node" where
  "quote_content (Node k v q c) = Node k v q (quote_keys c)"

fun quote_rewrites :: "yaml_node list \<Rightarrow> yaml_node list" where
  "quote_rewrites (k # v # c) =
     k # (if nd_Value k = ''rewrite'' \<and> nd_Kind v = MappingNode then quote_content v else v) # quote_rewrites c"
| "quote_rewrites c = c"

definition quoteRewriteKeys :: "yaml_node \<Rightarrow> yaml_node" where
  "quoteRewriteKeys mirror =
     (case mirror of Node k v q c \<Rightarrow> if k \<noteq> MappingNode then mirror else Node k v q (quote_rewrites c))"

fun quote_mirrors :: "yaml_node list \<Rightarrow> yaml_node list" where
  "quote_mirrors (k # v # c) = k # quoteRewriteKeys v # quote_mirrors c"
| "quote_mirrors c = c"

definition quote_section :: "string \<Rightarrow> yaml_node \<Rightarrow> yaml_node" where
  "quote_section section entries =
     (case entries of Node k v q c \<Rightarrow>
        if k \<noteq> MappingNode then entries
        else if section \<noteq> ''mirrors'' \<and> section \<noteq> ''configs'' then entries
        else Node k v q (if section \<noteq> ''mirrors'' then quote_keys c else quote_mirrors (quote_keys c)))"

fun quote_sections :: "yaml_node list \<Rightarrow> yaml_node list" where
  "quote_sections (k # v # c) = k # quote_section (nd_Value k) v # quote_sections c"
| "quote_sections c = c"

definition quote_root :: "yaml_node \<Rightarrow> yaml_node" where
  "quote_root root = (case root of Node k v q c \<Rightarrow> if k \<noteq> MappingNode then root else Node k v q (quote_sections c))"

definition quoteRegistryKeys :: "yaml_node \<Rightarrow> yaml_node" where
  "quoteRegistryKeys doc =
     (case doc of Node k v q c \<Rightarrow>
        if k = DocumentNode \<and> length c > 0 then Node k v q (quote_root (hd c) # tl c) else quote_root doc)"

text \<open>A document without its styles.\<close>

fun unstyled :: "yaml_node \<Rightarrow> yaml_node" where
  "unstyled (Node k v q c) = Node k v False (map unstyled c)"

lemma unstyled_quote [simp]: "unstyled (quote_node n) = unstyled n" by (cases n) simp

lemma unstyled_keys [simp]: "map unstyled (quote_keys c) = map unstyled c"
  by (induction c rule: quote_keys.induct) auto

lemma unstyled_content [simp]: "unstyled (quote_content n) = unstyled n" by (cases n) simp

lemma unstyled_rewrites [simp]: "map unstyled (quote_rewrites c) = map unstyled c"
  by (induction c rule: quote_rewrites.induct) auto

lemma unstyled_rewrite_keys [simp]: "unstyled (quoteRewriteKeys n) = unstyled n"
  by (cases n) (auto simp: quoteRewriteKeys_def)

lemma unstyled_mirrors [simp]: "map unstyled (quote_mirrors c) = map unstyled c"
  by (induction c rule: quote_mirrors.induct) auto

lemma unstyled_section [simp]: "unstyled (quote_section sec n) = unstyled n"
  by (cases n) (auto simp: quote_section_def)

lemma unstyled_sections [simp]: "map unstyled (quote_sections c) = map unstyled c"
  by (induction c rule: quote_sections.induct) auto

lemma unstyled_root [simp]: "unstyled (quote_root n) = unstyled n"
  by (cases n) (auto simp: quote_root_def)

lemma quote_keys_keys: "i < length c \<Longrightarrow> even i \<Longrightarrow> nd_DoubleQuoted (quote_keys c ! i)"
proof (induction c arbitrary: i rule: quote_keys.induct)
  case (2 k)
  then show ?case by (cases k) simp
next
  case (3 k v c)
  then show ?case
  proof (cases i)
    case 0 then show ?thesis by (cases k) simp
  next
    case (Suc j)
    with 3 have "odd j" by simp
    then obtain l where "i = Suc (Suc l)" using Suc by (cases j) auto
    with 3 show ?thesis by simp
  qed
qed simp

lemma length_quote_mirrors [simp]: "length (quote_mirrors c) = length c"
  by (induction c rule: quote_mirrors.induct) auto

lemma quote_mirrors_keys: "i < length c \<Longrightarrow> even i \<Longrightarrow> quote_mirrors c ! i = c ! i"
proof (induction c arbitrary: i rule: quote_mirrors.induct)
  case (1 k v c)
  show ?case
  proof (cases i)
    case (Suc j)
    with 1 have "odd j" by simp
    then obtain l where "i = Suc (Suc l)" using Suc by (cases j) auto
    with 1 show ?thesis by simp
  qed simp
qed auto

lemma length_quote_keys [simp]: "length (quote_keys c) = length c"
  by (induction c rule: quote_keys.induct) auto

text \<open>Quoting the keys of \<open>registries.yaml\<close> changes the style of nodes and nothing else, and every key
  of the mirrors and of the configs is quoted.\<close>

theorem quoteRegistryKeys_only_styles:
  "unstyled (quoteRegistryKeys doc) = unstyled doc \<and>
   list_all (\<lambda>section. list_all (\<lambda>i. odd i \<or> nd_DoubleQuoted (nd_Content (quote_section section (Node MappingNode v q c)) ! i))
     [0..<length c]) [''mirrors'', ''configs'']"
proof -
  have "unstyled (quoteRegistryKeys doc) = unstyled doc"
    by (cases doc) (auto simp: quoteRegistryKeys_def neq_Nil_conv)
  moreover have "nd_DoubleQuoted (quote_mirrors (quote_keys c) ! i)" if "i < length c" "even i" for i
    using that by (simp add: quote_mirrors_keys quote_keys_keys)
  ultimately show ?thesis by (auto simp: quote_section_def list_all_iff quote_keys_keys)
qed

end
