(* ===== verification/Engine_Rancher.thy ===== *)
theory Engine_Rancher
  imports Engine_Registries Firewall_Plan
begin

section \<open>The rke2 and k3s drivers\<close>

text \<open>
  \<open>types/distrocfg/rancher_common.go\<close>, \<open>distro_common.go\<close>, \<open>rancher_rke2.go\<close> and \<open>rancher_k3s.go\<close>: the
  configuration a node gets, the files that go with it, what is removed, and how a service is stopped;
  and the choice of the join tokens in \<open>pkg/phase/60_configure_engine.go\<close>. The YAML and JSON encoders
  are parameters, and a host is a \<open>machine\<close> with the further calls the drivers make.
\<close>

subsection \<open>Paths and names\<close>

record Common =
  co_Binary :: string
  co_BinaryDir :: string
  co_Config :: string
  co_Data :: string
  co_ID :: string
  co_PackageDir :: string
  co_ServiceController :: string
  co_Supervisor :: nat
  co_ServiceWorker :: string
  co_Token :: string

definition RKE2 :: Common where
  "RKE2 =
     \<lparr>co_Binary = ''rke2'', co_BinaryDir = ''/usr/local/bin'', co_Config = ''/etc/rancher/rke2/config.yaml'',
      co_Data = ''/var/lib/rancher/rke2'', co_ID = ''rke2'', co_PackageDir = [], co_ServiceController = ''rke2-server'',
      co_Supervisor = 9345, co_ServiceWorker = ''rke2-agent'', co_Token = ''/etc/rancher/rke2/token''\<rparr>"

definition K3S :: Common where
  "K3S =
     \<lparr>co_Binary = ''k3s'', co_BinaryDir = ''/usr/local/bin'', co_Config = ''/etc/rancher/k3s/config.yaml'',
      co_Data = ''/var/lib/rancher/k3s'', co_ID = ''k3s'', co_PackageDir = [], co_ServiceController = ''k3s-server'',
      co_Supervisor = 6443, co_ServiceWorker = ''k3s-agent'', co_Token = ''/etc/rancher/k3s/token''\<rparr>"

definition SupervisorURL :: "Common \<Rightarrow> string \<Rightarrow> string" where
  "SupervisorURL d name = ''https://'' @ name @ '':'' @ show_nat (co_Supervisor d)"

definition BinaryPath :: "Common \<Rightarrow> string" where
  "BinaryPath d = co_BinaryDir d @ ''/'' @ co_Binary d"

definition PackageStagingDir :: "Common \<Rightarrow> string" where
  "PackageStagingDir d = (if co_PackageDir d \<noteq> [] then co_PackageDir d else co_Data d)"

definition JoinTokenPathAgent :: "Common \<Rightarrow> string" where
  "JoinTokenPathAgent d = path_Join (path_Dir (co_Token d)) ''agent-token''"

definition beside_config :: "Common \<Rightarrow> string \<Rightarrow> string" where
  "beside_config d name = path_Join (path_Dir (co_Config d)) name"

definition RKE2_KubeconfigPath :: "Common \<Rightarrow> string" where
  "RKE2_KubeconfigPath d = beside_config d ''rke2.yaml''"

definition K3S_KubeconfigPath :: "Common \<Rightarrow> string" where
  "K3S_KubeconfigPath d = beside_config d ''k3s.yaml''"

text \<open>The commands, for arguments that are already formatted.\<close>

definition DistroCmd :: "Common \<Rightarrow> string \<Rightarrow> string" where
  "DistroCmd d args = BinaryPath d @ '' '' @ args"

definition RKE2_KubectlCmd :: "Common \<Rightarrow> string \<Rightarrow> string" where
  "RKE2_KubectlCmd d args =
     ''env \"KUBECONFIG='' @ RKE2_KubeconfigPath d @ ''\" '' @ co_Data d @ ''/bin/kubectl '' @ args"

definition K3S_KubectlCmd :: "Common \<Rightarrow> string \<Rightarrow> string" where
  "K3S_KubectlCmd d args =
     ''env \"KUBECONFIG='' @ K3S_KubeconfigPath d @ ''\" '' @ DistroCmd d (''kubectl '' @ args)"

subsection \<open>What an uninstall removes\<close>

definition kubeletDir :: string where "kubeletDir = ''/var/lib/kubelet''"

fun removable_loop :: "string list \<Rightarrow> string list \<Rightarrow> string list" where
  "removable_loop out [] = out"
| "removable_loop out (p # paths) =
     (let clean = path_Clean p in
      if clean = ''.'' \<or> clean = ''/'' then removable_loop out paths
      else if clean \<in> set out then removable_loop out paths
      else removable_loop (out @ [clean]) paths)"

definition removablePaths :: "string list \<Rightarrow> string list" where
  "removablePaths paths = removable_loop [] paths"

definition CleanupPaths :: "Common \<Rightarrow> string list" where
  "CleanupPaths d =
     (let configDir = path_Dir (co_Config d); parent = path_Dir configDir;
          paths = [co_Data d, configDir] @ (if parent \<noteq> ''.'' \<and> parent \<noteq> ''/'' then [path_Join parent ''node''] else []);
          engine = removablePaths paths
      in if length engine = 0 then engine else removablePaths (engine @ [kubeletDir]))"

subsection \<open>Managed directories\<close>

definition helmChartConfigSuffix :: string where "helmChartConfigSuffix = ''-config.yaml''"

definition StateDir :: string where "StateDir = ''/etc/cargoship''"

definition manifestDir :: "Common \<Rightarrow> string" where
  "manifestDir d = path_Joins [co_Data d, ''server'', ''manifests'']"

definition ManagedDirs :: "Common \<Rightarrow> ManagedDir list" where
  "ManagedDirs d =
     [\<lparr>md_Path = registryTLSDir, md_Glob = []\<rparr>, \<lparr>md_Path = StateDir, md_Glob = []\<rparr>,
      \<lparr>md_Path = manifestDir d, md_Glob = ''*'' @ helmChartConfigSuffix\<rparr>]"

subsection \<open>The files of a node\<close>

record Distro_Package =
  dp_Name :: string
  dp_Version :: string
  dp_Description :: string
  dp_Architecture :: string
  dp_AggregateChecksum :: string
  dp_Build :: string
  dp_Type :: string
  dp_EngineVersion :: string
  dp_Config :: Distro_Config

text \<open>What \<open>distro-release.json\<close> records.\<close>

record Release =
  rel_package :: Distro_Package
  rel_images :: "string list"
  rel_managedFiles :: "string list"

text \<open>
  The encoders: \<open>en_values\<close> and \<open>en_yaml\<close> are the YAML encoder with an indent of two on a value and on a
  mapping, \<open>en_marshal\<close>, \<open>en_unmarshal\<close> and \<open>en_node\<close> the calls with which \<open>registries.yaml\<close> gets its quoted
  keys, \<open>en_json\<close> the indented JSON encoder, \<open>en_print\<close> is \<open>fmt.Sprint\<close>.
\<close>

record encoders =
  en_registries :: registry_lib
  en_print :: "vval \<Rightarrow> string"
  en_values :: "vval \<Rightarrow> string option"
  en_yaml :: "vmap \<Rightarrow> string option"
  en_marshal :: "vmap \<Rightarrow> string option"
  en_unmarshal :: "string \<Rightarrow> yaml_node option"
  en_node :: "yaml_node \<Rightarrow> string option"
  en_json :: "Release \<Rightarrow> string option"

record RuntimeMeta =
  rm_ControllerTLS :: "string list"
  rm_ControllerToken :: string
  rm_AgentToken :: string
  rm_LoadBalancer :: string
  rm_LeaderName :: string
  rm_Registries :: "Registries list"

datatype engine_error = EnginePanic | EncodeError | EngineFile fs_error

definition marshalYAML :: "encoders \<Rightarrow> vmap \<Rightarrow> string option" where
  "marshalYAML E config = map_option (\<lambda>t. ''---'' @ [CHR 0x0A] @ t) (en_yaml E config)"

definition marshalRegistriesYAML :: "encoders \<Rightarrow> vmap \<Rightarrow> string option" where
  "marshalRegistriesYAML E config =
     (case en_marshal E config of
        None \<Rightarrow> None
      | Some raw \<Rightarrow>
          (case en_unmarshal E raw of
             None \<Rightarrow> None
           | Some doc \<Rightarrow> map_option (\<lambda>t. ''---'' @ [CHR 0x0A] @ t) (en_node E (quoteRegistryKeys doc))))"

definition EngineAudit :: string where "EngineAudit = ''audit''"
definition EngineConfig :: string where "EngineConfig = ''config''"
definition EnginePSS :: string where "EnginePSS = ''podSecurity''"

lemmas engine_sections = EngineAudit_def EngineConfig_def EnginePSS_def EngineManifest_def

text \<open>The charts under the \<open>disable\<close> key, which may be one name or a list.\<close>

definition disabledCharts :: "vmap \<Rightarrow> string set" where
  "disabledCharts nodeConfig =
     set (filter (\<lambda>name. name \<noteq> [])
       (map trim_space (disableValues (mget (DigMapping nodeConfig EngineConfig) ''disable''))))"

definition helmValuesContent :: "encoders \<Rightarrow> vval \<Rightarrow> string option" where
  "helmValuesContent E v = (case v of VStr s \<Rightarrow> Some s | _ \<Rightarrow> en_values E v)"

definition HelmChartConfig :: "string \<Rightarrow> string \<Rightarrow> vmap" where
  "HelmChartConfig chart values =
     [(''apiVersion'', VStr ''helm.cattle.io/v1''), (''kind'', VStr ''HelmChartConfig''),
      (''metadata'', VMap MString [(''name'', VStr chart), (''namespace'', VStr ''kube-system'')]),
      (''spec'', VMap MString [(''valuesContent'', VStr values)])]"

definition modeConfigFile :: string where "modeConfigFile = ''0600''"
definition modeRegistries :: string where "modeRegistries = ''0640''"

fun chart_files :: "encoders \<Rightarrow> Common \<Rightarrow> string set \<Rightarrow> desired \<Rightarrow> (string \<times> ChartManifest) list \<Rightarrow> engine_error + desired" where
  "chart_files E d disabled files [] = Inr files"
| "chart_files E d disabled files ((chart, m) # ms) =
     (if chart \<in> disabled \<or> \<not> cm_Enabled m then chart_files E d disabled files ms
      else (case helmValuesContent E (cm_Values m) of
              None \<Rightarrow> Inl EncodeError
            | Some values \<Rightarrow>
                (case marshalYAML E (HelmChartConfig chart values) of
                   None \<Rightarrow> Inl EncodeError
                 | Some b \<Rightarrow>
                     chart_files E d disabled
                       (AList.update (path_Join (manifestDir d) (chart @ helmChartConfigSuffix))
                          \<lparr>df_Content = b, df_Mode = modeConfigFile, df_NoRestart = True\<rparr> files) ms)))"

definition helmChartConfigs :: "encoders \<Rightarrow> Common \<Rightarrow> vmap \<Rightarrow> engine_error + desired" where
  "helmChartConfigs E d nodeConfig =
     (let manifests = ChartManifests (en_print E) nodeConfig in
      if length manifests = 0 then Inr [] else chart_files E d (disabledCharts nodeConfig) [] manifests)"

definition DistroReleaseFile :: string where "DistroReleaseFile = ''/etc/cargoship/distro-release.json''"

definition DistroReleaseDesiredFile :: "encoders \<Rightarrow> Distro_Package \<Rightarrow> desired \<Rightarrow> engine_error + (string \<times> DesiredFile) option" where
  "DistroReleaseDesiredFile E dis managedFiles =
     (if dp_Name dis = [] \<and> dp_EngineVersion dis = [] then Inr None
      else (case en_json E
               \<lparr>rel_package = dis, rel_images = EnabledImages (en_print E) (dp_Config dis),
                rel_managedFiles = sort_strings (filter (\<lambda>p. p \<noteq> DistroReleaseFile) (map fst managedFiles))\<rparr> of
              None \<Rightarrow> Inl EncodeError
            | Some b \<Rightarrow> Inr (Some (DistroReleaseFile, \<lparr>df_Content = b @ [CHR 0x0A], df_Mode = ''0600'', df_NoRestart = True\<rparr>))))"

definition put_all :: "('k \<times> 'v) list \<Rightarrow> ('k \<times> 'v) list \<Rightarrow> ('k \<times> 'v) list" where
  "put_all files extra = foldl (\<lambda>fs (p, f). AList.update p f fs) files extra"

definition registry_files :: "encoders \<Rightarrow> Common \<Rightarrow> Registries list \<Rightarrow> engine_error + desired" where
  "registry_files E d registries =
     (if length registries = 0 then Inr []
      else (case marshalRegistriesYAML E (buildRegistriesConfig (en_registries E) registries) of
              None \<Rightarrow> Inl EncodeError
            | Some b \<Rightarrow>
                Inr (put_all [(beside_config d ''registries.yaml'', \<lparr>df_Content = b, df_Mode = modeRegistries, df_NoRestart = False\<rparr>)]
                  (map (\<lambda>(p, ca). (p, \<lparr>df_Content = ca, df_Mode = modeConfigFile, df_NoRestart = False\<rparr>))
                    (registryCAFiles (en_registries E) registries)))))"

definition engine_policy :: "encoders \<Rightarrow> vmap \<Rightarrow> string \<Rightarrow> string \<Rightarrow> string \<Rightarrow> string \<Rightarrow> desired \<Rightarrow> engine_error + desired" where
  "engine_policy E nodeConfig section kind apiVersion path files =
     (let policy = DigMapping nodeConfig section in
      if length policy > 0 then
        (case marshalYAML E (AList.update ''apiVersion'' (VStr apiVersion) (AList.update ''kind'' (VStr kind) policy)) of
           None \<Rightarrow> Inl EncodeError
         | Some b \<Rightarrow> Inr (AList.update path \<lparr>df_Content = b, df_Mode = modeConfigFile, df_NoRestart = False\<rparr> files))
      else Inr files)"

definition DesiredFiles :: "encoders \<Rightarrow> Common \<Rightarrow> bool \<Rightarrow> Registries list \<Rightarrow> Distro_Package \<Rightarrow> engine_error + desired" where
  "DesiredFiles E d controller registries dis =
     bind_res (registry_files E d registries) (\<lambda>files.
     bind_res (case Dup (dc_Engine (dp_Config dis)) of None \<Rightarrow> Inl EnginePanic | Some n \<Rightarrow> Inr n) (\<lambda>nodeConfig.
     bind_res (engine_policy E nodeConfig EngineAudit ''Policy'' ''audit.k8s.io/v1'' (beside_config d ''audit.yaml'') files) (\<lambda>files.
     bind_res (engine_policy E nodeConfig EnginePSS ''AdmissionConfiguration'' ''apiserver.config.k8s.io/v1'' (beside_config d ''pss.yaml'') files) (\<lambda>files.
     bind_res (if controller then helmChartConfigs E d nodeConfig else Inr []) (\<lambda>manifests.
     let files = put_all files manifests in
     bind_res (DistroReleaseDesiredFile E dis files) (\<lambda>release.
     case release of None \<Rightarrow> Inr files | Some (p, f) \<Rightarrow> Inr (AList.update p f files)))))))"

subsection \<open>The configuration of a node\<close>

definition setNodeIP :: "Host \<Rightarrow> vmap \<Rightarrow> vmap" where
  "setNodeIP host cfg =
     (if h_PrivateAddress host = [] then cfg
      else if mget cfg ''node-ip'' \<noteq> VNil then cfg
      else AList.update ''node-ip'' (VList [VStr (h_PrivateAddress host)]) cfg)"

definition NodeLabelsMapToList :: "(string \<times> string) list \<Rightarrow> string list" where
  "NodeLabelsMapToList m = map (\<lambda>(k, v). k @ ''='' @ v) m"

definition controllerArgs :: "string list" where
  "controllerArgs = [''kube-apiserver-arg'', ''kube-controller-manager-arg'', ''kube-scheduler-arg'', ''etcd-arg'']"

abbreviation put :: "string \<Rightarrow> vval \<Rightarrow> vmap \<Rightarrow> vmap" where "put \<equiv> AList.update"

abbreviation strings :: "string list \<Rightarrow> vval" where "strings xs \<equiv> VList (map VStr xs)"

definition node_settings :: "Common \<Rightarrow> Host \<Rightarrow> vmap \<Rightarrow> vmap" where
  "node_settings d host cfg =
     (let cfg = setNodeIP host (put ''data-dir'' (VStr (co_Data d)) (put ''node-name'' (VStr (h_Hostname host)) cfg));
          cfg = (if length (he_labels (h_Engine host)) > 0
                 then put ''node-label'' (strings (NodeLabelsMapToList (he_labels (h_Engine host)))) cfg else cfg)
      in if length (he_taints (h_Engine host)) > 0 then put ''node-taint'' (strings (he_taints (h_Engine host))) cfg else cfg)"

definition controller_settings :: "Common \<Rightarrow> Host \<Rightarrow> RuntimeMeta \<Rightarrow> vmap \<Rightarrow> vmap" where
  "controller_settings d host run cfg =
     (let cfg = put ''agent-token-file'' (VStr (JoinTokenPathAgent d))
                  (put ''token-file'' (VStr (co_Token d)) (put ''tls-san'' (strings (rm_ControllerTLS run)) cfg))
      in if \<not> hm_IsLeader (h_Metadata host) then put ''server'' (VStr (SupervisorURL d (rm_LeaderName run))) cfg else cfg)"

definition worker_settings :: "Common \<Rightarrow> RuntimeMeta \<Rightarrow> vmap \<Rightarrow> vmap" where
  "worker_settings d run cfg =
     put ''server'' (VStr (SupervisorURL d (rm_LoadBalancer run)))
       (foldl (\<lambda>cfg v. AList.delete v cfg) (put ''token-file'' (VStr (JoinTokenPathAgent d)) cfg) controllerArgs)"

definition policy_settings :: "Common \<Rightarrow> vmap \<Rightarrow> vmap \<Rightarrow> vmap" where
  "policy_settings d nodeConfig cfg =
     (let cfg = (if length (DigMapping nodeConfig EngineAudit) > 0
                 then put ''audit-policy-file'' (VStr (beside_config d ''audit.yaml'')) cfg else cfg)
      in if length (DigMapping nodeConfig EnginePSS) > 0
         then put ''pod-security-admission-config-file'' (VStr (beside_config d ''pss.yaml'')) cfg else cfg)"

definition validateEngineConfig :: "schema_registry \<Rightarrow> Common \<Rightarrow> string \<Rightarrow> bool \<Rightarrow> vmap \<Rightarrow> vmap" where
  "validateEngineConfig G d version isController cfg =
     (case Lookup G (co_ID d) version of
        None \<Rightarrow> cfg
      | Some entry \<Rightarrow>
          (let valid = (if isController then en_Server entry else en_Agent entry) in
           filter (\<lambda>(k, _). k \<in> valid) cfg))"

text \<open>The mapping that \<open>config.yaml\<close> is rendered from, without the check of its keys: nothing that
  happens on the host has an influence on it.\<close>

definition engine_config :: "Common \<Rightarrow> Host \<Rightarrow> RuntimeMeta \<Rightarrow> vmap \<Rightarrow> vmap" where
  "engine_config d host run nodeConfig =
     policy_settings d nodeConfig
       ((if IsController host then controller_settings d host run else worker_settings d run)
         (node_settings d host (DigMapping nodeConfig EngineConfig)))"

subsection \<open>Configuring a node\<close>

text \<open>The further calls: stopping a service, setting the time stamp of a file to the epoch, and the path of
  a program.\<close>

record 's engine_machine = "'s machine" +
  em_stop :: "string \<Rightarrow> 's \<Rightarrow> string option \<times> 's"
  em_touch :: "string \<Rightarrow> 's \<Rightarrow> fs_error option \<times> 's"
  em_lookpath :: "'s \<Rightarrow> string \<Rightarrow> string option"

text \<open>A token is written where there is none; what is read otherwise goes into a copy of the run's data
  that nothing looks at again.\<close>

definition put_token :: "('s, 'x) engine_machine_scheme \<Rightarrow> string \<Rightarrow> string \<Rightarrow> 's \<Rightarrow> fs_error option \<times> 's" where
  "put_token M path token s =
     (if \<not> r_exists (mc_fs M) s path then Host_WriteFile (mc_fs M) path token ''0600'' s else (None, s))"

definition useradd :: string where
  "useradd = ''sudo useradd --no-create-home --shell /sbin/nologin --system --user-group etcd''"

definition etcd_user :: "('s, 'x) engine_machine_scheme \<Rightarrow> vmap \<Rightarrow> 's \<Rightarrow> 's" where
  "etcd_user M nodeConfig s =
     (if DigString nodeConfig EngineConfig ''profile'' \<noteq> [] \<and> mc_output M s ''getent passwd etcd'' = None
      then snd (mc_exec M useradd s) else s)"

definition engineServiceRunning :: "('s, 'x) engine_machine_scheme \<Rightarrow> Common \<Rightarrow> bool \<Rightarrow> 's \<Rightarrow> bool" where
  "engineServiceRunning M d controller s =
     mc_running M s (if controller then co_ServiceController d else co_ServiceWorker d)"

text \<open>Writing the desired files: a failure is only logged, and so is one of the pruning.\<close>

fun write_logged :: "'s remote \<Rightarrow> desired \<Rightarrow> 's \<Rightarrow> 's" where
  "write_logged R [] s = s"
| "write_logged R ((path, file) # fs) s =
     write_logged R fs (snd (Host_WriteFile R path (df_Content file) (df_Mode file) s))"

definition install_files ::
  "encoders \<Rightarrow> 's listing \<Rightarrow> ('s, 'x) engine_machine_scheme \<Rightarrow> Common \<Rightarrow> bool \<Rightarrow> Registries list \<Rightarrow> Distro_Package \<Rightarrow> 's \<Rightarrow> 's"
where
  "install_files E listFiles M d controller registries dis s =
     (let desired = (case DesiredFiles E d controller registries dis of Inl _ \<Rightarrow> [] | Inr files \<Rightarrow> files)
      in snd (RemoveStaleFiles listFiles (mc_fs M) (ManagedDirs d) desired (write_logged (mc_fs M) desired s)))"

definition engine_step :: "('s \<Rightarrow> fs_error option \<times> 's) \<Rightarrow> 's \<Rightarrow> engine_error option \<times> 's" where
  "engine_step f s = (case f s of (e, s') \<Rightarrow> (map_option EngineFile e, s'))"

definition writeYAML :: "encoders \<Rightarrow> ('s, 'x) engine_machine_scheme \<Rightarrow> vmap \<Rightarrow> string \<Rightarrow> 's \<Rightarrow> engine_error option \<times> 's" where
  "writeYAML E M config path s =
     (case marshalYAML E config of
        None \<Rightarrow> (Some EncodeError, s)
      | Some out \<Rightarrow> engine_step (Host_WriteFile (mc_fs M) path out ''0600'') s)"

definition ConfigureEngine ::
  "encoders \<Rightarrow> schema_registry \<Rightarrow> 's listing \<Rightarrow> ('s, 'x) engine_machine_scheme \<Rightarrow> Common \<Rightarrow> RuntimeMeta \<Rightarrow> Distro_Package \<Rightarrow>
   Host \<Rightarrow> 's \<Rightarrow> engine_error option \<times> 's"
where
  "ConfigureEngine E G listFiles M d run dis host s =
     (case Dup (dc_Engine (dp_Config dis)) of
        None \<Rightarrow> (Some EnginePanic, s)
      | Some nodeConfig \<Rightarrow>
          (let controller = IsController host in
           and_then (\<lambda>s. if controller
                then and_then (engine_step (put_token M (co_Token d) (rm_ControllerToken run)))
                       (\<lambda>s. (None, etcd_user M nodeConfig s)) s
                else (None, s))
             (and_then (engine_step (put_token M (JoinTokenPathAgent d) (rm_AgentToken run)))
               (and_then (\<lambda>s. (None, if engineServiceRunning M d controller s then s
                                   else install_files E listFiles M d controller (rm_Registries run) dis s))
                 (writeYAML E M (validateEngineConfig G d (dp_EngineVersion dis) controller (engine_config d host run nodeConfig))
                    (co_Config d)))) s))"

subsection \<open>Join tokens\<close>

text \<open>\<open>Prepare\<close> of \<open>60_configure_engine.go\<close>: the leader's token where it can be read and is not empty,
  otherwise a random one. \<open>random\<close> is what \<open>RandomString\<close> gives; it is called in any case.\<close>

definition join_token :: "('s, 'x) engine_machine_scheme \<Rightarrow> 's \<Rightarrow> string \<Rightarrow> string option \<Rightarrow> string option" where
  "join_token M leader path random =
     (let found = (if r_exists (mc_fs M) leader path
                   then (case r_read (mc_fs M) leader path of Some token \<Rightarrow> token | None \<Rightarrow> []) else [])
      in case random of None \<Rightarrow> None | Some token \<Rightarrow> Some (if found = [] then token else found))"

definition prepare_tokens ::
  "('s, 'x) engine_machine_scheme \<Rightarrow> Common \<Rightarrow> 's \<Rightarrow> string option \<Rightarrow> string option \<Rightarrow> RuntimeMeta \<Rightarrow> RuntimeMeta option"
where
  "prepare_tokens M d leader r1 r2 run =
     (case join_token M leader (co_Token d) r1 of
        None \<Rightarrow> None
      | Some t1 \<Rightarrow>
          (case join_token M leader (JoinTokenPathAgent d) r2 of
             None \<Rightarrow> None | Some t2 \<Rightarrow> Some (run\<lparr>rm_ControllerToken := t1, rm_AgentToken := t2\<rparr>)))"

subsection \<open>Versions, networks and services\<close>

definition dotted_number :: "string \<Rightarrow> string option" where
  "dotted_number s = (if s \<noteq> [] \<and> hd s = CHR ''.'' then map_option snd (digits (tl s)) else None)"

text \<open>What follows a match of \<open>v?[0-9]+\.[0-9]+\.[0-9]+\+[a-z0-9]+\<close> at the start of a text.\<close>

definition suffix_char :: "char \<Rightarrow> bool" where
  "suffix_char c \<longleftrightarrow> is_digit c \<or> 97 \<le> byte c \<and> byte c \<le> 122"

definition rancher_version :: "string \<Rightarrow> string option" where
  "rancher_version s =
     (let s' = (if s \<noteq> [] \<and> hd s = CHR ''v'' then tl s else s) in
      case digits s' of None \<Rightarrow> None | Some (_, s1) \<Rightarrow>
      case dotted_number s1 of None \<Rightarrow> None | Some s2 \<Rightarrow>
      case dotted_number s2 of None \<Rightarrow> None | Some s3 \<Rightarrow>
        (if s3 \<noteq> [] \<and> hd s3 = CHR ''+'' \<and> tl s3 \<noteq> [] \<and> suffix_char (hd (tl s3))
         then Some (take (length s - length (dropWhile suffix_char (tl s3))) s) else None))"

definition RunningVersion :: "('s, 'x) engine_machine_scheme \<Rightarrow> Common \<Rightarrow> 's \<Rightarrow> string option" where
  "RunningVersion M d s =
     (case em_lookpath M s (co_Binary d) of
        None \<Rightarrow> None
      | Some bin \<Rightarrow> (case mc_output M s (bin @ '' --version'') of None \<Rightarrow> None | Some out \<Rightarrow> leftmost rancher_version out))"

definition GetClusterCIDR :: "Distro_Package \<Rightarrow> string list option" where
  "GetClusterCIDR dis =
     (case Dup (dc_Engine (dp_Config dis)) of
        None \<Rightarrow> None
      | Some nodeConfig \<Rightarrow>
          (let pod = DigString nodeConfig EngineConfig ''cluster-cidr''; svc = DigString nodeConfig EngineConfig ''service-cidr''
           in Some [if pod = [] then ''10.42.0.0/16'' else pod, if svc = [] then ''10.43.0.0/16'' else svc]))"

datatype stop_error = StopFailed string | CacheFailed fs_error | KillallFailed string

definition image_cache :: "Common \<Rightarrow> string" where
  "image_cache d = co_Data d @ ''/agent/images/.cache.json''"

definition stopService :: "('s, 'x) engine_machine_scheme \<Rightarrow> Common \<Rightarrow> string \<Rightarrow> string \<Rightarrow> 's \<Rightarrow> stop_error option \<times> 's" where
  "stopService M d service killall s =
     (case (if mc_running M s service then em_stop M service s else (None, s)) of
        (Some e, s1) \<Rightarrow> (Some (StopFailed e), s1)
      | (None, s1) \<Rightarrow>
          (let cache = r_exists (mc_fs M) s1 (image_cache d) in
           case (if cache then r_remove (mc_fs M) (image_cache d) s1 else (None, s1)) of
             (Some e, s2) \<Rightarrow> (Some (CacheFailed e), s2)
           | (None, s2) \<Rightarrow>
               if mc_command M s2 killall then
                 (case mc_exec M killall s2 of (e, s3) \<Rightarrow> (map_option KillallFailed e, s3))
               else (None, if cache then snd (em_touch M (image_cache d) s2) else s2)))"

definition StopControllerService :: "('s, 'x) engine_machine_scheme \<Rightarrow> Common \<Rightarrow> string \<Rightarrow> 's \<Rightarrow> stop_error option \<times> 's" where
  "StopControllerService M d killall s = stopService M d (co_ServiceController d) killall s"

definition StopWorkerService :: "('s, 'x) engine_machine_scheme \<Rightarrow> Common \<Rightarrow> string \<Rightarrow> 's \<Rightarrow> stop_error option \<times> 's" where
  "StopWorkerService M d killall s = stopService M d (co_ServiceWorker d) killall s"

subsection \<open>Safe removal\<close>

lemma removable_loop_props:
  "distinct out \<Longrightarrow> distinct (removable_loop out ps)"
  "set (removable_loop out ps) = set out \<union> (path_Clean ` set ps - {''.'', ''/''})"
  by (induction out ps rule: removable_loop.induct) (auto simp: Let_def)

lemma path_Clean_rooted: "p \<noteq> [] \<Longrightarrow> hd p = slash \<Longrightarrow> path_Clean p \<noteq> [] \<and> hd (path_Clean p) = slash"
  by (simp add: path_Clean_def Let_def)

lemma path_Dir_rooted:
  assumes "p \<noteq> []" and "hd p = slash" shows "path_Dir p \<noteq> [] \<and> hd (path_Dir p) = slash"
proof -
  obtain ys where p: "p = slash # ys" using assms by (cases p) auto
  have "rev (dropWhile (\<lambda>c. c \<noteq> slash) (rev p)) = slash # rev (dropWhile (\<lambda>c. c \<noteq> slash) (rev ys))"
    by (simp add: p dropWhile_append3)
  then show ?thesis unfolding path_Dir_def using path_Clean_rooted by force
qed

text \<open>What an uninstall hands to a recursive remove never is the root or the working directory, has no
  path twice, and is absolute if the paths of the driver are; a driver with none of its paths set
  removes nothing, not even the kubelet's directory. For rke2 and k3s it is exactly their own
  directories.\<close>

theorem CleanupPaths_safe:
  "distinct (CleanupPaths d) \<and> ''/'' \<notin> set (CleanupPaths d) \<and> ''.'' \<notin> set (CleanupPaths d) \<and>
   (hd (co_Data d @ ''.'') \<noteq> slash \<or> hd (co_Config d @ ''.'') \<noteq> slash \<or> list_all (\<lambda>p. hd p = slash) (CleanupPaths d)) \<and>
   CleanupPaths (d\<lparr>co_Data := [], co_Config := []\<rparr>) = [] \<and>
   CleanupPaths RKE2 = [''/var/lib/rancher/rke2'', ''/etc/rancher/rke2'', ''/etc/rancher/node'', ''/var/lib/kubelet''] \<and>
   CleanupPaths K3S = [''/var/lib/rancher/k3s'', ''/etc/rancher/k3s'', ''/etc/rancher/node'', ''/var/lib/kubelet'']"
proof (intro conjI)
  define ps where "ps = [co_Data d, path_Dir (co_Config d)] @
    (if path_Dir (path_Dir (co_Config d)) \<noteq> ''.'' \<and> path_Dir (path_Dir (co_Config d)) \<noteq> ''/''
     then [path_Join (path_Dir (path_Dir (co_Config d))) ''node''] else [])"
  have paths: "CleanupPaths d = (if removablePaths ps = [] then [] else removablePaths (removablePaths ps @ [kubeletDir]))"
    by (simp add: CleanupPaths_def ps_def Let_def)
  have set_rem: "set (removablePaths qs) = path_Clean ` set qs - {''.'', ''/''}" "distinct (removablePaths qs)" for qs
    by (simp_all add: removablePaths_def removable_loop_props)
  show "distinct (CleanupPaths d)" "''/'' \<notin> set (CleanupPaths d)" "''.'' \<notin> set (CleanupPaths d)"
    by (simp_all add: paths set_rem)
  show "hd (co_Data d @ ''.'') \<noteq> slash \<or> hd (co_Config d @ ''.'') \<noteq> slash \<or> list_all (\<lambda>p. hd p = slash) (CleanupPaths d)"
  proof (cases "hd (co_Data d @ ''.'') = slash \<and> hd (co_Config d @ ''.'') = slash")
    case True
    then have abs: "co_Data d \<noteq> []" "hd (co_Data d) = slash" "co_Config d \<noteq> []" "hd (co_Config d) = slash"
      by (cases "co_Data d"; cases "co_Config d"; auto simp: slash_def)+
    define parent where "parent = path_Dir (path_Dir (co_Config d))"
    have parent: "parent \<noteq> []" "hd parent = slash" "path_Dir (co_Config d) \<noteq> []" "hd (path_Dir (co_Config d)) = slash"
      unfolding parent_def using path_Dir_rooted abs by blast+
    have node: "path_Join parent ''node'' \<noteq> [] \<and> hd (path_Join parent ''node'') = slash"
      using parent path_Clean_rooted [of "parent @ slash # ''node''"] by (simp add: path_Joins_def)
    have "list_all (\<lambda>p. p \<noteq> [] \<and> hd p = slash) ps"
      using abs parent node by (simp add: ps_def parent_def)
    then have clean: "list_all (\<lambda>p. p \<noteq> [] \<and> hd p = slash) (removablePaths ps)"
      using path_Clean_rooted by (auto simp: list_all_iff set_rem)
    then have "list_all (\<lambda>p. hd p = slash) (removablePaths (removablePaths ps @ [kubeletDir]))"
      using path_Clean_rooted by (auto simp: list_all_iff set_rem kubeletDir_def slash_def)
    then show ?thesis by (simp add: paths)
  qed blast
  show "CleanupPaths (d\<lparr>co_Data := [], co_Config := []\<rparr>) = []"
  proof -
    have "path_Dir [] = ''.''" "path_Dir ''.'' = ''.''" "path_Clean [] = ''.''" "path_Clean ''.'' = ''.''" by code_simp+
    then show ?thesis by (simp add: CleanupPaths_def removablePaths_def Let_def)
  qed
qed code_simp+

subsection \<open>What the configuration says\<close>

lemma map_of_deletes:
  "map_of (foldl (\<lambda>cfg v. AList.delete v cfg) cfg ks) k = (if k \<in> set ks then None else map_of cfg k)"
  by (induction ks arbitrary: cfg) (auto simp: delete_conv')

lemma policy_settings_other:
  "k \<noteq> ''audit-policy-file'' \<Longrightarrow> k \<noteq> ''pod-security-admission-config-file'' \<Longrightarrow>
   map_of (policy_settings d n cfg) k = map_of cfg k"
  by (simp add: policy_settings_def Let_def update_conv')

lemma node_settings_lookup:
  "map_of (node_settings d host cfg) ''node-name'' = Some (VStr (h_Hostname host))"
  "map_of (node_settings d host cfg) ''data-dir'' = Some (VStr (co_Data d))"
  "map_of (node_settings d host cfg) ''node-ip'' =
     (if h_PrivateAddress host \<noteq> [] \<and> mget cfg ''node-ip'' = VNil then Some (VList [VStr (h_PrivateAddress host)])
      else map_of cfg ''node-ip'')"
  "map_of (node_settings d host cfg) ''server'' = map_of cfg ''server''"
  by (simp_all add: node_settings_def setNodeIP_def Let_def update_conv' mget_def)

lemma controller_settings_lookup:
  "map_of (controller_settings d host run cfg) k =
     (if k = ''server'' \<and> \<not> hm_IsLeader (h_Metadata host) then Some (VStr (SupervisorURL d (rm_LeaderName run)))
      else if k = ''agent-token-file'' then Some (VStr (JoinTokenPathAgent d))
      else if k = ''token-file'' then Some (VStr (co_Token d))
      else if k = ''tls-san'' then Some (strings (rm_ControllerTLS run)) else map_of cfg k)"
  by (simp add: controller_settings_def Let_def update_conv')

lemma worker_settings_lookup:
  "map_of (worker_settings d run cfg) k =
     (if k = ''server'' then Some (VStr (SupervisorURL d (rm_LoadBalancer run)))
      else if k \<in> set controllerArgs then None
      else if k = ''token-file'' then Some (VStr (JoinTokenPathAgent d)) else map_of cfg k)"
  by (simp add: worker_settings_def update_conv' map_of_deletes)

lemma engine_config_lookup:
  "k \<noteq> ''audit-policy-file'' \<Longrightarrow> k \<noteq> ''pod-security-admission-config-file'' \<Longrightarrow>
   map_of (engine_config d host run n) k =
     (if IsController host then map_of (controller_settings d host run (node_settings d host (DigMapping n EngineConfig))) k
      else map_of (worker_settings d run (node_settings d host (DigMapping n EngineConfig))) k)"
  by (simp add: engine_config_def policy_settings_other)

lemmas config_lookups = engine_config_lookup controller_settings_lookup worker_settings_lookup node_settings_lookup

text \<open>C37. Where a node gets its identity from: the name and the directory are cargoship's, the address is
  the operator's if the package names one and the private address otherwise. A controller joins with
  the controllers' token and offers the agents' one, through the leader unless it is the leader. A
  worker has the agents' token only, joins through the load balancer, and is handed no argument that is
  meant for the control plane.\<close>

theorem engine_config_roles:
  "map_of (engine_config d host run n) ''node-name'' = Some (VStr (h_Hostname host)) \<and>
   map_of (engine_config d host run n) ''data-dir'' = Some (VStr (co_Data d)) \<and>
   mget (engine_config d host run n) ''node-ip'' =
     (if mget (DigMapping n EngineConfig) ''node-ip'' = VNil \<and> h_PrivateAddress host \<noteq> []
      then VList [VStr (h_PrivateAddress host)] else mget (DigMapping n EngineConfig) ''node-ip'') \<and>
   (if IsController host then
      map_of (engine_config d host run n) ''token-file'' = Some (VStr (co_Token d)) \<and>
      map_of (engine_config d host run n) ''agent-token-file'' = Some (VStr (JoinTokenPathAgent d)) \<and>
      map_of (engine_config d host run n) ''server'' =
        (if hm_IsLeader (h_Metadata host) then map_of (DigMapping n EngineConfig) ''server''
         else Some (VStr (SupervisorURL d (rm_LeaderName run))))
    else
      map_of (engine_config d host run n) ''token-file'' = Some (VStr (JoinTokenPathAgent d)) \<and>
      map_of (engine_config d host run n) ''server'' = Some (VStr (SupervisorURL d (rm_LoadBalancer run))) \<and>
      list_all (\<lambda>k. map_of (engine_config d host run n) k = None) controllerArgs)"
proof (intro conjI)
  have args: "''node-name'' \<notin> set controllerArgs" "''data-dir'' \<notin> set controllerArgs" "''node-ip'' \<notin> set controllerArgs"
    "''token-file'' \<notin> set controllerArgs" "''server'' \<notin> set controllerArgs"
    by (simp_all add: controllerArgs_def)
  note simps = config_lookups args
  show "map_of (engine_config d host run n) ''node-name'' = Some (VStr (h_Hostname host))" by (simp add: simps)
  show "map_of (engine_config d host run n) ''data-dir'' = Some (VStr (co_Data d))" by (simp add: simps)
  show "mget (engine_config d host run n) ''node-ip'' =
     (if mget (DigMapping n EngineConfig) ''node-ip'' = VNil \<and> h_PrivateAddress host \<noteq> []
      then VList [VStr (h_PrivateAddress host)] else mget (DigMapping n EngineConfig) ''node-ip'')"
    by (simp add: simps mget_def)
  have "list_all (\<lambda>k. map_of (engine_config d host run n) k = None) controllerArgs" if "\<not> IsController host"
    using that by (simp add: controllerArgs_def config_lookups)
  with args show "if IsController host then
      map_of (engine_config d host run n) ''token-file'' = Some (VStr (co_Token d)) \<and>
      map_of (engine_config d host run n) ''agent-token-file'' = Some (VStr (JoinTokenPathAgent d)) \<and>
      map_of (engine_config d host run n) ''server'' =
        (if hm_IsLeader (h_Metadata host) then map_of (DigMapping n EngineConfig) ''server''
         else Some (VStr (SupervisorURL d (rm_LeaderName run))))
    else
      map_of (engine_config d host run n) ''token-file'' = Some (VStr (JoinTokenPathAgent d)) \<and>
      map_of (engine_config d host run n) ''server'' = Some (VStr (SupervisorURL d (rm_LoadBalancer run))) \<and>
      list_all (\<lambda>k. map_of (engine_config d host run n) k = None) controllerArgs"
    by (simp add: simps)
qed


subsection \<open>Stopping a service\<close>

text \<open>On a node that has the engine's killall script, what happens when a service is stopped does not
  depend on whether and how the time stamp of the image cache is reset: it is not, and the cache file
  that was deleted is not put back.\<close>

theorem killall_skips_cache_reset:
  assumes "\<And>t. mc_command M t killall"
  shows "stopService (M\<lparr>em_touch := f\<rparr>) d service killall s = stopService M d service killall s"
  using assms by (simp add: stopService_def Let_def split: prod.split option.split)

end
