(* ===== verification/Engine_Nodes.thy ===== *)
theory Engine_Nodes
  imports Engine_Rancher
begin

section \<open>Configuring the nodes of a fleet\<close>

text \<open>
  What the drivers of \<open>Engine_Rancher\<close> leave on a host: which files they write and what they take for
  their own, the join tokens of the nodes of one cluster, the files of charts that are not wanted any
  more, and what becomes of the files when they cannot be rendered.
\<close>

subsection \<open>The paths of the desired files\<close>

lemma split_on_tail:
  "sep \<notin> set t \<Longrightarrow> split_on sep (x @ t) = butlast (split_on sep x) @ [last (split_on sep x) @ t]"
  by (induction x) (auto simp: split_on_word split: list.splits)

lemma join_snoc_suffix: "suffix w (join sep (us @ [w]))"
proof (induction us)
  case (Cons u us)
  then show ?case by (cases "us @ [w]") (auto intro: suffix_appendI)
qed simp

lemma foldl_clean_snoc: "w \<noteq> [] \<Longrightarrow> w \<noteq> ''.'' \<Longrightarrow> w \<noteq> ''..'' \<Longrightarrow>
    foldl (clean_step r) out (us @ [w]) = foldl (clean_step r) out us @ [w]"
  by simp

lemma path_Clean_eq:
  "p \<noteq> [] \<Longrightarrow> path_Clean p =
     (let out = join [slash] (foldl (clean_step (hd p = slash)) [] (split_on slash p))
      in if hd p = slash then slash # out else if out = [] then ''.'' else out)"
  unfolding path_Clean_def by (simp only: Let_def if_False)

lemma path_Clean_keeps_end:
  assumes "slash \<notin> set t" and "length t > 2"
  shows "suffix t (path_Clean (x @ t))"
proof -
  define w where "w = last (split_on slash x) @ t"
  define r where "r \<longleftrightarrow> hd (x @ t) = slash"
  define out where "out = foldl (clean_step r) [] (butlast (split_on slash x))"
  have "w \<noteq> []" "w \<noteq> ''.''" "w \<noteq> ''..''"
    using assms(2) by (auto simp: w_def dest: arg_cong [where f = length])
  then have fold: "foldl (clean_step r) [] (split_on slash (x @ t)) = out @ [w]"
    using assms(1) by (simp add: split_on_tail w_def [symmetric] out_def del: clean_step.simps) simp
  have "suffix w (join [slash] (out @ [w]))" by (rule join_snoc_suffix)
  moreover have "suffix t w" by (simp add: w_def suffix_def)
  ultimately have tail: "suffix t (join [slash] (out @ [w]))" by (meson suffix_order.order_trans)
  then have "join [slash] (out @ [w]) \<noteq> []" using assms(2) by (auto dest: suffix_length_le)
  moreover have "x @ t \<noteq> []" using assms(2) by auto
  ultimately show ?thesis
    using tail by (simp add: path_Clean_eq r_def [symmetric] fold Let_def suffix_ConsI)
qed

lemma chart_path_suffix: "suffix helmChartConfigSuffix (path_Join a (chart @ helmChartConfigSuffix))"
proof -
  have "slash \<notin> set helmChartConfigSuffix" "length helmChartConfigSuffix > 2"
    by (simp_all add: helmChartConfigSuffix_def slash_def)
  from path_Clean_keeps_end [OF this]
  have "suffix helmChartConfigSuffix (path_Clean (x @ helmChartConfigSuffix))" for x .
  from this [of "a @ slash # chart"] this [of chart] show ?thesis
    by (auto simp: path_Joins_def helmChartConfigSuffix_def)
qed

definition chart_path :: "Common \<Rightarrow> string \<Rightarrow> string" where
  "chart_path d chart = path_Join (manifestDir d) (chart @ helmChartConfigSuffix)"

definition keys :: "('k \<times> 'v) list \<Rightarrow> 'k set" where "keys m = fst ` set m"

lemma keys_update [simp]: "keys (AList.update k v m) = insert k (keys m)"
  by (simp add: keys_def dom_update)

lemma keys_simps [simp]: "keys [] = {}" "keys ((k, v) # m) = insert k (keys m)"
  by (simp_all add: keys_def)

lemma keys_map [simp]: "keys (map (\<lambda>(k, v). (k, f k v)) m) = keys m"
  by (force simp: keys_def)

lemma keys_put_all: "keys (put_all files extra) = keys files \<union> keys extra"
proof (induction extra arbitrary: files)
  case (Cons p extra)
  then show ?case by (cases p) (auto simp: put_all_def)
qed (simp add: put_all_def)

lemma keys_ca_files_loop:
  "keys (ca_files_loop L files rs) \<subseteq> keys files \<union> range registryCAPath"
  by (induction L files rs rule: ca_files_loop.induct) auto

lemma keys_registry_files:
  "registry_files E d rs = Inr files \<Longrightarrow>
   keys files \<subseteq> insert (beside_config d ''registries.yaml'') (range registryCAPath)"
  using keys_ca_files_loop [of "en_registries E" "[]" rs]
  by (auto simp: registry_files_def keys_put_all registryCAFiles_def split: if_splits option.splits)

lemma keys_engine_policy:
  "engine_policy E n sec k v path files = Inr files' \<Longrightarrow> keys files' \<subseteq> insert path (keys files)"
proof -
  assume "engine_policy E n sec k v path files = Inr files'"
  then have "files' = files \<or> (\<exists>f. files' = AList.update path f files)"
    by (auto simp: engine_policy_def Let_def split: if_splits option.splits)
  then show ?thesis by auto
qed

lemma keys_chart_files:
  "chart_files E d disabled files ms = Inr files' \<Longrightarrow>
   keys files' = keys files \<union> chart_path d ` {c. \<exists>m. (c, m) \<in> set ms \<and> c \<notin> disabled \<and> cm_Enabled m}"
  by (induction E d disabled files ms rule: chart_files.induct)
    (auto simp: keys_update chart_path_def image_iff split: if_splits option.splits)

definition wanted_charts :: "encoders \<Rightarrow> vmap \<Rightarrow> string set" where
  "wanted_charts E n = {c. \<exists>m. (c, m) \<in> set (ChartManifests (en_print E) n) \<and> c \<notin> disabledCharts n \<and> cm_Enabled m}"

lemma keys_helmChartConfigs:
  "helmChartConfigs E d n = Inr files \<Longrightarrow> keys files = chart_path d ` wanted_charts E n"
  by (auto simp: helmChartConfigs_def wanted_charts_def Let_def image_iff dest!: keys_chart_files split: if_splits)

lemma keys_DesiredFiles:
  assumes "DesiredFiles E d controller rs dis = Inr files" and "Dup (dc_Engine (dp_Config dis)) = Some n"
  shows "keys files \<subseteq>
    {beside_config d ''registries.yaml'', beside_config d ''audit.yaml'', beside_config d ''pss.yaml'', DistroReleaseFile} \<union>
    range registryCAPath \<union> (if controller then chart_path d ` wanted_charts E n else {})"
    and "controller \<Longrightarrow> chart_path d ` wanted_charts E n \<subseteq> keys files"
proof -
  note steps = assms(1) [unfolded DesiredFiles_def assms(2) option.case, unfolded bind_res_simps bind_res_Inr Let_def]
  from steps obtain f1 f2 f3 fm r where f1: "registry_files E d rs = Inr f1"
    and f2: "engine_policy E n EngineAudit ''Policy'' ''audit.k8s.io/v1'' (beside_config d ''audit.yaml'') f1 = Inr f2"
    and f3: "engine_policy E n EnginePSS ''AdmissionConfiguration'' ''apiserver.config.k8s.io/v1'' (beside_config d ''pss.yaml'') f2 = Inr f3"
    and fm: "(if controller then helmChartConfigs E d n else Inr []) = Inr fm"
    and r: "DistroReleaseDesiredFile E dis (put_all f3 fm) = Inr r"
    and last: "(case r of None \<Rightarrow> Inr (put_all f3 fm) :: engine_error + desired | Some (p, f) \<Rightarrow> Inr (AList.update p f (put_all f3 fm))) = Inr files"
    by blast
  from last have files: "files = (case r of None \<Rightarrow> put_all f3 fm | Some (p, f) \<Rightarrow> AList.update p f (put_all f3 fm))"
    by (cases r) auto
  have "keys files \<subseteq> insert DistroReleaseFile (keys f3 \<union> keys fm)"
    using r files by (auto simp: DistroReleaseDesiredFile_def keys_update keys_put_all split: if_splits option.splits)
  moreover have "keys fm \<subseteq> (if controller then chart_path d ` wanted_charts E n else {})"
    using fm keys_helmChartConfigs by (auto split: if_splits)
  ultimately show "keys files \<subseteq>
    {beside_config d ''registries.yaml'', beside_config d ''audit.yaml'', beside_config d ''pss.yaml'', DistroReleaseFile} \<union>
    range registryCAPath \<union> (if controller then chart_path d ` wanted_charts E n else {})"
    using keys_registry_files [OF f1] keys_engine_policy [OF f2] keys_engine_policy [OF f3] by blast
  assume controller
  with fm have "keys fm = chart_path d ` wanted_charts E n" using keys_helmChartConfigs by simp
  then have "chart_path d ` wanted_charts E n \<subseteq> keys (put_all f3 fm)" by (simp add: keys_put_all)
  then show "chart_path d ` wanted_charts E n \<subseteq> keys files" unfolding files by (cases r) auto
qed

subsection \<open>What a host keeps\<close>

text \<open>
  The host of an engine: the listing of a directory names files below it, and the creation of a user
  leaves the files of cargoship alone.
\<close>

locale engine_host = remote_fs "mc_fs M" files
  for M :: "('s, 'x) engine_machine_scheme" and files :: "'s \<Rightarrow> string \<Rightarrow> (string \<times> nat) option" +
  fixes listFiles :: "'s listing" and own :: "string \<Rightarrow> bool"
  assumes lists_under: "path \<in> set (listFiles s dir) \<Longrightarrow> prefix (dir @ ''/'') path"
    and useradd_own: "own p \<Longrightarrow> files (snd (mc_exec M useradd s)) p = files s p"

text \<open>A path that no desired file has and that lies in no directory that is pruned.\<close>

definition left_alone :: "Common \<Rightarrow> string \<Rightarrow> bool" where
  "left_alone d q \<longleftrightarrow>
     q \<noteq> beside_config d ''registries.yaml'' \<and> q \<noteq> beside_config d ''audit.yaml'' \<and> q \<noteq> beside_config d ''pss.yaml'' \<and>
     \<not> prefix (registryTLSDir @ ''/'') q \<and> \<not> prefix (StateDir @ ''/'') q \<and> \<not> prefix (manifestDir d @ ''/'') q \<and>
     \<not> suffix helmChartConfigSuffix q"

lemma left_alone_not_desired:
  assumes "left_alone d q" and "DesiredFiles E d controller rs dis = Inr files" and "Dup (dc_Engine (dp_Config dis)) = Some n"
  shows "q \<notin> keys files"
proof -
  have "q \<noteq> registryCAPath host" for host using assms(1) by (auto simp: left_alone_def registryCAPath_eq)
  moreover have "q \<noteq> chart_path d c" for c
    using assms(1) chart_path_suffix by (auto simp: left_alone_def chart_path_def)
  moreover have "prefix (StateDir @ ''/'') DistroReleaseFile" by code_simp
  ultimately have "q \<noteq> DistroReleaseFile" "q \<notin> range registryCAPath" "q \<notin> chart_path d ` wanted_charts E n"
    using assms(1) by (auto simp: left_alone_def)
  moreover have "q \<in> keys files \<Longrightarrow> q \<in> {beside_config d ''registries.yaml'', beside_config d ''audit.yaml'',
      beside_config d ''pss.yaml'', DistroReleaseFile} \<union> range registryCAPath \<union> (if controller then chart_path d ` wanted_charts E n else {})"
    using keys_DesiredFiles(1) [OF assms(2,3)] by blast
  ultimately show ?thesis using assms(1) by (auto simp: left_alone_def split: if_splits)
qed

text \<open>What a token file holds afterwards.\<close>

definition token_after :: "(string \<times> nat) option \<Rightarrow> string \<Rightarrow> (string \<times> nat) option" where
  "token_after f token = (case f of None \<Rightarrow> Some (token, 384) | Some g \<Rightarrow> Some g)"

context engine_host
begin

lemma put_token_ok:
  "put_token M p token s = (None, s') \<Longrightarrow> files s' q = (if q = p then token_after (files s p) token else files s q)"
proof -
  have mode: "parseFileMode ''0600'' = Some 384" "perm_bits 384 = 384" by code_simp+
  assume "put_token M p token s = (None, s')"
  then show ?thesis
    using mode by (auto simp: put_token_def token_after_def exists_files dest!: Host_WriteFile_ok split: if_splits option.splits)
qed

lemma write_logged_keeps: "q \<notin> keys fs \<Longrightarrow> files (write_logged (mc_fs M) fs s) q = files s q"
proof (induction fs arbitrary: s)
  case (Cons pf fs)
  obtain p f where pf: "pf = (p, f)" by (cases pf)
  have "files (snd (Host_WriteFile (mc_fs M) p (df_Content f) (df_Mode f) s)) q = files s q"
    using Cons.prems pf by (intro frame_eq [OF frame_WriteFile]) auto
  with Cons pf show ?case by simp
qed simp

lemma remove_each_keeps: "q \<notin> set ps \<Longrightarrow> files (snd (remove_each (mc_fs M) ps s)) q = files s q"
proof (induction ps arbitrary: s)
  case (Cons p ps)
  have "files (snd (r_remove (mc_fs M) p s)) q = files s q"
    using Cons.prems by (intro frame_eq [OF frame_remove]) auto
  with Cons show ?case by (auto split: prod.splits option.splits)
qed simp

lemma install_files_keeps:
  assumes "left_alone d q" and "Dup (dc_Engine (dp_Config dis)) = Some n"
  shows "files (install_files E listFiles M d controller rs dis s) q = files s q"
proof -
  define ds where "ds = (case DesiredFiles E d controller rs dis of Inl _ \<Rightarrow> [] | Inr files \<Rightarrow> files)"
  have ds: "q \<notin> keys ds"
    using left_alone_not_desired [OF assms(1) _ assms(2)] by (auto simp: ds_def split: sum.splits)
  have "q \<notin> set (StaleFiles listFiles t (ManagedDirs d) ds)" for t
    using assms(1) lists_under by (auto simp: set_StaleFiles ManagedDirs_def left_alone_def)
  with ds show ?thesis
    by (simp add: install_files_def ds_def [symmetric] RemoveStaleFiles_def remove_each_keeps write_logged_keeps)
qed

lemma etcd_user_keeps: "own p \<Longrightarrow> files (etcd_user M n s) p = files s p"
  by (simp add: etcd_user_def useradd_own)

lemma ConfigureEngine_tokens:
  assumes run: "ConfigureEngine E G listFiles M d run dis host s = (None, s')"
    and paths: "left_alone d (co_Token d)" "left_alone d (JoinTokenPathAgent d)" "co_Token d \<noteq> JoinTokenPathAgent d"
      "co_Token d \<noteq> co_Config d" "JoinTokenPathAgent d \<noteq> co_Config d" "own (co_Token d)" "own (JoinTokenPathAgent d)"
  shows "files s' (JoinTokenPathAgent d) = token_after (files s (JoinTokenPathAgent d)) (rm_AgentToken run) \<and>
    files s' (co_Token d) =
      (if IsController host then token_after (files s (co_Token d)) (rm_ControllerToken run) else files s (co_Token d))"
proof -
  obtain n where n: "Dup (dc_Engine (dp_Config dis)) = Some n"
    using run by (cases "Dup (dc_Engine (dp_Config dis))") (simp_all add: ConfigureEngine_def)
  obtain s1 s2 s3 where
    s1: "if IsController host then put_token M (co_Token d) (rm_ControllerToken run) s = (None, s1) else s1 = s"
    and s2: "put_token M (JoinTokenPathAgent d) (rm_AgentToken run) (if IsController host then etcd_user M n s1 else s1) = (None, s2)"
    and s3: "s3 = (if engineServiceRunning M d (IsController host) s2 then s2
       else install_files E listFiles M d (IsController host) (rm_Registries run) dis s2)"
    and last: "writeYAML E M (validateEngineConfig G d (dp_EngineVersion dis) (IsController host) (engine_config d host run n))
        (co_Config d) s3 = (None, s')"
    using run by (auto simp: ConfigureEngine_def n Let_def and_then_pair engine_step_def split: if_splits prod.splits)
  have keep: "files s' q = files s2 q" if "q = co_Token d \<or> q = JoinTokenPathAgent d" for q
  proof -
    have "q \<noteq> co_Config d" "left_alone d q" using that paths by auto
    then have "files s' q = files s3 q"
      using last by (auto simp: writeYAML_def engine_step_def dest!: frame_D [OF frame_WriteFile [OF \<open>q \<noteq> co_Config d\<close>]] split: option.splits prod.splits)
    also have "\<dots> = files s2 q"
      using s3 install_files_keeps [OF \<open>left_alone d q\<close> n] by simp
    finally show ?thesis .
  qed
  have "files (if IsController host then etcd_user M n s1 else s1) q = files s1 q"
    if "q = co_Token d \<or> q = JoinTokenPathAgent d" for q
    using that paths etcd_user_keeps by auto
  moreover have "files s1 q = (if IsController host \<and> q = co_Token d then token_after (files s q) (rm_ControllerToken run) else files s q)" for q
    using s1 put_token_ok [of "co_Token d" "rm_ControllerToken run" s s1 q] by (auto split: if_splits)
  ultimately show ?thesis using keep put_token_ok [OF s2] paths(3) by simp
qed

end

subsection \<open>Join tokens\<close>

lemma rancher_paths:
  assumes "d = RKE2 \<or> d = K3S"
  shows "left_alone d (co_Token d)" "left_alone d (JoinTokenPathAgent d)" "co_Token d \<noteq> JoinTokenPathAgent d"
    "co_Token d \<noteq> co_Config d" "JoinTokenPathAgent d \<noteq> co_Config d"
proof -
  have "left_alone RKE2 (co_Token RKE2) \<and> left_alone RKE2 (JoinTokenPathAgent RKE2) \<and> co_Token RKE2 \<noteq> JoinTokenPathAgent RKE2 \<and>
      co_Token RKE2 \<noteq> co_Config RKE2 \<and> JoinTokenPathAgent RKE2 \<noteq> co_Config RKE2"
    "left_alone K3S (co_Token K3S) \<and> left_alone K3S (JoinTokenPathAgent K3S) \<and> co_Token K3S \<noteq> JoinTokenPathAgent K3S \<and>
      co_Token K3S \<noteq> co_Config K3S \<and> JoinTokenPathAgent K3S \<noteq> co_Config K3S"
    by (intro conjI; code_simp)+
  with assms show "left_alone d (co_Token d)" "left_alone d (JoinTokenPathAgent d)" "co_Token d \<noteq> JoinTokenPathAgent d"
    "co_Token d \<noteq> co_Config d" "JoinTokenPathAgent d \<noteq> co_Config d" by auto
qed

definition token_on :: "('s, 'x) engine_machine_scheme \<Rightarrow> 's \<Rightarrow> string \<Rightarrow> string option" where
  "token_on M s path =
     (if r_exists (mc_fs M) s path
      then (case r_read (mc_fs M) s path of Some (c # t) \<Rightarrow> Some (c # t) | _ \<Rightarrow> None) else None)"

lemma join_token_on:
  "join_token M l path (Some r) = Some (case token_on M l path of None \<Rightarrow> r | Some t \<Rightarrow> t)"
  by (auto simp: join_token_def token_on_def split: option.splits list.splits)

lemma prepared_tokens:
  assumes "prepare_tokens M d l (Some r1) (Some r2) run = Some run'"
  shows "rm_ControllerToken run' = (case token_on M l (co_Token d) of None \<Rightarrow> r1 | Some t \<Rightarrow> t)"
    "rm_AgentToken run' = (case token_on M l (JoinTokenPathAgent d) of None \<Rightarrow> r2 | Some t \<Rightarrow> t)"
  using assms by (auto simp: prepare_tokens_def join_token_on)

lemma token_on_files:
  assumes "engine_host M files listFiles own" and "token_on M l path = Some t"
  shows "\<exists>m. files l path = Some (t, m)"
proof -
  from assms(1) have "remote_fs (mc_fs M) files" by (simp add: engine_host_def)
  from remote_fs.read_files [OF this] assms(2) show ?thesis
    by (auto simp: token_on_def split: if_splits option.splits list.splits)
qed


subsection \<open>Charts that are not wanted any more\<close>

lemma chart_path_plain:
  assumes "d = RKE2 \<or> d = K3S" and "slash \<notin> set chart"
  shows "chart_path d chart = manifestDir d @ ''/'' @ chart @ helmChartConfigSuffix"
proof -
  let ?w = "chart @ helmChartConfigSuffix"
  have w: "CHR ''/'' \<notin> set ?w" using assms(2) by (simp add: slash_def helmChartConfigSuffix_def)
  have no_dots: "?w \<noteq> ''.''" "?w \<noteq> ''..''" "?w \<noteq> []"
    by (auto simp: helmChartConfigSuffix_def dest: arg_cong [where f = length])
  have dirs: "manifestDir RKE2 = ''/var/lib/rancher/rke2/server/manifests''" "manifestDir K3S = ''/var/lib/rancher/k3s/server/manifests''"
    by code_simp+
  have "split_on (CHR ''/'') (''/var/lib/rancher/rke2/server/manifests/'' @ ?w) = [[], ''var'', ''lib'', ''rancher'', ''rke2'', ''server'', ''manifests'', ?w]"
    "split_on (CHR ''/'') (''/var/lib/rancher/k3s/server/manifests/'' @ ?w) = [[], ''var'', ''lib'', ''rancher'', ''k3s'', ''server'', ''manifests'', ?w]"
    using split_on_word [OF w] by (simp_all add: split_on_append_sep)
  with no_dots have "path_Clean (manifestDir d @ CHR ''/'' # ?w) = manifestDir d @ ''/'' @ ?w"
    using assms(1) by (auto simp: dirs path_Clean_eq slash_def Let_def)
  moreover have "manifestDir d \<noteq> []" using assms(1) dirs by auto
  ultimately show ?thesis using no_dots by (simp add: chart_path_def path_Joins_def slash_def)
qed

lemma glob_suffix:
  assumes "slash \<notin> set chart" shows "path_Match (''*'' @ helmChartConfigSuffix) (chart @ helmChartConfigSuffix) = Some True"
proof -
  let ?lits = "map Lit helmChartConfigSuffix"
  have parse: "parse_glob (''*'' @ helmChartConfigSuffix) = Some (Star # ?lits)" by code_simp
  have lits: "glob_match (map Lit t) t" for t by (induction t) simp_all
  have "glob_match (Star # ?lits) (chart @ helmChartConfigSuffix)"
    using assms
  proof (induction chart)
    case Nil
    have "glob_match (Star # ?lits) helmChartConfigSuffix = glob_match (Star # ?lits) (CHR ''-'' # ''config.yaml'')"
      by (simp add: helmChartConfigSuffix_def)
    then show ?case using lits [of helmChartConfigSuffix] by (simp add: helmChartConfigSuffix_def)
  qed auto
  then show ?thesis by (simp add: path_Match_def parse [simplified])
qed

lemma glob_needs_suffix: "glob_match (Star # map Lit t) s \<Longrightarrow> suffix t s"
proof (induction s)
  case (Cons c s)
  have lits: "glob_match (map Lit t) s \<Longrightarrow> s = t" for t s
    by (induction t arbitrary: s) (case_tac s, auto)+
  from Cons show ?case by (auto dest: lits intro: suffix_ConsI)
next
  case Nil
  then show ?case by (cases t) auto
qed

lemma chart_prunes:
  assumes "d = RKE2 \<or> d = K3S" and "slash \<notin> set chart"
  shows "prunes \<lparr>md_Path = manifestDir d, md_Glob = ''*'' @ helmChartConfigSuffix\<rparr> (chart_path d chart)"
proof -
  let ?w = "chart @ helmChartConfigSuffix"
  have w: "slash \<notin> set ?w" using assms(2) by (simp add: slash_def helmChartConfigSuffix_def)
  have "\<exists>u us. split_on slash (a @ [slash]) = u # us @ [[]]" for a by (induction a) auto
  then have "last (split_on slash (a @ [slash])) = []" for a by (metis last_ConsR last_snoc snoc_eq_iff_butlast)
  from split_on_tail [OF w, of "manifestDir d @ [slash]"] this [of "manifestDir d"]
  have "last (split_on slash (manifestDir d @ slash # ?w)) = ?w" by simp
  moreover have "trim_right (\<lambda>c. c = slash) (manifestDir d @ slash # ?w) = manifestDir d @ slash # ?w"
    by (rule trim_right_fixed) (simp add: helmChartConfigSuffix_def slash_def)
  ultimately have "path_Base (manifestDir d @ slash # ?w) = ?w"
    by (simp add: path_Base_def)
  then show ?thesis
    using glob_suffix [OF assms(2)] by (simp add: prunes_def chart_path_plain [OF assms] slash_def helmChartConfigSuffix_def)
qed

lemma chart_path_inject:
  assumes "d = RKE2 \<or> d = K3S" and "slash \<notin> set c" and "slash \<notin> set c'"
  shows "chart_path d c = chart_path d c' \<longleftrightarrow> c = c'"
  by (simp add: chart_path_plain [OF assms(1,2)] chart_path_plain [OF assms(1,3)])

lemma chart_path_elsewhere:
  assumes "d = RKE2 \<or> d = K3S" and "slash \<notin> set c"
  shows "chart_path d c \<notin> {beside_config d ''registries.yaml'', beside_config d ''audit.yaml'', beside_config d ''pss.yaml'',
      DistroReleaseFile} \<union> range registryCAPath"
proof -
  have suffix: "suffix helmChartConfigSuffix (chart_path d c)" using chart_path_suffix by (simp add: chart_path_def)
  have "list_all (\<lambda>p. \<not> suffix helmChartConfigSuffix p) [beside_config RKE2 ''registries.yaml'', beside_config RKE2 ''audit.yaml'',
      beside_config RKE2 ''pss.yaml'', beside_config K3S ''registries.yaml'', beside_config K3S ''audit.yaml'',
      beside_config K3S ''pss.yaml'', DistroReleaseFile]" by code_simp
  with suffix assms(1) have "chart_path d c \<notin> {beside_config d ''registries.yaml'', beside_config d ''audit.yaml'',
      beside_config d ''pss.yaml'', DistroReleaseFile}" by auto
  moreover have "chart_path d c \<noteq> registryCAPath h" for h
    using suffix by (auto simp: registryCAPath_eq helmChartConfigSuffix_def suffix_def append_eq_append_conv2
        dest: arg_cong [where f = rev])
  ultimately show ?thesis by blast
qed

text \<open>The chart files of an earlier run and this run's charts: a chart's file on a node is taken away
  exactly if this run does not write it: because the chart is gone from the package, disabled in
  the engine or in the package, or because the node is no controller. Files of the engine in the same
  directory are left alone. Charts are told apart by names without a slash.\<close>

theorem unwanted_charts_pruned:
  assumes "d = RKE2 \<or> d = K3S" and "DesiredFiles E d controller rs dis = Inr files" and "Dup (dc_Engine (dp_Config dis)) = Some n"
    and "list_all (\<lambda>c. slash \<notin> set c) (chart # map fst (ChartManifests (en_print E) n))"
    and "chart_path d chart \<in> set (listFiles s (manifestDir d))"
  shows "(chart_path d chart \<in> set (StaleFiles listFiles s (ManagedDirs d) files) \<longleftrightarrow>
      \<not> (controller \<and> chart \<in> wanted_charts E n)) \<and>
    (suffix helmChartConfigSuffix (path_Base q) \<or>
      \<not> prunes \<lparr>md_Path = manifestDir d, md_Glob = ''*'' @ helmChartConfigSuffix\<rparr> q)"
proof -
  have plain: "slash \<notin> set chart" "\<And>c. c \<in> wanted_charts E n \<Longrightarrow> slash \<notin> set c"
    using assms(4) by (force simp: wanted_charts_def list_all_iff)+
  have desired: "chart_path d chart \<in> keys files \<longleftrightarrow> controller \<and> chart \<in> wanted_charts E n"
  proof
    assume "chart_path d chart \<in> keys files"
    with keys_DesiredFiles(1) [OF assms(2,3)] chart_path_elsewhere [OF assms(1) plain(1)]
    have "chart_path d chart \<in> (if controller then chart_path d ` wanted_charts E n else {})" by blast
    then show "controller \<and> chart \<in> wanted_charts E n"
      using chart_path_inject [OF assms(1) plain(1) plain(2)] by (auto split: if_splits)
  next
    assume "controller \<and> chart \<in> wanted_charts E n"
    then show "chart_path d chart \<in> keys files" using keys_DesiredFiles(2) [OF assms(2,3)] by blast
  qed
  moreover have "\<exists>dir \<in> set (ManagedDirs d). chart_path d chart \<in> set (listFiles s (md_Path dir)) \<and> prunes dir (chart_path d chart)"
    using chart_prunes [OF assms(1) plain(1)] assms(5) by (simp add: ManagedDirs_def)
  moreover have "suffix helmChartConfigSuffix (path_Base q)"
    if "prunes \<lparr>md_Path = manifestDir d, md_Glob = ''*'' @ helmChartConfigSuffix\<rparr> q"
  proof -
    have "parse_glob (''*'' @ helmChartConfigSuffix) = Some (Star # map Lit helmChartConfigSuffix)" by code_simp
    with that show ?thesis using glob_needs_suffix by (simp add: prunes_def path_Match_def)
  qed
  ultimately show ?thesis unfolding set_StaleFiles keys_def by blast
qed

subsection \<open>When the files cannot be rendered\<close>

context engine_host
begin

lemma remove_each_gone:
  assumes "\<And>p t. files t p \<noteq> None \<Longrightarrow> fst (r_remove (mc_fs M) p t) = None"
    and "distinct ps" and "list_all (\<lambda>p. files s p \<noteq> None) ps" and "q \<in> set ps"
  shows "files (snd (remove_each (mc_fs M) ps s)) q = None"
proof -
  have "fst (remove_each (mc_fs M) ps s) = None"
    using assms(2,3)
  proof (induction ps arbitrary: s)
    case (Cons p ps)
    then obtain s1 where s1: "r_remove (mc_fs M) p s = (None, s1)"
      using assms(1) [of s p] by (cases "r_remove (mc_fs M) p s") auto
    from remove_ok [OF s1] Cons.prems have "list_all (\<lambda>p. files s1 p \<noteq> None) ps" by (auto simp: list_all_iff)
    with Cons s1 show ?case by simp
  qed simp
  then have "remove_each (mc_fs M) ps s = (None, snd (remove_each (mc_fs M) ps s))" by (simp add: prod_eq_iff)
  from remove_each_ok [OF this, of q] assms(4) show ?thesis by simp
qed

end

text \<open>When the registries, a policy or a chart cannot be rendered, the step does not stop at it: on a node
  whose engine is not running, every file that is listed in cargoship's directories is taken away, the
  certificates and the record of the installed package included, and the step still succeeds if the
  configuration can be written.\<close>

theorem failed_render_prunes_everything:
  assumes "engine_host M files listFiles own"
    and "\<And>p t. files t p \<noteq> None \<Longrightarrow> fst (r_remove (mc_fs M) p t) = None"
    and "DesiredFiles E d controller rs dis = Inl e"
    and "distinct (StaleFiles listFiles s (ManagedDirs d) [])"
    and "list_all (\<lambda>p. files s p \<noteq> None) (StaleFiles listFiles s (ManagedDirs d) [])"
    and "dir \<in> set (ManagedDirs d)" and "path \<in> set (listFiles s (md_Path dir))" and "prunes dir path"
  shows "files (install_files E listFiles M d controller rs dis s) path = None"
proof -
  have "path \<in> set (StaleFiles listFiles s (ManagedDirs d) [])"
    using assms(6-8) by (auto simp: set_StaleFiles)
  from engine_host.remove_each_gone [where listFiles = listFiles and own = own, OF assms(1,2,4,5) this]
  show ?thesis by (simp add: install_files_def assms(3) RemoveStaleFiles_def)
qed

subsection \<open>A node to run on\<close>

definition rke_node :: "disk engine_machine" where
  "rke_node =
     \<lparr>mc_fs = disk_remote (\<lambda>_. False) (\<lambda>_. False) (\<lambda>_. False) (\<lambda>_. []), mc_preferred = None,
      mc_command = (\<lambda>_ c. c = ''rke2-killall.sh''), mc_running = (\<lambda>_ _. False), mc_output = (\<lambda>_ _. None),
      mc_exec = (\<lambda>_ s. (None, s)), mc_restart = (\<lambda>_ s. (None, s)),
      em_stop = (\<lambda>_ s. (None, s)), em_touch = (\<lambda>p s. (None, s(p \<mapsto> ([], 420)))), em_lookpath = (\<lambda>_ _. None)\<rparr>"

definition rke_certificate :: string where "rke_certificate = ''/etc/cargoship/tls/mirror.crt''"

definition rke_chart :: string where "rke_chart = ''/var/lib/rancher/rke2/server/manifests/cilium-config.yaml''"

definition rke_listing :: "disk listing" where
  "rke_listing s dir = filter (\<lambda>p. s p \<noteq> None \<and> path_Dir p = dir) [rke_certificate, rke_chart]"

interpretation rke: engine_host rke_node disk_files rke_listing "\<lambda>_. True"
proof (intro engine_host.intro engine_host_axioms.intro)
  show "remote_fs (mc_fs rke_node) disk_files" by (simp add: rke_node_def disk.remote_fs_axioms)
  have "prefix (path_Dir rke_certificate @ ''/'') rke_certificate" "prefix (path_Dir rke_chart @ ''/'') rke_chart"
    by code_simp+
  then show "prefix (dir @ ''/'') path" if "path \<in> set (rke_listing s dir)" for path s dir
    using that unfolding rke_listing_def set_filter by auto
qed (simp add: rke_node_def)

definition rke_encoders :: encoders where
  "rke_encoders =
     \<lparr>en_registries = ca_lib, en_print = (\<lambda>_. []), en_values = (\<lambda>_. Some ''values''), en_yaml = (\<lambda>_. Some ''yaml''),
      en_marshal = (\<lambda>_. None), en_unmarshal = (\<lambda>_. None), en_node = (\<lambda>_. None), en_json = (\<lambda>_. Some ''json'')\<rparr>"

definition rke_package :: Distro_Package where
  "rke_package =
     \<lparr>dp_Name = ''site'', dp_Version = ''1'', dp_Description = [], dp_Architecture = ''amd64'', dp_AggregateChecksum = [],
      dp_Build = [], dp_Type = ''rke2'', dp_EngineVersion = ''v1.35.3'', dp_Config = sample_charts\<rparr>"

definition rke_run :: "Registries list \<Rightarrow> RuntimeMeta" where
  "rke_run rs =
     \<lparr>rm_ControllerTLS = [], rm_ControllerToken = [], rm_AgentToken = [], rm_LoadBalancer = ''lb'', rm_LeaderName = ''a'',
      rm_Registries = rs\<rparr>"

definition rke_disk :: disk where
  "rke_disk = Map.empty(rke_certificate \<mapsto> (''CA'', 384), rke_chart \<mapsto> (''old'', 384))"

lemma failed_render_prunes_everything_witness:
  "disk_files (install_files rke_encoders rke_listing rke_node RKE2 True [ca_registry ''mirror'' ''CA''] rke_package rke_disk)
     rke_certificate = None \<and>
   fst (ConfigureEngine rke_encoders Map.empty rke_listing rke_node RKE2 (rke_run [ca_registry ''mirror'' ''CA'']) rke_package
     (sample_host ''a'' RoleController []) rke_disk) = None"
proof
  have stale: "StaleFiles rke_listing rke_disk (ManagedDirs RKE2) [] = [rke_certificate, rke_chart]" by code_simp
  show "disk_files (install_files rke_encoders rke_listing rke_node RKE2 True [ca_registry ''mirror'' ''CA''] rke_package rke_disk)
     rke_certificate = None"
  proof (rule failed_render_prunes_everything [OF rke.engine_host_axioms])
    show "fst (r_remove (mc_fs rke_node) p t) = None" if "disk_files t p \<noteq> None" for p t
      using that by (auto simp: rke_node_def disk_remote_def disk_files_def)
    show "DesiredFiles rke_encoders RKE2 True [ca_registry ''mirror'' ''CA''] rke_package = Inl EncodeError" by code_simp
    show "distinct (StaleFiles rke_listing rke_disk (ManagedDirs RKE2) [])"
      "list_all (\<lambda>p. disk_files rke_disk p \<noteq> None) (StaleFiles rke_listing rke_disk (ManagedDirs RKE2) [])"
      unfolding stale by code_simp+
    show "\<lparr>md_Path = registryTLSDir, md_Glob = []\<rparr> \<in> set (ManagedDirs RKE2)" by (simp add: ManagedDirs_def)
    show "rke_certificate \<in> set (rke_listing rke_disk (md_Path \<lparr>md_Path = registryTLSDir, md_Glob = []\<rparr>))" by code_simp
    show "prunes \<lparr>md_Path = registryTLSDir, md_Glob = []\<rparr> rke_certificate" by (simp add: prunes_def)
  qed
qed code_simp

lemma unwanted_charts_pruned_witness:
  "rke_chart \<in> set (StaleFiles rke_listing rke_disk (ManagedDirs RKE2) []) \<and>
   chart_path RKE2 ''cilium'' = rke_chart"
proof -
  let ?dis = "rke_package\<lparr>dp_Name := [], dp_EngineVersion := []\<rparr>"
  have path: "chart_path RKE2 ''cilium'' = rke_chart" by code_simp
  have n: "Dup (dc_Engine (dp_Config ?dis)) = Some (dc_Engine sample_charts)" by code_simp
  have "DesiredFiles rke_encoders RKE2 False [] ?dis = Inr []" by code_simp
  moreover have "list_all (\<lambda>c. slash \<notin> set c) (''cilium'' # map fst (ChartManifests (en_print rke_encoders) (dc_Engine sample_charts)))"
    by code_simp
  moreover have "chart_path RKE2 ''cilium'' \<in> set (rke_listing rke_disk (manifestDir RKE2))" unfolding path by code_simp
  ultimately show ?thesis
    using unwanted_charts_pruned [OF disjI1 [OF refl] _ n, of rke_encoders False "[]" "[]" "''cilium''" rke_listing rke_disk "[]"] path by simp
qed

lemma killall_skips_cache_reset_witness:
  "stopService (rke_node\<lparr>mc_command := \<lambda>_ _. True, em_touch := \<lambda>_ s. (None, s)\<rparr>) RKE2 ''rke2-server'' ''rke2-killall.sh''
     (Map.empty(image_cache RKE2 \<mapsto> (''{}'', 420))) =
   stopService (rke_node\<lparr>mc_command := \<lambda>_ _. True\<rparr>) RKE2 ''rke2-server'' ''rke2-killall.sh''
     (Map.empty(image_cache RKE2 \<mapsto> (''{}'', 420)))"
  by (rule killall_skips_cache_reset) simp

definition empty_token_disk :: disk where
  "empty_token_disk = Map.empty(co_Token RKE2 \<mapsto> ([], 384))"


end
