(* ===== verification/Engine_Upstream.thy ===== *)
theory Engine_Upstream
  imports Engine_Nodes
begin

section \<open>The kubeadm driver: documents and files\<close>

text \<open>
  \<open>types/distrocfg/upstream.go\<close>, \<open>upstream_kubeadm.go\<close> and \<open>upstream_containerd.go\<close>: the documents
  kubeadm, the kubelet and containerd are given, the files of a node and its configuration. The TOML
  encoder is a parameter beside the encoders of \<open>Engine_Rancher\<close>.
\<close>

subsection \<open>The distribution\<close>

definition upstreamConfigDir :: string where "upstreamConfigDir = ''/etc/kubernetes''"
definition upstreamKubeconfig :: string where "upstreamKubeconfig = upstreamConfigDir @ ''/admin.conf''"
definition upstreamServiceCIDR :: string where "upstreamServiceCIDR = ''10.96.0.0/12''"
definition upstreamAuditFilePath :: string where "upstreamAuditFilePath = upstreamConfigDir @ ''/audit.yaml''"
definition upstreamPSSFilePath :: string where "upstreamPSSFilePath = upstreamConfigDir @ ''/pss.yaml''"
definition kubeadmConfigPath :: string where "kubeadmConfigPath = upstreamConfigDir @ ''/kubeadm-config.yaml''"
definition containerdConfigPath :: string where "containerdConfigPath = ''/etc/containerd/config.toml''"
definition containerdCertsDir :: string where "containerdCertsDir = ''/etc/containerd/certs.d''"
definition crictlConfigPath :: string where "crictlConfigPath = ''/etc/crictl.yaml''"
definition containerdSocket :: string where "containerdSocket = ''unix:///run/containerd/containerd.sock''"

definition Upstream :: Common where
  "Upstream =
     \<lparr>co_Binary = ''kubectl'', co_BinaryDir = ''/usr/bin'', co_Config = kubeadmConfigPath,
      co_Data = ''/var/lib/kubelet'', co_ID = ''upstream'', co_PackageDir = ''/var/lib/kubernetes'',
      co_ServiceController = ''kubelet'', co_Supervisor = 6443, co_ServiceWorker = ''kubelet'', co_Token = []\<rparr>"

definition Upstream_KubectlCmd :: "string \<Rightarrow> string" where
  "Upstream_KubectlCmd args = ''env \"KUBECONFIG='' @ upstreamKubeconfig @ ''\" kubectl '' @ args"

definition Upstream_CleanupPaths :: "Common \<Rightarrow> string list" where
  "Upstream_CleanupPaths d = removablePaths [co_Data d, upstreamConfigDir, PackageStagingDir d, ''/etc/cni/net.d'']"

definition Upstream_ManagedDirs :: "ManagedDir list" where
  "Upstream_ManagedDirs = [\<lparr>md_Path = registryTLSDir, md_Glob = []\<rparr>]"

definition upstream_version :: "string \<Rightarrow> string option" where
  "upstream_version s =
     (let s' = (if s \<noteq> [] \<and> hd s = CHR ''v'' then tl s else s) in
      case digits s' of
        None \<Rightarrow> None
      | Some (_, r1) \<Rightarrow>
          (case dotted_number r1 of
             None \<Rightarrow> None
           | Some r2 \<Rightarrow>
               (case dotted_number r2 of None \<Rightarrow> None | Some r3 \<Rightarrow> Some (take (length s - length r3) s))))"

definition Upstream_RunningVersion :: "('s, 'x) engine_machine_scheme \<Rightarrow> 's \<Rightarrow> string option" where
  "Upstream_RunningVersion M s =
     (case em_lookpath M s ''kubelet'' of
        None \<Rightarrow> None
      | Some bin \<Rightarrow> (case mc_output M s (bin @ '' --version'') of None \<Rightarrow> None | Some out \<Rightarrow> leftmost upstream_version out))"

subsection \<open>The schema of the cluster's configuration\<close>

datatype FieldNode = FieldNode (Children: "(string \<times> FieldNode) list option")

definition known_child :: "FieldNode \<Rightarrow> string \<Rightarrow> FieldNode option" where
  "known_child node k = (case Children node of None \<Rightarrow> None | Some cs \<Rightarrow> map_of cs k)"

fun drop_value :: "FieldNode \<Rightarrow> vval \<Rightarrow> vval" and dropUnknownNested :: "FieldNode \<Rightarrow> vmap \<Rightarrow> vmap" where
  "drop_value child (VMap MDig nested) =
     VMap MDig (if Children child = None then nested else dropUnknownNested child nested)"
| "drop_value child v = v"
| "dropUnknownNested node [] = []"
| "dropUnknownNested node ((k, v) # cfg) =
     (case known_child node k of
        None \<Rightarrow> dropUnknownNested node cfg
      | Some child \<Rightarrow> (k, drop_value child v) # dropUnknownNested node cfg)"

text \<open>The generated registry of schemas: an entry's server schema, if it is one of nested keys.\<close>

definition validateNestedEngineConfig :: "FieldNode option schemas \<Rightarrow> string \<Rightarrow> vmap \<Rightarrow> vmap" where
  "validateNestedEngineConfig G version cfg =
     (case Lookup G (co_ID Upstream) version of
        Some (Some node) \<Rightarrow> dropUnknownNested node cfg
      | _ \<Rightarrow> cfg)"

subsection \<open>The documents of kubeadm\<close>

text \<open>\<open>Dig\<close> and \<open>DigString\<close> along any number of keys.\<close>

fun Dig :: "vmap \<Rightarrow> string list \<Rightarrow> vval" where
  "Dig m [] = VNil"
| "Dig m (k # ks) =
     (if ks = [] then mget m k else (case mget m k of VMap MDig n \<Rightarrow> Dig n ks | _ \<Rightarrow> VNil))"

definition dig_string :: "vmap \<Rightarrow> string list \<Rightarrow> string" where
  "dig_string m ks = (case Dig m ks of VStr s \<Rightarrow> s | _ \<Rightarrow> [])"

definition extraArg :: "string \<Rightarrow> string \<Rightarrow> vval" where
  "extraArg name v = VMap MDig [(''name'', VStr name), (''value'', VStr v)]"

definition extraArgsFrom :: "vmap \<Rightarrow> string \<Rightarrow> vval list" where
  "extraArgsFrom nodeConfig component =
     (case Dig nodeConfig [EngineConfig, component, ''extraArgs''] of VList v \<Rightarrow> v | _ \<Rightarrow> [])"

definition hostPathVolume :: "string \<Rightarrow> string \<Rightarrow> vval" where
  "hostPathVolume name path =
     VMap MDig [(''name'', VStr name), (''hostPath'', VStr path), (''mountPath'', VStr path),
       (''readOnly'', VBool True), (''pathType'', VStr ''File'')]"

definition auditPSSVolumes :: "vmap \<Rightarrow> vval list \<Rightarrow> vval list \<times> vval list" where
  "auditPSSVolumes nodeConfig args =
     (let (vols, args) =
            (if length (DigMapping nodeConfig EngineAudit) > 0
             then ([hostPathVolume ''audit-policy'' upstreamAuditFilePath],
                   args @ [extraArg ''audit-policy-file'' upstreamAuditFilePath, extraArg ''audit-log-path'' ''-''])
             else ([], args))
      in if length (DigMapping nodeConfig EnginePSS) > 0
         then (vols @ [hostPathVolume ''pod-security'' upstreamPSSFilePath],
               args @ [extraArg ''admission-control-config-file'' upstreamPSSFilePath])
         else (vols, args))"

text \<open>What stands before the last slash of the first image that has one.\<close>

definition last_slash :: "string \<Rightarrow> string option" where
  "last_slash ref =
     (if slash \<in> set ref then Some (rev (tl (dropWhile (\<lambda>c. c \<noteq> slash) (rev ref)))) else None)"

fun image_prefix :: "string list \<Rightarrow> string" where
  "image_prefix [] = []"
| "image_prefix (ref # images) = (case last_slash ref of Some p \<Rightarrow> p | None \<Rightarrow> image_prefix images)"

definition imageRepository :: "vmap \<Rightarrow> string list \<Rightarrow> string" where
  "imageRepository nodeConfig images =
     (let repo = dig_string nodeConfig [EngineConfig, ''imageRepository'']
      in if repo \<noteq> [] then repo else image_prefix images)"

definition service_subnet :: "vmap \<Rightarrow> string" where
  "service_subnet nodeConfig =
     (let svc = dig_string nodeConfig [EngineConfig, ''networking'', ''serviceSubnet'']
      in if svc = [] then upstreamServiceCIDR else svc)"

definition pod_subnet :: "vmap \<Rightarrow> string" where
  "pod_subnet nodeConfig = dig_string nodeConfig [EngineConfig, ''networking'', ''podSubnet'']"

definition component_args :: "vmap \<Rightarrow> string \<Rightarrow> vmap" where
  "component_args nodeConfig component =
     (let args = extraArgsFrom nodeConfig component
      in if length args > 0 then [(component, VMap MDig [(''extraArgs'', VList args)])] else [])"

definition apiServer_section :: "vmap \<Rightarrow> RuntimeMeta \<Rightarrow> vmap" where
  "apiServer_section nodeConfig run =
     (case auditPSSVolumes nodeConfig (extraArgsFrom nodeConfig ''apiServer'') of (vols, args) \<Rightarrow>
        (if length (rm_ControllerTLS run) > 0 then [(''certSANs'', strings (rm_ControllerTLS run))] else []) @
        (if length vols > 0 then [(''extraVolumes'', VList vols)] else []) @
        (if length args > 0 then [(''extraArgs'', VList args)] else []))"

definition cluster_document :: "vmap \<Rightarrow> Distro_Package \<Rightarrow> RuntimeMeta \<Rightarrow> vmap" where
  "cluster_document nodeConfig dis run =
     (let networking = (''serviceSubnet'', VStr (service_subnet nodeConfig)) #
            (if pod_subnet nodeConfig \<noteq> [] then [(''podSubnet'', VStr (pod_subnet nodeConfig))] else []);
          repo = imageRepository nodeConfig (dc_Images (dp_Config dis));
          apiServer = apiServer_section nodeConfig run
      in [(''apiVersion'', VStr ''kubeadm.k8s.io/v1beta4''), (''kind'', VStr ''ClusterConfiguration''),
          (''kubernetesVersion'', VStr (dp_EngineVersion dis)), (''controlPlaneEndpoint'', VStr (rm_LoadBalancer run)),
          (''networking'', VMap MDig networking)] @
         (if repo \<noteq> [] then [(''imageRepository'', VStr repo)] else []) @
         (if length apiServer > 0 then [(''apiServer'', VMap MDig apiServer)] else []) @
         component_args nodeConfig ''controllerManager'' @
         component_args nodeConfig ''scheduler'')"

text \<open>\<open>buildClusterConfiguration\<close>: the check of the keys works on the copy of the engine section, where
  \<open>DigMapping\<close> has put an empty mapping if there was none.\<close>

definition checked_config :: "FieldNode option schemas \<Rightarrow> string \<Rightarrow> vmap \<Rightarrow> vmap" where
  "checked_config G version nodeConfig =
     AList.update EngineConfig (VMap MDig (validateNestedEngineConfig G version (DigMapping nodeConfig EngineConfig))) nodeConfig"

definition buildClusterConfiguration ::
  "FieldNode option schemas \<Rightarrow> Distro_Package \<Rightarrow> RuntimeMeta \<Rightarrow> vmap option"
where
  "buildClusterConfiguration G dis run =
     map_option (\<lambda>nodeConfig. cluster_document (checked_config G (dp_EngineVersion dis) nodeConfig) dis run)
       (Dup (dc_Engine (dp_Config dis)))"

definition nodeRegistration :: "Host \<Rightarrow> vval" where
  "nodeRegistration host =
     VMap MDig [(''name'', VStr (h_Hostname host)), (''criSocket'', VStr containerdSocket)]"

definition buildInitConfiguration :: "Host \<Rightarrow> vmap" where
  "buildInitConfiguration host =
     [(''apiVersion'', VStr ''kubeadm.k8s.io/v1beta4''), (''kind'', VStr ''InitConfiguration''),
      (''nodeRegistration'', nodeRegistration host)]"

definition buildJoinConfiguration :: "Host \<Rightarrow> RuntimeMeta \<Rightarrow> vmap" where
  "buildJoinConfiguration host run =
     (let token = (if IsController host then rm_ControllerToken run else rm_AgentToken run) in
      [(''apiVersion'', VStr ''kubeadm.k8s.io/v1beta4''), (''kind'', VStr ''JoinConfiguration''),
       (''discovery'', VMap MDig [(''bootstrapToken'',
          VMap MDig [(''token'', VStr token), (''apiServerEndpoint'', VStr (rm_LoadBalancer run))])]),
       (''nodeRegistration'', nodeRegistration host)] @
      (if IsController host then [(''controlPlane'', VMap MDig [(''localAPIEndpoint'', VMap MDig [])])] else []))"

definition buildKubeletConfiguration :: vmap where
  "buildKubeletConfiguration =
     [(''apiVersion'', VStr ''kubelet.config.k8s.io/v1beta1''), (''kind'', VStr ''KubeletConfiguration''),
      (''cgroupDriver'', VStr ''systemd'')]"

definition Upstream_GetClusterCIDR :: "Distro_Package \<Rightarrow> string list option" where
  "Upstream_GetClusterCIDR dis =
     map_option (\<lambda>nodeConfig. service_subnet nodeConfig #
         (if pod_subnet nodeConfig \<noteq> [] then [pod_subnet nodeConfig] else []))
       (Dup (dc_Engine (dp_Config dis)))"

subsection \<open>The documents of containerd\<close>

definition image_name :: "string \<Rightarrow> string" where
  "image_name ref = rev (takeWhile (\<lambda>c. c \<noteq> slash) (rev ref))"

fun sandboxImage :: "string list \<Rightarrow> string" where
  "sandboxImage [] = []"
| "sandboxImage (ref # images) =
     (let name = image_name ref in
      if name = ''pause'' \<or> prefix ''pause:'' name \<or> prefix ''pause@'' name then ref else sandboxImage images)"

definition buildContainerdConfig :: "Distro_Package \<Rightarrow> vmap" where
  "buildContainerdConfig dis =
     (let img = sandboxImage (dc_Images (dp_Config dis));
          cri = [(''containerd'', VMap MDig [(''runtimes'', VMap MDig [(''runc'', VMap MDig [(''options'',
                    VMap MDig [(''SystemdCgroup'', VBool True)])])])]),
                 (''registry'', VMap MDig [(''config_path'', VStr containerdCertsDir)])] @
                (if img \<noteq> [] then [(''sandbox_image'', VStr img)] else [])
      in [(''version'', VInt 2), (''plugins'', VMap MDig [(''io.containerd.grpc.v1.cri'', VMap MDig cri)])])"

definition buildCrictlConfig :: vmap where
  "buildCrictlConfig = [(''runtime-endpoint'', VStr containerdSocket), (''image-endpoint'', VStr containerdSocket)]"

definition registryAuthHeader :: "RegistryAuth \<Rightarrow> string" where
  "registryAuthHeader a =
     (if ra_Token a \<noteq> [] then ''Bearer '' @ ra_Token a
      else if ra_Username a \<noteq> [] \<and> ra_Password a \<noteq> [] then ''Basic '' @ base64 (ra_Username a @ '':'' @ ra_Password a)
      else [])"

definition host_config :: "registry_lib \<Rightarrow> Registries \<Rightarrow> vmap" where
  "host_config L reg =
     (let header = registryAuthHeader (rg_Authentication reg) in
      (if header \<noteq> [] then [(''header'', VMap MDig [(''Authorization'', VStr header)])] else []) @
      (case rg_TLS reg of
         None \<Rightarrow> []
       | Some t \<Rightarrow>
           (if rt_CA t \<noteq> [] then [(''ca'', VStr (registryCAPath (ConfigHost L reg)))]
            else if rt_CAFile t \<noteq> [] then [(''ca'', VStr (rt_CAFile t))] else []) @
           (if rt_CertFile t \<noteq> [] \<and> rt_KeyFile t \<noteq> []
            then [(''client'', VList [VList [VStr (rt_CertFile t), VStr (rt_KeyFile t)]])] else []) @
           (if rt_InsecureSkipVerify t then [(''skip_verify'', VBool True)] else [])))"

definition hosts_document :: "registry_lib \<Rightarrow> Registries \<Rightarrow> vmap" where
  "hosts_document L reg =
     (let endpoint = (if MirrorEndpoint reg = [] then ''https://'' @ rg_Name reg else MirrorEndpoint reg) in
      [(''server'', VStr (''https://'' @ rg_Name reg)),
       (''host'', VMap MDig [(endpoint, VMap MDig (host_config L reg))])])"

fun hosts_loop :: "registry_lib \<Rightarrow> (string \<times> vmap) list \<Rightarrow> Registries list \<Rightarrow> (string \<times> vmap) list" where
  "hosts_loop L docs [] = docs"
| "hosts_loop L docs (reg # regs) =
     (if length (host_config L reg) = 0 \<and> MirrorEndpoint reg = [] then hosts_loop L docs regs
      else hosts_loop L (AList.update (rg_Name reg) (hosts_document L reg) docs) regs)"

definition buildContainerdHostsConfigs :: "registry_lib \<Rightarrow> Registries list \<Rightarrow> (string \<times> vmap) list" where
  "buildContainerdHostsConfigs L registries = hosts_loop L [] registries"

definition containerdHostsPath :: "string \<Rightarrow> string" where
  "containerdHostsPath name = path_Joins [containerdCertsDir, name, ''hosts.toml'']"

subsection \<open>The files of a node\<close>

type_synonym toml_encoder = "vmap \<Rightarrow> string option"

fun marshalYAMLDocs :: "encoders \<Rightarrow> vmap list \<Rightarrow> string option" where
  "marshalYAMLDocs E [] = Some []"
| "marshalYAMLDocs E (d # ds) =
     (case marshalYAML E d of
        None \<Rightarrow> None
      | Some b \<Rightarrow> map_option (\<lambda>rest. b @ rest) (marshalYAMLDocs E ds))"

definition rendered :: "string \<Rightarrow> string \<Rightarrow> string option \<Rightarrow> desired \<Rightarrow> engine_error + desired" where
  "rendered path mode b files =
     (case b of
        None \<Rightarrow> Inl EncodeError
      | Some b \<Rightarrow> Inr (AList.update path \<lparr>df_Content = b, df_Mode = mode, df_NoRestart = False\<rparr> files))"

fun hosts_files :: "toml_encoder \<Rightarrow> desired \<Rightarrow> (string \<times> vmap) list \<Rightarrow> engine_error + desired" where
  "hosts_files toml files [] = Inr files"
| "hosts_files toml files ((name, cfg) # docs) =
     bind_res (rendered (containerdHostsPath name) modeRegistries (toml cfg) files) (\<lambda>files. hosts_files toml files docs)"

definition kubeadmDocs :: "FieldNode option schemas \<Rightarrow> Host \<Rightarrow> RuntimeMeta \<Rightarrow> Distro_Package \<Rightarrow> vmap list option" where
  "kubeadmDocs G host run dis =
     (if hm_IsLeader (h_Metadata host)
      then map_option (\<lambda>cc. [cc, buildInitConfiguration host, buildKubeletConfiguration]) (buildClusterConfiguration G dis run)
      else Some [buildJoinConfiguration host run, buildKubeletConfiguration])"

definition Upstream_DesiredFiles ::
  "encoders \<Rightarrow> toml_encoder \<Rightarrow> FieldNode option schemas \<Rightarrow> Host \<Rightarrow> RuntimeMeta \<Rightarrow> Distro_Package \<Rightarrow> engine_error + desired"
where
  "Upstream_DesiredFiles E toml G host run dis =
     bind_res (rendered containerdConfigPath modeConfigFile (toml (buildContainerdConfig dis)) []) (\<lambda>files.
     bind_res (rendered crictlConfigPath modeConfigFile (marshalYAML E buildCrictlConfig) files) (\<lambda>files.
     bind_res (hosts_files toml files (buildContainerdHostsConfigs (en_registries E) (rm_Registries run))) (\<lambda>files.
     let files = put_all files (map (\<lambda>(p, ca). (p, \<lparr>df_Content = ca, df_Mode = modeConfigFile, df_NoRestart = False\<rparr>))
                   (registryCAFiles (en_registries E) (rm_Registries run))) in
     bind_res (case Dup (dc_Engine (dp_Config dis)) of None \<Rightarrow> Inl EnginePanic | Some n \<Rightarrow> Inr n) (\<lambda>nodeConfig.
     bind_res (engine_policy E nodeConfig EngineAudit ''Policy'' ''audit.k8s.io/v1'' upstreamAuditFilePath files) (\<lambda>files.
     bind_res (engine_policy E nodeConfig EnginePSS ''AdmissionConfiguration'' ''apiserver.config.k8s.io/v1'' upstreamPSSFilePath files) (\<lambda>files.
     bind_res (case kubeadmDocs G host run dis of None \<Rightarrow> Inl EnginePanic | Some docs \<Rightarrow> Inr docs) (\<lambda>docs.
     bind_res (rendered kubeadmConfigPath modeConfigFile (marshalYAMLDocs E docs) files) (\<lambda>files.
     bind_res (DistroReleaseDesiredFile E dis files) (\<lambda>release.
     case release of None \<Rightarrow> Inr files | Some (p, f) \<Rightarrow> Inr (AList.update p f files))))))))))"

fun write_desired :: "'s remote \<Rightarrow> desired \<Rightarrow> 's \<Rightarrow> engine_error option \<times> 's" where
  "write_desired R [] s = (None, s)"
| "write_desired R ((path, file) # fs) s =
     and_then (engine_step (Host_WriteFile R path (df_Content file) (df_Mode file))) (write_desired R fs) s"

definition Upstream_ConfigureEngine ::
  "encoders \<Rightarrow> toml_encoder \<Rightarrow> FieldNode option schemas \<Rightarrow> 's remote \<Rightarrow> RuntimeMeta \<Rightarrow> Distro_Package \<Rightarrow> Host \<Rightarrow> 's \<Rightarrow>
   engine_error option \<times> 's"
where
  "Upstream_ConfigureEngine E toml G R run dis host s =
     (case Upstream_DesiredFiles E toml G host run dis of
        Inl e \<Rightarrow> (Some e, s)
      | Inr files \<Rightarrow> write_desired R files s)"

subsection \<open>Configurations that follow the schema\<close>

fun fits_value :: "FieldNode \<Rightarrow> vval \<Rightarrow> bool" and fits :: "FieldNode \<Rightarrow> vmap \<Rightarrow> bool" where
  "fits_value child (VMap MDig nested) \<longleftrightarrow> Children child = None \<or> fits child nested"
| "fits_value child v \<longleftrightarrow> True"
| "fits node [] \<longleftrightarrow> True"
| "fits node ((k, v) # cfg) \<longleftrightarrow>
     (case known_child node k of None \<Rightarrow> False | Some child \<Rightarrow> fits_value child v) \<and> fits node cfg"

lemma dropped_fits: "fits_value c (drop_value c v)" "fits node (dropUnknownNested node cfg)"
  by (induction c v and node cfg rule: drop_value_dropUnknownNested.induct) (auto split: option.splits)

lemma length_dropped: "length (dropUnknownNested node cfg) \<le> length cfg"
  by (induction cfg) (auto split: option.splits)

lemma fits_kept: "fits_value c v \<Longrightarrow> drop_value c v = v" "fits node cfg \<Longrightarrow> dropUnknownNested node cfg = cfg"
  by (induction c v and node cfg rule: fits_value_fits.induct) (auto split: option.splits)

lemma map_of_dropUnknown:
  "map_of (dropUnknownNested node cfg) k =
     (case known_child node k of None \<Rightarrow> None | Some c \<Rightarrow> map_option (drop_value c) (map_of cfg k))"
  by (induction cfg) (auto split: option.splits)

text \<open>A path the schema has: it ends at a leaf of the schema or below one.\<close>

fun knows :: "FieldNode \<Rightarrow> string list \<Rightarrow> bool" where
  "knows node [] \<longleftrightarrow> False"
| "knows node (k # ks) \<longleftrightarrow> (case known_child node k of None \<Rightarrow> False | Some c \<Rightarrow> Children c = None \<or> knows c ks)"

lemma drop_leaf: "Children c = None \<Longrightarrow> map_option (drop_value c) v = v"
proof -
  assume leaf: "Children c = None"
  have "drop_value c v = v" for v using leaf by (cases "(c, v)" rule: drop_value.cases) auto
  then show ?thesis by (cases v) auto
qed

lemma Dig_known: "knows node ks \<Longrightarrow> Dig (dropUnknownNested node cfg) ks = Dig cfg ks"
proof (induction ks arbitrary: node cfg)
  case (Cons k ks)
  then obtain c where c: "known_child node k = Some c" "Children c = None \<or> knows c ks"
    by (auto split: option.splits)
  show ?case
  proof (cases "Children c = None")
    case True
    then show ?thesis by (simp add: c mget_def map_of_dropUnknown drop_leaf)
  next
    case False
    with c have "knows c ks" by simp
    then have ks: "ks \<noteq> []" by auto
    have "(case drop_value c v of VMap MDig n \<Rightarrow> Dig n ks | _ \<Rightarrow> VNil) =
        (case v of VMap MDig n \<Rightarrow> Dig n ks | _ \<Rightarrow> VNil)" for v
      using Cons.IH [OF \<open>knows c ks\<close>] False
      by (cases "(c, v)" rule: drop_value.cases) auto
    with ks c show ?thesis
      by (simp add: mget_def map_of_dropUnknown split: option.split)
  qed
qed simp

lemma Dig_unknown: "known_child node k = None \<Longrightarrow> Dig (dropUnknownNested node cfg) (k # ks) = VNil"
  by (simp add: mget_def map_of_dropUnknown)

text \<open>C35. With a schema for the version, what is left of the configuration has only keys of the schema, at
  every depth; a configuration that has no other is left alone, and nothing changes at or below a leaf
  of the schema. What stands below a key that is not in the schema is gone.\<close>

theorem nested_config_fits:
  assumes "Lookup G (co_ID Upstream) version = Some (Some node)"
  shows "fits node (validateNestedEngineConfig G version cfg) \<and>
    (validateNestedEngineConfig G version cfg = cfg \<longleftrightarrow> fits node cfg) \<and>
    Dig (validateNestedEngineConfig G version cfg) (k # ks) =
      (if knows node (k # ks) then Dig cfg (k # ks)
       else if known_child node k = None then VNil
       else Dig (dropUnknownNested node cfg) (k # ks))"
  using assms dropped_fits(2) [of node cfg] fits_kept(2) [of node cfg] Dig_known [of node "k # ks" cfg] Dig_unknown [of node k cfg ks]
  by (auto simp: validateNestedEngineConfig_def simp del: Dig.simps knows.simps)

subsection \<open>What reaches the cluster\<close>

definition kubeadm_paths :: "string list list" where
  "kubeadm_paths =
     [[''networking'', ''serviceSubnet''], [''networking'', ''podSubnet''], [''imageRepository''],
      [''apiServer'', ''extraArgs''], [''controllerManager'', ''extraArgs''], [''scheduler'', ''extraArgs'']]"

definition schema_allows :: "FieldNode option schemas \<Rightarrow> string \<Rightarrow> bool" where
  "schema_allows G version =
     (case Lookup G (co_ID Upstream) version of
        Some (Some node) \<Rightarrow> list_all (knows node) kubeadm_paths
      | _ \<Rightarrow> True)"

lemma mget_update: "mget (AList.update k v m) k' = (if k' = k then v else mget m k')"
  by (simp add: mget_def update_conv')

lemma checked_paths:
  assumes "schema_allows G version" and "ks \<in> set kubeadm_paths"
  shows "Dig (checked_config G version n) (EngineConfig # ks) = Dig n (EngineConfig # ks)"
proof -
  have ne: "ks \<noteq> []" using assms(2) by (auto simp: kubeadm_paths_def)
  have "Dig (validateNestedEngineConfig G version cfg) ks = Dig cfg ks" for cfg
    using assms by (auto simp: schema_allows_def validateNestedEngineConfig_def list_all_iff Dig_known split: option.splits)
  moreover have "Dig [] ks = VNil" using ne by (cases ks) (simp_all add: mget_def)
  ultimately show ?thesis
    using ne by (simp add: checked_config_def mget_update DigMapping_def split: vval.split mkind.split)
qed

lemma checked_policies:
  "DigMapping (checked_config G version n) EngineAudit = DigMapping n EngineAudit"
  "DigMapping (checked_config G version n) EnginePSS = DigMapping n EnginePSS"
  by (simp_all add: DigMapping_def checked_config_def mget_update engine_sections)

lemma cluster_document_cong:
  assumes "list_all (\<lambda>ks. Dig n (EngineConfig # ks) = Dig n' (EngineConfig # ks)) kubeadm_paths"
    and "(DigMapping n EngineAudit = []) = (DigMapping n' EngineAudit = [])"
    and "(DigMapping n EnginePSS = []) = (DigMapping n' EnginePSS = [])"
    and "dp_EngineVersion dis = dp_EngineVersion dis'" and "dc_Images (dp_Config dis) = dc_Images (dp_Config dis')"
  shows "cluster_document n dis run = cluster_document n' dis' run"
  using assms
  by (simp add: cluster_document_def service_subnet_def pod_subnet_def imageRepository_def component_args_def
      apiServer_section_def auditPSSVolumes_def extraArgsFrom_def dig_string_def kubeadm_paths_def Let_def del: Dig.simps)

text \<open>C24. Of the engine section only this reaches \<open>kubeadm init\<close>: the two subnets, the image repository, the
  extra arguments of the three components, and whether there are an audit policy and a pod security
  configuration. Two packages that agree on these and on versions and images give the same document:
  every other key is dropped without a word, also those the schema of kubeadm's configuration has, like
  the DNS domain, etcd, the SANs and the volumes of the API server.\<close>

theorem kubeadm_ignores_the_rest:
  assumes "Dup (dc_Engine (dp_Config dis)) = Some n" and "Dup (dc_Engine (dp_Config dis')) = Some n'"
    and "schema_allows G (dp_EngineVersion dis)"
    and "list_all (\<lambda>ks. Dig n (EngineConfig # ks) = Dig n' (EngineConfig # ks)) kubeadm_paths"
    and "(DigMapping n EngineAudit = []) = (DigMapping n' EngineAudit = [])"
    and "(DigMapping n EnginePSS = []) = (DigMapping n' EnginePSS = [])"
    and "dp_EngineVersion dis = dp_EngineVersion dis'" and "dc_Images (dp_Config dis) = dc_Images (dp_Config dis')"
  shows "buildClusterConfiguration G dis run = buildClusterConfiguration G dis' run"
proof -
  have "list_all (\<lambda>ks. Dig (checked_config G (dp_EngineVersion dis) n) (EngineConfig # ks) =
      Dig (checked_config G (dp_EngineVersion dis) n') (EngineConfig # ks)) kubeadm_paths"
    using assms(3,4) by (auto simp: list_all_iff checked_paths simp del: Dig.simps)
  from cluster_document_cong [OF this _ _ assms(7,8)] assms(1,2,5,6,7) show ?thesis
    by (simp add: buildClusterConfiguration_def checked_policies)
qed

text \<open>The networks the firewalls are told to trust are the networks the cluster is created with: the
  service network, which always has a value, and the pod network if the package sets one.\<close>

theorem firewall_trusts_cluster_networks:
  assumes "schema_allows G (dp_EngineVersion dis)"
  shows "map_option (\<lambda>doc. map snd (DigMapping doc ''networking'')) (buildClusterConfiguration G dis run) =
    map_option (map VStr) (Upstream_GetClusterCIDR dis)"
proof -
  have "map snd (DigMapping (cluster_document m dis run) ''networking'') =
      map VStr (service_subnet m # (if pod_subnet m \<noteq> [] then [pod_subnet m] else []))" for m
    by (simp add: cluster_document_def DigMapping_def mget_def Let_def)
  moreover have "service_subnet (checked_config G (dp_EngineVersion dis) n) = service_subnet n"
    "pod_subnet (checked_config G (dp_EngineVersion dis) n) = pod_subnet n" for n
    using checked_paths [OF assms] by (simp_all add: service_subnet_def pod_subnet_def dig_string_def kubeadm_paths_def Let_def del: Dig.simps)
  ultimately show ?thesis
    by (cases "Dup (dc_Engine (dp_Config dis))") (simp_all add: buildClusterConfiguration_def Upstream_GetClusterCIDR_def)
qed

definition kubeadm_package :: "vmap \<Rightarrow> Distro_Package" where
  "kubeadm_package engine =
     rke_package\<lparr>dp_Type := ''upstream'',
       dp_Config := \<lparr>dc_Engine = engine, dc_Images = [''quay.io/cilium/cilium:v1'', ''registry.k8s.io/kube-apiserver:v1.35.3'']\<rparr>\<rparr>"

definition dotted_domain :: vmap where
  "dotted_domain =
     [(''config'', VMap MDig [(''networking'', VMap MDig [(''podSubnet'', VStr ''10.1.0.0/16''), (''dnsDomain'', VStr ''corp'')]),
        (''etcd'', VMap MDig [(''local'', VMap MDig [(''dataDir'', VStr ''/data'')])])])]"

definition kubeadm_schema :: FieldNode where
  "kubeadm_schema =
     (let leaf = FieldNode None; part = FieldNode (Some [(''extraArgs'', leaf)]) in
      FieldNode (Some [(''networking'', FieldNode (Some [(''serviceSubnet'', leaf), (''podSubnet'', leaf), (''dnsDomain'', leaf)])),
        (''imageRepository'', leaf), (''apiServer'', part), (''controllerManager'', part), (''scheduler'', part),
        (''etcd'', FieldNode (Some [(''local'', FieldNode (Some [(''dataDir'', leaf)]))]))]))"

definition kubeadm_schemas :: "FieldNode option schemas" where
  "kubeadm_schemas = [''upstream'' \<mapsto> [''v1_35'' \<mapsto> Some kubeadm_schema]]"

lemma nested_config_fits_witness:
  "fits kubeadm_schema (validateNestedEngineConfig kubeadm_schemas ''v1.35.3'' [(''etcd'', VMap MDig [(''foo'', VNil)])]) \<and>
   validateNestedEngineConfig kubeadm_schemas ''v1.35.3'' [(''etcd'', VMap MDig [(''foo'', VNil)])] = [(''etcd'', VMap MDig [])]"
proof
  have "Lookup kubeadm_schemas (co_ID Upstream) ''v1.35.3'' = Some (Some kubeadm_schema)" by code_simp
  from nested_config_fits [OF this]
  show "fits kubeadm_schema (validateNestedEngineConfig kubeadm_schemas ''v1.35.3'' [(''etcd'', VMap MDig [(''foo'', VNil)])])" by blast
qed code_simp

lemma kubeadm_ignores_the_rest_witness:
  "buildClusterConfiguration kubeadm_schemas (kubeadm_package dotted_domain) (rke_run []) =
   buildClusterConfiguration kubeadm_schemas
     (kubeadm_package [(''config'', VMap MDig [(''networking'', VMap MDig [(''podSubnet'', VStr ''10.1.0.0/16'')])])]) (rke_run [])"
proof (rule kubeadm_ignores_the_rest)
  let ?n = "[(''config'', VMap MDig [(''networking'', VMap MDig [(''podSubnet'', VStr ''10.1.0.0/16'')])])]"
  show "Dup (dc_Engine (dp_Config (kubeadm_package dotted_domain))) = Some dotted_domain"
    "Dup (dc_Engine (dp_Config (kubeadm_package ?n))) = Some ?n"
    "schema_allows kubeadm_schemas (dp_EngineVersion (kubeadm_package dotted_domain))"
    "list_all (\<lambda>ks. Dig dotted_domain (EngineConfig # ks) = Dig ?n (EngineConfig # ks)) kubeadm_paths"
    "(DigMapping dotted_domain EngineAudit = []) = (DigMapping ?n EngineAudit = [])"
    "(DigMapping dotted_domain EnginePSS = []) = (DigMapping ?n EnginePSS = [])"
    "dp_EngineVersion (kubeadm_package dotted_domain) = dp_EngineVersion (kubeadm_package ?n)"
    "dc_Images (dp_Config (kubeadm_package dotted_domain)) = dc_Images (dp_Config (kubeadm_package ?n))"
    by code_simp+
qed

lemma firewall_trusts_cluster_networks_witness:
  "map_option (\<lambda>doc. map snd (DigMapping doc ''networking''))
     (buildClusterConfiguration kubeadm_schemas (kubeadm_package dotted_domain) (rke_run [])) =
   Some [VStr ''10.96.0.0/12'', VStr ''10.1.0.0/16'']"
proof -
  have "schema_allows kubeadm_schemas (dp_EngineVersion (kubeadm_package dotted_domain))" by code_simp
  moreover have "Upstream_GetClusterCIDR (kubeadm_package dotted_domain) = Some [''10.96.0.0/12'', ''10.1.0.0/16'']" by code_simp
  ultimately show ?thesis using firewall_trusts_cluster_networks by simp
qed

subsection \<open>Registries of containerd\<close>

definition without_rewrites :: "Registries \<Rightarrow> Registries" where
  "without_rewrites reg = reg\<lparr>rg_Proxy := map_option (\<lambda>p. p\<lparr>rp_Rewrite := []\<rparr>) (rg_Proxy reg)\<rparr>"

lemma without_rewrites_parts [simp]:
  "rg_Name (without_rewrites r) = rg_Name r" "rg_TLS (without_rewrites r) = rg_TLS r"
  "rg_Authentication (without_rewrites r) = rg_Authentication r"
  by (simp_all add: without_rewrites_def)

lemma without_rewrites_simps [simp]:
  "MirrorEndpoint (without_rewrites r) = MirrorEndpoint r" "ConfigHost L (without_rewrites r) = ConfigHost L r"
proof -
  show endpoint: "MirrorEndpoint (without_rewrites r) = MirrorEndpoint r"
    by (simp add: without_rewrites_def MirrorEndpoint_def ProxyURL_def split: option.split)
  show "ConfigHost L (without_rewrites r) = ConfigHost L r"
    unfolding ConfigHost_def endpoint without_rewrites_parts by (rule refl)
qed

lemma without_rewrites_documents [simp]:
  "host_config L (without_rewrites r) = host_config L r" "hosts_document L (without_rewrites r) = hosts_document L r"
proof -
  show host: "host_config L (without_rewrites r) = host_config L r"
    by (simp add: host_config_def split: option.split)
  show "hosts_document L (without_rewrites r) = hosts_document L r" by (simp add: hosts_document_def host)
qed

lemma hosts_loop_rewrites: "hosts_loop L docs (map without_rewrites rs) = hosts_loop L docs rs"
  by (induction rs arbitrary: docs) auto

lemma hosts_loop_other: "k \<notin> rg_Name ` set rs \<Longrightarrow> map_of (hosts_loop L docs rs) k = map_of docs k"
  by (induction rs arbitrary: docs) (auto simp: update_conv')

lemma hosts_loop_own:
  "distinct (map rg_Name rs) \<Longrightarrow> r \<in> set rs \<Longrightarrow> rg_Name r \<notin> fst ` set docs \<Longrightarrow>
   map_of (hosts_loop L docs rs) (rg_Name r) =
     (if host_config L r = [] \<and> MirrorEndpoint r = [] then None else Some (hosts_document L r))"
proof (induction rs arbitrary: docs)
  case (Cons reg rs)
  show ?case
  proof (cases "r = reg")
    case True
    with Cons.prems have "map_of docs (rg_Name r) = None" by (simp add: map_of_eq_None_iff)
    with True Cons.prems show ?thesis by (simp add: hosts_loop_other update_conv')
  next
    case False
    with Cons.prems have r: "r \<in> set rs" by simp
    then have "rg_Name r \<in> rg_Name ` set rs" by simp
    with Cons.prems have "rg_Name r \<noteq> rg_Name reg" by auto
    with r Cons show ?thesis by (simp add: dom_update)
  qed
qed simp

text \<open>Of registries that passed validation, each gets a \<open>hosts.toml\<close> of its own exactly if it has a
  mirror or a setting containerd understands, and it is the document of that registry alone. The
  rewrites of a mirror have no influence on any of them: with kubeadm they are ignored.\<close>

theorem containerd_registries_rendered:
  assumes "ValidateRegistries L rs = None" and "r \<in> set rs"
  shows "map_of (buildContainerdHostsConfigs L rs) (rg_Name r) =
      (if host_config L r = [] \<and> MirrorEndpoint r = [] then None else Some (hosts_document L r)) \<and>
    buildContainerdHostsConfigs L (map without_rewrites rs) = buildContainerdHostsConfigs L rs"
  using assms hosts_loop_own [of rs r "[]" L] hosts_loop_rewrites [of L "[]" rs]
  by (simp add: buildContainerdHostsConfigs_def ValidateRegistries_iff)

lemma containerd_registries_rendered_witness:
  "map_of (buildContainerdHostsConfigs sample_lib [bare_registry ''a'' ''u'' ''p'']) ''a'' =
   Some (hosts_document sample_lib (bare_registry ''a'' ''u'' ''p''))"
proof -
  let ?r = "bare_registry ''a'' ''u'' ''p''"
  have "ValidateRegistries sample_lib [?r] = None" by code_simp
  moreover have "rg_Name ?r = ''a''" "host_config sample_lib ?r \<noteq> []" by code_simp+
  ultimately show ?thesis using containerd_registries_rendered [of sample_lib "[?r]" ?r] by simp
qed

subsection \<open>Configuration sync of a kubeadm cluster\<close>

text \<open>
  \<open>loadDesiredConfig\<close> of \<open>70_engine_config_sync_common.go\<close>, for any driver: the desired files are those
  of a host that is not configured at all, once without a role and once as a controller, and of a run of
  which only the registries are set.
\<close>

definition blank_host :: "string \<Rightarrow> Host" where
  "blank_host role =
     \<lparr>h_connection = \<lparr>cn_ssh = None, cn_string = [], cn_address = []\<rparr>, h_Hostname = [], h_PrivateAddress = [],
      h_PrivateInterface = [], h_Profile = [], h_Role = role,
      h_Host = \<lparr>hcf_firewall = \<lparr>fc_rules = []\<rparr>, hcf_policy = [], hcf_ports = []\<rparr>,
      h_Engine = \<lparr>he_labels = [], he_taints = []\<rparr>, h_Configurer = None,
      h_Metadata = \<lparr>hm_Arch = [], hm_BinaryTempFile = [], hm_DistroVersion = [], hm_EngineUploaded = False,
        hm_ExistingConfig = [], hm_Hostname = [], hm_Installed = False, hm_IsLeader = False,
        hm_MachineID = [], hm_ModulesAdded = False, hm_NeedsUpgrade = False, hm_NewConfig = [],
        hm_Ready = False, hm_UploadedFiles = []\<rparr>\<rparr>"

definition sync_run :: "Registries list \<Rightarrow> RuntimeMeta" where
  "sync_run registries =
     \<lparr>rm_ControllerTLS = [], rm_ControllerToken = [], rm_AgentToken = [], rm_LoadBalancer = [], rm_LeaderName = [],
      rm_Registries = registries\<rparr>"

definition loadDesiredConfig ::
  "(Host \<Rightarrow> RuntimeMeta \<Rightarrow> engine_error + desired) \<Rightarrow> Registries list \<Rightarrow> 'h sync_phase \<Rightarrow> engine_error + 'h sync_phase"
where
  "loadDesiredConfig desiredFiles registries p =
     bind_res (desiredFiles (blank_host []) (sync_run registries)) (\<lambda>desired.
     bind_res (desiredFiles (blank_host RoleController) (sync_run registries)) (\<lambda>controllerDesired.
     Inr (p\<lparr>sp_desired := desired, sp_controllerDesired := Some controllerDesired\<rparr>)))"

lemma distinct_put_all: "distinct (map fst files) \<Longrightarrow> distinct (map fst (put_all files extra))"
proof (induction extra arbitrary: files)
  case (Cons p extra)
  then show ?case by (cases p) (simp add: put_all_def distinct_update)
qed (simp add: put_all_def)

lemma distinct_steps:
  "rendered path mode b files = Inr files' \<Longrightarrow> distinct (map fst files) \<Longrightarrow> distinct (map fst files')"
  "engine_policy E n sec k v path files = Inr files' \<Longrightarrow> distinct (map fst files) \<Longrightarrow> distinct (map fst files')"
  by (auto simp: rendered_def engine_policy_def Let_def distinct_update split: option.splits if_splits)

lemma distinct_hosts_files:
  "hosts_files toml files docs = Inr files' \<Longrightarrow> distinct (map fst files) \<Longrightarrow> distinct (map fst files')"
  by (induction toml files docs rule: hosts_files.induct) (auto simp: bind_res_Inr dest: distinct_steps(1))

lemma Upstream_DesiredFiles_kubeadm:
  assumes "Upstream_DesiredFiles E toml G host run dis = Inr files"
  obtains docs t where "kubeadmDocs G host run dis = Some docs" and "marshalYAMLDocs E docs = Some t"
    and "map_of files kubeadmConfigPath = Some \<lparr>df_Content = t, df_Mode = modeConfigFile, df_NoRestart = False\<rparr>"
    and "distinct (map fst files)"
proof -
  note steps = assms [unfolded Upstream_DesiredFiles_def, unfolded bind_res_simps bind_res_Inr Let_def]
  from steps obtain f1 f2 f3 n f4 f5 f6 docs r
    where f1: "rendered containerdConfigPath modeConfigFile (toml (buildContainerdConfig dis)) [] = Inr f1"
    and f2: "rendered crictlConfigPath modeConfigFile (marshalYAML E buildCrictlConfig) f1 = Inr f2"
    and f3: "hosts_files toml f2 (buildContainerdHostsConfigs (en_registries E) (rm_Registries run)) = Inr f3"
    and f4: "engine_policy E n EngineAudit ''Policy'' ''audit.k8s.io/v1'' upstreamAuditFilePath
        (put_all f3 (map (\<lambda>(p, ca). (p, \<lparr>df_Content = ca, df_Mode = modeConfigFile, df_NoRestart = False\<rparr>))
          (registryCAFiles (en_registries E) (rm_Registries run)))) = Inr f4"
    and f5: "engine_policy E n EnginePSS ''AdmissionConfiguration'' ''apiserver.config.k8s.io/v1'' upstreamPSSFilePath f4 = Inr f5"
    and docs: "(case kubeadmDocs G host run dis of None \<Rightarrow> Inl EnginePanic | Some docs \<Rightarrow> Inr docs) = Inr docs"
    and f6: "rendered kubeadmConfigPath modeConfigFile (marshalYAMLDocs E docs) f5 = Inr f6"
    and r: "DistroReleaseDesiredFile E dis f6 = Inr r"
    and last: "(case r of None \<Rightarrow> Inr f6 :: engine_error + desired | Some (p, f) \<Rightarrow> Inr (AList.update p f f6)) = Inr files"
    by blast
  have "distinct (map fst f6)"
    using distinct_steps(1) [OF f1] distinct_steps(1) [OF f2] distinct_hosts_files [OF f3]
      distinct_steps(2) [OF f4 distinct_put_all] distinct_steps(2) [OF f5] distinct_steps(1) [OF f6] by simp
  moreover obtain t where t: "marshalYAMLDocs E docs = Some t"
    and "f6 = AList.update kubeadmConfigPath \<lparr>df_Content = t, df_Mode = modeConfigFile, df_NoRestart = False\<rparr> f5"
    using f6 by (auto simp: rendered_def split: option.splits)
  then have k6: "map_of f6 kubeadmConfigPath = Some \<lparr>df_Content = t, df_Mode = modeConfigFile, df_NoRestart = False\<rparr>"
    by (simp add: update_conv')
  moreover have release: "r = None \<or> (\<exists>f. r = Some (DistroReleaseFile, f))"
    using r by (auto simp: DistroReleaseDesiredFile_def split: if_splits option.splits)
  moreover have "DistroReleaseFile \<noteq> kubeadmConfigPath" by code_simp
  ultimately have "distinct (map fst files)"
    "map_of files kubeadmConfigPath = Some \<lparr>df_Content = t, df_Mode = modeConfigFile, df_NoRestart = False\<rparr>"
    using last by (auto simp: distinct_update update_conv')
  moreover have "kubeadmDocs G host run dis = Some docs" using docs by (simp split: option.splits)
  ultimately show ?thesis using that t by blast
qed

context remote_fs
begin

lemma write_desired_other:
  "write_desired R fs s = (e, s') \<Longrightarrow> q \<notin> fst ` set fs \<Longrightarrow> files s' q = files s q"
proof (induction fs arbitrary: s)
  case (Cons pf fs)
  obtain p f where pf: "pf = (p, f)" by (cases pf)
  obtain r s1 where w: "Host_WriteFile R p (df_Content f) (df_Mode f) s = (r, s1)" by fastforce
  have "files s1 q = files s q"
    using frame_D [OF frame_WriteFile w, of q] Cons.prems pf by auto
  with Cons w pf show ?case by (cases r) (auto simp: and_then_def engine_step_def)
qed simp

lemma write_desired_ok:
  "write_desired R fs s = (None, s') \<Longrightarrow> distinct (map fst fs) \<Longrightarrow> (p, f) \<in> set fs \<Longrightarrow>
   \<exists>m. files s' p = Some (df_Content f, m)"
proof (induction fs arbitrary: s)
  case (Cons pf fs)
  obtain q g where pf: "pf = (q, g)" by (cases pf)
  with Cons.prems obtain s1 where w: "Host_WriteFile R q (df_Content g) (df_Mode g) s = (None, s1)"
      and rest: "write_desired R fs s1 = (None, s')"
    by (auto simp: and_then_pair engine_step_def split: prod.splits)
  show ?case
  proof (cases "(p, f) \<in> set fs")
    case False
    with Cons.prems pf have eq: "p = q" "f = g" and new: "p \<notin> fst ` set fs" by auto
    with Host_WriteFile_ok [OF w] write_desired_other [OF rest new] show ?thesis by auto
  next
    case True
    with Cons.IH [OF rest] Cons.prems(2) show ?thesis by simp
  qed
qed simp

end

lemma map_filter_member: "x \<in> set xs \<Longrightarrow> f x = Some y \<Longrightarrow> y \<in> set (List.map_filter f xs)"
  by (force simp: set_map_filter)

lemma file_drift_content:
  assumes "remote_fs R files" and "files s p = Some (c, m)" and "c \<noteq> df_Content want"
  shows "\<exists>d. file_drift difflib R s (p, want) = Some d \<and> dd_path d = p"
proof (cases "r_read R s p")
  case (Some c')
  with remote_fs.read_files [OF assms(1) Some] assms(2,3) remote_fs.exists_files [OF assms(1), of s p] show ?thesis
    by (simp add: file_drift_def)
qed (simp add: file_drift_def remote_fs.exists_files [OF assms(1)] assms(2))

definition blank_docs :: "bool \<Rightarrow> Registries list \<Rightarrow> vmap list" where
  "blank_docs controller registries =
     [buildJoinConfiguration (blank_host (if controller then RoleController else [])) (sync_run registries),
      buildKubeletConfiguration]"


definition kubeadm_encoders :: encoders where
  "kubeadm_encoders = rke_encoders\<lparr>en_yaml := \<lambda>m. Some (dig_string m [''nodeRegistration'', ''name''])\<rparr>"

definition kubeadm_disk :: "disk remote" where
  "kubeadm_disk = disk_remote (\<lambda>_. False) (\<lambda>_. False) (\<lambda>_. False) (\<lambda>_. [])"

definition kubeadm_worker :: Host where
  "kubeadm_worker = (sample_host ''10.0.0.2'' RoleWorker [])\<lparr>h_Hostname := ''w1''\<rparr>"

definition kubeadm_sync :: "nat sync_phase" where
  "kubeadm_sync = \<lparr>sp_desired = [], sp_controllerDesired = None, sp_drift = [], sp_changed = False, sp_changedHosts = []\<rparr>"


end
