(* ===== verification/Engine_Kubeadm.thy ===== *)
theory Engine_Kubeadm
  imports Engine_Upstream File_Selection
begin

section \<open>The kubeadm driver: bootstrap, images, upgrade and reset\<close>

text \<open>
  \<open>types/distrocfg/upstream_bootstrap.go\<close>, \<open>upstream_upgrade.go\<close>, \<open>upstream_reset.go\<close> and the calls of
  \<open>upstream.go\<close> that run something on a host. A host is an \<open>engine_machine\<close> with the calls that give
  output back, start and enable services and install packages. All hosts share one state, so what a
  node does can be read on the leader.
\<close>

subsection \<open>Nodes\<close>

text \<open>\<open>nm_run\<close> is \<open>SudoExecOutput\<close>: an error, or what the command printed.\<close>

record 's node_machine = "'s engine_machine" +
  nm_run :: "string \<Rightarrow> 's \<Rightarrow> (string + string) \<times> 's"
  nm_start :: "string \<Rightarrow> 's \<Rightarrow> string option \<times> 's"
  nm_enable :: "string \<Rightarrow> 's \<Rightarrow> string option \<times> 's"
  nm_install :: "string list \<Rightarrow> 's \<Rightarrow> string option \<times> 's"
  nm_uninstall :: "string list \<Rightarrow> 's \<Rightarrow> string option \<times> 's"

datatype kubeadm_error =
    ServiceCall string string
  | CommandFailed string string
  | NoJoinToken
  | NoCACertHash
  | NoCertificateKey
  | NoLeader
  | LeaderUnreadable string
  | DocsNotRendered
  | NodeFile fs_error
  | NoKubeadmPackage string string
  | ArchUnknown arch_error
  | InstallFailed string
  | WalkFailed string

definition service_call ::
  "(string \<Rightarrow> 's \<Rightarrow> string option \<times> 's) \<Rightarrow> string \<Rightarrow> 's \<Rightarrow> kubeadm_error option \<times> 's"
where
  "service_call f service s = (case f service s of (e, s') \<Rightarrow> (map_option (ServiceCall service) e, s'))"

definition run_only :: "('s, 'x) node_machine_scheme \<Rightarrow> string \<Rightarrow> 's \<Rightarrow> kubeadm_error option \<times> 's" where
  "run_only M command s =
     (case nm_run M command s of
        (Inl e, s') \<Rightarrow> (Some (CommandFailed command e), s')
      | (Inr _, s') \<Rightarrow> (None, s'))"

definition write_node :: "('s, 'x) node_machine_scheme \<Rightarrow> string \<Rightarrow> string \<Rightarrow> string \<Rightarrow> 's \<Rightarrow> kubeadm_error option \<times> 's" where
  "write_node M path content mode s =
     (case Host_WriteFile (mc_fs M) path content mode s of (e, s') \<Rightarrow> (map_option NodeFile e, s'))"

subsection \<open>What kubeadm prints\<close>

text \<open>The class \<open>\s\<close>, and the pattern of a flag followed by a word.\<close>

definition re_space :: "char \<Rightarrow> bool" where
  "re_space c \<longleftrightarrow> c = CHR '' '' \<or> c = CHR 0x09 \<or> c = CHR 0x0A \<or> c = CHR 0x0C \<or> c = CHR 0x0D"

definition flag_value :: "string \<Rightarrow> string \<Rightarrow> string option" where
  "flag_value flag s =
     (if prefix flag s then
        (let rest = drop (length flag) s; word = dropWhile re_space rest
         in if word \<noteq> rest \<and> word \<noteq> [] then Some (takeWhile (\<lambda>c. \<not> re_space c) word) else None)
      else None)"

definition parseJoinCommand :: "string \<Rightarrow> kubeadm_error + string \<times> string" where
  "parseJoinCommand out =
     (case leftmost (flag_value ''--token'') out of
        None \<Rightarrow> Inl NoJoinToken
      | Some token \<Rightarrow>
          (case leftmost (flag_value ''--discovery-token-ca-cert-hash'') out of
             None \<Rightarrow> Inl NoCACertHash
           | Some hash \<Rightarrow> Inr (token, hash)))"

definition lower_hex :: "char \<Rightarrow> bool" where
  "lower_hex c \<longleftrightarrow> is_digit c \<or> 97 \<le> byte c \<and> byte c \<le> 102"

definition parseCertificateKey :: "string \<Rightarrow> kubeadm_error + string" where
  "parseCertificateKey out =
     (case List.find (\<lambda>l. length l = 64 \<and> list_all lower_hex l) (split_on (CHR 0x0A) out) of
        None \<Rightarrow> Inl NoCertificateKey
      | Some key \<Rightarrow> Inr key)"

subsection \<open>Bootstrap\<close>

definition upstreamKubeletConfPath :: string where "upstreamKubeletConfPath = ''/etc/kubernetes/kubelet.conf''"
definition upstreamJoinTokenFile :: string where "upstreamJoinTokenFile = ''/etc/kubernetes/pki/cargoship-join-token''"
definition upstreamCACertHashFile :: string where "upstreamCACertHashFile = ''/etc/kubernetes/pki/cargoship-ca-cert-hash''"
definition containerdService :: string where "containerdService = ''containerd''"

definition IsBootstrapped :: "('s, 'x) node_machine_scheme \<Rightarrow> 's \<Rightarrow> bool" where
  "IsBootstrapped M s \<longleftrightarrow> r_exists (mc_fs M) s upstreamKubeletConfPath"

definition ensureRuntime :: "('s, 'x) node_machine_scheme \<Rightarrow> 's \<Rightarrow> kubeadm_error option \<times> 's" where
  "ensureRuntime M =
     and_then (service_call (nm_enable M) containerdService)
       (\<lambda>s. if mc_running M s containerdService then (None, s) else service_call (nm_start M) containerdService s)"

definition init_command :: string where
  "init_command = ''kubeadm init --config '' @ kubeadmConfigPath @ '' --upload-certs''"

definition join_command :: string where
  "join_command = ''kubeadm join --config '' @ kubeadmConfigPath"

definition upload_certs_command :: string where
  "upload_certs_command = ''kubeadm init phase upload-certs --upload-certs --config '' @ kubeadmConfigPath"

definition bootstrapLeader :: "('s, 'x) node_machine_scheme \<Rightarrow> 's \<Rightarrow> kubeadm_error option \<times> 's" where
  "bootstrapLeader M s =
     (case nm_run M init_command s of
        (Inl e, s1) \<Rightarrow> (Some (CommandFailed init_command e), s1)
      | (Inr out, s1) \<Rightarrow>
          (case parseJoinCommand out of
             Inl e \<Rightarrow> (Some e, s1)
           | Inr (token, hash) \<Rightarrow>
               and_then (write_node M upstreamJoinTokenFile token ''0600'')
                 (write_node M upstreamCACertHashFile hash ''0600'') s1))"

definition readJoinTokenAndHash :: "('s, 'x) node_machine_scheme \<Rightarrow> 's \<Rightarrow> kubeadm_error + string \<times> string" where
  "readJoinTokenAndHash L s =
     (case r_read (mc_fs L) s upstreamJoinTokenFile of
        None \<Rightarrow> Inl (LeaderUnreadable upstreamJoinTokenFile)
      | Some token \<Rightarrow>
          (case r_read (mc_fs L) s upstreamCACertHashFile of
             None \<Rightarrow> Inl (LeaderUnreadable upstreamCACertHashFile)
           | Some hash \<Rightarrow> Inr (trim_space token, trim_space hash)))"

text \<open>\<open>m.DigMapping(ps...)[k] = v\<close>.\<close>

fun dig_put :: "vmap \<Rightarrow> string list \<Rightarrow> string \<Rightarrow> vval \<Rightarrow> vmap" where
  "dig_put m [] k v = AList.update k v m"
| "dig_put m (p # ps) k v = AList.update p (VMap MDig (dig_put (DigMapping m p) ps k v)) m"

definition with_hash :: "vmap \<Rightarrow> string \<Rightarrow> vmap" where
  "with_hash jc hash = dig_put jc [''discovery'', ''bootstrapToken''] ''caCertHashes'' (VList [VStr hash])"

definition join_cluster :: "encoders \<Rightarrow> ('s, 'x) node_machine_scheme \<Rightarrow> vmap \<Rightarrow> 's \<Rightarrow> kubeadm_error option \<times> 's" where
  "join_cluster E M jc s =
     (case marshalYAMLDocs E [jc, buildKubeletConfiguration] of
        None \<Rightarrow> (Some DocsNotRendered, s)
      | Some b \<Rightarrow> and_then (write_node M kubeadmConfigPath b modeConfigFile) (run_only M join_command) s)"

definition bootstrapJoin ::
  "encoders \<Rightarrow> ('s, 'x) node_machine_scheme \<Rightarrow> ('s, 'y) node_machine_scheme option \<Rightarrow> Host \<Rightarrow> RuntimeMeta \<Rightarrow> 's \<Rightarrow>
   kubeadm_error option \<times> 's"
where
  "bootstrapJoin E M leader host run s =
     (case leader of
        None \<Rightarrow> (Some NoLeader, s)
      | Some L \<Rightarrow>
          (case readJoinTokenAndHash L s of
             Inl e \<Rightarrow> (Some e, s)
           | Inr (token, hash) \<Rightarrow>
               join_cluster E M (with_hash (buildJoinConfiguration host (run\<lparr>rm_AgentToken := token\<rparr>)) hash) s))"

definition bootstrapJoinController ::
  "encoders \<Rightarrow> ('s, 'x) node_machine_scheme \<Rightarrow> ('s, 'y) node_machine_scheme option \<Rightarrow> Host \<Rightarrow> RuntimeMeta \<Rightarrow> 's \<Rightarrow>
   kubeadm_error option \<times> 's"
where
  "bootstrapJoinController E M leader host run s =
     (case leader of
        None \<Rightarrow> (Some NoLeader, s)
      | Some L \<Rightarrow>
          (case readJoinTokenAndHash L s of
             Inl e \<Rightarrow> (Some e, s)
           | Inr (token, hash) \<Rightarrow>
               (case nm_run L upload_certs_command s of
                  (Inl e, s1) \<Rightarrow> (Some (CommandFailed upload_certs_command e), s1)
                | (Inr out, s1) \<Rightarrow>
                    (case parseCertificateKey out of
                       Inl e \<Rightarrow> (Some e, s1)
                     | Inr certKey \<Rightarrow>
                         join_cluster E M
                           (dig_put (with_hash (buildJoinConfiguration host (run\<lparr>rm_ControllerToken := token\<rparr>)) hash)
                              [''controlPlane''] ''certificateKey'' (VStr certKey)) s1))))"

definition Upstream_Bootstrap ::
  "encoders \<Rightarrow> ('s, 'x) node_machine_scheme \<Rightarrow> ('s, 'y) node_machine_scheme option \<Rightarrow> Host \<Rightarrow> RuntimeMeta \<Rightarrow> 's \<Rightarrow>
   kubeadm_error option \<times> 's"
where
  "Upstream_Bootstrap E M leader host run =
     and_then (ensureRuntime M)
       (if hm_IsLeader (h_Metadata host) then bootstrapLeader M
        else if IsController host then bootstrapJoinController E M leader host run
        else bootstrapJoin E M leader host run)"

subsection \<open>Images\<close>

text \<open>What \<open>fs.WalkDir\<close> visits, in its order.\<close>

record walk_entry =
  we_name :: string
  we_dir :: bool
  we_err :: "string option"

definition import_command :: "string \<Rightarrow> string \<Rightarrow> string" where
  "import_command path name = ''ctr -n k8s.io images import '' @ path_Join path name"

fun import_entries :: "('s, 'x) node_machine_scheme \<Rightarrow> string \<Rightarrow> walk_entry list \<Rightarrow> 's \<Rightarrow> kubeadm_error option \<times> 's" where
  "import_entries M path [] s = (None, s)"
| "import_entries M path (e # es) s =
     (case we_err e of
        Some err \<Rightarrow> (Some (WalkFailed err), s)
      | None \<Rightarrow>
          if we_dir e then import_entries M path es s
          else and_then (run_only M (import_command path (we_name e))) (import_entries M path es) s)"

definition ImportImages ::
  "('s, 'x) node_machine_scheme \<Rightarrow> ('s \<Rightarrow> string \<Rightarrow> walk_entry list) \<Rightarrow> string \<Rightarrow> 's \<Rightarrow> kubeadm_error option \<times> 's"
where
  "ImportImages M walk path s =
     (if \<not> r_exists (mc_fs M) s path then (None, s) else import_entries M path (walk s path) s)"

subsection \<open>Upgrade\<close>

definition SelectorAPT :: string where "SelectorAPT = ''apt''"
definition SelectorRPM :: string where "SelectorRPM = ''rpm''"
definition SelectorBIN :: string where "SelectorBIN = ''binary''"

fun kubeadm_file :: "string \<Rightarrow> string \<Rightarrow> File list \<Rightarrow> string option" where
  "kubeadm_file pkgManager arch [] = None"
| "kubeadm_file pkgManager arch (f # fs) =
     (if bs_Package (fl_Selector f) = pkgManager \<and> MatchesArch (fl_Selector f) arch \<and>
        prefix ''kubeadm'' (path_Base (fl_Target f))
      then Some (fl_Target f) else kubeadm_file pkgManager arch fs)"

definition kubeadmPackagePath :: "File list \<Rightarrow> (Host \<Rightarrow> arch_error + string) \<Rightarrow> Host \<Rightarrow> string \<Rightarrow> kubeadm_error + string" where
  "kubeadmPackagePath osFiles raw host pkgManager =
     (case raw host of
        Inl e \<Rightarrow> Inl (ArchUnknown e)
      | Inr arch \<Rightarrow>
          (case kubeadm_file pkgManager arch osFiles of
             None \<Rightarrow> Inl (NoKubeadmPackage pkgManager arch)
           | Some path \<Rightarrow> Inr path))"

definition unholdKubeadmUsing ::
  "('s \<Rightarrow> string option \<times> 's) \<Rightarrow> (string \<Rightarrow> 's \<Rightarrow> string option \<times> 's) \<Rightarrow> string \<Rightarrow> 's \<Rightarrow> kubeadm_error option \<times> 's"
where
  "unholdKubeadmUsing present run pkgManager s =
     (if pkgManager = SelectorAPT then service_call run ''apt-mark unhold kubeadm'' s
      else (case present s of
              (Some _, s1) \<Rightarrow> (None, s1)
            | (None, s1) \<Rightarrow> service_call run ''dnf versionlock delete kubeadm'' s1))"

definition versionlock_probe :: string where "versionlock_probe = ''dnf versionlock --help''"

definition unholdKubeadm :: "('s, 'x) node_machine_scheme \<Rightarrow> string \<Rightarrow> 's \<Rightarrow> kubeadm_error option \<times> 's" where
  "unholdKubeadm M pkgManager = unholdKubeadmUsing (mc_exec M versionlock_probe) (mc_exec M) pkgManager"

definition install_package :: "('s, 'x) node_machine_scheme \<Rightarrow> string list \<Rightarrow> 's \<Rightarrow> kubeadm_error option \<times> 's" where
  "install_package M paths s = (case nm_install M paths s of (e, s') \<Rightarrow> (map_option InstallFailed e, s'))"

definition trim_v :: "string \<Rightarrow> string" where
  "trim_v version = (if version \<noteq> [] \<and> hd version = CHR ''v'' then tl version else version)"

definition PreStartUpgrade ::
  "('s, 'x) node_machine_scheme \<Rightarrow> bool \<Rightarrow> File list \<Rightarrow> (Host \<Rightarrow> arch_error + string) \<Rightarrow> string \<Rightarrow> Host \<Rightarrow> 's \<Rightarrow>
   kubeadm_error option \<times> 's"
where
  "PreStartUpgrade M debian osFiles raw version host s =
     (let pkgManager = (if debian then SelectorAPT else SelectorRPM) in
      case kubeadmPackagePath osFiles raw host pkgManager of
        Inl e \<Rightarrow> (Some e, s)
      | Inr path \<Rightarrow>
          and_then (unholdKubeadm M pkgManager)
            (and_then (install_package M [path])
              (if hm_IsLeader (h_Metadata host)
               then and_then (run_only M ''kubeadm upgrade plan'')
                      (run_only M (''kubeadm upgrade apply v'' @ trim_v version @ '' -y''))
               else run_only M ''kubeadm upgrade node'')) s)"

subsection \<open>Reset\<close>

definition teardown_commands :: "string list" where
  "teardown_commands =
     [''ip link delete cni0'', ''ip link delete flannel.1'', ''iptables -F'', ''iptables -t nat -F'',
      ''iptables -t mangle -F'', ''iptables -X'']"

definition best_effort :: "('s, 'x) node_machine_scheme \<Rightarrow> string \<Rightarrow> 's \<Rightarrow> 's" where
  "best_effort M command s = snd (mc_exec M command s)"

definition stopRuntime :: "('s, 'x) node_machine_scheme \<Rightarrow> 's \<Rightarrow> kubeadm_error option \<times> 's" where
  "stopRuntime M =
     and_then (\<lambda>s. if mc_running M s containerdService then service_call (em_stop M) containerdService s else (None, s))
       (\<lambda>s. (None, best_effort M (''systemctl disable '' @ containerdService) s))"

definition PreUninstallReset :: "('s, 'x) node_machine_scheme \<Rightarrow> 's \<Rightarrow> kubeadm_error option \<times> 's" where
  "PreUninstallReset M =
     and_then (run_only M ''kubeadm reset -f'')
       (\<lambda>s. stopRuntime M (foldl (\<lambda>s c. best_effort M c s) s teardown_commands))"

definition stopIfRunning :: "('s, 'x) node_machine_scheme \<Rightarrow> string \<Rightarrow> 's \<Rightarrow> kubeadm_error option \<times> 's" where
  "stopIfRunning M service s =
     (if \<not> mc_running M s service then (None, s) else service_call (em_stop M) service s)"

subsection \<open>The hand-off\<close>

text \<open>
  A leader and another node: what runs on the node leaves the leader's hand-off files alone, and no
  command rewrites the configuration it is given or the hand-off files.
\<close>

definition handoff_files :: "string set" where
  "handoff_files = {upstreamJoinTokenFile, upstreamCACertHashFile}"

locale kubeadm_hosts = leader: remote_fs "mc_fs L" lf + node: remote_fs "mc_fs M" nf
  for L :: "('s, 'x) node_machine_scheme" and M :: "('s, 'y) node_machine_scheme"
    and lf nf :: "'s \<Rightarrow> string \<Rightarrow> (string \<times> nat) option" +
  assumes node_services: "p \<in> handoff_files \<Longrightarrow> lf (snd (nm_enable M service s)) p = lf s p"
      "p \<in> handoff_files \<Longrightarrow> lf (snd (nm_start M service s)) p = lf s p"
    and node_runs: "nf (snd (nm_run M command s)) kubeadmConfigPath = nf s kubeadmConfigPath"
begin

lemma write_node_ok:
  "write_node L path content mode s = (None, s') \<Longrightarrow>
   lf s' q = (if q = path then map_option (\<lambda>m. (content, perm_bits m)) (parseFileMode mode) else lf s q)"
  by (auto simp: write_node_def dest!: leader.Host_WriteFile_ok split: prod.splits)

lemma ensureRuntime_keeps: "p \<in> handoff_files \<Longrightarrow> lf (snd (ensureRuntime M s)) p = lf s p"
  using node_services by (auto simp: ensureRuntime_def and_then_def service_call_def split: prod.splits option.splits)
    (metis snd_conv)+

lemma bootstrapLeader_writes:
  assumes "bootstrapLeader L s = (None, s1)"
  obtains out s0 t h where "nm_run L init_command s = (Inr out, s0)" "parseJoinCommand out = Inr (t, h)"
    "lf s1 upstreamJoinTokenFile = Some (t, 384)" "lf s1 upstreamCACertHashFile = Some (h, 384)"
proof -
  have mode: "parseFileMode ''0600'' = Some 384" "perm_bits 384 = 384" by code_simp+
  have paths: "upstreamJoinTokenFile \<noteq> upstreamCACertHashFile" by code_simp
  from assms obtain out s0 t h s2 where run: "nm_run L init_command s = (Inr out, s0)"
    and parse: "parseJoinCommand out = Inr (t, h)"
    and w1: "write_node L upstreamJoinTokenFile t ''0600'' s0 = (None, s2)"
    and w2: "write_node L upstreamCACertHashFile h ''0600'' s2 = (None, s1)"
    by (auto simp: bootstrapLeader_def and_then_pair split: prod.splits sum.splits)
  from write_node_ok [OF w1] write_node_ok [OF w2] mode paths that [OF run parse] show ?thesis by simp
qed

lemma join_cluster_file:
  assumes "join_cluster E M jc s = (None, s')"
  shows "\<exists>b. marshalYAMLDocs E [jc, buildKubeletConfiguration] = Some b \<and> nf s' kubeadmConfigPath = Some (b, 384)"
proof -
  have mode: "parseFileMode modeConfigFile = Some 384" "perm_bits 384 = 384" by code_simp+
  from assms obtain b s1 where b: "marshalYAMLDocs E [jc, buildKubeletConfiguration] = Some b"
    and w: "write_node M kubeadmConfigPath b modeConfigFile s = (None, s1)" and run: "run_only M join_command s1 = (None, s')"
    by (auto simp: join_cluster_def and_then_pair split: option.splits)
  have "nf s1 kubeadmConfigPath = Some (b, 384)"
    using w mode by (auto simp: write_node_def dest!: node.Host_WriteFile_ok split: prod.splits)
  moreover have "nf s' = nf (snd (nm_run M join_command s1))"
    using run by (auto simp: run_only_def split: prod.splits sum.splits)
  ultimately show ?thesis using b node_runs [of join_command s1] by simp
qed

end


text \<open>When \<open>kubeadm init\<close> has formed the cluster but the hand-off fails, the step reports an error and the
  cluster stays: the leader counts as bootstrapped, so no later run repeats the step, and as long
  as the token is not there every other node fails to join, without being touched.\<close>

theorem lost_handoff_blocks_joins:
  assumes "remote_fs (mc_fs L) lf" and "nm_run L init_command s = (Inr out, s1)"
    and "lf s1 upstreamKubeletConfPath \<noteq> None" and "lf s1 upstreamJoinTokenFile = None"
    and "parseJoinCommand out = Inl e"
  shows "bootstrapLeader L s = (Some e, s1) \<and> IsBootstrapped L s1 \<and>
    bootstrapJoin E M (Some L) host run s1 = (Some (LeaderUnreadable upstreamJoinTokenFile), s1) \<and>
    bootstrapJoinController E M (Some L) host run s1 = (Some (LeaderUnreadable upstreamJoinTokenFile), s1)"
proof -
  have "r_read (mc_fs L) s1 upstreamJoinTokenFile = None"
    using remote_fs.read_files [OF assms(1), of s1 upstreamJoinTokenFile] assms(4) by fastforce
  with assms show ?thesis
    by (simp add: bootstrapLeader_def IsBootstrapped_def remote_fs.exists_files [OF assms(1)] bootstrapJoin_def
        bootstrapJoinController_def readJoinTokenAndHash_def)
qed

subsection \<open>Images are not imported\<close>


subsection \<open>A fleet\<close>

text \<open>The calls of one host on the state of a fleet, which gives every host its own.\<close>

definition host_op :: "'h \<Rightarrow> ('s \<Rightarrow> 'r \<times> 's) \<Rightarrow> ('h \<Rightarrow> 's) \<Rightarrow> 'r \<times> ('h \<Rightarrow> 's)" where
  "host_op h f st = (case f (st h) of (r, s') \<Rightarrow> (r, st(h := s')))"

definition host_remote :: "'h \<Rightarrow> 's remote \<Rightarrow> ('h \<Rightarrow> 's) remote" where
  "host_remote h R =
     \<lparr>r_exists = (\<lambda>st. r_exists R (st h)), r_read = (\<lambda>st. r_read R (st h)),
      r_stat = (\<lambda>st. r_stat R (st h)), r_find = (\<lambda>st. r_find R (st h)),
      r_readdir = (\<lambda>st. r_readdir R (st h)), r_sha256 = (\<lambda>st. r_sha256 R (st h)),
      r_write = (\<lambda>p c m. host_op h (r_write R p c m)), r_remove = (\<lambda>p. host_op h (r_remove R p)),
      r_mkdir = (\<lambda>p m. host_op h (r_mkdir R p m)), r_chmod = (\<lambda>p m. host_op h (r_chmod R p m)),
      r_chown = (\<lambda>p w. host_op h (r_chown R p w)), r_touch = (\<lambda>p. host_op h (r_touch R p)),
      r_upload = (\<lambda>p c m. host_op h (r_upload R p c m)), r_create = (\<lambda>p c m. host_op h (r_create R p c m)),
      r_rename = (\<lambda>p q. host_op h (r_rename R p q))\<rparr>"

definition host_node :: "'h \<Rightarrow> 's node_machine \<Rightarrow> ('h \<Rightarrow> 's) node_machine" where
  "host_node h M =
     \<lparr>mc_fs = host_remote h (mc_fs M), mc_preferred = mc_preferred M,
      mc_command = (\<lambda>st. mc_command M (st h)), mc_running = (\<lambda>st. mc_running M (st h)),
      mc_output = (\<lambda>st. mc_output M (st h)), mc_exec = (\<lambda>c. host_op h (mc_exec M c)),
      mc_restart = (\<lambda>c. host_op h (mc_restart M c)), em_stop = (\<lambda>c. host_op h (em_stop M c)),
      em_touch = (\<lambda>p. host_op h (em_touch M p)), em_lookpath = (\<lambda>st. em_lookpath M (st h)),
      nm_run = (\<lambda>c. host_op h (nm_run M c)), nm_start = (\<lambda>c. host_op h (nm_start M c)),
      nm_enable = (\<lambda>c. host_op h (nm_enable M c)), nm_install = (\<lambda>ps. host_op h (nm_install M ps)),
      nm_uninstall = (\<lambda>ps. host_op h (nm_uninstall M ps))\<rparr>"

lemma host_op_pair: "host_op h f st = (r, st') \<longleftrightarrow> (\<exists>s'. f (st h) = (r, s') \<and> st' = st(h := s'))"
  by (auto simp: host_op_def split: prod.splits)

lemma host_op_other: "g \<noteq> h \<Longrightarrow> snd (host_op h f st) g = st g"
  by (simp add: host_op_def split: prod.split)

lemma host_op_own: "snd (host_op h f st) h = snd (f (st h))"
  by (simp add: host_op_def split: prod.split)

lemma host_remote_fs:
  assumes a: "remote_fs R files"
  shows "remote_fs (host_remote h R) (\<lambda>st. files (st h))"
proof -
  note laws = a [THEN remote_fs.exists_files] a [THEN remote_fs.read_files] a [THEN remote_fs.stat_files]
    a [THEN remote_fs.write_ok] a [THEN remote_fs.write_other] a [THEN remote_fs.remove_ok]
    a [THEN remote_fs.remove_gone] a [THEN remote_fs.remove_failed] a [THEN remote_fs.mkdir_files]
    a [THEN remote_fs.chown_files] a [THEN remote_fs.chmod_other] a [THEN remote_fs.chmod_content]
    a [THEN remote_fs.chmod_ok] a [THEN remote_fs.touch_other] a [THEN remote_fs.upload_ok]
    a [THEN remote_fs.upload_other] a [THEN remote_fs.create_ok] a [THEN remote_fs.create_other]
    a [THEN remote_fs.rename_ok] a [THEN remote_fs.rename_other] a [THEN remote_fs.touch_same]
  show ?thesis
    by (rule remote_fs.intro; clarsimp simp: host_remote_def host_op_pair simp del: fun_upd_apply;
        (simp only: fun_upd_same)?; (rule laws; assumption | fastforce simp: laws(1) simp del: fun_upd_apply dest: laws(2-)))
qed

subsection \<open>Two nodes\<close>

definition kubeadm_output :: string where
  "kubeadm_output =
     ''Your Kubernetes control-plane has initialized successfully!'' @ [CHR 0x0A] @
     ''kubeadm join lb:6443 --token abcdef.0123456789abcdef '' @ [CHR 0x5C, CHR 0x0A, CHR 0x09] @
     ''--discovery-token-ca-cert-hash sha256:1234 '' @ [CHR 0x0A]"

definition kubeadm_run :: "string \<Rightarrow> disk \<Rightarrow> (string + string) \<times> disk" where
  "kubeadm_run command d =
     (if command = init_command then (Inr kubeadm_output, d(upstreamKubeletConfPath \<mapsto> (''leader'', 384)))
      else if command = join_command then (Inr [], d(upstreamKubeletConfPath \<mapsto> (''node'', 384)))
      else (Inr [], d))"

definition kubeadm_node :: "disk node_machine" where
  "kubeadm_node =
     \<lparr>mc_fs = kubeadm_disk, mc_preferred = None, mc_command = (\<lambda>_ _. True), mc_running = (\<lambda>_ _. False), mc_output = (\<lambda>_ _. None),
      mc_exec = (\<lambda>_ s. (None, s)), mc_restart = (\<lambda>_ s. (None, s)), em_stop = (\<lambda>_ s. (None, s)),
      em_touch = (\<lambda>p s. (None, s)), em_lookpath = (\<lambda>_ _. None), nm_run = kubeadm_run,
      nm_start = (\<lambda>_ s. (None, s)), nm_enable = (\<lambda>_ s. (None, s)), nm_install = (\<lambda>_ s. (None, s)),
      nm_uninstall = (\<lambda>_ s. (None, s))\<rparr>"

lemma kubeadm_disk_fs: "remote_fs kubeadm_disk disk_files"
  by (simp add: kubeadm_disk_def disk.remote_fs_axioms)

lemma host_node_fs: "mc_fs (host_node h M) = host_remote h (mc_fs M)"
  by (simp add: host_node_def)

interpretation two_nodes: kubeadm_hosts "host_node (0::nat) kubeadm_node" "host_node (1::nat) kubeadm_node"
  "\<lambda>st. disk_files (st 0)" "\<lambda>st. disk_files (st 1)"
proof (intro kubeadm_hosts.intro kubeadm_hosts_axioms.intro)
  show "remote_fs (mc_fs (host_node (0::nat) kubeadm_node)) (\<lambda>st. disk_files (st 0))"
    "remote_fs (mc_fs (host_node (1::nat) kubeadm_node)) (\<lambda>st. disk_files (st 1))"
    by (simp_all add: host_node_fs host_remote_fs kubeadm_node_def kubeadm_disk_fs)
  have "kubeadmConfigPath \<noteq> upstreamKubeletConfPath" by code_simp
  then show "disk_files (snd (nm_run (host_node (1::nat) kubeadm_node) command s) 1) kubeadmConfigPath =
      disk_files (s 1) kubeadmConfigPath" for command and s :: "nat \<Rightarrow> disk"
    by (simp add: host_node_def host_op_own kubeadm_node_def kubeadm_run_def disk_files_def)
qed (simp_all add: host_node_def host_op_other)

definition empty_fleet :: "nat \<Rightarrow> disk" where "empty_fleet _ = Map.empty"

lemma kubeadm_output_parsed:
  "parseJoinCommand kubeadm_output = Inr (''abcdef.0123456789abcdef'', ''sha256:1234'')"
  by code_simp


lemma lost_handoff_blocks_joins_witness:
  "let L = host_node 0 (kubeadm_node\<lparr>nm_run := \<lambda>_ d. (Inr ''done'', d(upstreamKubeletConfPath \<mapsto> (''leader'', 384)))\<rparr>)
   in fst (bootstrapLeader L empty_fleet) = Some NoJoinToken \<and>
      fst (bootstrapJoin kubeadm_encoders (host_node 1 kubeadm_node) (Some L) kubeadm_worker (rke_run []) (snd (bootstrapLeader L empty_fleet)))
        = Some (LeaderUnreadable upstreamJoinTokenFile)"
proof -
  define L where "L = host_node (0::nat) (kubeadm_node\<lparr>nm_run := \<lambda>_ d. (Inr ''done'', d(upstreamKubeletConfPath \<mapsto> (''leader'', 384)))\<rparr>)"
  define s1 where "s1 = snd (nm_run L init_command empty_fleet)"
  have fs: "remote_fs (mc_fs L) (\<lambda>st. disk_files (st 0))"
    by (simp add: L_def host_node_fs host_remote_fs kubeadm_node_def kubeadm_disk_fs)
  have run: "nm_run L init_command empty_fleet = (Inr ''done'', s1)"
    by (simp add: s1_def L_def host_node_def host_op_def)
  have conf: "disk_files (s1 0) upstreamKubeletConfPath \<noteq> None" and token: "disk_files (s1 0) upstreamJoinTokenFile = None"
    and parse: "parseJoinCommand ''done'' = Inl NoJoinToken"
    unfolding s1_def L_def by code_simp+
  from lost_handoff_blocks_joins [where lf = "\<lambda>st. disk_files (st 0)", OF fs run conf token parse, of kubeadm_encoders "host_node 1 kubeadm_node" kubeadm_worker "rke_run []"]
  show ?thesis by (simp add: Let_def L_def [symmetric])
qed


end
