(* ===== verification/Node_Lifecycle.thy ===== *)
theory Node_Lifecycle
  imports Engine_Kubeadm Upload_Files Cluster_Removal Config_Sync Firewall_Phase Retry
begin

section \<open>Installing, initialising and upgrading nodes\<close>

text \<open>
  The phases that act on the engine of a node: \<open>pkg/phase/04_node_restart.go\<close> with the steps they
  share, \<open>51_package_pin.go\<close> and the installs that \<open>57\<close>, \<open>58\<close> and \<open>59\<close> stage, \<open>61\<close> and \<open>62\<close>
  (initialisation), \<open>64_apply_manifests.go\<close>, \<open>65\<close> to \<open>67\<close> (upgrades) and \<open>66_install_staged_files.go\<close>.
  What a driver contributes is a record of its calls; an optional interface is an option.
\<close>

subsection \<open>The surroundings of a phase\<close>

record 's cluster_driver =
  cd_controller :: string
  cd_worker :: string
  cd_kubectl :: "string \<Rightarrow> string"
  cd_stop :: "bool \<Rightarrow> 's host_fun"
  cd_bootstrapper :: "((Host \<Rightarrow> 's \<Rightarrow> bool) \<times> 's host_fun) option"
  cd_preStart :: "'s host_fun option"
  cd_manifests :: "string list option"

text \<open>\<open>ce_retry\<close> is \<open>RetryTimeout\<close> of the manager, \<open>ce_list\<close> what the leader prints for its nodes.\<close>

record 's cluster_env =
  ce_node :: "Host \<Rightarrow> 's node_machine"
  ce_retry :: "('s \<Rightarrow> string option \<times> 's) \<Rightarrow> 's \<Rightarrow> string option \<times> 's"
  ce_list :: "Host \<Rightarrow> 's \<Rightarrow> string option"

text \<open>\<open>RetryTimeout\<close> over \<open>pkg/retry\<close>. A context without an end, for which a call may never return, does
  not occur: the timeout is the manager's or the default one.\<close>

definition retry_message :: "string retry_error \<Rightarrow> string" where
  "retry_message e =
     (case e of Last m \<Rightarrow> m | Canceled None \<Rightarrow> ''context canceled'' | Canceled (Some m) \<Rightarrow> m | LimitExceeded n m \<Rightarrow> m)"

definition RetryTimeout ::
  "(int \<Rightarrow> ('s, string) retry_env \<Rightarrow> ('s, string) retry_env) \<Rightarrow> ('s, string) retry_env \<Rightarrow> int \<Rightarrow>
   ('s \<Rightarrow> string option \<times> 's) \<Rightarrow> 's \<Rightarrow> (string option \<times> 's) option"
where
  "RetryTimeout deadline env timeout f s =
     map_option (\<lambda>(e, s'). (map_option retry_message e, s'))
       (if timeout > 0 then Timeout deadline env timeout f s else WithDefaultTimeout deadline env f s)"

subsection \<open>Taking a node out and putting it back\<close>

text \<open>The fallback is the configurer's host name; the configurer is resolved when these phases run, so the
  empty name stands for the panic of a host without one.\<close>

definition node_name :: "(string \<rightharpoonup> string) \<Rightarrow> Host \<Rightarrow> string" where
  "node_name names h = (case nodeNameFor names h of Some name \<Rightarrow> name | None \<Rightarrow> [])"

text \<open>\<open>nodeNameCache\<close>: the names are resolved once, when the first host of a phase asks.\<close>

definition phase_names :: "'s cluster_env \<Rightarrow> Host \<Rightarrow> Hosts \<Rightarrow> 's \<Rightarrow> (string \<rightharpoonup> string)" where
  "phase_names env leader hosts s = resolveNodeNames (Some leader) (ce_list env leader s) hosts"

definition service_running :: "'s cluster_env \<Rightarrow> Host \<Rightarrow> string \<Rightarrow> 's \<Rightarrow> string option \<times> 's" where
  "service_running env h service s =
     (if mc_running (ce_node env h) s service then None else Some (''service '' @ service @ '' is not running''), s)"

text \<open>The start is fired and what becomes of it is only logged; it takes effect before the first poll.\<close>

definition startAndEnableService :: "'s cluster_env \<Rightarrow> string \<Rightarrow> 's host_fun" where
  "startAndEnableService env service h s =
     and_then (ce_retry env (service_running env h service)) (nm_enable (ce_node env h) service)
       (snd (nm_start (ce_node env h) service s))"

definition drain_args :: "string \<Rightarrow> string" where
  "drain_args name = ''drain --delete-emptydir-data --ignore-daemonsets --disable-eviction '' @ name"

definition ready_args :: "string \<Rightarrow> string" where
  "ready_args name = ''get node -o jsonpath='' @ [CHR 0x27] @
     ''{.status.conditions[?(@.type==\"Ready\")].status}'' @ [CHR 0x27] @ '' '' @ name"

definition uncordon_args :: "string \<Rightarrow> string" where
  "uncordon_args name = ''uncordon '' @ name"

definition drainClusterNode :: "'s cluster_env \<Rightarrow> 's cluster_driver \<Rightarrow> Host \<Rightarrow> string \<Rightarrow> 's \<Rightarrow> string option \<times> 's" where
  "drainClusterNode env d leader name = ce_retry env (mc_exec (ce_node env leader) (cd_kubectl d (drain_args name)))"

definition node_ready :: "'s cluster_env \<Rightarrow> 's cluster_driver \<Rightarrow> Host \<Rightarrow> string \<Rightarrow> 's \<Rightarrow> string option \<times> 's" where
  "node_ready env d leader name s =
     (case nm_run (ce_node env leader) (cd_kubectl d (ready_args name)) s of
        (Inl e, s1) \<Rightarrow> (Some e, s1)
      | (Inr out, s1) \<Rightarrow> (if to_lower out \<noteq> ''true'' then Some ''node not ready'' else None, s1))"

definition waitNodeReady :: "'s cluster_env \<Rightarrow> 's cluster_driver \<Rightarrow> Host \<Rightarrow> string \<Rightarrow> 's \<Rightarrow> string option \<times> 's" where
  "waitNodeReady env d leader name = ce_retry env (node_ready env d leader name)"

definition uncordonClusterNode :: "'s cluster_env \<Rightarrow> 's cluster_driver \<Rightarrow> Host \<Rightarrow> string \<Rightarrow> 's \<Rightarrow> string option \<times> 's" where
  "uncordonClusterNode env d leader name = mc_exec (ce_node env leader) (cd_kubectl d (uncordon_args name))"

subsection \<open>Pinned packages\<close>

definition debPackageName :: "('s, 'x) node_machine_scheme \<Rightarrow> string \<Rightarrow> 's \<Rightarrow> (string + string) \<times> 's" where
  "debPackageName M path = nm_run M (''dpkg-deb --show --showformat=\"${Package}\" '' @ path)"

definition rpmPackageName :: "('s, 'x) node_machine_scheme \<Rightarrow> string \<Rightarrow> 's \<Rightarrow> (string + string) \<times> 's" where
  "rpmPackageName M path = nm_run M (''rpm -qp '' @ path @ '' --queryformat \"%{NAME}\"'')"

fun packageNames :: "(string \<Rightarrow> 's \<Rightarrow> (string + string) \<times> 's) \<Rightarrow> string list \<Rightarrow> 's \<Rightarrow> (string + string list) \<times> 's" where
  "packageNames nameOf [] s = (Inr [], s)"
| "packageNames nameOf (target # targets) s =
     (case nameOf target s of
        (Inl e, s1) \<Rightarrow> (Inl (''reading package name from '' @ target @ '': '' @ e), s1)
      | (Inr name, s1) \<Rightarrow>
          (case packageNames nameOf targets s1 of
             (Inl e, s2) \<Rightarrow> (Inl e, s2)
           | (Inr names, s2) \<Rightarrow> (Inr (name # names), s2)))"

definition holdAPTPackages :: "('s, 'x) node_machine_scheme \<Rightarrow> string list \<Rightarrow> 's \<Rightarrow> string option \<times> 's" where
  "holdAPTPackages M names = mc_exec M (''apt-mark hold '' @ join '' '' names)"

definition unholdAPTPackages :: "('s, 'x) node_machine_scheme \<Rightarrow> string list \<Rightarrow> 's \<Rightarrow> string option \<times> 's" where
  "unholdAPTPackages M names = mc_exec M (''apt-mark unhold '' @ join '' '' names)"

text \<open>\<open>holdRPMPackagesUsing\<close> and \<open>unholdRPMPackagesUsing\<close>: a host without the plugin is passed over.\<close>

definition with_versionlock ::
  "('s \<Rightarrow> string option \<times> 's) \<Rightarrow> ('s \<Rightarrow> string option \<times> 's) \<Rightarrow> 's \<Rightarrow> string option \<times> 's"
where
  "with_versionlock present act s =
     (case present s of (Some _, s1) \<Rightarrow> (None, s1) | (None, s1) \<Rightarrow> act s1)"

definition holdRPMPackages :: "('s, 'x) node_machine_scheme \<Rightarrow> string list \<Rightarrow> 's \<Rightarrow> string option \<times> 's" where
  "holdRPMPackages M names =
     with_versionlock (mc_exec M versionlock_probe) (mc_exec M (''dnf versionlock add '' @ join '' '' names))"

definition unholdRPMPackages :: "('s, 'x) node_machine_scheme \<Rightarrow> string list \<Rightarrow> 's \<Rightarrow> string option \<times> 's" where
  "unholdRPMPackages M names =
     with_versionlock (mc_exec M versionlock_probe) (mc_exec M (''dnf versionlock delete '' @ join '' '' names))"

definition installAndPin ::
  "('s, 'x) node_machine_scheme \<Rightarrow> (string \<Rightarrow> 's \<Rightarrow> (string + string) \<times> 's) \<Rightarrow>
   (string list \<Rightarrow> 's \<Rightarrow> string option \<times> 's) \<Rightarrow> (string list \<Rightarrow> 's \<Rightarrow> string option \<times> 's) \<Rightarrow>
   string list \<Rightarrow> 's \<Rightarrow> string option \<times> 's"
where
  "installAndPin M nameOf hold unhold targets s =
     (case packageNames nameOf targets s of
        (Inl e, s1) \<Rightarrow> (Some e, s1)
      | (Inr names, s1) \<Rightarrow> and_then (unhold names) (and_then (nm_install M targets) (hold names)) s1)"

definition installAndPinPackagesFor ::
  "'s cluster_env \<Rightarrow> (arch_error \<Rightarrow> string) \<Rightarrow> (Host \<Rightarrow> arch_error + string) \<Rightarrow> (string \<times> File list) list \<Rightarrow>
   ('s node_machine \<Rightarrow> string \<Rightarrow> 's \<Rightarrow> (string + string) \<times> 's) \<Rightarrow>
   ('s node_machine \<Rightarrow> string list \<Rightarrow> 's \<Rightarrow> string option \<times> 's) \<Rightarrow>
   ('s node_machine \<Rightarrow> string list \<Rightarrow> 's \<Rightarrow> string option \<times> 's) \<Rightarrow> 's host_fun"
where
  "installAndPinPackagesFor env msg raw byArch nameOf hold unhold h s =
     (case engineFilesFor raw byArch h of
        Inl e \<Rightarrow> (Some (msg e), s)
      | Inr files \<Rightarrow>
          if files = [] then (None, s)
          else (let M = ce_node env h in installAndPin M (nameOf M) (hold M) (unhold M) (map fl_Target files) s))"

definition install_rpm ::
  "'s cluster_env \<Rightarrow> (arch_error \<Rightarrow> string) \<Rightarrow> (Host \<Rightarrow> arch_error + string) \<Rightarrow> (string \<times> File list) list \<Rightarrow> 's host_fun"
where
  "install_rpm env msg raw byArch =
     installAndPinPackagesFor env msg raw byArch rpmPackageName holdRPMPackages unholdRPMPackages"

definition install_apt ::
  "'s cluster_env \<Rightarrow> (arch_error \<Rightarrow> string) \<Rightarrow> (Host \<Rightarrow> arch_error + string) \<Rightarrow> (string \<times> File list) list \<Rightarrow> 's host_fun"
where
  "install_apt env msg raw byArch =
     installAndPinPackagesFor env msg raw byArch debPackageName holdAPTPackages unholdAPTPackages"

text \<open>The install of the binary phase: a file that cannot be moved is only logged.\<close>

fun move_binaries :: "('s, 'x) node_machine_scheme \<Rightarrow> File list \<Rightarrow> 's \<Rightarrow> 's" where
  "move_binaries M [] s = s"
| "move_binaries M (f # fs) s =
     move_binaries M fs
       (if fl_OriginalTarget f \<noteq> fl_Target f
        then snd (mc_exec M (''mv '' @ fl_Target f @ '' '' @ fl_OriginalTarget f) s) else s)"

definition install_bin ::
  "'s cluster_env \<Rightarrow> (arch_error \<Rightarrow> string) \<Rightarrow> (Host \<Rightarrow> arch_error + string) \<Rightarrow> (string \<times> File list) list \<Rightarrow> 's host_fun"
where
  "install_bin env msg raw byArch h s =
     (case engineFilesFor raw byArch h of
        Inl e \<Rightarrow> (Some (msg e), s)
      | Inr files \<Rightarrow> (None, move_binaries (ce_node env h) files s))"

subsection \<open>Staged installs\<close>

text \<open>\<open>Metadata.Install\<close> of every host, by the address it prints, beside the state of the fleet.\<close>

type_synonym 's staged = "'s \<times> (string \<rightharpoonup> 's host_fun)"

definition on_fleet :: "'s host_fun \<Rightarrow> 's staged host_fun" where
  "on_fleet f h st = (case st of (s, pending) \<Rightarrow> (case f h s of (e, s') \<Rightarrow> (e, (s', pending))))"

text \<open>What the three upload phases do first, for the controllers and then for the workers.\<close>

definition stage_install :: "'s host_fun \<Rightarrow> 's staged host_fun" where
  "stage_install install h st = (case st of (s, pending) \<Rightarrow> (None, (s, pending(Host_String h \<mapsto> install))))"

definition installPackages :: "'s staged host_fun" where
  "installPackages h st =
     (case st of (s, pending) \<Rightarrow>
        (case pending (Host_String h) of
           None \<Rightarrow> (None, (s, pending))
         | Some install \<Rightarrow> (case install h s of (e, s') \<Rightarrow> (e, (s', pending(Host_String h := None))))))"

definition pending_hosts :: "Hosts \<Rightarrow> 's staged \<Rightarrow> Hosts" where
  "pending_hosts hosts st = Hosts_Filter (\<lambda>h. snd st (Host_String h) \<noteq> None) hosts"

definition install_logged :: "'s staged host_fun" where
  "install_logged h st = (None, snd (installPackages h st))"

definition InstallStagedFiles_Run ::
  "('s staged \<Rightarrow> string option) \<Rightarrow> (Hosts \<Rightarrow> Hosts) \<Rightarrow> int \<Rightarrow> Hosts \<Rightarrow> 's staged \<Rightarrow> (each_error option \<times> 's staged) option"
where
  "InstallStagedFiles_Run ctx_err sched concurrency hosts st =
     parallelDo ctx_err sched concurrency (pending_hosts hosts st) [install_logged] st"

subsection \<open>Initialising\<close>

definition UnknownVersion :: string where "UnknownVersion = ''v0.0.0''"

definition mark_leader :: "Host \<Rightarrow> Host" where
  "mark_leader h = h\<lparr>h_Metadata := (h_Metadata h)\<lparr>hm_IsLeader := True\<rparr>\<rparr>"

text \<open>The first controller of the configuration is made the leader, whatever state it is in.\<close>

fun mark_first_controller :: "Hosts \<Rightarrow> Hosts" where
  "mark_first_controller [] = []"
| "mark_first_controller (h # hosts) =
     (if IsController h then mark_leader h # hosts else h # mark_first_controller hosts)"

definition controllersNeedingInit :: "'s cluster_env \<Rightarrow> 's cluster_driver \<Rightarrow> Hosts \<Rightarrow> 's \<Rightarrow> Hosts" where
  "controllersNeedingInit env d hosts s =
     Hosts_Filter (\<lambda>h. IsController h \<and>
       (case cd_bootstrapper d of
          Some (bootstrapped, _) \<Rightarrow> \<not> bootstrapped h s
        | None \<Rightarrow> \<not> mc_running (ce_node env h) s (cd_controller d) \<and> hm_DistroVersion (h_Metadata h) = UnknownVersion)) hosts"

definition workersNeedingInit :: "'s cluster_env \<Rightarrow> 's cluster_driver \<Rightarrow> Hosts \<Rightarrow> 's \<Rightarrow> Hosts" where
  "workersNeedingInit env d hosts s =
     Hosts_Filter (\<lambda>h. \<not> IsController h \<and>
       (case cd_bootstrapper d of
          Some (bootstrapped, _) \<Rightarrow> \<not> bootstrapped h s
        | None \<Rightarrow> \<not> mc_running (ce_node env h) s (cd_worker d))) hosts"

definition InitializeControllers_Prepare :: "'s cluster_env \<Rightarrow> 's cluster_driver \<Rightarrow> Hosts \<Rightarrow> 's \<Rightarrow> Hosts" where
  "InitializeControllers_Prepare env d hosts s = controllersNeedingInit env d (mark_first_controller hosts) s"

definition InitializeWorkers_Prepare :: "'s cluster_env \<Rightarrow> 's cluster_driver \<Rightarrow> Hosts \<Rightarrow> 's \<Rightarrow> Hosts" where
  "InitializeWorkers_Prepare env d hosts s = workersNeedingInit env d (mark_first_controller hosts) s"

definition bring_up :: "'s cluster_env \<Rightarrow> 's cluster_driver \<Rightarrow> string \<Rightarrow> 's host_fun" where
  "bring_up env d service =
     (case cd_bootstrapper d of Some (_, bootstrap) \<Rightarrow> bootstrap | None \<Rightarrow> startAndEnableService env service)"

definition InitializeControllers_Run ::
  "('s staged \<Rightarrow> string option) \<Rightarrow> (Hosts \<Rightarrow> Hosts) \<Rightarrow> int \<Rightarrow> 's cluster_env \<Rightarrow> 's cluster_driver \<Rightarrow> Hosts \<Rightarrow> 's staged \<Rightarrow>
   (each_error option \<times> 's staged) option"
where
  "InitializeControllers_Run ctx_err sched concurrency env d control st =
     (case parallelDo ctx_err sched concurrency control [installPackages] st of
        None \<Rightarrow> None
      | Some (Some e, st1) \<Rightarrow> Some (Some e, st1)
      | Some (None, st1) \<Rightarrow> batchedParallel ctx_err sched 1 [on_fleet (bring_up env d (cd_controller d))] control st1)"

definition InitializeWorkers_Run ::
  "('s staged \<Rightarrow> string option) \<Rightarrow> (Hosts \<Rightarrow> Hosts) \<Rightarrow> ((HostGroup \<times> int) list \<Rightarrow> (HostGroup \<times> int) list) \<Rightarrow>
   (string \<Rightarrow> string) \<Rightarrow> string \<Rightarrow> int \<Rightarrow> 's cluster_env \<Rightarrow> 's cluster_driver \<Rightarrow> Hosts \<Rightarrow> 's staged \<Rightarrow>
   (conc_error + (((string \<times> each_error) list + each_error) \<times> 's staged)) option"
where
  "InitializeWorkers_Run ctx_err sched gsched profiles fallback concurrency env d workers st =
     (case parallelDo ctx_err sched concurrency workers [installPackages] st of
        None \<Rightarrow> None
      | Some (Some e, st1) \<Rightarrow> Some (Inr (Inr e, st1))
      | Some (None, st1) \<Rightarrow>
          map_option (\<lambda>r. case r of Inl e \<Rightarrow> Inl e | Inr (errs, st2) \<Rightarrow> Inr (Inl errs, st2))
            (batchedParallelPerProfile ctx_err sched gsched profiles fallback
               [on_fleet (bring_up env d (cd_worker d))] workers st1))"

subsection \<open>Images\<close>

text \<open>Phase 63: a driver that imports images is asked to on every host, with the path of the package.\<close>

definition ImportImages_ShouldRun :: "'s host_fun option \<Rightarrow> string \<Rightarrow> Hosts \<Rightarrow> bool" where
  "ImportImages_ShouldRun importer path hosts \<longleftrightarrow> importer \<noteq> None \<and> path \<noteq> [] \<and> length hosts > 0"

definition ImportImages_Run ::
  "('s \<Rightarrow> string option) \<Rightarrow> (Hosts \<Rightarrow> Hosts) \<Rightarrow> int \<Rightarrow> 's host_fun \<Rightarrow> Hosts \<Rightarrow> 's \<Rightarrow> (each_error option \<times> 's) option"
where
  "ImportImages_Run ctx_err sched concurrency importer hosts = parallelDo ctx_err sched concurrency hosts [importer]"

subsection \<open>Manifests\<close>

definition apply_args :: "string \<Rightarrow> string" where "apply_args path = ''apply -f '' @ path"

fun apply_each :: "'s cluster_env \<Rightarrow> 's cluster_driver \<Rightarrow> Host \<Rightarrow> string list \<Rightarrow> 's \<Rightarrow> string option \<times> 's" where
  "apply_each env d leader [] s = (None, s)"
| "apply_each env d leader (path # paths) s =
     (case ce_retry env (mc_exec (ce_node env leader) (cd_kubectl d (apply_args path))) s of
        (Some e, s1) \<Rightarrow> (Some (''applying manifest '' @ path @ '': '' @ e), s1)
      | (None, s1) \<Rightarrow> apply_each env d leader paths s1)"

definition ApplyManifests_ShouldRun :: "'s cluster_driver \<Rightarrow> Hosts \<Rightarrow> bool" where
  "ApplyManifests_ShouldRun d hosts \<longleftrightarrow>
     Hosts_Filter IsController hosts \<noteq> [] \<and> (case cd_manifests d of None \<Rightarrow> [] | Some paths \<Rightarrow> paths) \<noteq> []"

definition ApplyManifests_Run :: "'s cluster_env \<Rightarrow> 's cluster_driver \<Rightarrow> Hosts \<Rightarrow> 's \<Rightarrow> string option \<times> 's" where
  "ApplyManifests_Run env d hosts =
     apply_each env d (hd (Hosts_Filter IsController hosts)) (case cd_manifests d of None \<Rightarrow> [] | Some paths \<Rightarrow> paths)"

subsection \<open>Upgrading\<close>

text \<open>\<open>older v w\<close> is \<open>VersionLess\<close>: the semver library's answer for two versions.\<close>

definition running_leader :: "'s cluster_env \<Rightarrow> 's cluster_driver \<Rightarrow> Hosts \<Rightarrow> 's \<Rightarrow> Host option" where
  "running_leader env d hosts s =
     (case Hosts_Filter (\<lambda>h. mc_running (ce_node env h) s (cd_controller d) \<and> IsController h) hosts of
        [] \<Rightarrow> None | h # _ \<Rightarrow> Some h)"

definition needs_upgrade :: "(string \<Rightarrow> string \<Rightarrow> bool) \<Rightarrow> string \<Rightarrow> Host \<Rightarrow> bool" where
  "needs_upgrade older version h \<longleftrightarrow>
     hm_DistroVersion (h_Metadata h) \<noteq> UnknownVersion \<and> older (hm_DistroVersion (h_Metadata h)) version"

definition UpgradeController_Prepare ::
  "'s cluster_env \<Rightarrow> 's cluster_driver \<Rightarrow> (string \<Rightarrow> string \<Rightarrow> bool) \<Rightarrow> string \<Rightarrow> Hosts \<Rightarrow> 's \<Rightarrow> (Host \<times> Hosts) option"
where
  "UpgradeController_Prepare env d older version hosts s =
     (case running_leader env d hosts s of
        None \<Rightarrow> None
      | Some leader \<Rightarrow>
          Some (mark_leader leader,
            Hosts_Filter (\<lambda>h. IsController h \<and> needs_upgrade older version h)
              (map (\<lambda>h. if h = leader then mark_leader h else h) hosts)))"

definition UpgradeWorkers_Prepare ::
  "'s cluster_env \<Rightarrow> 's cluster_driver \<Rightarrow> (string \<Rightarrow> string \<Rightarrow> bool) \<Rightarrow> string \<Rightarrow> Hosts \<Rightarrow> 's \<Rightarrow> (Host \<times> Hosts) option"
where
  "UpgradeWorkers_Prepare env d older version hosts s =
     (case running_leader env d hosts s of
        None \<Rightarrow> None
      | Some leader \<Rightarrow> Some (leader, Hosts_Filter (\<lambda>h. \<not> IsController h \<and> needs_upgrade older version h) hosts))"

text \<open>The steps of an upgrade, in order.\<close>

definition preStartUpgrade :: "'s cluster_driver \<Rightarrow> 's host_fun" where
  "preStartUpgrade d h s = (case cd_preStart d of None \<Rightarrow> (None, s) | Some f \<Rightarrow> f h s)"

definition upgrade_steps ::
  "'s cluster_env \<Rightarrow> 's cluster_driver \<Rightarrow> Host \<Rightarrow> bool \<Rightarrow> (string \<rightharpoonup> string) \<Rightarrow> 's staged host_fun list"
where
  "upgrade_steps env d leader controller names =
     [on_fleet (\<lambda>h. drainClusterNode env d leader (node_name names h)),
      on_fleet (cd_stop d controller),
      installPackages,
      on_fleet (preStartUpgrade d),
      on_fleet (startAndEnableService env (if controller then cd_controller d else cd_worker d)),
      on_fleet (\<lambda>h. waitNodeReady env d leader (node_name names h)),
      on_fleet (\<lambda>h. uncordonClusterNode env d leader (node_name names h))]"

definition UpgradeController_Run ::
  "('s staged \<Rightarrow> string option) \<Rightarrow> (Hosts \<Rightarrow> Hosts) \<Rightarrow> 's cluster_env \<Rightarrow> 's cluster_driver \<Rightarrow> Host \<Rightarrow> Hosts \<Rightarrow> 's staged \<Rightarrow>
   (each_error option \<times> 's staged) option"
where
  "UpgradeController_Run ctx_err sched env d leader hosts st =
     batchedParallel ctx_err sched 1 (upgrade_steps env d leader True (phase_names env leader hosts (fst st))) hosts st"

definition UpgradeWorkers_Run ::
  "('s staged \<Rightarrow> string option) \<Rightarrow> (Hosts \<Rightarrow> Hosts) \<Rightarrow> ((HostGroup \<times> int) list \<Rightarrow> (HostGroup \<times> int) list) \<Rightarrow>
   (string \<Rightarrow> string) \<Rightarrow> string \<Rightarrow> 's cluster_env \<Rightarrow> 's cluster_driver \<Rightarrow> Host \<Rightarrow> Hosts \<Rightarrow> 's staged \<Rightarrow>
   (conc_error + ((string \<times> each_error) list \<times> 's staged)) option"
where
  "UpgradeWorkers_Run ctx_err sched gsched profiles fallback env d leader hosts st =
     batchedParallelPerProfile ctx_err sched gsched profiles fallback
       (upgrade_steps env d leader False (phase_names env leader hosts (fst st))) hosts st"

subsection \<open>A rolling upgrade\<close>

text \<open>What an upgrade of controllers amounts to: on a host every step runs, whatever the ones before it
  reported; after a host on which one of them failed, no other is touched.\<close>

definition all_steps :: "'s host_fun list \<Rightarrow> Host \<Rightarrow> 's \<Rightarrow> 's" where
  "all_steps fs h s = foldl (\<lambda>s f. snd (f h s)) s fs"

fun some_fails :: "'s host_fun list \<Rightarrow> Host \<Rightarrow> 's \<Rightarrow> bool" where
  "some_fails [] h s \<longleftrightarrow> False"
| "some_fails (f # fs) h s \<longleftrightarrow> fst (f h s) \<noteq> None \<or> some_fails fs h (snd (f h s))"

fun rolling :: "'s host_fun list \<Rightarrow> Hosts \<Rightarrow> 's \<Rightarrow> bool \<times> 's" where
  "rolling fs [] s = (False, s)"
| "rolling fs (h # hosts) s =
     (if some_fails fs h s then (True, all_steps fs h s) else rolling fs hosts (all_steps fs h s))"

lemma goroutines_all_steps:
  "\<exists>errs. foldl (\<lambda>st f. run_goroutine (\<lambda>_. None) f st h) (es, s) fs = (es @ errs, all_steps fs h s) \<and>
     (errs = [] \<longleftrightarrow> \<not> some_fails fs h s)"
proof (induction fs arbitrary: es s)
  case (Cons f fs)
  obtain e s1 where f: "f h s = (e, s1)" by (cases "f h s")
  obtain es1 where go: "run_goroutine (\<lambda>_. None) f (es, s) h = (es @ es1, s1)" and es1: "es1 = [] \<longleftrightarrow> e = None"
    by (cases e) (auto simp: run_goroutine_def f)
  from Cons.IH [of "es @ es1" s1] obtain errs
    where "foldl (\<lambda>st f. run_goroutine (\<lambda>_. None) f st h) (es @ es1, s1) fs = ((es @ es1) @ errs, all_steps fs h s1)"
      and "errs = [] \<longleftrightarrow> \<not> some_fails fs h s1" by blast
  with go f es1 show ?case by (intro exI [of _ "es1 @ errs"]) (auto simp: all_steps_def)
qed (simp add: all_steps_def)

lemma one_by_one_rolling:
  "snd (one_by_one (\<lambda>_. None) fs hosts s) = snd (rolling fs hosts s) \<and>
   (fst (one_by_one (\<lambda>_. None) fs hosts s) = None \<longleftrightarrow> \<not> fst (rolling fs hosts s))"
proof (induction hosts arbitrary: s)
  case (Cons h hosts)
  from goroutines_all_steps [of h "[]" s fs] obtain errs
    where "one_host (\<lambda>_. None) fs h s = (errs, all_steps fs h s)" "errs = [] \<longleftrightarrow> \<not> some_fails fs h s"
    by (auto simp: one_host_def)
  with Cons show ?case by (cases errs) auto
qed simp

lemma one_at_a_time:
  assumes "\<And>h. sched [h] = [h]"
  shows "batchedParallel ctx_err sched 1 fs hosts s = Some (one_by_one ctx_err fs hosts s)"
proof -
  have "BatchedParallelEach ctx_err sched 1 fs hosts s = Some (run_chunks ctx_err sched fs (chunks 1 hosts) s)"
    using batched_loop_chunks [of 1 ctx_err sched fs hosts 0 s] by (simp add: BatchedParallelEach_def)
  then show ?thesis
    by (simp add: batchedParallel_def chunks_1 [unfolded One_nat_def] run_chunks_single [OF assms])
qed

lemma one_at_a_time_rolling:
  assumes "\<And>h. sched [h] = [h]"
  shows "\<exists>e. batchedParallel (\<lambda>_. None) sched 1 fs hosts s = Some (e, snd (rolling fs hosts s)) \<and>
    (e = None \<longleftrightarrow> \<not> fst (rolling fs hosts s))"
proof -
  obtain e s' where r: "one_by_one (\<lambda>_. None) fs hosts s = (e, s')" by (rule prod.exhaust)
  from one_by_one_rolling [of fs hosts s] have "s' = snd (rolling fs hosts s)" "e = None \<longleftrightarrow> \<not> fst (rolling fs hosts s)"
    by (simp_all only: r fst_conv snd_conv)
  moreover have "batchedParallel (\<lambda>_. None) sched 1 fs hosts s = Some (e, s')"
    by (simp only: one_at_a_time [of sched, OF assms] r)
  ultimately show ?thesis by blast
qed

text \<open>C8. Controllers are upgraded one at a time, in list order, and the first host with a failed step is the
  last that is touched. But on that host nothing is held back: a node that could not be drained is
  stopped, given new packages, upgraded, started and put back into scheduling all the same, and an
  engine whose packages could not be installed is restarted without them.\<close>

theorem controllers_upgraded_in_turn:
  assumes "\<And>h. sched [h] = [h]"
    and "steps = upgrade_steps env d leader True (phase_names env leader hosts (fst st))"
  shows "\<exists>e. UpgradeController_Run (\<lambda>_. None) sched env d leader hosts st = Some (e, snd (rolling steps hosts st)) \<and>
    (e = None \<longleftrightarrow> \<not> fst (rolling steps hosts st))"
  unfolding UpgradeController_Run_def assms(2) [symmetric] by (rule one_at_a_time_rolling [of sched, OF assms(1)])

subsection \<open>Who forms the cluster\<close>

lemma marked_controllers:
  "Hosts_Filter IsController (mark_first_controller hosts) =
     (case Hosts_Filter IsController hosts of [] \<Rightarrow> [] | c # cs \<Rightarrow> mark_leader c # cs)"
  by (induction hosts) (auto simp: mark_leader_def IsController_def split: list.splits)

text \<open>C22. If the first controller of the configuration is not bootstrapped, it is the first to be
  bootstrapped, and it forms a new cluster: whether the other controllers already have one is not
  asked. A first controller that was replaced by a new machine does not join its old cluster.\<close>

theorem first_controller_forms_a_cluster:
  assumes "cd_bootstrapper d = Some (\<lambda>h. IsBootstrapped (ce_node env h), boot)"
    and "Hosts_Filter IsController hosts = c # cs"
    and "\<not> IsBootstrapped (ce_node env (mark_leader c)) s"
  shows "InitializeControllers_Prepare env d hosts s =
      mark_leader c # filter (\<lambda>h. \<not> IsBootstrapped (ce_node env h) s) cs \<and>
    Upstream_Bootstrap E M leader (mark_leader c) run = and_then (ensureRuntime M) (bootstrapLeader M)"
proof -
  have "InitializeControllers_Prepare env d hosts s =
      filter (\<lambda>h. \<not> IsBootstrapped (ce_node env h) s) (Hosts_Filter IsController (mark_first_controller hosts))"
    by (simp add: InitializeControllers_Prepare_def controllersNeedingInit_def assms(1))
  also have "Hosts_Filter IsController (mark_first_controller hosts) = mark_leader c # cs"
    by (simp only: marked_controllers assms(2) list.case)
  finally have "InitializeControllers_Prepare env d hosts s = mark_leader c # filter (\<lambda>h. \<not> IsBootstrapped (ce_node env h) s) cs"
    by (simp only: filter.simps assms(3) if_True not_False_eq_True)
  then show ?thesis by (simp add: Upstream_Bootstrap_def mark_leader_def)
qed

subsection \<open>Pins on Debian\<close>


subsection \<open>Nothing stays staged\<close>

lemma install_logged_clears:
  "fst (install_logged h st) = None \<and> snd (snd (install_logged h st)) = (snd st)(Host_String h := None)"
  by (auto simp: install_logged_def installPackages_def fun_upd_idem_iff split: prod.split option.split)

lemma logged_goroutines:
  "\<exists>s'. foldl (run_goroutine (\<lambda>_. None) install_logged) (es, st) hs = (es, s') \<and>
     snd s' = snd st |` (- Host_String ` set hs)"
proof (induction hs arbitrary: st)
  case (Cons h hs)
  have "run_goroutine (\<lambda>_. None) install_logged (es, st) h = (es, snd (install_logged h st))"
    using install_logged_clears [of h st] by (cases "install_logged h st") (simp add: run_goroutine_def)
  moreover from Cons.IH [of "snd (install_logged h st)"] obtain s'
    where "foldl (run_goroutine (\<lambda>_. None) install_logged) (es, snd (install_logged h st)) hs = (es, s')"
      and "snd s' = (snd st)(Host_String h := None) |` (- Host_String ` set hs)"
    by (auto simp only: install_logged_clears)
  ultimately show ?case by (intro exI [of _ s']) (auto simp: restrict_map_def fun_eq_iff)
qed (simp add: restrict_map_def)

lemma staged_chunks:
  assumes "\<And>hs. set (sched hs) = set hs"
  shows "\<exists>s'. run_chunks (\<lambda>_. None) sched [install_logged] cs st = (None, s') \<and>
    snd s' = snd st |` (- Host_String ` set (concat cs))"
proof (induction cs arbitrary: st)
  case (Cons c cs)
  from logged_goroutines [of "[]" st "sched c"] obtain s1
    where r1: "ParallelEach (\<lambda>_. None) sched [install_logged] c st = (None, s1)" and s1: "snd s1 = snd st |` (- Host_String ` set c)"
    by (auto simp: ParallelEach_def assms)
  from Cons.IH [of s1] obtain s' where "run_chunks (\<lambda>_. None) sched [install_logged] cs s1 = (None, s')"
    and "snd s' = snd s1 |` (- Host_String ` set (concat cs))" by blast
  with r1 s1 show ?case by (intro exI [of _ s']) (simp add: restrict_restrict image_Un Un_commute)
qed (simp add: restrict_map_def)

text \<open>After the last install phase no host carries a staged install, in whatever order and in whatever
  batches the hosts are taken; installs staged for other hosts are kept. The phase reports success
  also when an install failed, and a failed one is not tried again.\<close>

theorem InstallStagedFiles_leaves_none:
  assumes "\<And>hs. set (sched hs) = set hs" and "0 \<le> concurrency"
  shows "\<exists>s'. InstallStagedFiles_Run (\<lambda>_. None) sched concurrency hosts st = Some (None, s') \<and>
    pending_hosts hosts s' = [] \<and> snd s' = snd st |` (- Host_String ` set hosts)"
proof -
  let ?p = "pending_hosts hosts st"
  have "\<exists>s'. parallelDo (\<lambda>_. None) sched concurrency ?p [install_logged] st = Some (None, s') \<and>
      snd s' = snd st |` (- Host_String ` set ?p)"
  proof (cases "concurrency = 0")
    case True
    then show ?thesis
      using logged_goroutines [of "[]" st "sched ?p"] by (auto simp: parallelDo_def ParallelEach_def assms)
  next
    case False
    with assms(2) obtain b where b: "concurrency = int b" "0 < b" by (metis nonneg_int_cases of_nat_0 neq0_conv)
    then show ?thesis
      using staged_chunks [of sched "chunks b ?p" st, OF assms(1)] batched_loop_chunks [of b "\<lambda>_. None" sched "[install_logged]" ?p 0 st]
      by (simp add: parallelDo_def BatchedParallelEach_def concat_chunks)
  qed
  moreover have "snd st |` (- Host_String ` set ?p) = snd st |` (- Host_String ` set hosts)"
    by (auto simp: pending_hosts_def Hosts_Filter_def restrict_map_def fun_eq_iff image_iff)
  ultimately show ?thesis
    by (auto simp: InstallStagedFiles_Run_def pending_hosts_def Hosts_Filter_def filter_empty_conv)
qed

subsection \<open>Concrete runs\<close>

text \<open>A node whose disk remembers the commands it was given; the node is never drained.\<close>

definition stubborn_exec :: "string \<Rightarrow> disk \<Rightarrow> string option \<times> disk" where
  "stubborn_exec command d =
     (if has_prefix command ''kubectl drain'' then Some ''cannot evict'' else None, d(command \<mapsto> ([], 0)))"

definition stubborn_node :: "disk node_machine" where
  "stubborn_node =
     kubeadm_node\<lparr>mc_exec := stubborn_exec, mc_running := \<lambda>d service. d (''start '' @ service) \<noteq> None,
       nm_start := \<lambda>service. stubborn_exec (''start '' @ service),
       nm_run := \<lambda>command d. (Inr (if has_prefix command ''kubectl get'' then ''True'' else []), d)\<rparr>"

definition stubborn_env :: "disk cluster_env" where
  "stubborn_env = \<lparr>ce_node = (\<lambda>_. stubborn_node), ce_retry = (\<lambda>f. f), ce_list = (\<lambda>_ _. None)\<rparr>"

definition stubborn_driver :: "disk cluster_driver" where
  "stubborn_driver =
     \<lparr>cd_controller = ''kubelet'', cd_worker = ''kubelet'', cd_kubectl = (\<lambda>args. ''kubectl '' @ args),
      cd_stop = (\<lambda>_ _. stubborn_exec ''stop kubelet''), cd_bootstrapper = Some (\<lambda>h. IsBootstrapped stubborn_node, \<lambda>h s. (None, s)),
      cd_preStart = None, cd_manifests = None\<rparr>"

definition first_node :: Host where "first_node = (sample_host ''10.0.0.1'' RoleController [])\<lparr>h_Configurer := Some ''c1''\<rparr>"
definition second_node :: Host where "second_node = (sample_host ''10.0.0.3'' RoleController [])\<lparr>h_Configurer := Some ''c2''\<rparr>"

text \<open>Two controllers: the first cannot be drained, is upgraded all the same, and the second waits.\<close>

lemma controllers_upgraded_in_turn_witness:
  "case UpgradeController_Run (\<lambda>_. None) (\<lambda>hs. hs) stubborn_env stubborn_driver first_node [first_node, second_node] (Map.empty, Map.empty) of
     None \<Rightarrow> False
   | Some (e, st) \<Rightarrow>
       e \<noteq> None \<and> fst st ''stop kubelet'' \<noteq> None \<and> fst st ''start kubelet'' \<noteq> None \<and>
       fst st (''kubectl '' @ uncordon_args ''c1'') \<noteq> None \<and> fst st (''kubectl '' @ drain_args ''c2'') = None"
proof -
  define st0 :: "disk staged" where "st0 = (Map.empty, Map.empty)"
  define hosts where "hosts = [first_node, second_node]"
  define steps where "steps = upgrade_steps stubborn_env stubborn_driver first_node True (phase_names stubborn_env first_node hosts (fst st0))"
  define r where "r = rolling steps hosts st0"
  from controllers_upgraded_in_turn [of "\<lambda>hs. hs", OF refl steps_def, folded r_def] obtain e
    where run: "UpgradeController_Run (\<lambda>_. None) (\<lambda>hs. hs) stubborn_env stubborn_driver first_node hosts st0 = Some (e, snd r)"
      and e: "e = None \<longleftrightarrow> \<not> fst r" by blast
  have "fst r" "fst (snd r) ''stop kubelet'' \<noteq> None" "fst (snd r) ''start kubelet'' \<noteq> None"
    "fst (snd r) (''kubectl '' @ uncordon_args ''c1'') \<noteq> None" "fst (snd r) (''kubectl '' @ drain_args ''c2'') = None"
    unfolding r_def steps_def hosts_def st0_def by code_simp+
  then show ?thesis unfolding run [unfolded hosts_def st0_def] by (simp only: e option.case prod.case not_not) simp
qed

lemma first_controller_forms_a_cluster_witness:
  "InitializeControllers_Prepare stubborn_env stubborn_driver [kubeadm_worker, first_node, second_node] Map.empty =
     [mark_leader first_node, second_node]"
proof -
  have boot: "cd_bootstrapper stubborn_driver = Some (\<lambda>h. IsBootstrapped (ce_node stubborn_env h), \<lambda>h s. (None, s))"
    by (simp add: stubborn_driver_def stubborn_env_def)
  have hosts: "Hosts_Filter IsController [kubeadm_worker, first_node, second_node] = [first_node, second_node]" by code_simp
  have not: "\<not> IsBootstrapped (ce_node stubborn_env h) Map.empty" for h by (simp add: stubborn_env_def) code_simp
  show ?thesis
    using first_controller_forms_a_cluster [OF boot hosts not, of undefined kubeadm_node None "rke_run []", THEN conjunct1] not
    by (simp only: filter.simps not_False_eq_True if_True)
qed


lemma InstallStagedFiles_leaves_none_witness:
  "map_option (pending_hosts [first_node, second_node] \<circ> snd)
     (InstallStagedFiles_Run (\<lambda>_. None) rev 1 [first_node, second_node]
       (Map.empty :: disk, [Host_String second_node \<mapsto> \<lambda>h s. (Some ''no space left'', s)])) = Some []"
proof -
  have "set (rev hs) = set hs" for hs :: Hosts by simp
  from InstallStagedFiles_leaves_none [of rev, OF this, of 1 "[first_node, second_node]"
      "(Map.empty :: disk, [Host_String second_node \<mapsto> \<lambda>h s. (Some ''no space left'', s)])"]
  show ?thesis by fastforce
qed

end
