(* ===== verification/Spec2Isabelle.thy ===== *)
theory Spec2Isabelle
  imports Host_Lock Cluster_Removal Upload_Files Config_Sync Vault_Document Firewall_Phase
    Run_Receipt Engine_Nodes Node_Lifecycle
begin

text \<open>
  \<^bold>\<open>Cargoship.\<close> Cargoship installs, upgrades and removes Kubernetes engines on a set of hosts. A
  cluster configuration (\<open>api/colonel-byte.dev/v1alpha1/cluster\<close>) names the hosts, their profiles and
  their settings; a command builds a list of phases (\<open>pkg/phase\<close>) and the manager runs them one after
  another over the hosts, through SSH. Before a run the configuration is read, its encrypted
  credentials opened (\<open>internal/clustercfg\<close>) and its profiles merged; during a run a phase uploads
  files, keeps a manifest of what it uploaded, synchronises engine settings, and deletes nodes; a lock
  on every host keeps two runs apart. The development models that core, in Go's own decomposition:
  a struct is a record, a Go function that returns an error is a function into a sum or an option,
  and a loop is a recursion. What a phase reads and writes on a host (files, commands) is a record of
  operations on an abstract remote state, and a theorem states which laws of it it relies on.

  \<^bold>\<open>Theories and code.\<close>
  \<^item> \<open>Cargo_Prelude\<close>: strings, numbers and results shared by all theories (\<open>bind_res\<close>, splitting and
    trimming as Go's \<open>strings\<close>, integers in text as \<open>strconv\<close>). ASCII only where Go is Unicode aware.
  \<^item> \<open>Go_Net\<close>, \<open>Go_Path\<close>: the functions of \<open>net\<close> and \<open>path/filepath\<close> the code calls.
  \<^item> \<open>Cluster_Firewall\<close>: \<open>cluster/firewall.go\<close>; validation, keys and the overlay of rules.
  \<^item> \<open>Cluster_Host\<close>: \<open>cluster/host.go\<close>, \<open>hosts.go\<close>, the concurrency part of \<open>spec.go\<close>,
    \<open>pkg/phase/00_generic_phase.go\<close>; host settings, the queries on host lists and the batched runs.
  \<^item> \<open>Value_Paths\<close>: \<open>pkg/helmvalues/values.go\<close>; paths into value trees, writes, mappings, templates.
  \<^item> \<open>Phase_Manager\<close>: \<open>05_manager.go\<close> and \<open>00_host_changes.go\<close>; the run loop, dry runs, the result.
  \<^item> \<open>Retry\<close>: \<open>pkg/retry/retry.go\<close>.
  \<^item> \<open>Host_Lock\<close>: \<open>91_lock.go\<close>, \<open>92_unlock.go\<close> on top of it.
  \<^item> \<open>Cluster_Removal\<close>: \<open>04_node_names.go\<close>, \<open>11_validate_hosts.go\<close>, \<open>13_detect_removed_hosts.go\<close>,
    \<open>85_delete_common.go\<close> to \<open>89_reconfigure_survivors.go\<close>.
  \<^item> \<open>Remote_Files\<close>, \<open>Upload_Manifest\<close>: the file operations of a host and \<open>03_manifest.go\<close>.
  \<^item> \<open>Config_Sync\<close>: \<open>70_engine_config_diff.go\<close> to \<open>72_engine_config_sync_worker.go\<close> and the managed
    files of \<open>types/distrocfg\<close>.
  \<^item> \<open>File_Selection\<close>, \<open>Upload_Files\<close>: \<open>v1alpha1/file.go\<close>, \<open>01_generic_phase_file.go\<close>,
    \<open>50_uploadfiles.go\<close>, \<open>55_files_common.go\<close>, \<open>57_rpm_install.go\<close>, \<open>59_bin_install.go\<close>.
  \<^item> \<open>Yaml_Splice\<close>, \<open>Yaml_Anchors\<close>: the text and tree layers of \<open>internal/clustercfg/vaultpath.go\<close> and
    \<open>vaultanchor.go\<close>, which rewrite one credential of a configuration and leave every other byte.

  \<^bold>\<open>State and interfaces.\<close> The state of a run is the manager's record with the hosts and what the
  phases reported; the state of a host is abstract for the phases that only read and write files
  (\<open>'s remote\<close>), one lock file per host in \<open>Host_Lock\<close>, a tree of values in \<open>Value_Paths\<close> and a byte
  string in \<open>Yaml_Splice\<close>. Interfaces between components that promise laws are locales (the file
  operations of a host, the manifest as a set of paths, the lookup in value trees), each interpreted on
  the model's own definitions.

  \<^bold>\<open>What the lemmas show.\<close> For every component: the effect of each operation on every branch, errors
  included; the invariant it keeps (the manifest's order, the mutual exclusion of the lock, the
  accounting of phases); the abstract object it implements (maps for manifests and rules, sets of
  pending hosts for batches, a sequential protocol for the lock, a list of lines for a YAML text); what
  it leaves alone (frame theorems for value paths, the sweep of uploads and the splice); and that it
  ends. Several of the theorems state behaviour that departs from a comment or an intention; the
  text before such a theorem says so.

  \<^bold>\<open>Bounds and loops.\<close> The only loops without a structural measure are the retry loop
  (\<open>Retry.context_loop\<close>) and the batch loop (\<open>Cluster_Host.batched_loop\<close>), which are
  \<open>partial_function (option)\<close>: \<open>None\<close> is not returning, and the theorems state when they return. The
  interleaving of lock instances is a step relation. Go's \<open>int\<close> is unbounded here, except in the
  unsigned subtraction of minor versions, which is a 64-bit word.

  \<^bold>\<open>Not modelled.\<close> Commands, flags, logs, receipts and the Ansible adapters; building, signing and
  loading packages and images; generated option tables and schemas; the engine drivers and operating
  systems (remote commands); connecting and gathering facts; the YAML, age and Ansible Vault libraries,
  which are parameters. Time is a counter, and a goroutine per host is a permutation of the hosts.
\<close>

end
